(* ===== verification/EzPrelude.thy ===== *)
theory EzPrelude
  imports Main "HOL-Library.Sublist"
begin

text \<open>
  Shared vocabulary of the ezNet development.

  \<^item> The result type of operations that can fail: an exception the C++ code throws, an
    access the C++ standard leaves undefined (a read of freed memory, an index out of
    range), or a loop that used up its fuel.
  \<^item> The parts of the C++ library the sources use on \<^verbatim>\<open>std::string\<close> (a list of bytes, the
    HOL type \<open>string\<close>): \<^verbatim>\<open>find\<close>, \<^verbatim>\<open>rfind\<close>, \<^verbatim>\<open>substr\<close>, the \<^verbatim>\<open>cctype\<close> predicates in the C locale,
    \<^verbatim>\<open>std::stoi\<close>, \<^verbatim>\<open>std::stoll\<close>, \<^verbatim>\<open>std::to_string\<close>, and the vector operations \<^verbatim>\<open>resize\<close> and
    \<^verbatim>\<open>memcpy\<close>.
  \<^item> Machine integers as \<open>int\<close> with the reduction to their width written out.
  Sizes and indices (\<^verbatim>\<open>size_t\<close>) are \<open>nat\<close>: every one of them is bounded by an allocated
  object, so only the places where the code subtracts below zero need the 64-bit width, and
  there it is written out.
\<close>

named_theorems result_simps "how results are sequenced"
named_theorems string_simps "facts about searching and cutting strings"

section \<open>Results\<close>

datatype fault = Thrown string | Undefined string | OutOfFuel

datatype errno = EAGAIN | EINTR | EFAIL

type_synonym 'a res = "fault + 'a"

definition rbind :: "'a res \<Rightarrow> ('a \<Rightarrow> 'b res) \<Rightarrow> 'b res" where
  "rbind m f = (case m of Inl e \<Rightarrow> Inl e | Inr x \<Rightarrow> f x)"

lemma rbind_simps [simp, result_simps]:
  "rbind (Inl e) f = Inl e"
  "rbind (Inr x) f = f x"
  by (simp_all add: rbind_def)

lemma rbind_Inr_iff [result_simps]:
  "rbind m f = Inr y \<longleftrightarrow> (\<exists>x. m = Inr x \<and> f x = Inr y)"
  by (cases m) auto

lemma rbind_Inl_iff [result_simps]:
  "rbind m f = Inl e \<longleftrightarrow> m = Inl e \<or> (\<exists>x. m = Inr x \<and> f x = Inl e)"
  by (cases m) auto

lemma rbind_InrE [elim]:
  assumes "rbind m f = Inr y"
  obtains x where "m = Inr x" and "f x = Inr y"
  using assms by (auto simp: rbind_Inr_iff)

lemma rbind_assoc: "rbind (rbind m f) g = rbind m (\<lambda>x. rbind (f x) g)"
  by (cases m) simp_all

lemma rbind_Inr_right [simp]: "rbind m Inr = m"
  by (cases m) simp_all

lemma rbind_cong [fundef_cong]:
  "m = m' \<Longrightarrow> (\<And>x. m' = Inr x \<Longrightarrow> f x = f' x) \<Longrightarrow> rbind m f = rbind m' f'"
  by (cases m') simp_all

section \<open>Characters\<close>

abbreviation NUL :: char where "NUL \<equiv> CHR 0x00"
abbreviation TAB :: char where "TAB \<equiv> CHR 0x09"
abbreviation LF :: char where "LF \<equiv> CHR 0x0A"
abbreviation CR :: char where "CR \<equiv> CHR 0x0D"
abbreviation DQUOTE :: char where "DQUOTE \<equiv> CHR 0x22"
abbreviation BSLASH :: char where "BSLASH \<equiv> CHR 0x5C"
abbreviation crlf :: string where "crlf \<equiv> [CR, LF]"

definition code :: "char \<Rightarrow> nat" where
  "code c = of_char c"

definition isdigit :: "char \<Rightarrow> bool" where
  "isdigit c \<longleftrightarrow> 48 \<le> code c \<and> code c \<le> 57"

definition isxdigit :: "char \<Rightarrow> bool" where
  "isxdigit c \<longleftrightarrow> isdigit c \<or> (65 \<le> code c \<and> code c \<le> 70) \<or> (97 \<le> code c \<and> code c \<le> 102)"

definition isspace :: "char \<Rightarrow> bool" where
  "isspace c \<longleftrightarrow> code c = 32 \<or> (9 \<le> code c \<and> code c \<le> 13)"

definition tolower :: "char \<Rightarrow> char" where
  "tolower c = (if 65 \<le> code c \<and> code c \<le> 90 then char_of (code c + 32) else c)"

lemma code_less_256 [simp]: "code c < 256"
  by (simp add: code_def)

lemma code_char_of [simp]: "n < 256 \<Longrightarrow> code (char_of n) = n"
  by (simp add: code_def)

lemma char_of_code [simp]: "char_of (code c) = c"
  by (simp add: code_def)

lemma code_inject [simp]: "code c = code d \<longleftrightarrow> c = d"
  by (metis char_of_code)

lemma code_tolower:
  "code (tolower c) = (if 65 \<le> code c \<and> code c \<le> 90 then code c + 32 else code c)"
  by (simp add: tolower_def)

lemma tolower_idem [simp]: "tolower (tolower c) = tolower c"
  by (simp add: code_inject [symmetric] code_tolower del: code_inject)

lemma not_isspace_digit: "isdigit c \<Longrightarrow> \<not> isspace c"
  by (simp add: isdigit_def isspace_def)

section \<open>Searching and cutting strings\<close>

fun index_of :: "('a \<Rightarrow> bool) \<Rightarrow> 'a list \<Rightarrow> nat option" where
  "index_of P [] = None"
| "index_of P (x # xs) = (if P x then Some 0 else map_option Suc (index_of P xs))"

lemma index_of_None [string_simps]: "index_of P xs = None \<longleftrightarrow> (\<forall>x\<in>set xs. \<not> P x)"
  by (induction xs) auto

lemma index_of_Some [string_simps]:
  "index_of P xs = Some i \<longleftrightarrow> i < length xs \<and> P (xs ! i) \<and> (\<forall>j<i. \<not> P (xs ! j))"
proof (induction xs arbitrary: i)
  case (Cons x xs)
  show ?case
    by (cases i) (auto simp: Cons.IH less_Suc_eq_0_disj)
qed simp

lemma index_of_SomeD:
  assumes "index_of P xs = Some i"
  shows "i < length xs" and "P (xs ! i)" and "\<forall>x\<in>set (take i xs). \<not> P x"
  using assms by (auto simp: index_of_Some in_set_conv_nth)

lemma index_of_append [string_simps]:
  "(\<forall>x\<in>set xs. \<not> P x) \<Longrightarrow> index_of P (xs @ ys) = map_option ((+) (length xs)) (index_of P ys)"
  by (cases "index_of P ys"; induction xs) auto

lemma index_of_append_Cons [string_simps]:
  "(\<forall>x\<in>set xs. \<not> P x) \<Longrightarrow> P y \<Longrightarrow> index_of P (xs @ y # ys) = Some (length xs)"
  by (simp add: index_of_append)

lemma index_of_split:
  assumes "index_of P xs = Some i"
  shows "xs = take i xs @ xs ! i # drop (Suc i) xs"
  using index_of_SomeD(1) [OF assms] by (simp add: id_take_nth_drop)

text \<open>\<^verbatim>\<open>s.find(c, pos)\<close> and \<^verbatim>\<open>s.rfind(c)\<close>; \<open>None\<close> is \<^verbatim>\<open>std::string::npos\<close>.\<close>

definition find_char :: "char \<Rightarrow> string \<Rightarrow> nat \<Rightarrow> nat option" where
  "find_char c s pos = map_option ((+) pos) (index_of (\<lambda>d. d = c) (drop pos s))"

definition rfind_char :: "char \<Rightarrow> string \<Rightarrow> nat option" where
  "rfind_char c s = map_option (\<lambda>i. length s - Suc i) (index_of (\<lambda>d. d = c) (rev s))"

lemma find_char_None: "find_char c s pos = None \<longleftrightarrow> c \<notin> set (drop pos s)"
  by (auto simp: find_char_def index_of_None)

lemma find_char_SomeD:
  assumes "find_char c s pos = Some i"
  shows "pos \<le> i" and "i < length s" and "s ! i = c" and "c \<notin> set (take (i - pos) (drop pos s))"
proof -
  obtain k where k: "index_of (\<lambda>d. d = c) (drop pos s) = Some k" and i: "i = pos + k"
    using assms by (auto simp: find_char_def)
  note * = index_of_SomeD [OF k]
  show "pos \<le> i" and "i < length s" and "s ! i = c" and "c \<notin> set (take (i - pos) (drop pos s))"
    using * i by auto
qed

lemma find_char_0_append:
  "c \<notin> set xs \<Longrightarrow> find_char c (xs @ c # ys) 0 = Some (length xs)"
  by (auto simp: find_char_def intro!: index_of_append_Cons)

lemma rfind_char_None: "rfind_char c s = None \<longleftrightarrow> c \<notin> set s"
  by (simp add: rfind_char_def index_of_None) blast

lemma rfind_char_append:
  assumes "c \<notin> set ys"
  shows "rfind_char c (xs @ c # ys) = Some (length xs)"
proof -
  have "index_of (\<lambda>d. d = c) (rev ys @ c # rev xs) = Some (length ys)"
    using assms by (subst index_of_append) auto
  then show ?thesis
    by (simp add: rfind_char_def)
qed

lemma rfind_char_SomeD:
  assumes "rfind_char c s = Some i"
  shows "i < length s" and "s ! i = c" and "c \<notin> set (drop (Suc i) s)"
proof -
  obtain k where k: "index_of (\<lambda>d. d = c) (rev s) = Some k" and i: "i = length s - Suc k"
    using assms by (auto simp: rfind_char_def)
  from k have *: "k < length s" "rev s ! k = c" "c \<notin> set (take k (rev s))"
    using index_of_SomeD [OF k] by auto
  show "i < length s"
    using * i by simp
  show "s ! i = c"
    using * i by (simp add: rev_nth)
  have "Suc (length s - Suc k) = length s - k"
    using *(1) by simp
  then have "set (drop (Suc i) s) = set (take k (rev s))"
    by (simp add: i take_rev)
  then show "c \<notin> set (drop (Suc i) s)"
    using * by simp
qed

text \<open>\<^verbatim>\<open>s.find(pat, pos)\<close> for a string pattern.\<close>

fun index_sub :: "string \<Rightarrow> string \<Rightarrow> nat option" where
  "index_sub pat [] = (if pat = [] then Some 0 else None)"
| "index_sub pat (x # xs) =
     (if prefix pat (x # xs) then Some 0 else map_option Suc (index_sub pat xs))"

definition find_str :: "string \<Rightarrow> string \<Rightarrow> nat \<Rightarrow> nat option" where
  "find_str pat s pos =
     (if pos \<le> length s then map_option ((+) pos) (index_sub pat (drop pos s)) else None)"

lemma index_sub_SomeD:
  "index_sub pat s = Some i \<Longrightarrow> i + length pat \<le> length s \<and> prefix pat (drop i s)"
proof (induction pat s arbitrary: i rule: index_sub.induct)
  case (2 pat x xs)
  show ?case
  proof (cases "prefix pat (x # xs)")
    case True
    with 2 show ?thesis
      using prefix_length_le [OF True] by auto
  next
    case False
    with 2 show ?thesis by auto
  qed
qed (auto split: if_splits)

lemma index_sub_leastD:
  "index_sub pat s = Some i \<Longrightarrow> j < i \<Longrightarrow> \<not> prefix pat (drop j s)"
proof (induction pat s arbitrary: i j rule: index_sub.induct)
  case (2 pat x xs)
  then show ?case
    by (cases j) (auto split: if_splits)
qed (auto split: if_splits)

lemma index_sub_None:
  "index_sub pat s = None \<longleftrightarrow> \<not> sublist pat s"
  by (induction pat s rule: index_sub.induct) (auto simp: sublist_Cons_right)

lemma find_str_SomeD:
  assumes "find_str pat s pos = Some i"
  shows "pos \<le> i" and "i + length pat \<le> length s" and "prefix pat (drop i s)"
  using assms by (auto simp: find_str_def add.commute split: if_splits dest: index_sub_SomeD)

definition substr :: "nat \<Rightarrow> nat \<Rightarrow> string \<Rightarrow> string" where
  "substr pos n s = take n (drop pos s)"

definition substr_from :: "nat \<Rightarrow> string \<Rightarrow> string" where
  "substr_from pos s = drop pos s"

section \<open>Vectors of bytes\<close>

text \<open>\<^verbatim>\<open>v.resize(n)\<close> and \<^verbatim>\<open>memcpy(v.data() + i, ys, len)\<close> (in range).\<close>

definition resize :: "nat \<Rightarrow> string \<Rightarrow> string" where
  "resize n xs = take n xs @ replicate (n - length xs) NUL"

definition blit :: "nat \<Rightarrow> string \<Rightarrow> string \<Rightarrow> string" where
  "blit i ys xs = take i xs @ ys @ drop (i + length ys) xs"

lemma length_resize [simp]: "length (resize n xs) = n"
  by (simp add: resize_def)

lemma take_resize: "k \<le> n \<Longrightarrow> k \<le> length xs \<Longrightarrow> take k (resize n xs) = take k xs"
  by (simp add: resize_def min_def)

lemma length_blit [simp]: "i + length ys \<le> length xs \<Longrightarrow> length (blit i ys xs) = length xs"
  by (simp add: blit_def)

lemma take_blit: "k \<le> i \<Longrightarrow> i \<le> length xs \<Longrightarrow> take k (blit i ys xs) = take k xs"
  by (simp add: blit_def min_def)

lemma take_blit_end:
  "i \<le> length xs \<Longrightarrow> take (i + length ys) (blit i ys xs) = take i xs @ ys"
  by (simp add: blit_def)

lemma slice_blit:
  assumes "r \<le> w" and "w + length d \<le> length xs"
  shows "take (w + length d - r) (drop r (blit w d xs)) = take (w - r) (drop r xs) @ d"
proof -
  have "take (w + length d - r) (drop r (blit w d xs)) = drop r (take (w + length d) (blit w d xs))"
    using assms(1) by (simp add: drop_take)
  also have "\<dots> = drop r (take w xs @ d)"
    using assms(2) by (simp add: take_blit_end)
  also have "\<dots> = take (w - r) (drop r xs) @ d"
    using assms by (simp add: drop_take)
  finally show ?thesis .
qed

section \<open>Machine integers\<close>

definition to_unsigned :: "nat \<Rightarrow> int \<Rightarrow> int" where
  "to_unsigned w x = x mod 2 ^ w"

definition to_signed :: "nat \<Rightarrow> int \<Rightarrow> int" where
  "to_signed w x = (x + 2 ^ (w - 1)) mod 2 ^ w - 2 ^ (w - 1)"

definition in_int :: "nat \<Rightarrow> int \<Rightarrow> bool" where
  "in_int w x \<longleftrightarrow> - (2 ^ (w - 1)) \<le> x \<and> x < 2 ^ (w - 1)"

lemma to_unsigned_bounds: "0 \<le> to_unsigned w x \<and> to_unsigned w x < 2 ^ w"
  by (simp add: to_unsigned_def)

lemma to_unsigned_id: "0 \<le> x \<Longrightarrow> x < 2 ^ w \<Longrightarrow> to_unsigned w x = x"
  by (simp add: to_unsigned_def)

lemma to_signed_id:
  assumes "0 < w" and "in_int w x"
  shows "to_signed w x = x"
proof -
  have "(2::int) ^ w = 2 ^ (w - 1) + 2 ^ (w - 1)"
    using assms(1) by (cases w) simp_all
  with assms(2) show ?thesis
    by (simp add: to_signed_def in_int_def mod_pos_pos_trivial)
qed

section \<open>Decimal numbers\<close>

definition digit_val :: "char \<Rightarrow> nat" where
  "digit_val c = code c - 48"

definition digit_char :: "nat \<Rightarrow> char" where
  "digit_char d = char_of (48 + d)"

fun dec_value :: "nat \<Rightarrow> string \<Rightarrow> nat" where
  "dec_value acc [] = acc"
| "dec_value acc (c # cs) = dec_value (10 * acc + digit_val c) cs"

text \<open>
  \<^verbatim>\<open>strtol(s, &end, 10)\<close> before its range check: leading white space, a sign, digits, and
  anything after them ignored; \<open>None\<close> when there is no digit (\<^verbatim>\<open>std::invalid_argument\<close>).
\<close>

definition unsigned_prefix :: "string \<Rightarrow> nat option" where
  "unsigned_prefix s =
     (let ds = takeWhile isdigit s in if ds = [] then None else Some (dec_value 0 ds))"

definition strtol :: "string \<Rightarrow> int option" where
  "strtol s =
     (case dropWhile isspace s of
        [] \<Rightarrow> None
      | c # cs \<Rightarrow>
          if c = CHR ''-'' then map_option (\<lambda>n. - int n) (unsigned_prefix cs)
          else if c = CHR ''+'' then map_option int (unsigned_prefix cs)
          else map_option int (unsigned_prefix (c # cs)))"

text \<open>\<open>None\<close> is a thrown \<^verbatim>\<open>std::invalid_argument\<close> or \<^verbatim>\<open>std::out_of_range\<close>.\<close>

definition ston :: "nat \<Rightarrow> string \<Rightarrow> int option" where
  "ston w s = (case strtol s of None \<Rightarrow> None | Some v \<Rightarrow> if in_int w v then Some v else None)"

abbreviation stoi :: "string \<Rightarrow> int option" where "stoi \<equiv> ston 32"
abbreviation stoll :: "string \<Rightarrow> int option" where "stoll \<equiv> ston 64"

lemma ston_range: "ston w s = Some v \<Longrightarrow> in_int w v"
  by (auto simp: ston_def split: option.splits if_splits)

fun nat_to_string :: "nat \<Rightarrow> string" where
  "nat_to_string n =
     (if n < 10 then [digit_char n] else nat_to_string (n div 10) @ [digit_char (n mod 10)])"

declare nat_to_string.simps [simp del]

text \<open>A lower-case hexadecimal digit.\<close>

definition hex_char :: "nat \<Rightarrow> char" where
  "hex_char d = (if d < 10 then char_of (48 + d) else char_of (87 + d))"

definition int_to_string :: "int \<Rightarrow> string" where
  "int_to_string i = (if i < 0 then CHR ''-'' # nat_to_string (nat (- i)) else nat_to_string (nat i))"

lemma isdigit_digit_char [simp]: "d < 10 \<Longrightarrow> isdigit (digit_char d)"
  by (simp add: isdigit_def digit_char_def)

lemma digit_val_digit_char [simp]: "d < 10 \<Longrightarrow> digit_val (digit_char d) = d"
  by (simp add: digit_val_def digit_char_def)

lemma dec_value_append: "dec_value acc (xs @ ys) = dec_value (dec_value acc xs) ys"
  by (induction xs arbitrary: acc) simp_all

lemma nat_to_string_digits: "\<forall>c\<in>set (nat_to_string n). isdigit c"
proof (induction n rule: nat_to_string.induct)
  case (1 n)
  then show ?case
    by (subst nat_to_string.simps) auto
qed

lemma nat_to_string_nonempty [simp]: "nat_to_string n \<noteq> []"
  by (subst nat_to_string.simps) simp

lemma dec_value_nat_to_string: "dec_value 0 (nat_to_string n) = n"
proof (induction n rule: nat_to_string.induct)
  case (1 n)
  then show ?case
    by (subst nat_to_string.simps) (auto simp: dec_value_append)
qed

lemma unsigned_prefix_nat_to_string:
  assumes "rest = [] \<or> \<not> isdigit (hd rest)"
  shows "unsigned_prefix (nat_to_string n @ rest) = Some n"
proof -
  have "takeWhile isdigit rest = []"
    using assms by (cases rest) auto
  then have "takeWhile isdigit (nat_to_string n @ rest) = nat_to_string n"
    using nat_to_string_digits [of n] by simp
  then show ?thesis
    by (simp add: unsigned_prefix_def dec_value_nat_to_string)
qed

lemma nat_to_string_Cons:
  obtains c cs where "nat_to_string n = c # cs" and "isdigit c"
  using nat_to_string_digits [of n] nat_to_string_nonempty [of n]
  by (cases "nat_to_string n") auto

lemma not_isdigit_sign [simp]: "\<not> isdigit (CHR ''-'')" "\<not> isdigit (CHR ''+'')"
  by (simp_all add: isdigit_def code_def)

lemma not_isspace_minus [simp]: "\<not> isspace (CHR ''-'')"
  by (simp add: isspace_def code_def)

lemma strtol_nat_to_string:
  assumes "rest = [] \<or> \<not> isdigit (hd rest)"
  shows "strtol (nat_to_string n @ rest) = Some (int n)"
proof -
  obtain c cs where c: "nat_to_string n = c # cs" "isdigit c"
    by (rule nat_to_string_Cons)
  then have "c \<noteq> CHR ''-''" "c \<noteq> CHR ''+''" "\<not> isspace c"
    by (auto simp: not_isspace_digit)
  with c unsigned_prefix_nat_to_string [OF assms, of n] show ?thesis
    by (simp add: strtol_def)
qed

lemma strtol_int_to_string: "strtol (int_to_string i) = Some i"
proof (cases "i < 0")
  case True
  then show ?thesis
    using unsigned_prefix_nat_to_string [of "[]" "nat (- i)"]
    by (simp add: int_to_string_def strtol_def)
next
  case False
  then show ?thesis
    using strtol_nat_to_string [of "[]" "nat i"] by (simp add: int_to_string_def)
qed

lemma ston_int_to_string: "in_int w i \<Longrightarrow> ston w (int_to_string i) = Some i"
  by (simp add: ston_def strtol_int_to_string)

lemma int_to_string_nonempty [simp]: "int_to_string i \<noteq> []"
  by (simp add: int_to_string_def)

lemma nat_to_string_inject [simp]: "nat_to_string m = nat_to_string n \<longleftrightarrow> m = n"
  by (metis dec_value_nat_to_string)

end
