(* ===== verification/Buffer.thy ===== *)
theory Buffer
  imports EzPrelude
begin

text \<open>
  \<^verbatim>\<open>core/Buffer.h\<close> and \<^verbatim>\<open>core/Buffer.cpp\<close>: the byte buffer every connection owns two of. A
  \<^verbatim>\<open>std::vector<char>\<close> with a reader and a writer index; the bytes between them are the
  contents. The theory gives every operation, the index invariant, the effect of each
  operation on the contents, and the interface \<open>byte_queue\<close> that connections rely on,
  interpreted on the buffer: what goes in comes out, once and in order.
\<close>

named_theorems buffer_defs "definitions of the buffer operations"

section \<open>State and operations\<close>

record buffer =
  buf_data :: string
  readerIndex :: nat
  writerIndex :: nat

definition kInitialSize :: nat where "kInitialSize = 4096"

definition kPrependSize :: nat where "kPrependSize = 8"

definition buffer_new :: "nat \<Rightarrow> buffer" where
  "buffer_new initialSize =
     \<lparr>buf_data = replicate (initialSize + kPrependSize) NUL,
      readerIndex = kPrependSize, writerIndex = kPrependSize\<rparr>"

definition buffer_default :: buffer where
  "buffer_default = buffer_new kInitialSize"

definition readableBytes :: "buffer \<Rightarrow> nat" where
  "readableBytes b = writerIndex b - readerIndex b"

definition writableBytes :: "buffer \<Rightarrow> nat" where
  "writableBytes b = length (buf_data b) - writerIndex b"

definition prependableBytes :: "buffer \<Rightarrow> nat" where
  "prependableBytes b = readerIndex b"

text \<open>
  \<^verbatim>\<open>peek()\<close> is a pointer into the storage; what its users read are the bytes from it on.
  Reading \<open>len\<close> bytes at it is defined only inside the storage.
\<close>

definition peek_bytes :: "nat \<Rightarrow> buffer \<Rightarrow> string res" where
  "peek_bytes len b =
     (if readerIndex b + len \<le> length (buf_data b)
      then Inr (take len (drop (readerIndex b) (buf_data b)))
      else Inl (Undefined ''read past the end of the buffer''))"

definition retrieve :: "nat \<Rightarrow> buffer \<Rightarrow> buffer" where
  "retrieve len b =
     (if len \<le> readableBytes b then b\<lparr>readerIndex := readerIndex b + len\<rparr> else b)"

definition retrieveAll :: "buffer \<Rightarrow> buffer" where
  "retrieveAll b = b\<lparr>readerIndex := kPrependSize, writerIndex := kPrependSize\<rparr>"

definition retrieveAsString :: "nat \<Rightarrow> buffer \<Rightarrow> (string \<times> buffer) res" where
  "retrieveAsString len b =
     rbind (peek_bytes len b) (\<lambda>str. Inr (str, retrieve len b))"

definition retrieveAllAsString :: "buffer \<Rightarrow> (string \<times> buffer) res" where
  "retrieveAllAsString b = retrieveAsString (readableBytes b) b"

definition ensureWritableBytes :: "nat \<Rightarrow> buffer \<Rightarrow> buffer" where
  "ensureWritableBytes len b =
     (if len \<le> writableBytes b then b
      else
        let readable = readableBytes b in
        if kPrependSize + readable + len \<le> length (buf_data b)
        then b\<lparr>buf_data := blit kPrependSize (take readable (drop (readerIndex b) (buf_data b)))
                                (buf_data b),
               readerIndex := kPrependSize,
               writerIndex := kPrependSize + readable\<rparr>
        else b\<lparr>buf_data := resize (writerIndex b + len) (buf_data b)\<rparr>)"

definition buffer_append :: "string \<Rightarrow> buffer \<Rightarrow> buffer" where
  "buffer_append data b =
     (let b' = ensureWritableBytes (length data) b
      in b'\<lparr>buf_data := blit (writerIndex b') data (buf_data b'),
            writerIndex := writerIndex b' + length data\<rparr>)"

definition prepend :: "string \<Rightarrow> buffer \<Rightarrow> buffer" where
  "prepend data b =
     (if prependableBytes b < length data then b
      else b\<lparr>buf_data := blit (readerIndex b - length data) data (buf_data b),
             readerIndex := readerIndex b - length data\<rparr>)"

definition shrink :: "nat \<Rightarrow> buffer \<Rightarrow> buffer" where
  "shrink reserve b = b\<lparr>buf_data := resize (writerIndex b + reserve) (buf_data b)\<rparr>"

text \<open>
  \<^verbatim>\<open>readFromFd\<close>: the outcome of \<^verbatim>\<open>readv(fd, iov, 2)\<close> is an argument, an error number or the
  bytes the kernel delivered, at most the free space plus the 65536 bytes of \<^verbatim>\<open>extrabuf\<close>.
  The kernel fills the free space of the buffer first; the result is the returned count
  (\<open>Inl\<close>: -1 with \<^verbatim>\<open>*savedErrno\<close> set) and the new buffer.
\<close>

definition extrabuf_size :: nat where "extrabuf_size = 65536"

definition readv_capacity :: "buffer \<Rightarrow> nat" where
  "readv_capacity b = writableBytes b + extrabuf_size"

definition readFromFd :: "errno + string \<Rightarrow> buffer \<Rightarrow> (errno + nat) \<times> buffer" where
  "readFromFd readv_result b =
     (let writable = writableBytes b in
      case readv_result of
        Inl e \<Rightarrow> (Inl e, b)
      | Inr bytes \<Rightarrow>
          let n = length bytes;
              b1 = b\<lparr>buf_data := blit (writerIndex b) (take writable bytes) (buf_data b)\<rparr>;
              extrabuf = drop writable bytes
          in if n = 0 then (Inr 0, b)
             else if n \<le> writable then (Inr n, b1\<lparr>writerIndex := writerIndex b1 + n\<rparr>)
             else (Inr n, buffer_append extrabuf (b1\<lparr>writerIndex := writerIndex b1 + writable\<rparr>)))"

text \<open>\<^verbatim>\<open>writeToFd\<close>: the outcome of \<^verbatim>\<open>write(fd, peek(), readableBytes())\<close> is an argument.\<close>

definition writeToFd :: "errno + nat \<Rightarrow> buffer \<Rightarrow> (errno + nat) \<times> buffer" where
  "writeToFd write_result b =
     (case write_result of
        Inl e \<Rightarrow> (Inl e, b)
      | Inr n \<Rightarrow> if n = 0 then (Inr 0, b) else (Inr n, retrieve n b))"

section \<open>Invariant and contents\<close>

definition buffer_wf :: "buffer \<Rightarrow> bool" where
  "buffer_wf b \<longleftrightarrow> readerIndex b \<le> writerIndex b \<and> writerIndex b \<le> length (buf_data b)"

definition contents :: "buffer \<Rightarrow> string" where
  "contents b = take (readableBytes b) (drop (readerIndex b) (buf_data b))"

lemmas [buffer_defs] =
  readableBytes_def writableBytes_def prependableBytes_def buffer_wf_def contents_def

lemma slice_resize:
  assumes "r \<le> w" and "w \<le> length xs" and "w \<le> n"
  shows "take (w - r) (drop r (resize n xs)) = take (w - r) (drop r xs)"
proof -
  have "take (w - r) (drop r ys) = drop r (take w ys)" for ys :: string
    using assms(1) by (simp add: drop_take)
  with take_resize [of w n xs] assms show ?thesis
    by simp
qed

lemma length_contents [simp]: "buffer_wf b \<Longrightarrow> length (contents b) = readableBytes b"
  by (auto simp: buffer_defs)

lemma readable_0_iff: "buffer_wf b \<Longrightarrow> readableBytes b = 0 \<longleftrightarrow> contents b = []"
  by (metis length_contents length_0_conv)

lemma wf_buffer_new [simp]: "buffer_wf (buffer_new n)"
  by (simp add: buffer_new_def buffer_defs)

lemma contents_buffer_new [simp]: "contents (buffer_new n) = []"
  by (simp add: buffer_new_def buffer_defs)

lemma wf_retrieve [simp]: "buffer_wf b \<Longrightarrow> buffer_wf (retrieve len b)"
  by (auto simp: retrieve_def buffer_defs)

lemma contents_retrieve:
  "buffer_wf b \<Longrightarrow>
   contents (retrieve len b) = (if len \<le> readableBytes b then drop len (contents b) else contents b)"
  by (auto simp: retrieve_def buffer_defs drop_take add.commute diff_diff_add)

lemma wf_retrieveAll [simp]:
  "kPrependSize \<le> length (buf_data b) \<Longrightarrow> buffer_wf (retrieveAll b)"
  by (simp add: retrieveAll_def buffer_defs)

lemma contents_retrieveAll [simp]: "contents (retrieveAll b) = []"
  by (simp add: retrieveAll_def buffer_defs)

lemma wf_ensureWritableBytes [simp]:
  "buffer_wf b \<Longrightarrow> buffer_wf (ensureWritableBytes len b)"
  by (auto simp: ensureWritableBytes_def buffer_defs Let_def)

lemma writable_ensureWritableBytes:
  "buffer_wf b \<Longrightarrow> len \<le> writableBytes (ensureWritableBytes len b)"
  by (auto simp: ensureWritableBytes_def buffer_defs Let_def)

lemma contents_ensureWritableBytes [simp]:
  assumes "buffer_wf b"
  shows "contents (ensureWritableBytes len b) = contents b"
proof -
  show ?thesis
    using assms
    by (auto simp: ensureWritableBytes_def buffer_defs Let_def blit_def slice_resize)
qed

lemma wf_append [simp]:
  assumes "buffer_wf b"
  shows "buffer_wf (buffer_append data b)"
proof -
  let ?b = "ensureWritableBytes (length data) b"
  have "writerIndex ?b + length data \<le> length (buf_data ?b)"
    using assms writable_ensureWritableBytes [OF assms, of "length data"]
      wf_ensureWritableBytes [OF assms, of "length data"]
    by (auto simp: buffer_defs)
  then show ?thesis
    using wf_ensureWritableBytes [OF assms, of "length data"]
    by (auto simp: buffer_append_def Let_def buffer_defs)
qed

lemma contents_append [simp]:
  assumes "buffer_wf b"
  shows "contents (buffer_append data b) = contents b @ data"
proof -
  let ?b = "ensureWritableBytes (length data) b"
  have wf: "buffer_wf ?b"
    using assms by simp
  have room: "writerIndex ?b + length data \<le> length (buf_data ?b)"
    using wf writable_ensureWritableBytes [OF assms, of "length data"]
    by (auto simp: buffer_defs)
  have "contents (buffer_append data b) = contents ?b @ data"
    using wf room by (simp add: buffer_append_def Let_def buffer_defs blit_def drop_take)
  then show ?thesis
    using assms by simp
qed

lemma wf_prepend [simp]: "buffer_wf b \<Longrightarrow> buffer_wf (prepend data b)"
  by (auto simp: prepend_def buffer_defs)

lemma contents_prepend:
  assumes "buffer_wf b"
  shows "contents (prepend data b) =
    (if length data \<le> prependableBytes b then data @ contents b else contents b)"
  using assms by (auto simp: prepend_def buffer_defs blit_def)

lemma wf_shrink [simp]: "buffer_wf b \<Longrightarrow> buffer_wf (shrink reserve b)"
  by (simp add: shrink_def buffer_defs)

lemma contents_shrink [simp]: "buffer_wf b \<Longrightarrow> contents (shrink reserve b) = contents b"
  by (simp add: shrink_def contents_def readableBytes_def buffer_wf_def slice_resize)

lemma writable_shrink: "writableBytes (shrink reserve b) = reserve"
  by (simp add: shrink_def buffer_defs)

section \<open>Reading from and writing to a descriptor\<close>

lemma wf_readFromFd [simp]: "buffer_wf b \<Longrightarrow> buffer_wf (snd (readFromFd r b))"
proof (cases r)
  case (Inr bytes)
  assume wf: "buffer_wf b"
  let ?b1 = "b\<lparr>buf_data := blit (writerIndex b) (take (writableBytes b) bytes) (buf_data b),
                writerIndex := writerIndex b + writableBytes b\<rparr>"
  have "buffer_wf ?b1"
    using wf by (auto simp: buffer_defs)
  then show ?thesis
    using wf Inr by (auto simp: readFromFd_def Let_def) (auto simp: buffer_defs)
qed (simp add: readFromFd_def)

lemma contents_readFromFd:
  assumes wf: "buffer_wf b"
  shows "readFromFd (Inr bytes) b = (Inr (length bytes), snd (readFromFd (Inr bytes) b))"
    and "contents (snd (readFromFd (Inr bytes) b)) = contents b @ bytes"
proof -
  let ?w = "writableBytes b"
  let ?d = "blit (writerIndex b) (take ?w bytes) (buf_data b)"
  show "readFromFd (Inr bytes) b = (Inr (length bytes), snd (readFromFd (Inr bytes) b))"
    by (auto simp: readFromFd_def Let_def)
  have fits: "contents (b\<lparr>buf_data := ?d, writerIndex := writerIndex b + length bytes\<rparr>)
      = contents b @ bytes" if "length bytes \<le> ?w"
    using wf that by (auto simp: buffer_defs slice_blit)
  have full: "contents (b\<lparr>buf_data := ?d, writerIndex := writerIndex b + ?w\<rparr>)
      = contents b @ take ?w bytes" if "?w < length bytes"
    using wf that slice_blit [of "readerIndex b" "writerIndex b" "take ?w bytes" "buf_data b"]
    by (auto simp: buffer_defs min_def)
  have wf1: "buffer_wf (b\<lparr>buf_data := ?d, writerIndex := writerIndex b + ?w\<rparr>)"
    using wf by (auto simp: buffer_defs)
  show "contents (snd (readFromFd (Inr bytes) b)) = contents b @ bytes"
    using fits full wf1 by (auto simp: readFromFd_def Let_def)
qed

lemma readFromFd_Inl [simp]: "readFromFd (Inl e) b = (Inl e, b)"
  by (simp add: readFromFd_def)

lemma wf_writeToFd [simp]: "buffer_wf b \<Longrightarrow> buffer_wf (snd (writeToFd r b))"
  by (simp add: writeToFd_def split: sum.split)

lemma writeToFd_simps [simp]:
  "writeToFd (Inl e) b = (Inl e, b)"
  "fst (writeToFd (Inr n) b) = Inr n"
  by (simp_all add: writeToFd_def)

lemma contents_writeToFd:
  "buffer_wf b \<Longrightarrow> n \<le> readableBytes b \<Longrightarrow>
   contents (snd (writeToFd (Inr n) b)) = drop n (contents b)"
  by (auto simp: writeToFd_def contents_retrieve)

section \<open>Taking a string out\<close>

lemma retrieveAsString_readable:
  assumes "buffer_wf b" and "len \<le> readableBytes b"
  shows "\<exists>b'. retrieveAsString len b = Inr (take len (contents b), b')
    \<and> buffer_wf b' \<and> contents b' = drop len (contents b)"
proof -
  have "take len (contents b) = take len (drop (readerIndex b) (buf_data b))"
    using assms by (simp add: contents_def min_def)
  moreover have "readerIndex b + len \<le> length (buf_data b)"
    using assms by (auto simp: buffer_defs)
  ultimately show ?thesis
    using assms by (simp add: retrieveAsString_def peek_bytes_def contents_retrieve)
qed

lemma retrieveAsString_stale:
  assumes "buffer_wf b" and "readableBytes b < len" and "readerIndex b + len \<le> length (buf_data b)"
  shows "\<exists>junk. retrieveAsString len b = Inr (contents b @ junk, b) \<and> junk \<noteq> []"
proof -
  let ?s = "drop (readerIndex b) (buf_data b)"
  have "take len ?s = take (readableBytes b) ?s @ take (len - readableBytes b) (drop (readableBytes b) ?s)"
    using assms by (metis le_add_diff_inverse less_imp_le take_add)
  moreover have "take (len - readableBytes b) (drop (readableBytes b) ?s) \<noteq> []"
    using assms by auto
  ultimately show ?thesis
    using assms by (auto simp: retrieveAsString_def peek_bytes_def retrieve_def contents_def)
qed

lemma retrieveAsString_outside:
  "length (buf_data b) < readerIndex b + len \<Longrightarrow> \<exists>why. retrieveAsString len b = Inl (Undefined why)"
  by (simp add: retrieveAsString_def peek_bytes_def)

section \<open>The interface connections rely on\<close>

text \<open>
  A queue of bytes: \<open>put\<close> adds at the end, \<open>get n\<close> drops \<open>n\<close> bytes from the front when
  there are that many and is ignored otherwise.
\<close>

datatype queue_op = Put string | Get nat

fun queue_run :: "('b \<Rightarrow> string) \<Rightarrow> (string \<Rightarrow> 'b \<Rightarrow> 'b) \<Rightarrow> (nat \<Rightarrow> 'b \<Rightarrow> 'b) \<Rightarrow>
    queue_op list \<Rightarrow> 'b \<Rightarrow> string \<times> 'b" where
  "queue_run bytes put get [] b = ([], b)"
| "queue_run bytes put get (Put d # ops) b = queue_run bytes put get ops (put d b)"
| "queue_run bytes put get (Get n # ops) b =
     (let out = (if n \<le> length (bytes b) then take n (bytes b) else []);
          (rest, b') = queue_run bytes put get ops (get n b)
      in (out @ rest, b'))"

fun puts :: "queue_op list \<Rightarrow> string" where
  "puts [] = []"
| "puts (Put d # ops) = d @ puts ops"
| "puts (Get n # ops) = puts ops"

locale byte_queue =
  fixes invar :: "'b \<Rightarrow> bool"
    and bytes :: "'b \<Rightarrow> string"
    and put :: "string \<Rightarrow> 'b \<Rightarrow> 'b"
    and get :: "nat \<Rightarrow> 'b \<Rightarrow> 'b"
  assumes invar_put: "invar b \<Longrightarrow> invar (put d b)"
    and invar_get: "invar b \<Longrightarrow> invar (get n b)"
    and bytes_put: "invar b \<Longrightarrow> bytes (put d b) = bytes b @ d"
    and bytes_get: "invar b \<Longrightarrow> n \<le> length (bytes b) \<Longrightarrow> bytes (get n b) = drop n (bytes b)"
    and bytes_get_over: "invar b \<Longrightarrow> length (bytes b) < n \<Longrightarrow> bytes (get n b) = bytes b"
begin

lemma run_conserves:
  assumes "invar b"
  shows "invar (snd (queue_run bytes put get ops b))
    \<and> fst (queue_run bytes put get ops b) @ bytes (snd (queue_run bytes put get ops b))
      = bytes b @ puts ops"
  using assms
proof (induction ops arbitrary: b)
  case (Cons op ops)
  show ?case
  proof (cases op)
    case (Put d)
    with Cons.IH [of "put d b"] Cons.prems show ?thesis
      by (simp add: invar_put bytes_put)
  next
    case (Get n)
    with Cons.IH [of "get n b"] Cons.prems show ?thesis
      by (auto simp: invar_get bytes_get bytes_get_over not_le Let_def split: prod.split)
  qed
qed simp

lemma put_get_all:
  assumes "invar b" and "bytes b = []"
  shows "bytes (get (length d) (put d b)) = []"
  using assms by (simp add: bytes_put bytes_get invar_put)

end

interpretation bq: byte_queue buffer_wf contents buffer_append retrieve
  by unfold_locales (auto simp: contents_retrieve)

section \<open>Properties\<close>

text \<open>
  C16: whatever sequence of appends and retrieves a buffer of any initial size goes through,
  the bytes handed out, followed by the bytes still readable, are exactly the bytes
  appended, in order: none is lost, duplicated or reordered by compaction or growth.
\<close>

theorem buffer_fifo:
  "let (out, b) = queue_run contents buffer_append retrieve ops (buffer_new n)
   in buffer_wf b \<and> out @ contents b = puts ops"
  using bq.run_conserves [of "buffer_new n" ops] by (simp add: case_prod_beta)

text \<open>
  \<^verbatim>\<open>readFromFd\<close> appends all the bytes the kernel delivered, also those that did not fit
  and went through \<^verbatim>\<open>extrabuf\<close>, and returns their number; on an error it reports the
  error number and leaves the buffer as it was. The index invariant is kept in every case.
\<close>

theorem readFromFd_delivers:
  assumes "buffer_wf b"
  shows "case readFromFd r b of (res, b') \<Rightarrow>
    buffer_wf b' \<and>
    (case r of Inl e \<Rightarrow> res = Inl e \<and> b' = b
     | Inr bytes \<Rightarrow> res = Inr (length bytes) \<and> contents b' = contents b @ bytes)"
proof (cases r)
  case (Inr bytes)
  note io = contents_readFromFd [OF assms, of bytes]
  have "buffer_wf (snd (readFromFd (Inr bytes) b))"
    using assms by simp
  with io Inr show ?thesis
    by (metis (mono_tags, lifting) case_prod_conv old.sum.simps(6) snd_conv)
qed (use assms in simp)

theorem readFromFd_delivers_witness:
  "case readFromFd (Inr ''0123456789'') (buffer_new 4) of (res, b') \<Rightarrow>
    res = Inr 10 \<and> contents b' = ''0123456789''"
  using readFromFd_delivers [OF wf_buffer_new [of 4], of "Inr ''0123456789''"]
  by (auto split: prod.splits)

text \<open>
  \<^verbatim>\<open>retrieveAsString(len)\<close> returns and removes the first \<open>len\<close> readable bytes when there
  are that many. When there are fewer it removes nothing, and it still returns \<open>len\<close>
  bytes: the readable ones followed by whatever the storage holds behind them, or it reads
  outside the storage.
\<close>

theorem retrieveAsString_cases:
  assumes "buffer_wf b"
  shows "(len \<le> readableBytes b \<longrightarrow>
      (\<exists>b'. retrieveAsString len b = Inr (take len (contents b), b')
        \<and> buffer_wf b' \<and> contents b' = drop len (contents b)))
    \<and> (readableBytes b < len \<and> readerIndex b + len \<le> length (buf_data b) \<longrightarrow>
      (\<exists>junk. retrieveAsString len b = Inr (contents b @ junk, b) \<and> junk \<noteq> []))
    \<and> (length (buf_data b) < readerIndex b + len \<longrightarrow>
      (\<exists>why. retrieveAsString len b = Inl (Undefined why)))"
  using retrieveAsString_readable [OF assms] retrieveAsString_stale [OF assms]
    retrieveAsString_outside [of b len]
  by blast

theorem retrieveAsString_cases_witness:
  "(\<exists>b'. retrieveAsString 3 (buffer_append ''abcde'' (buffer_new 16)) = Inr (''abc'', b')
      \<and> buffer_wf b' \<and> contents b' = ''de'')
   \<and> (\<exists>junk. retrieveAsString 7 (buffer_append ''abcde'' (buffer_new 16)) = Inr (''abcde'' @ junk, buffer_append ''abcde'' (buffer_new 16)) \<and> junk \<noteq> [])
   \<and> (\<exists>why. retrieveAsString 17 (buffer_append ''abcde'' (buffer_new 16)) = Inl (Undefined why))"
proof -
  let ?b = "buffer_append ''abcde'' (buffer_new 16)"
  have wf: "buffer_wf ?b"
    by simp
  have idx: "readerIndex ?b = 8" "readableBytes ?b = 5" "length (buf_data ?b) = 24"
    by (simp_all add: buffer_append_def ensureWritableBytes_def buffer_new_def Let_def
        buffer_defs blit_def kPrependSize_def)
  show ?thesis
    using retrieveAsString_cases [OF wf, of 3] retrieveAsString_cases [OF wf, of 7]
      retrieveAsString_cases [OF wf, of 17]
    by (simp add: idx)
qed

end
