(* ===== verification/Headers.thy ===== *)
theory Headers
  imports EzPrelude
begin

text \<open>
  The header vectors of \<^verbatim>\<open>HttpRequest\<close> and \<^verbatim>\<open>HttpResponse\<close>: an ordered
  \<^verbatim>\<open>vector<pair<string,string>>\<close> searched from the front with a case-insensitive comparison
  of names. Both classes carry a copy of the same two loops; the interface \<open>header_table\<close>
  states what both promise and its lemmas are proved once.
\<close>

type_synonym header_list = "(string \<times> string) list"

definition same_name :: "string \<Rightarrow> string \<Rightarrow> bool" where
  "same_name a b \<longleftrightarrow> length a = length b \<and> list_all2 (\<lambda>c d. tolower c = tolower d) a b"

lemma same_name_iff: "same_name a b \<longleftrightarrow> map tolower a = map tolower b"
  unfolding same_name_def
  by (induction a arbitrary: b; case_tac b) auto

lemma same_name_refl [simp]: "same_name a a"
  by (simp add: same_name_iff)

lemma same_name_sym: "same_name a b \<Longrightarrow> same_name b a"
  by (simp add: same_name_iff)

lemma same_name_trans: "same_name a b \<Longrightarrow> same_name b c \<Longrightarrow> same_name a c"
  by (simp add: same_name_iff)

text \<open>The search loop: the first field whose name matches, the empty string if none does.\<close>

fun hdr_get :: "string \<Rightarrow> header_list \<Rightarrow> string" where
  "hdr_get name [] = []"
| "hdr_get name ((k, v) # hs) = (if same_name k name then v else hdr_get name hs)"

text \<open>The update loop: overwrite the first match in place, append when there is none.\<close>

fun hdr_set :: "string \<Rightarrow> string \<Rightarrow> header_list \<Rightarrow> header_list" where
  "hdr_set name v [] = [(name, v)]"
| "hdr_set name v ((k, w) # hs) =
     (if same_name k name then (k, v) # hs else (k, w) # hdr_set name v hs)"

definition hdr_has :: "string \<Rightarrow> header_list \<Rightarrow> bool" where
  "hdr_has name hs \<longleftrightarrow> (\<exists>kv\<in>set hs. same_name (fst kv) name)"

definition hdr_distinct :: "header_list \<Rightarrow> bool" where
  "hdr_distinct hs \<longleftrightarrow> distinct (map (map tolower \<circ> fst) hs)"

lemma hdr_get_set:
  "hdr_get n (hdr_set m v hs) = (if same_name m n then v else hdr_get n hs)"
  by (induction hs) (auto simp: same_name_iff)

lemma hdr_names_set:
  "map fst (hdr_set n v hs) = (if hdr_has n hs then map fst hs else map fst hs @ [n])"
proof (induction hs)
  case (Cons kv hs)
  obtain k w where "kv = (k, w)"
    by (cases kv)
  with Cons show ?case
    by (cases "hdr_has n hs") (simp_all add: hdr_has_def)
qed (simp add: hdr_has_def)

lemma hdr_set_set: "same_name m n \<Longrightarrow> hdr_set n w (hdr_set m v hs) = hdr_set m w hs"
  by (induction hs) (auto simp: same_name_iff)

lemma hdr_distinct_Nil [simp]: "hdr_distinct []"
  by (simp add: hdr_distinct_def)

lemma hdr_distinct_set: "hdr_distinct hs \<Longrightarrow> hdr_distinct (hdr_set n v hs)"
proof -
  have "map (map tolower \<circ> fst) hs = map (map tolower) (map fst hs)" for hs :: header_list
    by simp
  moreover have "map tolower n \<notin> set (map (map tolower) (map fst hs))" if "\<not> hdr_has n hs"
    using that by (auto simp: hdr_has_def same_name_iff)
  moreover assume "hdr_distinct hs"
  ultimately show ?thesis
    unfolding hdr_distinct_def by (auto simp add: hdr_names_set simp del: map_map)
qed

lemma hdr_get_none: "\<not> hdr_has n hs \<Longrightarrow> hdr_get n hs = []"
  by (induction hs) (auto simp: hdr_has_def)

lemma hdr_has_simps [simp]:
  "\<not> hdr_has n []"
  "hdr_has n (kv # hs) \<longleftrightarrow> same_name (fst kv) n \<or> hdr_has n hs"
  by (simp_all add: hdr_has_def)

lemma hdr_has_set: "hdr_has n (hdr_set m v hs) \<longleftrightarrow> same_name m n \<or> hdr_has n hs"
  by (induction hs) (auto simp: same_name_iff split: if_splits)

section \<open>The interface\<close>

locale header_table =
  fixes table :: "'r \<Rightarrow> header_list"
    and getter :: "string \<Rightarrow> 'r \<Rightarrow> string"
    and setter :: "string \<Rightarrow> string \<Rightarrow> 'r \<Rightarrow> 'r"
  assumes getter_table: "getter n r = hdr_get n (table r)"
    and table_setter: "table (setter n v r) = hdr_set n v (table r)"
begin

lemma get_set: "getter n (setter m v r) = (if same_name m n then v else getter n r)"
  by (simp add: getter_table table_setter hdr_get_set)

lemma set_keeps_distinct: "hdr_distinct (table r) \<Longrightarrow> hdr_distinct (table (setter n v r))"
  by (simp add: table_setter hdr_distinct_set)

lemma names_set:
  "map fst (table (setter n v r)) =
    (if hdr_has n (table r) then map fst (table r) else map fst (table r) @ [n])"
  by (simp add: table_setter hdr_names_set)

lemma fold_set_distinct:
  "hdr_distinct (table r) \<Longrightarrow> hdr_distinct (table (fold (\<lambda>(n, v). setter n v) kvs r))"
  by (induction kvs arbitrary: r) (auto simp: set_keeps_distinct)

lemma fold_set_get:
  "getter n (fold (\<lambda>(k, v). setter k v) kvs r) =
    (case index_of (\<lambda>kv. same_name (fst kv) n) (rev kvs) of
       Some i \<Rightarrow> snd (rev kvs ! i) | None \<Rightarrow> getter n r)"
proof (induction kvs rule: rev_induct)
  case (snoc kv kvs)
  then show ?case
    by (cases kv) (auto simp: get_set split: option.splits)
qed simp

end

end
