(* ===== verification/HttpRequest.thy ===== *)
theory HttpRequest
  imports Headers
begin

text \<open>
  \<^verbatim>\<open>http/HttpRequest.h\<close> and \<^verbatim>\<open>http/HttpRequest.cpp\<close>: the request object, its URL and query
  split, its headers, its path parameters and the \<^verbatim>\<open>Range\<close> header. \<^verbatim>\<open>pathParamAsDouble\<close>
  (\<^verbatim>\<open>std::stod\<close>) is not modelled; everything else is.
\<close>

section \<open>State and operations\<close>

record http_request =
  rq_method :: string
  rq_url :: string
  rq_path :: string
  rq_queryString :: string
  rq_headers :: header_list
  rq_body :: string
  rq_keepAlive :: bool
  rq_httpMajor :: int
  rq_httpMinor :: int
  rq_pathParams :: "string \<Rightarrow> string option"
  rq_rangeStart :: int
  rq_rangeEnd :: int
  rq_hasRange :: bool

definition request_new :: http_request where
  "request_new =
     \<lparr>rq_method = [], rq_url = [], rq_path = [], rq_queryString = [], rq_headers = [],
      rq_body = [], rq_keepAlive = False, rq_httpMajor = 1, rq_httpMinor = 1,
      rq_pathParams = Map.empty, rq_rangeStart = 0, rq_rangeEnd = - 1, rq_hasRange = False\<rparr>"

definition request_reset :: "http_request \<Rightarrow> http_request" where
  "request_reset r =
     r\<lparr>rq_method := [], rq_url := [], rq_path := [], rq_queryString := [], rq_headers := [],
       rq_body := [], rq_keepAlive := False, rq_httpMajor := 1, rq_httpMinor := 1,
       rq_pathParams := Map.empty, rq_rangeStart := 0, rq_rangeEnd := - 1, rq_hasRange := False\<rparr>"

definition setMethod :: "string \<Rightarrow> http_request \<Rightarrow> http_request" where
  "setMethod m r = r\<lparr>rq_method := m\<rparr>"

definition setUrl :: "string \<Rightarrow> http_request \<Rightarrow> http_request" where
  "setUrl u r =
     (case find_char (CHR ''?'') u 0 of
        Some pos \<Rightarrow> r\<lparr>rq_url := u, rq_path := substr 0 pos u,
                       rq_queryString := substr_from (pos + 1) u\<rparr>
      | None \<Rightarrow> r\<lparr>rq_url := u, rq_path := u, rq_queryString := []\<rparr>)"

definition setPath :: "string \<Rightarrow> http_request \<Rightarrow> http_request" where
  "setPath p r = r\<lparr>rq_path := p\<rparr>"

definition req_header :: "string \<Rightarrow> http_request \<Rightarrow> string" where
  "req_header name r = hdr_get name (rq_headers r)"

definition setHeader :: "string \<Rightarrow> string \<Rightarrow> http_request \<Rightarrow> http_request" where
  "setHeader name v r = r\<lparr>rq_headers := hdr_set name v (rq_headers r)\<rparr>"

definition setBody_req :: "string \<Rightarrow> http_request \<Rightarrow> http_request" where
  "setBody_req b r = r\<lparr>rq_body := b\<rparr>"

definition appendBody :: "string \<Rightarrow> http_request \<Rightarrow> http_request" where
  "appendBody d r = r\<lparr>rq_body := rq_body r @ d\<rparr>"

text \<open>A moved-from \<^verbatim>\<open>std::string\<close> member is left empty (by libstdc++ and libc++ alike).\<close>

definition consumeBody :: "http_request \<Rightarrow> string \<times> http_request" where
  "consumeBody r = (rq_body r, r\<lparr>rq_body := []\<rparr>)"

definition setKeepAlive_req :: "bool \<Rightarrow> http_request \<Rightarrow> http_request" where
  "setKeepAlive_req k r = r\<lparr>rq_keepAlive := k\<rparr>"

definition setHttpVersion :: "int \<Rightarrow> int \<Rightarrow> http_request \<Rightarrow> http_request" where
  "setHttpVersion major minor r = r\<lparr>rq_httpMajor := major, rq_httpMinor := minor\<rparr>"

definition pathParam :: "string \<Rightarrow> http_request \<Rightarrow> string" where
  "pathParam name r = (case rq_pathParams r name of Some v \<Rightarrow> v | None \<Rightarrow> [])"

definition setPathParam :: "string \<Rightarrow> string \<Rightarrow> http_request \<Rightarrow> http_request" where
  "setPathParam name v r = r\<lparr>rq_pathParams := (rq_pathParams r)(name \<mapsto> v)\<rparr>"

definition pathParamAsInt :: "string \<Rightarrow> int \<Rightarrow> http_request \<Rightarrow> int" where
  "pathParamAsInt name defaultVal r =
     (case rq_pathParams r name of
        None \<Rightarrow> defaultVal
      | Some v \<Rightarrow>
          if v = [] then defaultVal
          else (case stoi v of Some i \<Rightarrow> i | None \<Rightarrow> defaultVal))"

text \<open>The floating-point reader of the C library is an argument.\<close>

definition pathParamAsDouble :: "(string \<Rightarrow> 'd option) \<Rightarrow> string \<Rightarrow> 'd \<Rightarrow> http_request \<Rightarrow> 'd" where
  "pathParamAsDouble stod name defaultVal r =
     (case rq_pathParams r name of
        None \<Rightarrow> defaultVal
      | Some v \<Rightarrow>
          if v = [] then defaultVal
          else (case stod v of Some d \<Rightarrow> d | None \<Rightarrow> defaultVal))"

definition range_prefix :: string where
  "range_prefix = ''bytes=''"

text \<open>
  \<^verbatim>\<open>parseRange\<close>: \<^verbatim>\<open>bytes=START-END\<close>, \<^verbatim>\<open>bytes=START-\<close> and \<^verbatim>\<open>bytes=-SUFFIX\<close>. A suffix request
  is marked by start -1. Every \<^verbatim>\<open>std::stoll\<close> that throws leads to the reset state.
\<close>

definition set_range :: "int \<Rightarrow> int \<Rightarrow> bool \<Rightarrow> http_request \<Rightarrow> http_request" where
  "set_range start end has r = r\<lparr>rq_rangeStart := start, rq_rangeEnd := end, rq_hasRange := has\<rparr>"

definition parse_range_spec :: "string \<Rightarrow> string \<Rightarrow> http_request \<Rightarrow> http_request" where
  "parse_range_spec startStr endStr r0 =
     (if startStr = [] then
        (case stoll endStr of
           None \<Rightarrow> set_range 0 (- 1) False r0
         | Some e \<Rightarrow> set_range (- 1) e True r0)
      else
        (case stoll startStr of
           None \<Rightarrow> set_range 0 (- 1) False r0
         | Some s \<Rightarrow>
             if s < 0 then set_range 0 (- 1) False r0
             else if endStr = [] then set_range s (- 1) True r0
             else (case stoll endStr of
                     None \<Rightarrow> set_range 0 (- 1) False r0
                   | Some e \<Rightarrow> set_range s (if e < 0 then - 1 else e) True r0)))"

definition parseRange :: "http_request \<Rightarrow> http_request" where
  "parseRange r =
     (let r0 = set_range 0 (- 1) False r;
          rangeVal = req_header ''Range'' r0
      in if rangeVal = [] then r0
         else if length rangeVal \<le> length range_prefix
               \<or> substr 0 (length range_prefix) rangeVal \<noteq> range_prefix then r0
         else
           let rangeSpec = substr_from (length range_prefix) rangeVal in
           if find_char (CHR '','') rangeSpec 0 \<noteq> None then r0
           else (case find_char (CHR ''-'') rangeSpec 0 of
                   None \<Rightarrow> r0
                 | Some dashPos \<Rightarrow>
                     let startStr = substr 0 dashPos rangeSpec;
                         endStr = substr_from (dashPos + 1) rangeSpec
                     in if startStr = [] \<and> endStr = [] then r0
                        else parse_range_spec startStr endStr r0))"

section \<open>Headers, URL and reset\<close>

interpretation rq: header_table rq_headers req_header setHeader
  by unfold_locales (simp_all add: req_header_def setHeader_def)

lemma request_reset_new [simp]: "request_reset r = request_new"
  by (simp add: request_reset_def request_new_def)

lemma setUrl_split:
  shows "rq_url (setUrl u r) = u"
    and "CHR ''?'' \<notin> set (rq_path (setUrl u r))"
    and "u = rq_path (setUrl u r) @
      (if CHR ''?'' \<in> set u then CHR ''?'' # rq_queryString (setUrl u r) else [])"
proof -
  show "rq_url (setUrl u r) = u"
    by (simp add: setUrl_def split: option.split)
  show "CHR ''?'' \<notin> set (rq_path (setUrl u r))"
    by (auto simp: setUrl_def substr_def find_char_None split: option.split dest: find_char_SomeD(4))
  show "u = rq_path (setUrl u r) @
      (if CHR ''?'' \<in> set u then CHR ''?'' # rq_queryString (setUrl u r) else [])"
  proof (cases "find_char (CHR ''?'') u 0")
    case None
    then have "CHR ''?'' \<notin> set u"
      by (simp add: find_char_None)
    with None show ?thesis
      by (simp add: setUrl_def)
  next
    case (Some pos)
    note * = find_char_SomeD [OF Some]
    then have "CHR ''?'' \<in> set u"
      by (metis nth_mem)
    with Some * show ?thesis
      by (simp add: setUrl_def substr_def substr_from_def) (metis id_take_nth_drop)
  qed
qed

section \<open>Ranges\<close>

definition range_ok :: "http_request \<Rightarrow> bool" where
  "range_ok r \<longleftrightarrow>
     (if rq_hasRange r
      then in_int 64 (rq_rangeStart r) \<and> in_int 64 (rq_rangeEnd r) \<and>
           (rq_rangeStart r = - 1 \<or> 0 \<le> rq_rangeStart r \<and> - 1 \<le> rq_rangeEnd r)
      else rq_rangeStart r = 0 \<and> rq_rangeEnd r = - 1)"

lemma range_ok_set_range [simp]:
  "range_ok (set_range s e h r) \<longleftrightarrow>
    (if h then in_int 64 s \<and> in_int 64 e \<and> (s = - 1 \<or> 0 \<le> s \<and> - 1 \<le> e) else s = 0 \<and> e = - 1)"
  by (simp add: range_ok_def set_range_def)

lemma in_int_minus_1 [simp]: "in_int 64 (- 1)"
  by (simp add: in_int_def)

lemma range_ok_parse_range_spec: "range_ok (parse_range_spec s e r)"
  by (auto simp: parse_range_spec_def split: option.split dest: ston_range)

lemma range_ok_parseRange: "range_ok (parseRange r)"
  by (simp add: parseRange_def Let_def range_ok_parse_range_spec split: option.split)

text \<open>What \<^verbatim>\<open>parseRange\<close> does with a value of the accepted shape.\<close>

lemma parseRange_spec:
  assumes hdr: "req_header ''Range'' r = ''bytes='' @ a @ CHR ''-'' # b"
    and a: "CHR ''-'' \<notin> set a" "CHR '','' \<notin> set a" "CHR '','' \<notin> set b"
    and ne: "a \<noteq> [] \<or> b \<noteq> []"
  shows "parseRange r = parse_range_spec a b (set_range 0 (- 1) False r)"
proof -
  let ?r0 = "set_range 0 (- 1) False r"
  have h: "req_header ''Range'' ?r0 = ''bytes='' @ a @ CHR ''-'' # b"
    using hdr by (simp add: req_header_def set_range_def)
  have comma: "find_char (CHR '','') (a @ CHR ''-'' # b) 0 = None"
    using a by (auto simp: find_char_None)
  have dash: "find_char (CHR ''-'') (a @ CHR ''-'' # b) 0 = Some (length a)"
    using a by (simp add: find_char_0_append)
  show ?thesis
    using ne by (auto simp: parseRange_def Let_def h range_prefix_def substr_def substr_from_def
        comma dash)
qed

lemma digits_not_special [simp]:
  "CHR '','' \<notin> set (nat_to_string n)" "CHR ''-'' \<notin> set (nat_to_string n)"
  using nat_to_string_digits [of n] by (auto simp: isdigit_def code_def)

lemma stoll_nat: "n < 2 ^ 63 \<Longrightarrow> stoll (nat_to_string n) = Some (int n)"
  using strtol_nat_to_string [of "[]" n] by (simp add: ston_def in_int_def)

lemma set_range_set_range [simp]: "set_range s e h (set_range s' e' h' r) = set_range s e h r"
  by (simp add: set_range_def)

lemma parseRange_from_to:
  assumes "req_header ''Range'' r = ''bytes='' @ nat_to_string s @ CHR ''-'' # nat_to_string e"
    and "s < 2 ^ 63" and "e < 2 ^ 63"
  shows "parseRange r = set_range (int s) (int e) True r"
  unfolding parseRange_spec [OF assms(1) digits_not_special(2) digits_not_special(1)
      digits_not_special(1) disjI1 [OF nat_to_string_nonempty]]
  using stoll_nat [OF assms(2)] stoll_nat [OF assms(3)] by (simp add: parse_range_spec_def)

lemma parseRange_from:
  assumes "req_header ''Range'' r = ''bytes='' @ nat_to_string s @ ''-''" and "s < 2 ^ 63"
  shows "parseRange r = set_range (int s) (- 1) True r"
  unfolding parseRange_spec [where b = "[]", OF assms(1) digits_not_special(2) digits_not_special(1)
      _ disjI1 [OF nat_to_string_nonempty], simplified]
  using stoll_nat [OF assms(2)] by (simp add: parse_range_spec_def)

lemma parseRange_suffix:
  assumes "req_header ''Range'' r = ''bytes=-'' @ nat_to_string n" and "n < 2 ^ 63"
  shows "parseRange r = set_range (- 1) (int n) True r"
proof -
  have "req_header ''Range'' r = ''bytes='' @ [] @ CHR ''-'' # nat_to_string n"
    using assms(1) by simp
  from parseRange_spec [OF this _ _ digits_not_special(1) disjI2 [OF nat_to_string_nonempty]]
  have "parseRange r = parse_range_spec [] (nat_to_string n) (set_range 0 (- 1) False r)"
    by simp
  then show ?thesis
    using stoll_nat [OF assms(2)] by (simp add: parse_range_spec_def)
qed

section \<open>Properties\<close>

text \<open>
  Header names are case-insensitive: after a run of \<^verbatim>\<open>setHeader\<close> calls a lookup returns
  the value of the last call whose name equals it up to case, and the empty string when
  there is none; no two fields of the table have names that differ only in case.
\<close>

theorem request_headers_last_wins:
  "let r = fold (\<lambda>(k, v). setHeader k v) kvs request_new in
    hdr_distinct (rq_headers r) \<and>
    req_header n r =
      (case index_of (\<lambda>kv. same_name (fst kv) n) (rev kvs) of
         Some i \<Rightarrow> snd (rev kvs ! i) | None \<Rightarrow> [])"
proof -
  have "hdr_distinct (rq_headers request_new)" "req_header n request_new = []"
    by (simp_all add: request_new_def req_header_def)
  then show ?thesis
    by (simp add: Let_def rq.fold_set_get rq.fold_set_distinct split: option.split)
qed



end
