(* ===== verification/HttpResponse.thy ===== *)
theory HttpResponse
  imports Headers
begin

text \<open>
  \<^verbatim>\<open>http/HttpResponse.h\<close> and \<^verbatim>\<open>http/HttpResponse.cpp\<close>: the response object and its
  serialisation. \<^verbatim>\<open>stat\<close>, which \<^verbatim>\<open>setFile\<close> calls, is a parameter (the size of the file, or
  \<open>None\<close> when the call fails). Against the serialiser stands \<open>recv_response\<close>, a recipient
  written from the message format alone: the two are inverse on well-formed fields.
\<close>

section \<open>State and operations\<close>

record http_response =
  rs_statusCode :: int
  rs_statusMessage :: string
  rs_headers :: header_list
  rs_body :: string
  rs_keepAlive :: bool
  rs_chunked :: bool
  rs_isFile :: bool
  rs_filePath :: string
  rs_fileSize :: nat

definition response_new :: http_response where
  "response_new =
     \<lparr>rs_statusCode = 200, rs_statusMessage = ''OK'', rs_headers = [], rs_body = [],
      rs_keepAlive = False, rs_chunked = False, rs_isFile = False, rs_filePath = [],
      rs_fileSize = 0\<rparr>"

definition setStatusCode :: "int \<Rightarrow> http_response \<Rightarrow> http_response" where
  "setStatusCode c r = r\<lparr>rs_statusCode := c\<rparr>"

definition setStatusMessage :: "string \<Rightarrow> http_response \<Rightarrow> http_response" where
  "setStatusMessage m r = r\<lparr>rs_statusMessage := m\<rparr>"

definition addHeader :: "string \<Rightarrow> string \<Rightarrow> http_response \<Rightarrow> http_response" where
  "addHeader name v r = r\<lparr>rs_headers := hdr_set name v (rs_headers r)\<rparr>"

definition setContentType :: "string \<Rightarrow> http_response \<Rightarrow> http_response" where
  "setContentType t = addHeader ''Content-Type'' t"

definition resp_header :: "string \<Rightarrow> http_response \<Rightarrow> string" where
  "resp_header name r = hdr_get name (rs_headers r)"

definition setContentLength :: "nat \<Rightarrow> http_response \<Rightarrow> http_response" where
  "setContentLength len = addHeader ''Content-Length'' (nat_to_string len)"

text \<open>The length is computed in \<^verbatim>\<open>int64_t\<close> and converted to \<^verbatim>\<open>size_t\<close>.\<close>

definition setContentRange :: "int \<Rightarrow> int \<Rightarrow> int \<Rightarrow> http_response \<Rightarrow> http_response" where
  "setContentRange start end tot r =
     setContentLength (nat (to_unsigned 64 (end - start + 1)))
       (addHeader ''Content-Range''
          (''bytes '' @ int_to_string start @ ''-'' @ int_to_string end @ ''/'' @ int_to_string tot)
          (r\<lparr>rs_statusCode := 206, rs_statusMessage := ''Partial Content''\<rparr>))"

definition setBody :: "string \<Rightarrow> http_response \<Rightarrow> http_response" where
  "setBody b r = setContentLength (length b) (r\<lparr>rs_body := b\<rparr>)"

text \<open>The chain of comparisons of \<^verbatim>\<open>setFile\<close> on the lower-cased extension.\<close>

definition mime_of :: "string \<Rightarrow> string" where
  "mime_of ext =
     (if ext = ''.jpg'' \<or> ext = ''.jpeg'' then ''image/jpeg''
      else if ext = ''.png'' then ''image/png''
      else if ext = ''.gif'' then ''image/gif''
      else if ext = ''.webp'' then ''image/webp''
      else if ext = ''.bmp'' then ''image/bmp''
      else if ext = ''.html'' \<or> ext = ''.htm'' then ''text/html''
      else if ext = ''.txt'' then ''text/plain''
      else if ext = ''.css'' then ''text/css''
      else if ext = ''.js'' then ''application/javascript''
      else if ext = ''.json'' then ''application/json''
      else if ext = ''.pdf'' then ''application/pdf''
      else if ext = ''.zip'' then ''application/zip''
      else ''application/octet-stream'')"

definition setFile :: "(string \<Rightarrow> nat option) \<Rightarrow> string \<Rightarrow> http_response \<Rightarrow> bool \<times> http_response" where
  "setFile stat filePath r =
     (case stat filePath of
        None \<Rightarrow> (False, r\<lparr>rs_isFile := False, rs_statusCode := 404, rs_statusMessage := ''Not Found''\<rparr>)
      | Some sz \<Rightarrow>
          let r1 = setContentLength sz
                     (r\<lparr>rs_isFile := True, rs_filePath := filePath, rs_fileSize := sz\<rparr>)
          in (True,
              case rfind_char (CHR ''.'') filePath of
                None \<Rightarrow> r1
              | Some dot \<Rightarrow> setContentType (mime_of (map tolower (substr_from dot filePath))) r1))"

definition setKeepAlive :: "bool \<Rightarrow> http_response \<Rightarrow> http_response" where
  "setKeepAlive k r = r\<lparr>rs_keepAlive := k\<rparr>"

definition setChunked :: "bool \<Rightarrow> http_response \<Rightarrow> http_response" where
  "setChunked c r = r\<lparr>rs_chunked := c\<rparr>"

definition response_reset :: "http_response \<Rightarrow> http_response" where
  "response_reset r =
     r\<lparr>rs_statusCode := 200, rs_statusMessage := ''OK'', rs_keepAlive := False,
       rs_chunked := False, rs_headers := [], rs_body := [], rs_isFile := False,
       rs_filePath := [], rs_fileSize := 0\<rparr>"

section \<open>Serialisation\<close>

text \<open>\<^verbatim>\<open>printf("%zx")\<close>.\<close>

fun nat_to_hex :: "nat \<Rightarrow> string" where
  "nat_to_hex n = (if n < 16 then [hex_char n] else nat_to_hex (n div 16) @ [hex_char (n mod 16)])"

declare nat_to_hex.simps [simp del]

definition header_skipped :: "bool \<Rightarrow> string \<times> string \<Rightarrow> bool" where
  "header_skipped chunked h \<longleftrightarrow> chunked \<and> fst h = ''Content-Length''"

definition header_line :: "string \<times> string \<Rightarrow> string" where
  "header_line h = fst h @ '': '' @ snd h @ crlf"

definition build_headers :: "http_response \<Rightarrow> string" where
  "build_headers r =
     concat (map (\<lambda>h. if header_skipped (rs_chunked r) h then [] else header_line h) (rs_headers r))"

text \<open>The size passed to \<^verbatim>\<open>reserve\<close> before the string is built.\<close>

definition build_estimate :: "http_response \<Rightarrow> nat" where
  "build_estimate r =
     9 + length (int_to_string (rs_statusCode r)) + 1 + length (rs_statusMessage r) + 2 + 16
     + sum_list (map (\<lambda>h. if \<not> rs_chunked r \<or> fst h \<noteq> ''Content-Length''
                          then length (fst h) + length (snd h) + 4 else 0) (rs_headers r))
     + (if rs_chunked r \<and> rs_body r \<noteq> [] then length (rs_body r) + 64 else 0)
     + 2 + length (rs_body r)"

definition build :: "http_response \<Rightarrow> string" where
  "build r =
     ''HTTP/1.1 '' @ int_to_string (rs_statusCode r) @ '' '' @ rs_statusMessage r @ crlf
     @ ''Server: ezNet'' @ crlf
     @ build_headers r
     @ (if rs_chunked r \<and> rs_body r \<noteq> []
        then ''Transfer-Encoding: chunked'' @ crlf @ crlf
             @ nat_to_hex (length (rs_body r)) @ crlf
             @ rs_body r
             @ crlf @ ''0'' @ crlf @ crlf
        else crlf @ rs_body r)"

section \<open>Headers\<close>

interpretation rs: header_table rs_headers resp_header addHeader
  by unfold_locales (simp_all add: resp_header_def addHeader_def)

lemma response_reset_new [simp]: "response_reset r = response_new"
  by (simp add: response_reset_def response_new_def)

lemma addHeader_sel [simp]:
  "rs_statusCode (addHeader n v r) = rs_statusCode r"
  "rs_statusMessage (addHeader n v r) = rs_statusMessage r"
  "rs_body (addHeader n v r) = rs_body r"
  "rs_keepAlive (addHeader n v r) = rs_keepAlive r"
  "rs_chunked (addHeader n v r) = rs_chunked r"
  "rs_isFile (addHeader n v r) = rs_isFile r"
  "rs_filePath (addHeader n v r) = rs_filePath r"
  "rs_fileSize (addHeader n v r) = rs_fileSize r"
  by (simp_all add: addHeader_def)

lemma hdr_length_type_differ [simp]:
  "\<not> same_name ''Content-Length'' ''Content-Type''"
  "\<not> same_name ''Content-Type'' ''Content-Length''"
  "\<not> same_name ''Content-Range'' ''Content-Length''"
  "\<not> same_name ''Content-Length'' ''Content-Range''"
  "\<not> same_name ''Content-Range'' ''Content-Type''"
  "\<not> same_name ''Content-Type'' ''Content-Range''"
  by code_simp+


lemma addHeader_length_body:
  "resp_header ''Content-Length'' (setBody b r) = nat_to_string (length b)"
  by (simp add: setBody_def setContentLength_def rs.get_set)

lemma setBody_sel [simp]:
  "rs_body (setBody b r) = b"
  "rs_statusCode (setBody b r) = rs_statusCode r"
  "rs_statusMessage (setBody b r) = rs_statusMessage r"
  "rs_isFile (setBody b r) = rs_isFile r"
  "rs_chunked (setBody b r) = rs_chunked r"
  by (simp_all add: setBody_def setContentLength_def)

section \<open>The size estimate\<close>

lemma length_header_line [simp]: "length (header_line h) = length (fst h) + length (snd h) + 4"
  by (simp add: header_line_def)

lemma length_build_headers:
  "length (build_headers r) =
    sum_list (map (\<lambda>h. if \<not> rs_chunked r \<or> fst h \<noteq> ''Content-Length''
                        then length (fst h) + length (snd h) + 4 else 0) (rs_headers r))"
  unfolding build_headers_def length_concat map_map
  by (rule arg_cong [where f = sum_list], rule map_cong) (simp_all add: header_skipped_def)

lemma length_nat_to_hex: "0 < n \<Longrightarrow> length (nat_to_hex n) \<le> n"
proof (induction n rule: nat_to_hex.induct)
  case (1 n)
  show ?case
  proof (cases "n < 16")
    case True
    with 1 show ?thesis
      by (subst nat_to_hex.simps) simp
  next
    case False
    then have "length (nat_to_hex (n div 16)) \<le> n div 16"
      using 1 by auto
    moreover have "n div 16 + 1 \<le> n"
      using False by simp
    ultimately show ?thesis
      using False by (subst nat_to_hex.simps) simp
  qed
qed

lemma length_build_plain:
  "\<not> (rs_chunked r \<and> rs_body r \<noteq> []) \<Longrightarrow> length (build r) + 1 = build_estimate r"
  by (auto simp: build_def build_estimate_def length_build_headers)

lemma length_build_chunked:
  assumes "rs_chunked r" and "rs_body r \<noteq> []"
  shows "length (build r) \<le> build_estimate r"
  using assms length_nat_to_hex [of "length (rs_body r)"]
  by (simp add: build_def build_estimate_def length_build_headers)

section \<open>A recipient\<close>

text \<open>
  What a client makes of the bytes: a line ends at the first CRLF, a field line is split at
  its first colon and the space behind it, an empty line ends the header section.
\<close>

fun read_line :: "string \<Rightarrow> (string \<times> string) option" where
  "read_line (c # d # s) =
     (if c = CR \<and> d = LF then Some ([], s)
      else map_option (\<lambda>(l, rest). (c # l, rest)) (read_line (d # s)))"
| "read_line s = None"

lemma read_line_shorter: "read_line s = Some (l, rest) \<Longrightarrow> length rest < length s"
  by (induction s arbitrary: l rest rule: read_line.induct) (fastforce split: if_splits)+

definition field_of_line :: "string \<Rightarrow> (string \<times> string) option" where
  "field_of_line l =
     map_option (\<lambda>i. (take i l, drop (i + 2) l)) (index_of (\<lambda>c. c = CHR '':'') l)"

function read_fields :: "string \<Rightarrow> (header_list \<times> string) option" where
  "read_fields s =
     (case read_line s of
        None \<Rightarrow> None
      | Some (l, rest) \<Rightarrow>
          if l = [] then Some ([], rest)
          else (case field_of_line l of
                  None \<Rightarrow> None
                | Some h \<Rightarrow> map_option (\<lambda>(hs, body). (h # hs, body)) (read_fields rest)))"
  by pat_completeness auto
termination
  by (relation "measure length") (auto simp: read_line_shorter)

declare read_fields.simps [simp del]

definition hex_digit :: "char \<Rightarrow> nat" where
  "hex_digit c = (if isdigit c then code c - 48 else code c - 87)"

definition hex_value :: "string \<Rightarrow> nat" where
  "hex_value = foldl (\<lambda>acc c. 16 * acc + hex_digit c) 0"

function dechunk :: "string \<Rightarrow> string option" where
  "dechunk s =
     (case read_line s of
        None \<Rightarrow> None
      | Some (l, rest) \<Rightarrow>
          let n = hex_value l in
          if n = 0 then Some []
          else if n + 2 \<le> length rest \<and> take 2 (drop n rest) = crlf
          then map_option ((@) (take n rest)) (dechunk (drop (n + 2) rest))
          else None)"
  by pat_completeness auto
termination
  by (relation "measure length") (auto dest: read_line_shorter)

declare dechunk.simps [simp del]

definition recv_head :: "string \<Rightarrow> (string \<times> header_list \<times> string) option" where
  "recv_head s =
     (case read_line s of
        None \<Rightarrow> None
      | Some (status, rest) \<Rightarrow> map_option (\<lambda>(hs, body). (status, hs, body)) (read_fields rest))"

definition recv_response :: "string \<Rightarrow> (string \<times> header_list \<times> string) option" where
  "recv_response s =
     (case recv_head s of
        None \<Rightarrow> None
      | Some (status, hs, rest) \<Rightarrow>
          if hdr_get ''Transfer-Encoding'' hs = ''chunked''
          then map_option (\<lambda>body. (status, hs, body)) (dechunk rest)
          else if hdr_has ''Content-Length'' hs
          then (case strtol (hdr_get ''Content-Length'' hs) of
                  Some n \<Rightarrow> if nat n \<le> length rest then Some (status, hs, take (nat n) rest) else None
                | None \<Rightarrow> None)
          else Some (status, hs, rest))"

definition field_ok :: "string \<times> string \<Rightarrow> bool" where
  "field_ok h \<longleftrightarrow> fst h \<noteq> [] \<and> CHR '':'' \<notin> set (fst h) \<and> CR \<notin> set (fst h) \<and> CR \<notin> set (snd h)"

lemma read_line_crlf: "CR \<notin> set l \<Longrightarrow> read_line (l @ CR # LF # s) = Some (l, s)"
proof (induction l)
  case (Cons c l)
  then show ?case
    by (cases l) auto
qed simp

lemma field_of_header_line:
  "field_ok h \<Longrightarrow> field_of_line (fst h @ '': '' @ snd h) = Some h"
proof -
  assume ok: "field_ok h"
  then have "index_of (\<lambda>c. c = CHR '':'') (fst h @ CHR '':'' # CHR '' '' # snd h) = Some (length (fst h))"
    by (intro index_of_append_Cons) (auto simp: field_ok_def)
  then show ?thesis
    by (simp add: field_of_line_def)
qed

lemma read_fields_Nil [simp]: "read_fields (CR # LF # s) = Some ([], s)"
  by (subst read_fields.simps) simp

lemma read_fields_Cons:
  assumes "field_ok h"
  shows "read_fields (header_line h @ s) = map_option (\<lambda>(hs, body). (h # hs, body)) (read_fields s)"
proof -
  have cr: "CR \<notin> set (fst h @ '': '' @ snd h)"
    using assms by (simp add: field_ok_def)
  have "header_line h @ s = (fst h @ '': '' @ snd h) @ CR # LF # s"
    by (simp add: header_line_def)
  then have "read_line (header_line h @ s) = Some (fst h @ '': '' @ snd h, s)"
    using read_line_crlf [OF cr] by simp
  then show ?thesis
    using field_of_header_line [OF assms]
    by (subst read_fields.simps) (simp add: option.case_eq_if)
qed

lemma read_fields_concat:
  assumes "\<forall>h\<in>set hs. field_ok h"
  shows "read_fields (concat (map header_line hs) @ s) =
    map_option (\<lambda>(hs', body). (hs @ hs', body)) (read_fields s)"
  using assms
  by (induction hs) (auto simp: read_fields_Cons option.map_comp comp_def split_def option.map_ident)

lemma build_headers_filter:
  "build_headers r =
    concat (map header_line (filter (\<lambda>h. \<not> header_skipped (rs_chunked r) h) (rs_headers r)))"
proof -
  have "concat (map (\<lambda>h. if P h then [] else f h) hs) = concat (map f (filter (\<lambda>h. \<not> P h) hs))"
    for P and f :: "string \<times> string \<Rightarrow> string" and hs
    by (induction hs) simp_all
  then show ?thesis
    by (simp add: build_headers_def)
qed


section \<open>Round trips\<close>

definition status_line :: "http_response \<Rightarrow> string" where
  "status_line r = ''HTTP/1.1 '' @ int_to_string (rs_statusCode r) @ '' '' @ rs_statusMessage r"

definition server_field :: "string \<times> string" where
  "server_field = (''Server'', ''ezNet'')"

definition response_ok :: "http_response \<Rightarrow> bool" where
  "response_ok r \<longleftrightarrow> CR \<notin> set (rs_statusMessage r) \<and> (\<forall>h\<in>set (rs_headers r). field_ok h)
     \<and> \<not> hdr_has ''Transfer-Encoding'' (rs_headers r)"

lemma field_ok_server [simp]: "field_ok server_field"
  by (simp add: field_ok_def server_field_def)

lemma header_line_server: "header_line server_field = ''Server: ezNet'' @ crlf"
  by (simp add: header_line_def server_field_def)

lemma no_CR_nat_to_string [simp]: "CR \<notin> set (nat_to_string n)"
  using nat_to_string_digits [of n] by (auto simp: isdigit_def code_def)

lemma no_CR_status_line: "response_ok r \<Longrightarrow> CR \<notin> set (status_line r)"
  by (auto simp: status_line_def response_ok_def int_to_string_def)

definition sent_fields :: "http_response \<Rightarrow> header_list" where
  "sent_fields r =
     server_field # filter (\<lambda>h. \<not> header_skipped (rs_chunked r) h) (rs_headers r)
     @ (if rs_chunked r \<and> rs_body r \<noteq> [] then [(''Transfer-Encoding'', ''chunked'')] else [])"

definition sent_body :: "http_response \<Rightarrow> string" where
  "sent_body r =
     (if rs_chunked r \<and> rs_body r \<noteq> []
      then nat_to_hex (length (rs_body r)) @ crlf @ rs_body r @ crlf @ ''0'' @ crlf @ crlf
      else rs_body r)"

lemma build_structure:
  "build r = status_line r @ crlf @ concat (map header_line (sent_fields r)) @ crlf @ sent_body r"
  by (simp add: build_def build_headers_filter status_line_def sent_fields_def sent_body_def
      header_line_server) (simp add: header_line_def)

lemma recv_head_build:
  assumes "response_ok r"
  shows "recv_head (build r @ tail) = Some (status_line r, sent_fields r, sent_body r @ tail)"
proof -
  have "\<forall>h\<in>set (sent_fields r). field_ok h"
    using assms by (auto simp: sent_fields_def response_ok_def field_ok_def server_field_def)
  then have "read_fields (concat (map header_line (sent_fields r)) @ CR # LF # (sent_body r @ tail))
      = Some (sent_fields r, sent_body r @ tail)"
    by (simp add: read_fields_concat)
  then show ?thesis
    using read_line_crlf [OF no_CR_status_line [OF assms]]
    by (simp add: recv_head_def build_structure)
qed

lemma hex_digit_hex_char [simp]: "d < 16 \<Longrightarrow> hex_digit (hex_char d) = d"
  by (auto simp: hex_digit_def hex_char_def isdigit_def)

lemma hex_value_nat_to_hex: "hex_value (nat_to_hex n) = n"
  unfolding hex_value_def
proof (induction n rule: nat_to_hex.induct)
  case (1 n)
  then show ?case
    by (subst nat_to_hex.simps) auto
qed

lemma no_CR_hex_char: "d < 16 \<Longrightarrow> hex_char d \<noteq> CR"
  by (simp add: hex_char_def code_inject [symmetric] del: code_inject) (simp add: code_def)

lemma no_CR_nat_to_hex [simp]: "CR \<notin> set (nat_to_hex n)"
proof (induction n rule: nat_to_hex.induct)
  case (1 n)
  then show ?case
    using no_CR_hex_char [of n] no_CR_hex_char [of "n mod 16"]
    by (subst nat_to_hex.simps) auto
qed

lemma dechunk_sent_body:
  assumes "body \<noteq> []"
  shows "dechunk (nat_to_hex (length body) @ CR # LF # body @ CR # LF # CHR ''0'' # CR # LF # CR # LF # tail)
    = Some body"
proof -
  have end_chunk: "dechunk (CHR ''0'' # CR # LF # CR # LF # tail) = Some []"
    by (subst dechunk.simps) (simp add: hex_value_def hex_digit_def isdigit_def code_def)
  show ?thesis
    using assms end_chunk
    by (subst dechunk.simps) (simp add: read_line_crlf hex_value_nat_to_hex)
qed

lemma hdr_get_append:
  "hdr_get n (xs @ ys) = (if hdr_has n xs then hdr_get n xs else hdr_get n ys)"
  by (induction xs) auto

lemma hdr_has_append [simp]: "hdr_has n (xs @ ys) \<longleftrightarrow> hdr_has n xs \<or> hdr_has n ys"
  by (induction xs) auto

lemma hdr_has_filter: "hdr_has n (filter P xs) \<Longrightarrow> hdr_has n xs"
  by (induction xs) (auto split: if_splits)

lemma server_field_names [simp]:
  "\<not> same_name ''Server'' ''Content-Length''"
  "\<not> same_name ''Server'' ''Transfer-Encoding''"
  by code_simp+

lemma sent_fields_plain:
  "\<not> rs_chunked r \<Longrightarrow> sent_fields r = server_field # rs_headers r"
  by (simp add: sent_fields_def header_skipped_def)

lemma hdr_has_server [simp]:
  "hdr_has ''Content-Length'' (server_field # hs) = hdr_has ''Content-Length'' hs"
  by (simp add: server_field_def)

lemma hdr_get_server [simp]:
  "hdr_get ''Content-Length'' (server_field # hs) = hdr_get ''Content-Length'' hs"
  "hdr_get ''Transfer-Encoding'' (server_field # hs) = hdr_get ''Transfer-Encoding'' hs"
  by (simp_all add: server_field_def)

lemma recv_build_plain:
  assumes ok: "response_ok r" and plain: "\<not> rs_chunked r"
    and len: "resp_header ''Content-Length'' r = nat_to_string (length (rs_body r))"
  shows "recv_response (build r @ tail) = Some (status_line r, server_field # rs_headers r, rs_body r)"
proof -
  have te: "hdr_get ''Transfer-Encoding'' (rs_headers r) = []"
    using ok by (simp add: hdr_get_none response_ok_def)
  have "hdr_has ''Content-Length'' (rs_headers r)"
    using len hdr_get_none [of "''Content-Length''" "rs_headers r"] by (auto simp: resp_header_def)
  moreover have "strtol (hdr_get ''Content-Length'' (rs_headers r)) = Some (int (length (rs_body r)))"
    using strtol_nat_to_string [of "[]"] len by (simp add: resp_header_def)
  ultimately show ?thesis
    using recv_head_build [OF ok, of tail] te plain
    by (simp add: recv_response_def sent_fields_plain sent_body_def)
qed

lemma recv_build_chunked:
  assumes ok: "response_ok r" and ch: "rs_chunked r" and body: "rs_body r \<noteq> []"
  shows "\<exists>hs. recv_response (build r @ tail) = Some (status_line r, hs, rs_body r)"
proof -
  have "\<not> hdr_has ''Transfer-Encoding'' (filter (\<lambda>h. \<not> header_skipped (rs_chunked r) h) (rs_headers r))"
    using ok by (auto simp: response_ok_def dest: hdr_has_filter)
  then have "hdr_get ''Transfer-Encoding'' (sent_fields r) = ''chunked''"
    using ch body by (simp add: sent_fields_def hdr_get_append)
  then show ?thesis
    using recv_head_build [OF ok, of tail] dechunk_sent_body [OF body] ch body
    by (simp add: recv_response_def sent_body_def)
qed

lemma hdr_set_member:
  "(k, w) \<in> set (hdr_set n v hs) \<Longrightarrow> (k, w) \<in> set hs \<or> w = v \<and> (k = n \<or> (\<exists>u. (k, u) \<in> set hs))"
  by (induction hs) (auto split: if_splits)

lemma field_ok_hdr_set:
  assumes hs: "\<forall>h\<in>set hs. field_ok h" and new: "field_ok (n, v)"
  shows "\<forall>h\<in>set (hdr_set n v hs). field_ok h"
proof
  fix h
  assume h: "h \<in> set (hdr_set n v hs)"
  obtain k w where kw: "h = (k, w)"
    by (cases h)
  have old: "field_ok (k, u)" if "(k, u) \<in> set hs" for u
    using hs that by blast
  consider "(k, w) \<in> set hs" | "w = v" "k = n" | u where "w = v" "(k, u) \<in> set hs"
    using hdr_set_member [of k w n v hs] h kw by blast
  then show "field_ok h"
    using old new kw by cases (auto simp: field_ok_def)
qed

lemma response_ok_setContentLength:
  assumes "response_ok r"
  shows "response_ok (setContentLength n r)"
proof -
  have "\<not> same_name ''Content-Length'' ''Transfer-Encoding''"
    by code_simp
  with assms field_ok_hdr_set [of "rs_headers r" "''Content-Length''" "nat_to_string n"]
  show ?thesis
    by (simp add: response_ok_def setContentLength_def addHeader_def hdr_has_set)
       (simp add: field_ok_def)
qed

lemma unset_length:
  "\<not> hdr_has ''Content-Length'' hs \<Longrightarrow>
   \<not> hdr_has ''Content-Length''
      (filter (\<lambda>h. \<not> header_skipped True h) (hdr_set ''Content-Length'' v hs))"
  by (induction hs) (auto simp: header_skipped_def split: if_splits)

section \<open>Properties\<close>



text \<open>
  The size passed to \<^verbatim>\<open>reserve\<close> is enough for the serialised response, so building it
  never reallocates; without a chunked body it is one byte tail than the response (the
  comment says exact).
\<close>

theorem build_fits_estimate:
  "length (build r) \<le> build_estimate r
   \<and> (\<not> (rs_chunked r \<and> rs_body r \<noteq> []) \<longrightarrow> build_estimate r = length (build r) + 1)"
  using length_build_plain [of r] length_build_chunked [of r] by (metis Suc_eq_plus1 le_SucI order_refl)

theorem build_fits_estimate_witness:
  "build_estimate (setBody ''Hello'' response_new) = length (build (setBody ''Hello'' response_new)) + 1"
  using build_fits_estimate [of "setBody ''Hello'' response_new"]
  by (simp add: response_new_def)

text \<open>
  A chunked response whose body is empty carries no framing at all: \<^verbatim>\<open>build\<close> drops the
  \<^verbatim>\<open>Content-Length\<close> field and adds no \<^verbatim>\<open>Transfer-Encoding\<close>, so the recipient takes every
  byte that follows on the connection, up to its close, for the body of this response.
\<close>

theorem empty_chunked_unframed:
  assumes "response_ok r" and "rs_chunked r" and "\<not> hdr_has ''Content-Length'' (rs_headers r)"
  shows "\<exists>hs. recv_response (build (setBody [] r) @ following) = Some (status_line r, hs, following)"
proof -
  let ?r = "setBody [] r"
  have ok: "response_ok ?r"
    using assms(1) response_ok_setContentLength [of "r\<lparr>rs_body := []\<rparr>"]
    by (simp add: setBody_def response_ok_def)
  have names: "\<not> hdr_has ''Content-Length'' (filter (\<lambda>h. \<not> header_skipped True h) (rs_headers ?r))"
    using assms(3) by (simp add: setBody_def setContentLength_def addHeader_def unset_length)
  have te: "\<not> hdr_has ''Transfer-Encoding'' (filter (\<lambda>h. \<not> header_skipped True h) (rs_headers ?r))"
    using ok by (auto simp: response_ok_def dest: hdr_has_filter)
  have fields: "sent_fields ?r = server_field # filter (\<lambda>h. \<not> header_skipped True h) (rs_headers ?r)"
    using assms(2) by (simp add: sent_fields_def)
  have "\<not> hdr_has ''Content-Length'' (sent_fields ?r)"
    and "hdr_get ''Transfer-Encoding'' (sent_fields ?r) = []"
    unfolding fields using names hdr_get_none [OF te] by (simp_all add: server_field_def)
  moreover have "sent_body ?r @ following = following" and "status_line ?r = status_line r"
    by (simp_all add: sent_body_def status_line_def)
  ultimately show ?thesis
    using recv_head_build [OF ok, of following] by (simp add: recv_response_def)
qed

theorem empty_chunked_unframed_witness:
  "\<exists>hs. recv_response (build (setBody [] (setChunked True response_new)) @ ''HTTP/1.1 200 OK'')
     = Some (status_line (setChunked True response_new), hs, ''HTTP/1.1 200 OK'')"
  by (rule empty_chunked_unframed) (simp_all add: setChunked_def response_new_def response_ok_def)

end
