(* ===== verification/Router.thy ===== *)
theory Router
  imports HttpRequest
begin

text \<open>
  \<^verbatim>\<open>http/Router.h\<close> and \<^verbatim>\<open>http/Router.cpp\<close>: percent decoding, splitting a path into
  segments, and the tree of routes with literal children and one parameter child per node.
  The abstract view of a tree is a table from route shapes (literal or wildcard segments)
  to handlers: adding a route updates the table at one shape, and matching returns the
  handler of the first shape, literal before wildcard at every segment, that the table
  holds. The handler type is a parameter.
\<close>

section \<open>Percent decoding\<close>

definition hexToVal :: "char \<Rightarrow> nat" where
  "hexToVal c =
     (if 48 \<le> code c \<and> code c \<le> 57 then code c - 48
      else if 97 \<le> code c \<and> code c \<le> 102 then code c - 97 + 10
      else if 65 \<le> code c \<and> code c \<le> 70 then code c - 65 + 10
      else 0)"

fun urlDecode :: "string \<Rightarrow> string" where
  "urlDecode (c # a # b # rest) =
     (if c = CHR ''%'' \<and> isxdigit a \<and> isxdigit b
      then char_of (16 * hexToVal a + hexToVal b) # urlDecode rest
      else (if c = CHR ''+'' then CHR '' '' else c) # urlDecode (a # b # rest))"
| "urlDecode (c # rest) = (if c = CHR ''+'' then CHR '' '' else c) # urlDecode rest"
| "urlDecode [] = []"

section \<open>Splitting a path\<close>

function splitPath_loop :: "string \<Rightarrow> nat \<Rightarrow> string list" where
  "splitPath_loop path start =
     (if start < length path then
        (case find_char (CHR ''/'') path start of
           None \<Rightarrow> [substr_from start path]
         | Some end \<Rightarrow>
             (if start < end then [substr start (end - start) path] else [])
             @ splitPath_loop path (end + 1))
      else [])"
  by pat_completeness auto
termination
  by (relation "measure (\<lambda>(path, start). length path - start)")
     (auto dest: find_char_SomeD)

declare splitPath_loop.simps [simp del]

definition splitPath :: "string \<Rightarrow> string list" where
  "splitPath path = (if path = [] \<or> path ! 0 \<noteq> CHR ''/'' then [] else splitPath_loop path 1)"

section \<open>The tree of routes\<close>

datatype 'h node =
  RadixNode (segment: string) (children: "string \<Rightarrow> 'h node option")
    (paramChild: "'h node option") (handler: "'h option")

definition node_new :: "string \<Rightarrow> 'h node" where
  "node_new seg = RadixNode seg Map.empty None None"

text \<open>The body of \<^verbatim>\<open>addRoute\<close> below the method's root.\<close>

fun add_at :: "string list \<Rightarrow> 'h \<Rightarrow> 'h node \<Rightarrow> 'h node" where
  "add_at [] h (RadixNode s ch p old) = RadixNode s ch p (Some h)"
| "add_at (seg # segs) h (RadixNode s ch p old) =
     (if seg = [] then add_at segs h (RadixNode s ch p old)
      else if hd seg = CHR '':'' then
        RadixNode s ch
          (Some (add_at segs h (case p of None \<Rightarrow> node_new (tl seg) | Some q \<Rightarrow> q))) old
      else
        RadixNode s
          (ch(seg \<mapsto> add_at segs h (case ch seg of None \<Rightarrow> node_new seg | Some c \<Rightarrow> c))) p old)"

record 'h router =
  methodRoots :: "string \<Rightarrow> 'h node option"
  defaultHandler :: "'h option"

definition router_new :: "'h router" where
  "router_new = \<lparr>methodRoots = Map.empty, defaultHandler = None\<rparr>"

definition addRoute :: "string \<Rightarrow> string \<Rightarrow> 'h \<Rightarrow> 'h router \<Rightarrow> 'h router" where
  "addRoute m path h r =
     (let root = (case methodRoots r m of None \<Rightarrow> node_new [] | Some n \<Rightarrow> n)
      in r\<lparr>methodRoots := (methodRoots r)(m \<mapsto> add_at (splitPath path) h root)\<rparr>)"

definition setDefaultHandler :: "'h \<Rightarrow> 'h router \<Rightarrow> 'h router" where
  "setDefaultHandler h r = r\<lparr>defaultHandler := Some h\<rparr>"

text \<open>
  \<^verbatim>\<open>match\<close>: the request is threaded through, because the parameter branch stores a path
  parameter in it before it descends and a failing branch does not take it back. The
  handler to call is the result; \<^verbatim>\<open>true\<close> is \<open>Some\<close>.
\<close>

fun match_node :: "'h node \<Rightarrow> string list \<Rightarrow> http_request \<Rightarrow> http_request \<times> 'h option" where
  "match_node (RadixNode s ch p h) [] req = (req, h)"
| "match_node (RadixNode s ch p h) (seg # segs) req =
     (let (req1, r1) = (case ch seg of None \<Rightarrow> (req, None) | Some c \<Rightarrow> match_node c segs req)
      in if r1 \<noteq> None then (req1, r1)
         else case p of
                None \<Rightarrow> (req1, None)
              | Some q \<Rightarrow> match_node q segs (setPathParam (segment q) (urlDecode seg) req1))"

text \<open>\<^verbatim>\<open>route\<close>: the request the handler gets and the handler, \<open>None\<close> for \<^verbatim>\<open>false\<close>.\<close>

definition route :: "'h router \<Rightarrow> http_request \<Rightarrow> http_request \<times> 'h option" where
  "route r req =
     (let (req1, found) =
            (case methodRoots r (rq_method req) of
               None \<Rightarrow> (req, None)
             | Some root \<Rightarrow>
                 match_node root (splitPath (rq_path req)) (req\<lparr>rq_pathParams := Map.empty\<rparr>))
      in if found \<noteq> None then (req1, found) else (req1, defaultHandler r))"

section \<open>Splitting: the reference\<close>

text \<open>The segments of a path are the non-empty pieces between slashes.\<close>

fun pieces :: "string \<Rightarrow> string \<Rightarrow> string list" where
  "pieces acc [] = [rev acc]"
| "pieces acc (c # cs) = (if c = CHR ''/'' then rev acc # pieces [] cs else pieces (c # acc) cs)"

definition segments_of :: "string \<Rightarrow> string list" where
  "segments_of s = filter (\<lambda>p. p \<noteq> []) (pieces [] s)"

lemma pieces_no_slash: "CHR ''/'' \<notin> set s \<Longrightarrow> pieces acc s = [rev acc @ s]"
  by (induction s arbitrary: acc) auto

lemma pieces_slash:
  "CHR ''/'' \<notin> set xs \<Longrightarrow> pieces acc (xs @ CHR ''/'' # ys) = (rev acc @ xs) # pieces [] ys"
  by (induction xs arbitrary: acc) auto

lemma segments_of_Nil [simp]: "segments_of [] = []"
  by (simp add: segments_of_def)

lemma splitPath_loop_segments: "splitPath_loop path start = segments_of (drop start path)"
proof (induction path start rule: splitPath_loop.induct)
  case (1 path start)
  show ?case
  proof (cases "start < length path")
    case False
    then show ?thesis
      by (subst splitPath_loop.simps) simp
  next
    case inside: True
    show ?thesis
    proof (cases "find_char (CHR ''/'') path start")
      case None
      then have "CHR ''/'' \<notin> set (drop start path)"
        by (simp add: find_char_None)
      then show ?thesis
        using inside None
        by (subst splitPath_loop.simps) (simp add: segments_of_def pieces_no_slash substr_from_def)
    next
      case (Some e)
      note e = find_char_SomeD [OF Some]
      have "drop start path = take (e - start) (drop start path) @ CHR ''/'' # drop (e + 1) path"
        using e by (metis Cons_nth_drop_Suc Suc_eq_plus1 append_take_drop_id drop_drop le_add_diff_inverse2)
      then have "pieces [] (drop start path)
          = take (e - start) (drop start path) # pieces [] (drop (e + 1) path)"
        using e(4) by (metis append_Nil pieces_slash rev.simps(1))
      then show ?thesis
        using inside Some e(1) e(2) 1(1) [OF inside Some]
        by (subst splitPath_loop.simps) (auto simp: segments_of_def substr_def)
    qed
  qed
qed

lemma splitPath_segments:
  "splitPath path = (if path \<noteq> [] \<and> hd path = CHR ''/'' then segments_of (tl path) else [])"
  by (cases path) (simp_all add: splitPath_def splitPath_loop_segments)

lemma pieces_no_slash_inside:
  "CHR ''/'' \<notin> set acc \<Longrightarrow> p \<in> set (pieces acc s) \<Longrightarrow> CHR ''/'' \<notin> set p"
  by (induction acc s rule: pieces.induct) (auto split: if_splits)

lemma splitPath_wf: "seg \<in> set (splitPath path) \<Longrightarrow> seg \<noteq> [] \<and> CHR ''/'' \<notin> set seg"
  by (auto simp: splitPath_segments segments_of_def split: if_splits dest: pieces_no_slash_inside [rotated])

definition join_path :: "string list \<Rightarrow> string" where
  "join_path segs = concat (map (\<lambda>s. CHR ''/'' # s) segs)"

lemma segments_of_join:
  "(\<forall>s\<in>set segs. s \<noteq> [] \<and> CHR ''/'' \<notin> set s) \<Longrightarrow> CHR ''/'' \<notin> set s0 \<Longrightarrow> s0 \<noteq> [] \<Longrightarrow>
   segments_of (s0 @ join_path segs) = s0 # segs"
proof (induction segs arbitrary: s0)
  case Nil
  then show ?case
    by (simp add: segments_of_def join_path_def pieces_no_slash)
next
  case (Cons s segs)
  then have "segments_of (s @ join_path segs) = s # segs"
    by simp
  with Cons.prems show ?case
    by (simp add: segments_of_def join_path_def pieces_slash)
qed

lemma splitPath_join:
  "(\<forall>s\<in>set segs. s \<noteq> [] \<and> CHR ''/'' \<notin> set s) \<Longrightarrow> splitPath (join_path segs) = segs"
  using segments_of_join [of "tl segs" "hd segs"]
  by (cases segs) (auto simp: splitPath_segments join_path_def)

section \<open>The table of a tree\<close>

datatype pat = Lit string | Wild

fun shape :: "string list \<Rightarrow> pat list" where
  "shape [] = []"
| "shape (seg # segs) =
     (if seg = [] then shape segs
      else (if hd seg = CHR '':'' then Wild else Lit seg) # shape segs)"

fun node_table :: "'h node \<Rightarrow> pat list \<Rightarrow> 'h option" where
  "node_table (RadixNode s ch p h) [] = h"
| "node_table (RadixNode s ch p h) (Lit x # ps) =
     (case ch x of None \<Rightarrow> None | Some c \<Rightarrow> node_table c ps)"
| "node_table (RadixNode s ch p h) (Wild # ps) =
     (case p of None \<Rightarrow> None | Some q \<Rightarrow> node_table q ps)"

lemma node_table_new [simp]: "node_table (node_new s) ps = None"
  by (cases ps; cases "hd ps") (auto simp: node_new_def)

lemma node_table_add_at_apply:
  "node_table (add_at segs h n) ps = (if ps = shape segs then Some h else node_table n ps)"
proof (induction segs arbitrary: n ps)
  case Nil
  show ?case
    by (cases n; cases ps; cases "hd ps") auto
next
  case (Cons seg segs)
  show ?case
  proof (cases ps)
    case Nil
    then show ?thesis
      by (cases n) (auto simp: Cons.IH)
  next
    case (Cons x ps')
    then show ?thesis
      by (cases n; cases x) (auto simp: Cons.IH split: option.splits)
  qed
qed

lemma node_table_add_at: "node_table (add_at segs h n) = (node_table n)(shape segs \<mapsto> h)"
  by (rule ext) (simp add: node_table_add_at_apply)

text \<open>The shapes a path can match, in the order the search prefers them.\<close>

fun shapes :: "string list \<Rightarrow> pat list list" where
  "shapes [] = [[]]"
| "shapes (seg # segs) = map ((#) (Lit seg)) (shapes segs) @ map ((#) Wild) (shapes segs)"

fun first_some :: "('a \<Rightarrow> 'b option) \<Rightarrow> 'a list \<Rightarrow> 'b option" where
  "first_some f [] = None"
| "first_some f (x # xs) = (case f x of None \<Rightarrow> first_some f xs | Some y \<Rightarrow> Some y)"

lemma first_some_append [simp]:
  "first_some f (xs @ ys) = (case first_some f xs of None \<Rightarrow> first_some f ys | Some y \<Rightarrow> Some y)"
  by (induction xs) (auto split: option.split)

lemma first_some_map [simp]: "first_some f (map g xs) = first_some (\<lambda>x. f (g x)) xs"
  by (induction xs) (auto split: option.split)

lemma first_some_None [simp]: "first_some (\<lambda>x. None) xs = None"
  by (induction xs) auto

lemma first_some_SomeD: "first_some f xs = Some y \<Longrightarrow> \<exists>x\<in>set xs. f x = Some y"
  by (induction xs) (auto split: option.splits)

lemma match_node_selects:
  "snd (match_node n segs req) = first_some (node_table n) (shapes segs)"
proof (induction segs arbitrary: n req)
  case Nil
  show ?case
    by (cases n) (auto split: option.split)
next
  case (Cons seg segs)
  obtain s ch p h where n: "n = RadixNode s ch p h"
    by (cases n)
  show ?case
    unfolding n
    by (cases "ch seg"; cases p) (auto simp: Cons.IH split: prod.split option.split dest: arg_cong [where f = snd])
qed

section \<open>The interface\<close>

definition routes :: "'h router \<Rightarrow> string \<Rightarrow> pat list \<Rightarrow> 'h option" where
  "routes r m ps = (case methodRoots r m of None \<Rightarrow> None | Some n \<Rightarrow> node_table n ps)"

definition selected :: "'h router \<Rightarrow> http_request \<Rightarrow> 'h option" where
  "selected r req = snd (route r req)"

type_synonym 'h registration = "string \<times> string \<times> 'h"

definition last_registered ::
    "'h registration list \<Rightarrow> string \<Rightarrow> pat list \<Rightarrow> 'h option" where
  "last_registered regs m ps =
     first_some (\<lambda>(m', path, h). if m' = m \<and> shape (splitPath path) = ps then Some h else None) (rev regs)"

definition register_all ::
    "(string \<Rightarrow> string \<Rightarrow> 'h \<Rightarrow> 'r \<Rightarrow> 'r) \<Rightarrow> 'h registration list \<Rightarrow> 'r \<Rightarrow> 'r" where
  "register_all add regs r = fold (\<lambda>(m, path, h). add m path h) regs r"

locale route_table =
  fixes table :: "'r \<Rightarrow> string \<Rightarrow> pat list \<Rightarrow> 'h option"
    and fallback :: "'r \<Rightarrow> 'h option"
    and add :: "string \<Rightarrow> string \<Rightarrow> 'h \<Rightarrow> 'r \<Rightarrow> 'r"
    and select :: "'r \<Rightarrow> http_request \<Rightarrow> 'h option"
  assumes table_add:
      "table (add m path h r) = (table r)(m := (table r m)(shape (splitPath path) \<mapsto> h))"
    and fallback_add: "fallback (add m path h r) = fallback r"
    and select_table:
      "select r req =
        (case first_some (table r (rq_method req)) (shapes (splitPath (rq_path req))) of
           None \<Rightarrow> fallback r | Some h \<Rightarrow> Some h)"
begin

lemma table_register_all:
  "table (register_all add regs r) m ps =
    (case last_registered regs m ps of None \<Rightarrow> table r m ps | Some h \<Rightarrow> Some h)"
proof (induction regs rule: rev_induct)
  case Nil
  show ?case
    by (simp add: register_all_def last_registered_def)
next
  case (snoc reg regs)
  then show ?case
    by (cases reg) (auto simp: register_all_def last_registered_def table_add split: option.split)
qed

lemma fallback_register_all: "fallback (register_all add regs r) = fallback r"
  unfolding register_all_def
  by (induction regs arbitrary: r) (auto simp: fallback_add)

lemma select_register_all:
  assumes "\<And>m ps. table r m ps = None"
  shows "select (register_all add regs r) req =
    (case first_some (last_registered regs (rq_method req)) (shapes (splitPath (rq_path req))) of
       None \<Rightarrow> fallback r | Some h \<Rightarrow> Some h)"
proof -
  have "table (register_all add regs r) (rq_method req) = last_registered regs (rq_method req)"
    by (rule ext) (simp add: table_register_all assms split: option.split)
  then show ?thesis
    by (simp add: select_table fallback_register_all split: option.split)
qed

end

interpretation rt: route_table routes defaultHandler addRoute selected
proof unfold_locales
  show "routes (addRoute m path h r) = (routes r)(m := (routes r m)(shape (splitPath path) \<mapsto> h))"
    for m path h and r :: "'h router"
    by (rule ext, rule ext)
       (auto simp: routes_def addRoute_def node_table_add_at split: option.split)
  show "defaultHandler (addRoute m path h r) = defaultHandler r" for m path h and r :: "'h router"
    by (simp add: addRoute_def)
  show "selected r req =
      (case first_some (routes r (rq_method req)) (shapes (splitPath (rq_path req))) of
         None \<Rightarrow> defaultHandler r | Some h \<Rightarrow> Some h)" for r :: "'h router" and req
  proof (cases "methodRoots r (rq_method req)")
    case None
    then have "routes r (rq_method req) = (\<lambda>ps. None)"
      by (auto simp: routes_def)
    with None show ?thesis
      by (simp add: selected_def route_def)
  next
    case (Some n)
    then have "routes r (rq_method req) = node_table n"
      by (auto simp: routes_def)
    moreover obtain req1 found where m:
      "match_node n (splitPath (rq_path req)) (req\<lparr>rq_pathParams := Map.empty\<rparr>) = (req1, found)"
      by (cases "match_node n (splitPath (rq_path req)) (req\<lparr>rq_pathParams := Map.empty\<rparr>)")
    moreover have "found = first_some (node_table n) (shapes (splitPath (rq_path req)))"
      using match_node_selects [of n "splitPath (rq_path req)" "req\<lparr>rq_pathParams := Map.empty\<rparr>"] m
      by simp
    ultimately show ?thesis
      using Some by (simp add: selected_def route_def split: option.split)
  qed
qed

section \<open>Percent decoding undoes percent encoding\<close>

definition percent_encode :: "(char \<Rightarrow> bool) \<Rightarrow> string \<Rightarrow> string" where
  "percent_encode safe s =
     concat (map (\<lambda>c. if safe c then [c]
                      else [CHR ''%'', hex_char (code c div 16), hex_char (code c mod 16)]) s)"

lemma urlDecode_plain:
  "c \<noteq> CHR ''%'' \<Longrightarrow> urlDecode (c # rest) = (if c = CHR ''+'' then CHR '' '' else c) # urlDecode rest"
  by (cases rest; cases "tl rest") auto

lemma isxdigit_hex_char: "d < 16 \<Longrightarrow> isxdigit (hex_char d)"
  by (auto simp: isxdigit_def isdigit_def hex_char_def)

lemma hexToVal_hex_char: "d < 16 \<Longrightarrow> hexToVal (hex_char d) = d"
  by (auto simp: hexToVal_def hex_char_def)

lemma urlDecode_percent_encode:
  assumes "\<not> safe (CHR ''%'')" and "\<not> safe (CHR ''+'')"
  shows "urlDecode (percent_encode safe s) = s"
proof (induction s)
  case (Cons c s)
  show ?case
  proof (cases "safe c")
    case True
    with assms have "c \<noteq> CHR ''%''" "c \<noteq> CHR ''+''"
      by auto
    with True Cons show ?thesis
      by (simp add: percent_encode_def urlDecode_plain)
  next
    case False
    have "code c div 16 < 16" "code c mod 16 < 16" "16 * (code c div 16) + code c mod 16 = code c"
      by (simp_all add: less_mult_imp_div_less)
    with False Cons show ?thesis
      by (simp add: percent_encode_def isxdigit_hex_char hexToVal_hex_char)
  qed
qed (simp add: percent_encode_def)

section \<open>Path parameters\<close>

text \<open>The parameter names on the way to a shape, and what they are bound to by a path.\<close>

fun names :: "'h node \<Rightarrow> pat list \<Rightarrow> string list" where
  "names (RadixNode s ch p h) [] = []"
| "names (RadixNode s ch p h) (Lit x # ps) = (case ch x of None \<Rightarrow> [] | Some c \<Rightarrow> names c ps)"
| "names (RadixNode s ch p h) (Wild # ps) = (case p of None \<Rightarrow> [] | Some q \<Rightarrow> segment q # names q ps)"

fun bindings :: "'h node \<Rightarrow> pat list \<Rightarrow> string list \<Rightarrow> (string \<times> string) list" where
  "bindings (RadixNode s ch p h) (Lit x # ps) (seg # segs) =
     (case ch x of None \<Rightarrow> [] | Some c \<Rightarrow> bindings c ps segs)"
| "bindings (RadixNode s ch p h) (Wild # ps) (seg # segs) =
     (case p of None \<Rightarrow> [] | Some q \<Rightarrow> (segment q, urlDecode seg) # bindings q ps segs)"
| "bindings n ps segs = []"

definition reuses_no_name :: "'h node \<Rightarrow> bool" where
  "reuses_no_name n \<longleftrightarrow> (\<forall>ps. distinct (names n ps))"

lemma reuses_no_name_Lit:
  "reuses_no_name (RadixNode s ch p h) \<Longrightarrow> ch x = Some c \<Longrightarrow> reuses_no_name c"
  unfolding reuses_no_name_def
proof
  fix ps
  assume "\<forall>ps. distinct (names (RadixNode s ch p h) ps)" and "ch x = Some c"
  then show "distinct (names c ps)"
    by (auto dest: spec [where x = "Lit x # ps"])
qed

lemma reuses_no_name_Wild:
  assumes "reuses_no_name (RadixNode s ch (Some q) h)"
  shows "reuses_no_name q" and "segment q \<notin> set (names q ps)"
proof -
  have "distinct (segment q # names q ps)" for ps
    using spec [OF assms [unfolded reuses_no_name_def], of "Wild # ps"] by simp
  then show "reuses_no_name q" "segment q \<notin> set (names q ps)"
    by (simp_all add: reuses_no_name_def)
qed

text \<open>A search changes only parameters named below its node.\<close>

lemma match_node_frame:
  "(\<And>ps. k \<notin> set (names n ps)) \<Longrightarrow>
   rq_pathParams (fst (match_node n segs req)) k = rq_pathParams req k"
proof (induction segs arbitrary: n req)
  case Nil
  then show ?case
    by (cases n) simp
next
  case (Cons seg segs)
  obtain s ch p h where n: "n = RadixNode s ch p h"
    by (cases n)
  have lit: "rq_pathParams (fst (match_node c segs r)) k = rq_pathParams r k" if "ch seg = Some c" for c r
    using Cons.prems [of "Lit seg # _"] that by (intro Cons.IH) (simp add: n)
  have wild: "k \<noteq> segment q \<and> rq_pathParams (fst (match_node q segs r)) k = rq_pathParams r k"
    if "p = Some q" for q r
    using Cons.prems [of "Wild # _"] that by (intro conjI Cons.IH) (simp_all add: n)
  show ?case
    unfolding n using lit wild
    by (auto simp: setPathParam_def split: option.split prod.split)
       (metis fst_conv)+
qed

lemma match_node_binds:
  assumes "reuses_no_name n" and "match_node n segs req = (req', Some h)"
  shows "\<exists>ps\<in>set (shapes segs). node_table n ps = Some h \<and>
    (\<forall>(k, v)\<in>set (bindings n ps segs). rq_pathParams req' k = Some v)"
  using assms
proof (induction segs arbitrary: n req)
  case Nil
  then show ?case
    by (cases n) auto
next
  case (Cons seg segs)
  obtain s ch p h0 where n: "n = RadixNode s ch p h0"
    by (cases n)
  define lit where "lit = (case ch seg of None \<Rightarrow> (req, None) | Some c \<Rightarrow> match_node c segs req)"
  show ?case
  proof (cases "snd lit")
    case (Some h1)
    then obtain c where c: "ch seg = Some c" and m: "match_node c segs req = (req', Some h)"
      using Cons.prems(2) by (auto simp: n lit_def split: option.splits prod.splits)
    from Cons.IH [OF _ m] reuses_no_name_Lit [of s ch p h0 seg c] Cons.prems(1) c
    obtain ps where "ps \<in> set (shapes segs)" "node_table c ps = Some h"
      "\<forall>(k, v)\<in>set (bindings c ps segs). rq_pathParams req' k = Some v"
      by (auto simp: n)
    then show ?thesis
      using c by (intro bexI [of _ "Lit seg # ps"]) (auto simp: n)
  next
    case None
    then obtain q where q: "p = Some q"
      and m: "match_node q segs (setPathParam (segment q) (urlDecode seg) (fst lit)) = (req', Some h)"
      using Cons.prems(2) by (auto simp: n lit_def split: option.splits prod.splits)
    note uniq = reuses_no_name_Wild [OF Cons.prems(1) [unfolded n q]]
    from Cons.IH [OF uniq(1) m]
    obtain ps where ps: "ps \<in> set (shapes segs)" "node_table q ps = Some h"
      "\<forall>(k, v)\<in>set (bindings q ps segs). rq_pathParams req' k = Some v"
      by auto
    have "rq_pathParams req' (segment q) = Some (urlDecode seg)"
      using match_node_frame [OF uniq(2), of segs "setPathParam (segment q) (urlDecode seg) (fst lit)"] m
      by (simp add: setPathParam_def)
    with ps q show ?thesis
      by (intro bexI [of _ "Wild # ps"]) (auto simp: n)
  qed
qed

section \<open>Properties\<close>

text \<open>
  C13: routing implements its specification. For every list of registrations, the handler
  \<^verbatim>\<open>route\<close> calls is the one registered last for the first shape, literal preferred over
  parameter from the left, that the path matches and that has a registration for the
  method; without one it is the default handler (none in a fresh router). Backtracking out
  of a literal branch that leads nowhere is part of this.
\<close>

theorem route_selects_best:
  "snd (route (register_all addRoute regs router_new) req) =
    first_some (last_registered regs (rq_method req)) (shapes (splitPath (rq_path req)))"
proof -
  have "routes router_new m ps = None" for m ps
    by (simp add: routes_def router_new_def)
  from rt.select_register_all [OF this, of regs req] show ?thesis
    by (simp add: selected_def router_new_def split: option.splits)
qed

text \<open>
  The handler that is found sees, for every parameter segment of its route, the decoded
  path segment, provided no route of the tree uses a parameter name twice.
\<close>

theorem route_binds_params:
  assumes "methodRoots r (rq_method req) = Some n" and "reuses_no_name n"
    and "match_node n (splitPath (rq_path req)) (req\<lparr>rq_pathParams := Map.empty\<rparr>) = (req', Some h)"
  shows "route r req = (req', Some h) \<and>
    (\<exists>ps\<in>set (shapes (splitPath (rq_path req))). node_table n ps = Some h \<and>
      (\<forall>(k, v)\<in>set (bindings n ps (splitPath (rq_path req))). pathParam k req' = v))"
proof -
  have "route r req = (req', Some h)"
    using assms(1,3) by (simp add: route_def)
  moreover have "pathParam k req' = v" if "rq_pathParams req' k = Some v" for k v
    using that by (simp add: pathParam_def)
  moreover obtain ps where "ps \<in> set (shapes (splitPath (rq_path req)))" "node_table n ps = Some h"
    "\<forall>(k, v)\<in>set (bindings n ps (splitPath (rq_path req))). rq_pathParams req' k = Some v"
    using match_node_binds [OF assms(2,3)] by (elim bexE conjE)
  ultimately show ?thesis
    by (intro conjI bexI [of _ ps]) auto
qed

definition demo_router :: "nat router" where
  "demo_router = addRoute ''GET'' ''/d/:code'' 7 router_new"

lemma demo_router_root:
  "methodRoots demo_router ''GET'' =
    Some (RadixNode [] (Map.empty(''d'' \<mapsto> RadixNode ''d'' Map.empty (Some (RadixNode ''code'' Map.empty None (Some 7))) None)) None None)"
proof -
  have "splitPath ''/d/:code'' = [''d'', '':code'']"
    by code_simp
  then show ?thesis
    by (simp add: demo_router_def addRoute_def router_new_def node_new_def)
qed

lemma demo_router_names:
  "reuses_no_name (RadixNode [] (Map.empty(''d'' \<mapsto> RadixNode ''d'' Map.empty (Some (RadixNode ''code'' Map.empty None (Some (7::nat)))) None)) None None)"
proof -
  have leaf: "names (RadixNode ''code'' Map.empty None (Some (7::nat))) ps = []" for ps
    by (cases ps; cases "hd ps") auto
  have mid: "distinct (names (RadixNode ''d'' Map.empty (Some (RadixNode ''code'' Map.empty None (Some (7::nat)))) None) ps)" for ps
    by (cases ps; cases "hd ps") (auto simp: leaf)
  have "distinct (names (RadixNode [] (Map.empty(''d'' \<mapsto> RadixNode ''d'' Map.empty (Some (RadixNode ''code'' Map.empty None (Some (7::nat)))) None)) None None) ps)" for ps
    by (cases ps; cases "hd ps") (auto simp: mid)
  then show ?thesis
    by (simp add: reuses_no_name_def)
qed

theorem route_binds_params_witness:
  "pathParam ''code'' (fst (route demo_router
      (request_new\<lparr>rq_method := ''GET'', rq_path := ''/d/42''\<rparr>))) = ''42''"
proof -
  let ?req = "request_new\<lparr>rq_method := ''GET'', rq_path := ''/d/42''\<rparr>"
  have split: "splitPath (rq_path ?req) = [''d'', ''42'']"
    by simp code_simp
  have dec: "urlDecode ''42'' = ''42''"
    by code_simp
  have root: "methodRoots demo_router (rq_method ?req) =
    Some (RadixNode [] (Map.empty(''d'' \<mapsto> RadixNode ''d'' Map.empty (Some (RadixNode ''code'' Map.empty None (Some 7))) None)) None None)"
    by (simp add: demo_router_root)
  have m: "match_node (RadixNode [] (Map.empty(''d'' \<mapsto> RadixNode ''d'' Map.empty (Some (RadixNode ''code'' Map.empty None (Some (7::nat)))) None)) None None)
      (splitPath (rq_path ?req)) (?req\<lparr>rq_pathParams := Map.empty\<rparr>)
    = (setPathParam ''code'' ''42'' (?req\<lparr>rq_pathParams := Map.empty\<rparr>), Some 7)"
    unfolding split by (simp add: dec)
  from route_binds_params [OF root demo_router_names m] show ?thesis
    by (simp add: pathParam_def setPathParam_def)
qed

text \<open>
  The way to a node keeps the parameter names of the route that created it. A route
  that is added later with another name for the same parameter position is reached, but the
  handler does not find the parameter under the name its route gives it.
\<close>

theorem first_parameter_name_wins:
  "let r = addRoute ''GET'' ''/u/:name/x'' 2 (addRoute ''GET'' ''/u/:id'' (1::nat) router_new);
       (req, found) = route r (request_new\<lparr>rq_method := ''GET'', rq_path := ''/u/42/x''\<rparr>)
   in found = Some 2 \<and> pathParam ''name'' req = [] \<and> pathParam ''id'' req = ''42''"
proof -
  have split: "splitPath ''/u/:name/x'' = [''u'', '':name'', ''x'']"
      "splitPath ''/u/:id'' = [''u'', '':id'']" "splitPath ''/u/42/x'' = [''u'', ''42'', ''x'']"
    by code_simp+
  have dec: "urlDecode ''42'' = ''42''"
    by code_simp
  show ?thesis
    by (simp add: Let_def addRoute_def router_new_def node_new_def split dec route_def
        request_new_def setPathParam_def pathParam_def)
qed

text \<open>
  Percent decoding inverts every percent encoding that escapes at least the percent
  and the plus sign, for all byte strings.
\<close>

theorem urlDecode_inverts_encoding:
  assumes "\<not> safe (CHR ''%'')" and "\<not> safe (CHR ''+'')"
  shows "urlDecode (percent_encode safe s) = s"
  using assms by (rule urlDecode_percent_encode)

theorem urlDecode_inverts_encoding_witness:
  "urlDecode (percent_encode isdigit ''a+b%41'') = ''a+b%41''"
  by (rule urlDecode_inverts_encoding) (simp_all add: isdigit_def code_def)

text \<open>
  Splitting a path yields exactly its non-empty segments, for every way of writing the
  slashes, and it inverts joining segments with slashes.
\<close>

theorem splitPath_correct:
  "splitPath (CHR ''/'' # s) = filter (\<lambda>p. p \<noteq> []) (pieces [] s)
   \<and> ((\<forall>seg\<in>set segs. seg \<noteq> [] \<and> CHR ''/'' \<notin> set seg) \<longrightarrow> splitPath (join_path segs) = segs)"
  using splitPath_join by (auto simp: splitPath_segments segments_of_def)

theorem splitPath_correct_witness:
  "splitPath (join_path [''d'', ''123456'']) = [''d'', ''123456'']"
  using splitPath_correct [of "''x''" "[''d'', ''123456'']"] by simp

end
