(* ===== verification/TimeWheel.thy ===== *)
theory TimeWheel
  imports Complex_Main EzPrelude
begin

text \<open>
  \<^verbatim>\<open>core/TimeWheel.h\<close> and \<^verbatim>\<open>core/TimeWheel.cpp\<close>: a ring of buckets, each a doubly linked
  list of heap-allocated entries. The model keeps the pointers: entries live in a heap of
  addresses, \<^verbatim>\<open>delete\<close> removes an address for good and every dereference of a dead
  address is the fault \<open>Undefined\<close>. \<^verbatim>\<open>nullptr\<close> and the bucket index \<^verbatim>\<open>-1\<close> are \<open>None\<close>.
  Times (\<^verbatim>\<open>double\<close>) are rationals; the cast to \<^verbatim>\<open>int\<close> is undefined out of range, as in C++.
  A callback runs on the wheel itself and on the rest of the program's state (type \<open>'w\<close>).
\<close>

section \<open>State\<close>

record 'cb entry =
  bucketIndex :: "nat option"
  timeoutSec :: rat
  callback :: 'cb
  owner :: nat
  prev :: "nat option"
  "next" :: "nat option"

record 'cb wheel =
  heap :: "nat \<Rightarrow> 'cb entry option"
  fresh :: nat
  buckets :: "nat option list"
  bucketCount :: nat
  tickIntervalSec :: rat
  currentBucket :: nat

definition wheel_new :: "nat \<Rightarrow> rat \<Rightarrow> 'cb wheel" where
  "wheel_new n dt =
     \<lparr>heap = Map.empty, fresh = 0, buckets = replicate n None, bucketCount = n,
      tickIntervalSec = dt, currentBucket = 0\<rparr>"

definition load :: "nat \<Rightarrow> 'cb wheel \<Rightarrow> 'cb entry res" where
  "load a w = (case heap w a of None \<Rightarrow> Inl (Undefined ''dangling entry'') | Some e \<Rightarrow> Inr e)"

definition store :: "nat \<Rightarrow> ('cb entry \<Rightarrow> 'cb entry) \<Rightarrow> 'cb wheel \<Rightarrow> 'cb wheel res" where
  "store a f w = rbind (load a w) (\<lambda>e. Inr (w\<lparr>heap := (heap w)(a \<mapsto> f e)\<rparr>))"

definition free :: "nat \<Rightarrow> 'cb wheel \<Rightarrow> 'cb wheel res" where
  "free a w = rbind (load a w) (\<lambda>e. Inr (w\<lparr>heap := (heap w)(a := None)\<rparr>))"

definition set_bucket :: "nat \<Rightarrow> nat option \<Rightarrow> 'cb wheel \<Rightarrow> 'cb wheel res" where
  "set_bucket b p w =
     (if b < length (buckets w) then Inr (w\<lparr>buckets := (buckets w)[b := p]\<rparr>)
      else Inl (Undefined ''bucket index''))"

definition get_bucket :: "nat \<Rightarrow> 'cb wheel \<Rightarrow> nat option res" where
  "get_bucket b w =
     (if b < length (buckets w) then Inr (buckets w ! b) else Inl (Undefined ''bucket index''))"

section \<open>Operations\<close>

definition detach :: "nat \<Rightarrow> 'cb wheel \<Rightarrow> 'cb wheel res" where
  "detach a w =
     rbind (load a w) (\<lambda>e.
     case bucketIndex e of
       None \<Rightarrow> Inr w
     | Some idx \<Rightarrow>
         rbind (case prev e of
                  Some p \<Rightarrow> store p (\<lambda>d. d\<lparr>next := next e\<rparr>) w
                | None \<Rightarrow> set_bucket idx (next e) w) (\<lambda>w1.
         rbind (load a w1) (\<lambda>e1.
         rbind (case next e1 of
                  Some q \<Rightarrow> store q (\<lambda>d. d\<lparr>prev := prev e1\<rparr>) w1
                | None \<Rightarrow> Inr w1) (\<lambda>w2.
         store a (\<lambda>d. d\<lparr>prev := None, next := None, bucketIndex := None\<rparr>) w2))))"

definition attach :: "nat \<Rightarrow> nat \<Rightarrow> 'cb wheel \<Rightarrow> 'cb wheel res" where
  "attach b a w =
     rbind (get_bucket b w) (\<lambda>first.
     rbind (store a (\<lambda>d. d\<lparr>bucketIndex := Some b, next := first\<rparr>) w) (\<lambda>w1.
     rbind (case first of
              Some q \<Rightarrow> store q (\<lambda>d. d\<lparr>prev := Some a\<rparr>) w1
            | None \<Rightarrow> Inr w1) (\<lambda>w2.
     set_bucket b (Some a) w2)))"

text \<open>The number of ticks of a timeout: \<^verbatim>\<open>ceil\<close>, the cast to \<^verbatim>\<open>int\<close> and the two clamps.\<close>

definition ticks_for :: "rat \<Rightarrow> 'cb wheel \<Rightarrow> nat res" where
  "ticks_for t w =
     (let k = \<lceil>t / tickIntervalSec w\<rceil>
      in if tickIntervalSec w = 0 \<or> \<not> in_int 32 k then Inl (Undefined ''cast to int'')
         else Inr (if k \<le> 0 then min 1 (bucketCount w)
                   else if k > int (bucketCount w) then bucketCount w else nat k))"

definition add :: "rat \<Rightarrow> 'cb \<Rightarrow> nat \<Rightarrow> 'cb wheel \<Rightarrow> (nat \<times> 'cb wheel) res" where
  "add t cb own w =
     (let a = fresh w;
          w1 = w\<lparr>fresh := Suc a,
                 heap := (heap w)(a \<mapsto> \<lparr>bucketIndex = None, timeoutSec = t, callback = cb,
                                       owner = own, prev = None, next = None\<rparr>)\<rparr>
      in rbind (ticks_for t w1) (\<lambda>ticks.
         if bucketCount w1 = 0 then Inl (Undefined ''modulo zero'')
         else rbind (attach ((currentBucket w1 + ticks) mod bucketCount w1) a w1) (\<lambda>w2.
         Inr (a, w2))))"

definition remove :: "nat option \<Rightarrow> 'cb wheel \<Rightarrow> 'cb wheel res" where
  "remove entry w =
     (case entry of
        None \<Rightarrow> Inr w
      | Some a \<Rightarrow>
          rbind (load a w) (\<lambda>e.
          rbind (if bucketIndex e \<noteq> None then detach a w else Inr w) (free a)))"

definition refresh :: "nat option \<Rightarrow> 'cb wheel \<Rightarrow> 'cb wheel res" where
  "refresh entry w =
     (case entry of
        None \<Rightarrow> Inr w
      | Some a \<Rightarrow>
          rbind (load a w) (\<lambda>e.
          if bucketIndex e = None then Inr w
          else rbind (detach a w) (\<lambda>w1.
               rbind (load a w1) (\<lambda>e1.
               rbind (ticks_for (timeoutSec e1) w1) (\<lambda>ticks.
               if bucketCount w1 = 0 then Inl (Undefined ''modulo zero'')
               else attach ((currentBucket w1 + ticks) mod bucketCount w1) a w1)))))"

text \<open>
  \<^verbatim>\<open>tick\<close>: the loop follows the saved \<^verbatim>\<open>next\<close> pointer, so a callback that removed the next
  entry would make it dangle. Its fuel is the length of the chain, at most the number of
  entries ever allocated.
\<close>

record ('cb, 'w) callback_env =
  run_callback :: "'cb \<Rightarrow> 'cb wheel \<times> 'w \<Rightarrow> ('cb wheel \<times> 'w) res"
  expired :: "nat \<Rightarrow> 'w \<Rightarrow> bool"

fun tick_loop ::
    "('cb, 'w) callback_env \<Rightarrow> nat \<Rightarrow> nat option \<Rightarrow> 'cb wheel \<times> 'w \<Rightarrow> ('cb wheel \<times> 'w) res" where
  "tick_loop env fuel None (w, s) = Inr (w, s)"
| "tick_loop env 0 (Some a) (w, s) = Inl OutOfFuel"
| "tick_loop env (Suc fuel) (Some a) (w, s) =
     rbind (load a w) (\<lambda>e.
     rbind (store a (\<lambda>d. d\<lparr>prev := None, next := None, bucketIndex := None\<rparr>) w) (\<lambda>w1.
     rbind (if \<not> expired env (owner e) s then run_callback env (callback e) (w1, s)
            else Inr (w1, s)) (\<lambda>(w2, s2).
     rbind (free a w2) (\<lambda>w3.
     tick_loop env fuel (next e) (w3, s2)))))"

definition tick :: "('cb, 'w) callback_env \<Rightarrow> 'cb wheel \<times> 'w \<Rightarrow> ('cb wheel \<times> 'w) res" where
  "tick env ws =
     (let (w, s) = ws
      in if bucketCount w = 0 then Inl (Undefined ''modulo zero'')
         else let c = (currentBucket w + 1) mod bucketCount w; w1 = w\<lparr>currentBucket := c\<rparr>
              in rbind (get_bucket c w1) (\<lambda>head.
                 rbind (set_bucket c None w1) (\<lambda>w2.
                 tick_loop env (Suc (fresh w2)) head (w2, s))))"

text \<open>The destructor: every chain is walked and its entries are deleted.\<close>

fun free_chain :: "nat \<Rightarrow> nat option \<Rightarrow> 'cb wheel \<Rightarrow> 'cb wheel res" where
  "free_chain fuel None w = Inr w"
| "free_chain 0 (Some a) w = Inl OutOfFuel"
| "free_chain (Suc fuel) (Some a) w =
     rbind (load a w) (\<lambda>e. rbind (free a w) (free_chain fuel (next e)))"

definition wheel_destroy :: "'cb wheel \<Rightarrow> 'cb wheel res" where
  "wheel_destroy w =
     fold (\<lambda>i acc. rbind acc (\<lambda>w. rbind (get_bucket i w) (\<lambda>entry. free_chain (Suc (fresh w)) entry w)))
       [0..<bucketCount w] (Inr w)"

section \<open>Linked lists in the heap\<close>

text \<open>
  The entries \<open>xs\<close> form the chain of bucket \<open>b\<close> from pointer \<open>h\<close> (whose predecessor is \<open>p\<close>)
  to pointer \<open>t\<close> (whose predecessor is \<open>l\<close>).
\<close>

fun seg :: "(nat \<Rightarrow> 'cb entry option) \<Rightarrow> nat \<Rightarrow> nat option \<Rightarrow> nat option \<Rightarrow> nat list
    \<Rightarrow> nat option \<Rightarrow> nat option \<Rightarrow> bool" where
  "seg H b h p [] t l \<longleftrightarrow> h = t \<and> p = l"
| "seg H b h p (x # xs) t l \<longleftrightarrow>
     h = Some x \<and> (\<exists>e. H x = Some e \<and> prev e = p \<and> bucketIndex e = Some b
                      \<and> seg H b (next e) (Some x) xs t l)"

lemma seg_append [simp]:
  "seg H b h p (xs @ ys) t l \<longleftrightarrow> (\<exists>m k. seg H b h p xs m k \<and> seg H b m k ys t l)"
  by (induction xs arbitrary: h p) auto

lemma seg_frame [simp]: "a \<notin> set xs \<Longrightarrow> seg (H(a := v)) b h p xs t l \<longleftrightarrow> seg H b h p xs t l"
  by (induction xs arbitrary: h p) auto

lemma seg_live: "seg H b h p xs t l \<Longrightarrow> x \<in> set xs \<Longrightarrow> \<exists>e. H x = Some e \<and> bucketIndex e = Some b"
  by (induction xs arbitrary: h p) auto

text \<open>
  \<open>rep w L X\<close>: bucket \<open>b\<close> holds the chain \<open>L b\<close>, and the entries \<open>X\<close> are allocated and in no
  bucket, with a cleared \<^verbatim>\<open>prev\<close> pointer (which \<open>attach\<close> relies on).
\<close>

definition rep :: "'cb wheel \<Rightarrow> (nat \<Rightarrow> nat list) \<Rightarrow> nat set \<Rightarrow> bool" where
  "rep w L X \<longleftrightarrow>
     0 < bucketCount w \<and> length (buckets w) = bucketCount w \<and> currentBucket w < bucketCount w
     \<and> (\<forall>b<bucketCount w. distinct (L b) \<and>
          (\<exists>l. seg (heap w) b (buckets w ! b) None (L b) None l))
     \<and> dom (heap w) = (\<Union>b<bucketCount w. set (L b)) \<union> X
     \<and> (\<forall>a\<in>X. (\<forall>b<bucketCount w. a \<notin> set (L b)) \<and> (\<exists>e. heap w a = Some e \<and> prev e = None))
     \<and> (\<forall>a\<in>dom (heap w). a < fresh w)"

lemma repI:
  assumes "0 < bucketCount w" "length (buckets w) = bucketCount w" "currentBucket w < bucketCount w"
    and "\<And>b. b < bucketCount w \<Longrightarrow> distinct (L b)"
    and "\<And>b. b < bucketCount w \<Longrightarrow> \<exists>l. seg (heap w) b (buckets w ! b) None (L b) None l"
    and "dom (heap w) = (\<Union>b<bucketCount w. set (L b)) \<union> X"
    and "\<And>a b. a \<in> X \<Longrightarrow> b < bucketCount w \<Longrightarrow> a \<notin> set (L b)"
    and "\<And>a. a \<in> X \<Longrightarrow> \<exists>e. heap w a = Some e \<and> prev e = None"
    and "\<And>a. a \<in> dom (heap w) \<Longrightarrow> a < fresh w"
  shows "rep w L X"
  unfolding rep_def using assms(1-3,6) by (intro conjI allI impI ballI assms)

lemma repD:
  assumes "rep w L X"
  shows "0 < bucketCount w" "length (buckets w) = bucketCount w" "currentBucket w < bucketCount w"
    and "b < bucketCount w \<Longrightarrow> distinct (L b)"
    and "b < bucketCount w \<Longrightarrow> \<exists>l. seg (heap w) b (buckets w ! b) None (L b) None l"
    and "dom (heap w) = (\<Union>b<bucketCount w. set (L b)) \<union> X"
    and "a \<in> X \<Longrightarrow> b < bucketCount w \<Longrightarrow> a \<notin> set (L b)"
    and "a \<in> X \<Longrightarrow> \<exists>e. heap w a = Some e \<and> prev e = None"
    and "a \<in> dom (heap w) \<Longrightarrow> a < fresh w"
  using assms unfolding rep_def by blast+

text \<open>The invariant of a wheel between operations: also, every timeout fits its \<^verbatim>\<open>int\<close>.\<close>

definition wheel_wf :: "'cb wheel \<Rightarrow> bool" where
  "wheel_wf w \<longleftrightarrow>
     (\<exists>L. rep w L {})
     \<and> (\<forall>a e. heap w a = Some e \<longrightarrow> (\<exists>k. ticks_for (timeoutSec e) w = Inr k))"

lemma wheel_new_wf: "0 < n \<Longrightarrow> wheel_wf (wheel_new n dt)"
  unfolding wheel_wf_def rep_def
  by (intro conjI exI [of _ "\<lambda>b. []"]) (auto simp: wheel_new_def)

lemma rep_bucket:
  "rep w L X \<Longrightarrow> b < bucketCount w \<Longrightarrow> a \<in> set (L b) \<Longrightarrow> \<exists>e. heap w a = Some e \<and> bucketIndex e = Some b"
  unfolding rep_def by (meson seg_live)

lemma rep_other_bucket:
  "rep w L X \<Longrightarrow> b < bucketCount w \<Longrightarrow> b' < bucketCount w \<Longrightarrow> b \<noteq> b' \<Longrightarrow> a \<in> set (L b) \<Longrightarrow> a \<notin> set (L b')"
  using rep_bucket [of w L X b a] rep_bucket [of w L X b' a] by auto

lemma seg_cong:
  "(\<And>x. x \<in> set xs \<Longrightarrow> H' x = H x) \<Longrightarrow> seg H' b h p xs t l \<longleftrightarrow> seg H b h p xs t l"
  by (induction xs arbitrary: h p) auto

text \<open>Relinking a chain: what \<open>detach\<close> and \<open>attach\<close> do to the heap.\<close>

lemma seg_last:
  "seg H b h p (xs @ [x]) t l \<Longrightarrow> x \<notin> set xs \<Longrightarrow>
   l = Some x \<and> (\<exists>e. H x = Some e \<and> next e = t \<and> bucketIndex e = Some b) \<and>
   (\<exists>m k. seg H b h p xs m k \<and> m = Some x)"
  by auto

definition unlinked :: "nat list \<Rightarrow> nat \<Rightarrow> nat list \<Rightarrow> (nat \<Rightarrow> 'cb entry option)
    \<Rightarrow> (nat \<Rightarrow> 'cb entry option) \<Rightarrow> bool" where
  "unlinked xs a ys H H' \<longleftrightarrow>
     (\<forall>x. x \<notin> set (xs @ a # ys) \<longrightarrow> H' x = H x)
     \<and> (\<forall>x. map_option callback (H' x) = map_option callback (H x)
          \<and> map_option owner (H' x) = map_option owner (H x)
          \<and> map_option timeoutSec (H' x) = map_option timeoutSec (H x))
     \<and> (\<forall>x. x \<noteq> a \<longrightarrow> map_option bucketIndex (H' x) = map_option bucketIndex (H x))"

lemma detach_chain:
  assumes "seg (heap w) b (buckets w ! b) None (xs @ a # ys) None l"
    and "distinct (xs @ a # ys)" and "b < length (buckets w)"
  shows "\<exists>w' l'. detach a w = Inr w' \<and> unlinked xs a ys (heap w) (heap w')
    \<and> (\<exists>e. heap w' a = Some e \<and> prev e = None \<and> bucketIndex e = None)
    \<and> seg (heap w') b (buckets w' ! b) None (xs @ ys) None l'
    \<and> w' = w\<lparr>heap := heap w', buckets := (buckets w)[b := buckets w' ! b]\<rparr>"
proof (cases xs rule: rev_cases)
  case Nil
  then show ?thesis
    using assms
    by (cases ys)
       (auto simp: detach_def load_def store_def set_bucket_def unlinked_def rbind_def)
next
  case (snoc us p)
  then show ?thesis
    using assms
    by (cases ys)
       (auto simp: detach_def load_def store_def set_bucket_def unlinked_def rbind_def)
qed

text \<open>The number of buckets and the interval of a wheel stay what the constructor made them.\<close>

definition wheel_shape :: "'cb wheel \<Rightarrow> nat \<times> rat" where
  "wheel_shape wh = (bucketCount wh, tickIntervalSec wh)"

lemma shape_basic:
  "store a f wh = Inr wh' \<Longrightarrow> wheel_shape wh' = wheel_shape wh"
  "free a wh = Inr wh' \<Longrightarrow> wheel_shape wh' = wheel_shape wh"
  "set_bucket b p wh = Inr wh' \<Longrightarrow> wheel_shape wh' = wheel_shape wh"
  by (auto simp: store_def free_def set_bucket_def wheel_shape_def rbind_Inr_iff split: if_splits)

lemma shape_link:
  "(case p of None \<Rightarrow> Inr wh | Some q \<Rightarrow> store q f wh) = Inr wh' \<Longrightarrow> wheel_shape wh' = wheel_shape wh"
  "(case p of None \<Rightarrow> set_bucket i x wh | Some q \<Rightarrow> store q f wh) = Inr wh' \<Longrightarrow> wheel_shape wh' = wheel_shape wh"
  by (auto dest: shape_basic split: option.splits)

lemma shape_detach:
  assumes "detach a wh = Inr wh'"
  shows "wheel_shape wh' = wheel_shape wh"
proof -
  obtain e where e: "load a wh = Inr e"
    using assms unfolding detach_def by (rule rbind_InrE)
  show ?thesis
  proof (cases "bucketIndex e")
    case (Some i)
    with assms e show ?thesis
      by (auto simp: detach_def elim!: rbind_InrE dest!: shape_link shape_basic)
  qed (use assms e in \<open>simp add: detach_def\<close>)
qed

lemma shape_attach: "attach b a wh = Inr wh' \<Longrightarrow> wheel_shape wh' = wheel_shape wh"
  by (auto simp: attach_def rbind_Inr_iff dest!: shape_basic split: option.splits)

lemma shape_ops:
  "remove e wh = Inr wh' \<Longrightarrow> wheel_shape wh' = wheel_shape wh"
  "refresh e wh = Inr wh' \<Longrightarrow> wheel_shape wh' = wheel_shape wh"
  by (auto simp: remove_def refresh_def rbind_Inr_iff dest!: shape_basic shape_detach shape_attach
      split: option.splits if_splits)

lemma shape_add: "add t cb own wh = Inr (a, wh') \<Longrightarrow> wheel_shape wh' = wheel_shape wh"
  by (auto simp: add_def Let_def rbind_Inr_iff wheel_shape_def dest!: shape_attach split: if_splits)

text \<open>What no relinking changes: the payload of the entries and the wheel's own fields.\<close>

definition same_payload :: "'cb wheel \<Rightarrow> 'cb wheel \<Rightarrow> bool" where
  "same_payload w w' \<longleftrightarrow>
     bucketCount w' = bucketCount w \<and> tickIntervalSec w' = tickIntervalSec w
     \<and> currentBucket w' = currentBucket w \<and> fresh w' = fresh w
     \<and> (\<forall>x. map_option callback (heap w' x) = map_option callback (heap w x)
          \<and> map_option owner (heap w' x) = map_option owner (heap w x)
          \<and> map_option timeoutSec (heap w' x) = map_option timeoutSec (heap w x))"

lemma same_payload_dom: "same_payload w w' \<Longrightarrow> dom (heap w') = dom (heap w)"
  unfolding same_payload_def dom_def by (metis map_option_is_None)

lemma same_payload_trans: "same_payload u v \<Longrightarrow> same_payload v w \<Longrightarrow> same_payload u w"
  by (simp add: same_payload_def)

lemma same_payload_entry:
  "same_payload w w' \<Longrightarrow> heap w x = Some e \<Longrightarrow>
   \<exists>e'. heap w' x = Some e' \<and> callback e' = callback e \<and> owner e' = owner e \<and> timeoutSec e' = timeoutSec e"
  by (cases "heap w' x") (force simp: same_payload_def dest: spec [where x = x])+

lemma UN_bucket:
  "b < n \<Longrightarrow> (\<Union>b'<n. set ((L(b := zs)) b')) = set zs \<union> (\<Union>b'\<in>{..<n} - {b}. set (L b'))"
  "b < n \<Longrightarrow> (\<Union>b'<n. set (L b')) = set (L b) \<union> (\<Union>b'\<in>{..<n} - {b}. set (L b'))"
  for b n :: nat
  by (auto split: if_splits)

lemma rep_detach:
  assumes rep: "rep w L X" and b: "b < bucketCount w" and L: "L b = xs @ a # ys"
  shows "\<exists>w'. detach a w = Inr w' \<and> rep w' (L(b := xs @ ys)) (insert a X) \<and> same_payload w w'"
proof -
  obtain l where "seg (heap w) b (buckets w ! b) None (L b) None l" and dist: "distinct (L b)"
    using rep b by (auto simp: rep_def)
  then have chain: "seg (heap w) b (buckets w ! b) None (xs @ a # ys) None l"
    and dist': "distinct (xs @ a # ys)" and len: "b < length (buckets w)"
    using rep b L by (simp_all only: rep_def)
  obtain w' l' e where w': "detach a w = Inr w'"
      and un: "unlinked xs a ys (heap w) (heap w')"
      and e: "heap w' a = Some e" "prev e = None" "bucketIndex e = None"
      and seg: "seg (heap w') b (buckets w' ! b) None (xs @ ys) None l'"
      and rest: "w' = w\<lparr>heap := heap w', buckets := (buckets w)[b := buckets w' ! b]\<rparr>"
    using detach_chain [OF chain dist' len] by (elim exE conjE)
  have fields: "bucketCount w' = bucketCount w" "length (buckets w') = length (buckets w)"
      "currentBucket w' = currentBucket w" "fresh w' = fresh w"
      "tickIntervalSec w' = tickIntervalSec w"
      "\<And>b'. b' \<noteq> b \<Longrightarrow> buckets w' ! b' = buckets w ! b'"
    by (subst rest; simp)+
  have pay: "same_payload w w'"
    using un fields by (simp add: same_payload_def unlinked_def)
  have same: "heap w' x = heap w x" if "x \<notin> set (L b)" for x
    using un that by (simp add: unlinked_def L)
  have other: "\<exists>l. seg (heap w') b' (buckets w' ! b') None (L b') None l"
    if "b' < bucketCount w" "b' \<noteq> b" for b'
  proof -
    have "heap w' x = heap w x" if "x \<in> set (L b')" for x
      using rep_other_bucket [OF rep \<open>b' < bucketCount w\<close> b \<open>b' \<noteq> b\<close> that] by (rule same)
    from seg_cong [OF this] rep that fields(6) [OF that(2)] show ?thesis
      by (auto simp: rep_def)
  qed
  have gone: "a \<notin> set (L b')" if "b' < bucketCount w" "b' \<noteq> b" for b'
    using rep_other_bucket [OF rep b that(1)] that(2) L by auto
  have dom: "dom (heap w') = (\<Union>b'<bucketCount w. set ((L(b := xs @ ys)) b')) \<union> insert a X"
    unfolding same_payload_dom [OF pay] UN_bucket(1) [OF b] repD(6) [OF rep] UN_bucket(2) [OF b, of L] L
    by auto
  have "rep w' (L(b := xs @ ys)) (insert a X)"
  proof (rule repI)
    show "\<exists>l. seg (heap w') b' (buckets w' ! b') None ((L(b := xs @ ys)) b') None l"
      if "b' < bucketCount w'" for b'
      using that other [of b'] seg fields(1) by (cases "b' = b") auto
    show "distinct ((L(b := xs @ ys)) b')" if "b' < bucketCount w'" for b'
      using that repD(4) [OF rep, of b'] dist' fields(1) by auto
    show "dom (heap w') = (\<Union>b'<bucketCount w'. set ((L(b := xs @ ys)) b')) \<union> insert a X"
      using dom fields(1) by simp
    show "x \<notin> set ((L(b := xs @ ys)) b')" if "x \<in> insert a X" "b' < bucketCount w'" for x b'
      using that repD(7) [OF rep, of x b'] gone [of b'] dist' L fields(1) by (auto split: if_splits)
    show "\<exists>e. heap w' x = Some e \<and> prev e = None" if "x \<in> insert a X" for x
      using that e repD(8) [OF rep, of x] repD(7) [OF rep _ b, of x] same [of x] by auto
    show "x < fresh w'" if "x \<in> dom (heap w')" for x
      using that same_payload_dom [OF pay] repD(9) [OF rep, of x] fields(4) by simp
  qed (use fields repD [OF rep] in simp_all)
  with w' pay show ?thesis
    by blast
qed

lemma attach_chain:
  assumes "seg (heap w) b (buckets w ! b) None ys None l" and "b < length (buckets w)"
    and "a \<notin> set ys" and "heap w a = Some e" and "prev e = None" and "distinct ys"
  shows "\<exists>w' l'. attach b a w = Inr w'
    \<and> (\<forall>x. x \<notin> set (a # ys) \<longrightarrow> heap w' x = heap w x)
    \<and> (\<forall>x. map_option callback (heap w' x) = map_option callback (heap w x)
         \<and> map_option owner (heap w' x) = map_option owner (heap w x)
         \<and> map_option timeoutSec (heap w' x) = map_option timeoutSec (heap w x))
    \<and> seg (heap w') b (buckets w' ! b) None (a # ys) None l'
    \<and> w' = w\<lparr>heap := heap w', buckets := (buckets w)[b := buckets w' ! b]\<rparr>"
  using assms
  by (cases ys)
     (auto simp: attach_def get_bucket_def load_def store_def set_bucket_def rbind_def)

lemma rep_attach:
  assumes rep: "rep w L (insert a X)" and b: "b < bucketCount w" and a: "a \<notin> X"
  shows "\<exists>w'. attach b a w = Inr w' \<and> rep w' (L(b := a # L b)) X \<and> same_payload w w'"
proof -
  obtain l e where chain: "seg (heap w) b (buckets w ! b) None (L b) None l"
      and dist: "distinct (L b)" and len: "b < length (buckets w)" and new: "a \<notin> set (L b)"
      and e: "heap w a = Some e" "prev e = None"
    using rep b by (auto simp: rep_def)
  obtain w' l' where w': "attach b a w = Inr w'"
      and same: "\<And>x. x \<notin> set (a # L b) \<Longrightarrow> heap w' x = heap w x"
      and payload: "\<forall>x. map_option callback (heap w' x) = map_option callback (heap w x)
         \<and> map_option owner (heap w' x) = map_option owner (heap w x)
         \<and> map_option timeoutSec (heap w' x) = map_option timeoutSec (heap w x)"
      and seg: "seg (heap w') b (buckets w' ! b) None (a # L b) None l'"
      and rest: "w' = w\<lparr>heap := heap w', buckets := (buckets w)[b := buckets w' ! b]\<rparr>"
    using attach_chain [OF chain len new e dist] by blast
  have fields: "bucketCount w' = bucketCount w" "length (buckets w') = length (buckets w)"
      "currentBucket w' = currentBucket w" "fresh w' = fresh w"
      "tickIntervalSec w' = tickIntervalSec w"
      "\<And>b'. b' \<noteq> b \<Longrightarrow> buckets w' ! b' = buckets w ! b'"
    by (subst rest; simp)+
  have pay: "same_payload w w'"
    using payload fields by (simp add: same_payload_def)
  have unused: "\<forall>b'<bucketCount w. a \<notin> set (L b')"
    using rep by (simp add: rep_def)
  have other: "\<exists>l. seg (heap w') b' (buckets w' ! b') None (L b') None l"
    if "b' < bucketCount w" "b' \<noteq> b" for b'
  proof -
    have "heap w' x = heap w x" if "x \<in> set (L b')" for x
      using rep_other_bucket [OF rep \<open>b' < bucketCount w\<close> b \<open>b' \<noteq> b\<close> that] unused that
        \<open>b' < bucketCount w\<close> by (intro same) auto
    from seg_cong [OF this] rep that fields(6) [OF that(2)] show ?thesis
      by (auto simp: rep_def)
  qed
  have dom: "dom (heap w') = (\<Union>b'<bucketCount w. set ((L(b := a # L b)) b')) \<union> X"
    unfolding same_payload_dom [OF pay] UN_bucket(1) [OF b] repD(6) [OF rep] UN_bucket(2) [OF b, of L]
    by auto
  have "rep w' (L(b := a # L b)) X"
  proof (rule repI)
    show "\<exists>l. seg (heap w') b' (buckets w' ! b') None ((L(b := a # L b)) b') None l"
      if "b' < bucketCount w'" for b'
      using that other [of b'] seg fields(1) by (cases "b' = b") auto
    show "distinct ((L(b := a # L b)) b')" if "b' < bucketCount w'" for b'
      using that repD(4) [OF rep, of b'] new fields(1) by auto
    show "dom (heap w') = (\<Union>b'<bucketCount w'. set ((L(b := a # L b)) b')) \<union> X"
      using dom fields(1) by simp
    show "x \<notin> set ((L(b := a # L b)) b')" if "x \<in> X" "b' < bucketCount w'" for x b'
      using that repD(7) [OF rep, of x b'] a fields(1) by auto
    show "\<exists>e. heap w' x = Some e \<and> prev e = None" if "x \<in> X" for x
    proof -
      have "x \<notin> set (a # L b)"
        using that a repD(7) [OF rep _ b, of x] by auto
      then show ?thesis
        using same repD(8) [OF rep, of x] that by auto
    qed
    show "x < fresh w'" if "x \<in> dom (heap w')" for x
      using that same_payload_dom [OF pay] repD(9) [OF rep, of x] fields(4) by simp
  qed (use fields repD [OF rep] in simp_all)
  with w' pay show ?thesis
    by blast
qed

section \<open>The abstract wheel\<close>

text \<open>
  Seen from outside, a wheel is a map from live entries to the number of ticks left, the
  number of ticks a refresh gives back, the callback and its owner.
\<close>

type_synonym 'cb view = "nat \<Rightarrow> (nat \<times> nat \<times> 'cb \<times> nat) option"

definition ahead :: "nat \<Rightarrow> nat \<Rightarrow> nat \<Rightarrow> nat" where
  "ahead n c b = (b + n - Suc c) mod n + 1"

definition view :: "'cb wheel \<Rightarrow> 'cb view" where
  "view w a =
     (case heap w a of
        None \<Rightarrow> None
      | Some e \<Rightarrow>
          (case (bucketIndex e, ticks_for (timeoutSec e) w) of
             (Some b, Inr k) \<Rightarrow> Some (ahead (bucketCount w) (currentBucket w) b, k, callback e, owner e)
           | _ \<Rightarrow> None))"

definition age :: "'cb view \<Rightarrow> 'cb view" where
  "age v a = (case v a of
                Some (Suc (Suc r), rest) \<Rightarrow> Some (Suc r, rest)
              | _ \<Rightarrow> None)"

lemma ahead_slot:
  assumes "1 \<le> k" and "k \<le> n" and "c < n"
  shows "ahead n c ((c + k) mod n) = k"
proof (cases "c + k < n")
  case True
  have "(c + k + n - Suc c) mod n = k - 1"
    using assms by (simp add: mod_if)
  then show ?thesis
    using True assms by (simp add: ahead_def)
next
  case False
  then have "(c + k) mod n = c + k - n"
    using assms by (simp add: mod_if)
  moreover have "c + k - n + n - Suc c = k - 1"
    using False by linarith
  ultimately show ?thesis
    using assms by (simp add: ahead_def)
qed

lemma ahead_cases:
  assumes "c < n" and "b < n"
  shows "ahead n c b = (if c < b then b - c else b + n - c)"
  using assms by (auto simp: ahead_def mod_if)

lemma ahead_tick:
  assumes "c < n" and "b < n"
  shows "ahead n c b = 1 \<longleftrightarrow> b = (c + 1) mod n"
    and "b \<noteq> (c + 1) mod n \<Longrightarrow> ahead n ((c + 1) mod n) b = ahead n c b - 1 \<and> 2 \<le> ahead n c b"
proof -
  have c: "Suc c mod n = (if Suc c = n then 0 else Suc c)"
    using assms by auto
  show "ahead n c b = 1 \<longleftrightarrow> b = (c + 1) mod n"
    using assms by (auto simp: c ahead_cases)
  show "ahead n ((c + 1) mod n) b = ahead n c b - 1 \<and> 2 \<le> ahead n c b" if "b \<noteq> (c + 1) mod n"
    using assms that by (auto simp: c ahead_cases split: if_splits)
qed

lemma ticks_for_bounds:
  "ticks_for t w = Inr k \<Longrightarrow> 0 < bucketCount w \<Longrightarrow> 1 \<le> k \<and> k \<le> bucketCount w"
  by (auto simp: ticks_for_def Let_def Suc_le_eq split: if_splits)

lemma ticks_for_cong:
  "tickIntervalSec w' = tickIntervalSec w \<Longrightarrow> bucketCount w' = bucketCount w \<Longrightarrow>
   ticks_for t w' = ticks_for t w"
  by (simp add: ticks_for_def Let_def)

lemma view_in:
  assumes "rep w L X" and "b < bucketCount w" and "a \<in> set (L b)" and "heap w a = Some e"
    and "ticks_for (timeoutSec e) w = Inr k"
  shows "view w a = Some (ahead (bucketCount w) (currentBucket w) b, k, callback e, owner e)"
  using rep_bucket [OF assms(1-3)] assms(4,5) by (simp add: view_def)

lemma view_None: "heap w a = None \<Longrightarrow> view w a = None"
  by (simp add: view_def)

lemma wheel_wf_cases:
  assumes "rep w L {}" and "wheel_wf w"
  obtains "heap w a = None" and "view w a = None"
  | b e k where "b < bucketCount w" and "a \<in> set (L b)" and "heap w a = Some e"
      and "ticks_for (timeoutSec e) w = Inr k"
      and "view w a = Some (ahead (bucketCount w) (currentBucket w) b, k, callback e, owner e)"
proof (cases "heap w a")
  case None
  then show ?thesis
    using that(1) by (simp add: view_None)
next
  case (Some e)
  then obtain b where b: "b < bucketCount w" "a \<in> set (L b)"
    using repD(6) [OF assms(1)] by (auto simp: dom_def)
  obtain k where k: "ticks_for (timeoutSec e) w = Inr k"
    using assms(2) Some by (auto simp: wheel_wf_def)
  show ?thesis
    using that(2) [OF b Some k view_in [OF assms(1) b Some k]] .
qed

lemma view_same_payload:
  assumes "same_payload w w'" and "map_option bucketIndex (heap w' a) = map_option bucketIndex (heap w a)"
  shows "view w' a = view w a"
proof (cases "heap w a")
  case None
  then have "heap w' a = None"
    using assms(2) by simp
  with None show ?thesis
    by (simp add: view_def)
next
  case (Some e)
  obtain e' where e': "heap w' a = Some e'" "callback e' = callback e" "owner e' = owner e"
      "timeoutSec e' = timeoutSec e"
    using same_payload_entry [OF assms(1) Some] by blast
  then have "bucketIndex e' = bucketIndex e"
    using assms(2) Some by simp
  moreover have "ticks_for t w' = ticks_for t w" for t
    using assms(1) by (intro ticks_for_cong) (simp_all add: same_payload_def)
  ultimately show ?thesis
    using Some e' assms(1) by (simp add: view_def same_payload_def split: option.split sum.split)
qed

lemma bucket_index_frame:
  assumes "rep w L X" and "rep w' L' X'" and "bucketCount w' = bucketCount w"
    and "\<And>b. b < bucketCount w \<Longrightarrow> x \<in> set (L' b) \<longleftrightarrow> x \<in> set (L b)"
    and "x \<notin> X" and "x \<notin> X'"
  shows "map_option bucketIndex (heap w' x) = map_option bucketIndex (heap w x)"
proof (cases "\<exists>b<bucketCount w. x \<in> set (L b)")
  case True
  then obtain b where b: "b < bucketCount w" "x \<in> set (L b)"
    by blast
  with rep_bucket [OF assms(1) b] rep_bucket [OF assms(2), of b x] assms(3,4) show ?thesis
    by auto
next
  case False
  then have "x \<notin> dom (heap w)" and "x \<notin> dom (heap w')"
    using repD(6) [OF assms(1)] repD(6) [OF assms(2)] assms(3-6) by auto
  then show ?thesis
    by (simp add: dom_def)
qed

lemma wheel_wf_same_payload:
  assumes "rep w' L' {}" and "same_payload w w'"
    and "\<And>a e. heap w a = Some e \<Longrightarrow> \<exists>k. ticks_for (timeoutSec e) w = Inr k"
  shows "wheel_wf w'"
  unfolding wheel_wf_def
proof (intro conjI allI impI)
  show "\<exists>L. rep w' L {}"
    using assms(1) by blast
  fix a e'
  assume e': "heap w' a = Some e'"
  then obtain e where e: "heap w a = Some e" "timeoutSec e' = timeoutSec e"
    using assms(2) by (cases "heap w a") (auto simp: same_payload_def dest!: spec [where x = a])
  have "ticks_for t w' = ticks_for t w" for t
    using assms(2) by (intro ticks_for_cong) (simp_all add: same_payload_def)
  with assms(3) [OF e(1)] e(2) show "\<exists>k. ticks_for (timeoutSec e') w' = Inr k"
    by simp
qed

lemma add_view:
  assumes "wheel_wf w" and k: "ticks_for t w = Inr k"
  shows "\<exists>a w'. add t cb own w = Inr (a, w') \<and> wheel_wf w' \<and> view w a = None
    \<and> view w' = (view w)(a \<mapsto> (k, k, cb, own))"
proof -
  obtain L where rep: "rep w L {}"
    using assms(1) by (auto simp: wheel_wf_def)
  let ?a = "fresh w" and ?n = "bucketCount w"
  let ?e = "\<lparr>bucketIndex = None, timeoutSec = t, callback = cb, owner = own, prev = None, next = None\<rparr>"
  let ?w1 = "w\<lparr>fresh := Suc ?a, heap := (heap w)(?a \<mapsto> ?e)\<rparr>"
  let ?b = "(currentBucket w + k) mod ?n"
  have new: "?a \<notin> dom (heap w)"
    using repD(9) [OF rep, of ?a] by auto
  then have unused: "?a \<notin> set (L b)" if "b < ?n" for b
    using repD(6) [OF rep] that by auto
  have rep1: "rep ?w1 L (insert ?a {})"
  proof (rule repI)
    show "\<exists>l. seg (heap ?w1) b (buckets ?w1 ! b) None (L b) None l" if "b < bucketCount ?w1" for b
      using repD(5) [OF rep, of b] unused that by simp
    show "dom (heap ?w1) = (\<Union>b<bucketCount ?w1. set (L b)) \<union> {?a}"
      using repD(6) [OF rep] by simp
    show "x < fresh ?w1" if "x \<in> dom (heap ?w1)" for x
      using that repD(9) [OF rep, of x] by (cases "x = ?a") (auto simp: dom_def)
  qed (use repD(1-4) [OF rep] unused in auto)
  have b: "?b < bucketCount ?w1"
    using repD(1) [OF rep] by simp
  obtain w' where w': "attach ?b ?a ?w1 = Inr w'" "rep w' (L(?b := ?a # L ?b)) {}" "same_payload ?w1 w'"
    using rep_attach [OF rep1 b] by auto
  have k1: "ticks_for t ?w1 = Inr k"
    using k ticks_for_cong [of ?w1 w t] by simp
  have "add t cb own w = Inr (?a, w')"
    using w'(1) k1 repD(1) [OF rep] by (simp add: add_def Let_def)
  moreover have "wheel_wf w'"
  proof (rule wheel_wf_same_payload [OF w'(2,3)])
    fix x e
    assume "heap ?w1 x = Some e"
    then have "x = ?a \<and> e = ?e \<or> heap w x = Some e"
      by (auto split: if_splits)
    with assms(1) k1 show "\<exists>k. ticks_for (timeoutSec e) ?w1 = Inr k"
      using ticks_for_cong [of ?w1 w] by (auto simp: wheel_wf_def)
  qed
  moreover have "view w' ?a = Some (k, k, cb, own)"
  proof -
    obtain e' where e': "heap w' ?a = Some e'" "callback e' = cb" "owner e' = own" "timeoutSec e' = t"
      using same_payload_entry [OF w'(3), of ?a ?e] by auto
    have fields: "bucketCount w' = ?n" "currentBucket w' = currentBucket w"
        "tickIntervalSec w' = tickIntervalSec w"
      using w'(3) by (simp_all add: same_payload_def)
    have "view w' ?a = Some (ahead ?n (currentBucket w) ?b, k, callback e', owner e')"
      using view_in [OF w'(2) _ _ e'(1), of ?b k] b fields e' k ticks_for_cong [of w' w t] by simp
    then show ?thesis
      using ahead_slot [of k ?n "currentBucket w"] ticks_for_bounds [OF k] repD(1,3) [OF rep] e' by simp
  qed
  moreover have "view w' x = view w x" if "x \<noteq> ?a" for x
  proof -
    have "map_option bucketIndex (heap w' x) = map_option bucketIndex (heap ?w1 x)"
      using w'(3) that
      by (intro bucket_index_frame [OF rep1 w'(2)]) (auto simp: same_payload_def)
    from view_same_payload [OF w'(3) this] have "view w' x = view ?w1 x" .
    also have "\<dots> = view w x"
    proof -
      have "ticks_for u ?w1 = ticks_for u w" for u
        by (rule ticks_for_cong) simp_all
      with that show ?thesis
        by (simp add: view_def split: option.split sum.split)
    qed
    finally show ?thesis .
  qed
  moreover have "view w ?a = None"
    using new by (intro view_None) (auto simp: dom_def)
  ultimately show ?thesis
    by (intro exI [of _ ?a] exI [of _ w']) auto
qed

text \<open>The chain of an entry of the view.\<close>

lemma view_SomeE:
  assumes "wheel_wf w" and "view w a = Some (r, k, cb, own)"
  obtains L b xs ys e where "rep w L {}" and "b < bucketCount w" and "L b = xs @ a # ys"
    and "heap w a = Some e" and "ticks_for (timeoutSec e) w = Inr k" and "callback e = cb"
    and "owner e = own" and "r = ahead (bucketCount w) (currentBucket w) b" and "bucketIndex e = Some b"
proof -
  obtain L where rep: "rep w L {}"
    using assms(1) by (auto simp: wheel_wf_def)
  show ?thesis
  proof (cases rule: wheel_wf_cases [OF rep assms(1), of a])
    case 1
    with assms(2) show ?thesis
      by simp
  next
    case (2 b e k')
    moreover obtain xs ys where "L b = xs @ a # ys"
      using 2(2) by (auto simp: in_set_conv_decomp)
    ultimately show ?thesis
      using that [OF rep, of b xs ys e] assms(2) rep_bucket [OF rep 2(1,2)] by simp
  qed
qed

lemma in_split_frame: "x \<noteq> a \<Longrightarrow> x \<in> set (xs @ ys) \<longleftrightarrow> x \<in> set (xs @ a # ys)"
  by auto

lemma detach_bucket_frame:
  assumes "rep w L {}" and "rep w' (L(b := xs @ ys)) {a}" and "same_payload w w'"
    and "L b = xs @ a # ys" and "x \<noteq> a"
  shows "map_option bucketIndex (heap w' x) = map_option bucketIndex (heap w x)"
  using assms by (intro bucket_index_frame [OF assms(1,2)]) (auto simp: same_payload_def)

lemma remove_view:
  assumes wf: "wheel_wf w" and a: "view w a = Some (r, k, cb, own)"
  shows "\<exists>w'. remove (Some a) w = Inr w' \<and> wheel_wf w' \<and> view w' = (view w)(a := None)"
proof -
  obtain L b xs ys e where rep: "rep w L {}" and b: "b < bucketCount w" and L: "L b = xs @ a # ys"
    and e: "heap w a = Some e" "bucketIndex e = Some b"
    using view_SomeE [OF assms] by metis
  obtain w1 where w1: "detach a w = Inr w1" "rep w1 (L(b := xs @ ys)) {a}" "same_payload w w1"
    using rep_detach [OF rep b L] by auto
  let ?w2 = "w1\<lparr>heap := (heap w1)(a := None)\<rparr>"
  have live: "\<exists>e1. heap w1 a = Some e1"
    using repD(8) [OF w1(2), of a] by auto
  have "remove (Some a) w = Inr ?w2"
    using e w1(1) live by (auto simp: remove_def load_def free_def)
  moreover have ticks: "ticks_for t ?w2 = ticks_for t w" for t
    using w1(3) by (intro ticks_for_cong) (simp_all add: same_payload_def)
  moreover have rep2: "rep ?w2 (L(b := xs @ ys)) {}"
  proof (rule repI)
    show "\<exists>l. seg (heap ?w2) b' (buckets ?w2 ! b') None ((L(b := xs @ ys)) b') None l"
      if "b' < bucketCount ?w2" for b'
      using that repD(5) [OF w1(2), of b'] repD(7) [OF w1(2), of a b'] by simp
    show "dom (heap ?w2) = (\<Union>b'<bucketCount ?w2. set ((L(b := xs @ ys)) b')) \<union> {}"
      using repD(6) [OF w1(2)] repD(7) [OF w1(2), of a] by auto
    show "x < fresh ?w2" if "x \<in> dom (heap ?w2)" for x
      using that repD(9) [OF w1(2), of x] by (cases "x = a") (auto simp: dom_def)
  qed (use repD(1-4) [OF w1(2)] in simp_all)
  moreover have "wheel_wf ?w2"
    unfolding wheel_wf_def
  proof (intro conjI allI impI)
    fix x e2
    assume "heap ?w2 x = Some e2"
    then have "heap w1 x = Some e2"
      by (simp split: if_splits)
    then obtain e0 where "heap w x = Some e0" "timeoutSec e2 = timeoutSec e0"
      using w1(3) by (cases "heap w x") (auto simp: same_payload_def dest!: spec [where x = x])
    with wf ticks show "\<exists>k. ticks_for (timeoutSec e2) ?w2 = Inr k"
      by (auto simp: wheel_wf_def)
  qed (use rep2 in blast)
  moreover have "view ?w2 x = (if x = a then None else view w x)" for x
  proof (cases "x = a")
    case False
    then have "view ?w2 x = view w1 x"
    proof -
      have "ticks_for u ?w2 = ticks_for u w1" for u
        by (rule ticks_for_cong) simp_all
      with False show ?thesis
        by (simp add: view_def split: option.split sum.split)
    qed
    with False show ?thesis
      using view_same_payload [OF w1(3) detach_bucket_frame [OF rep w1(2,3) L False]] by simp
  qed (simp add: view_def)
  ultimately show ?thesis
    by (intro exI [of _ ?w2]) auto
qed

lemma refresh_view:
  assumes wf: "wheel_wf w" and a: "view w a = Some (r, k, cb, own)"
  shows "\<exists>w'. refresh (Some a) w = Inr w' \<and> wheel_wf w' \<and> view w' = (view w)(a \<mapsto> (k, k, cb, own))"
proof -
  obtain L b xs ys e where rep: "rep w L {}" and b: "b < bucketCount w" and L: "L b = xs @ a # ys"
    and e: "heap w a = Some e" "bucketIndex e = Some b" "callback e = cb" "owner e = own"
    and k: "ticks_for (timeoutSec e) w = Inr k"
    using view_SomeE [OF assms] by metis
  obtain w1 where w1: "detach a w = Inr w1" "rep w1 (L(b := xs @ ys)) {a}" "same_payload w w1"
    using rep_detach [OF rep b L] by auto
  let ?n = "bucketCount w" and ?L1 = "L(b := xs @ ys)"
  let ?b = "(currentBucket w + k) mod ?n"
  have fields: "bucketCount w1 = ?n" "currentBucket w1 = currentBucket w"
    using w1(3) by (simp_all add: same_payload_def)
  have b': "?b < bucketCount w1"
    using repD(1) [OF rep] fields by simp
  obtain w2 where w2: "attach ?b a w1 = Inr w2" "rep w2 (?L1(?b := a # ?L1 ?b)) {}" "same_payload w1 w2"
    using rep_attach [OF w1(2) b'] by auto
  have pay: "same_payload w w2"
    using same_payload_trans [OF w1(3) w2(3)] .
  have ticks: "ticks_for t w1 = ticks_for t w" "ticks_for t w2 = ticks_for t w" for t
    using w1(3) pay by (auto intro!: ticks_for_cong simp: same_payload_def)
  obtain e1 where e1: "heap w1 a = Some e1" "timeoutSec e1 = timeoutSec e"
    using same_payload_entry [OF w1(3) e(1)] by blast
  obtain e2 where e2: "heap w2 a = Some e2" "callback e2 = cb" "owner e2 = own" "timeoutSec e2 = timeoutSec e"
    using same_payload_entry [OF pay e(1)] e by auto
  have "refresh (Some a) w = Inr w2"
    using e w1(1) e1 w2(1) k ticks fields repD(1) [OF rep] by (simp add: refresh_def load_def)
  moreover have "wheel_wf w2"
    using wf by (intro wheel_wf_same_payload [OF w2(2) pay]) (simp add: wheel_wf_def)
  moreover have "view w2 a = Some (k, k, cb, own)"
  proof -
    have "view w2 a = Some (ahead (bucketCount w2) (currentBucket w2) ?b, k, callback e2, owner e2)"
      using b' w2(3) e2 k ticks by (intro view_in [OF w2(2)]) (simp_all add: same_payload_def)
    then show ?thesis
      using ahead_slot [of k ?n "currentBucket w"] ticks_for_bounds [OF k] repD(1,3) [OF rep] e2 pay
      by (simp add: same_payload_def)
  qed
  moreover have "view w2 x = view w x" if "x \<noteq> a" for x
  proof -
    have "map_option bucketIndex (heap w2 x) = map_option bucketIndex (heap w1 x)"
      using w2(3) that by (intro bucket_index_frame [OF w1(2) w2(2)]) (auto simp: same_payload_def)
    then show ?thesis
      using view_same_payload [OF w2(3)] view_same_payload [OF w1(3) detach_bucket_frame [OF rep w1(2,3) L that]]
      by simp
  qed
  ultimately show ?thesis
    by (intro exI [of _ w2]) auto
qed

text \<open>Callbacks that run without touching the wheel: those the servers install do not.\<close>

definition pure_env :: "('cb \<Rightarrow> 'w \<Rightarrow> 'w) \<Rightarrow> (nat \<Rightarrow> 'w \<Rightarrow> bool) \<Rightarrow> ('cb, 'w) callback_env" where
  "pure_env run dead = \<lparr>run_callback = (\<lambda>cb (w, s). Inr (w, run cb s)), expired = dead\<rparr>"

definition fire :: "('cb \<Rightarrow> 'w \<Rightarrow> 'w) \<Rightarrow> (nat \<Rightarrow> 'w \<Rightarrow> bool) \<Rightarrow> 'cb view \<Rightarrow> nat list \<Rightarrow> 'w \<Rightarrow> 'w" where
  "fire run dead v as s =
     fold (\<lambda>a s. case v a of Some (r, k, cb, own) \<Rightarrow> if dead own s then s else run cb s | None \<Rightarrow> s) as s"

lemma tick_loop_pure:
  assumes "seg (heap w) b h p xs None l" and "distinct xs" and "length xs \<le> fuel"
    and "\<And>a. a \<in> set xs \<Longrightarrow> \<exists>e r k. heap w a = Some e \<and> v a = Some (r, k, callback e, owner e)"
  shows "tick_loop (pure_env run dead) fuel h (w, s) =
    Inr (w\<lparr>heap := (heap w) |` (- set xs)\<rparr>, fire run dead v xs s)"
  using assms
proof (induction xs arbitrary: w h p fuel s)
  case Nil
  then show ?case
    by (simp add: fire_def)
next
  case (Cons x xs)
  obtain e f where e: "h = Some x" "heap w x = Some e" "seg (heap w) b (next e) (Some x) xs None l"
    and f: "fuel = Suc f" "length xs \<le> f" and x: "x \<notin> set xs"
    using Cons.prems by (cases fuel) auto
  obtain r k where v: "v x = Some (r, k, callback e, owner e)"
    using Cons.prems(4) [of x] e(2) by auto
  let ?w3 = "w\<lparr>heap := (heap w)(x := None)\<rparr>"
  let ?s = "if dead (owner e) s then s else run (callback e) s"
  have "tick_loop (pure_env run dead) fuel h (w, s) = tick_loop (pure_env run dead) f (next e) (?w3, ?s)"
    by (simp add: e f load_def store_def free_def pure_env_def)
  also have "\<dots> = Inr (?w3\<lparr>heap := (heap ?w3) |` (- set xs)\<rparr>, fire run dead v xs ?s)"
  proof (rule Cons.IH [where p = "Some x"])
    show "seg (heap ?w3) b (next e) (Some x) xs None l"
      using e(3) x seg_frame [of x xs "heap w" None] by simp
    show "\<exists>e r k. heap ?w3 a = Some e \<and> v a = Some (r, k, callback e, owner e)" if "a \<in> set xs" for a
      using Cons.prems(4) [of a] that x by (cases "a = x") simp_all
  qed (use Cons.prems(2) f(2) in simp_all)
  also have "\<dots> = Inr (w\<lparr>heap := (heap w) |` (- set (x # xs))\<rparr>, fire run dead v (x # xs) s)"
  proof -
    have "(heap w)(x := None) |` (- set xs) = (heap w) |` (- set (x # xs))"
      by (rule ext) (auto simp: restrict_map_def)
    then show ?thesis
      by (simp add: fire_def v)
  qed
  finally show ?case .
qed

text \<open>One tick, in three parts: the callbacks of the bucket run, the entries of the bucket leave the
  representation, and every other entry is one tick nearer.\<close>

abbreviation (input) expired :: "'cb wheel \<Rightarrow> nat \<Rightarrow> nat set \<Rightarrow> 'cb wheel" where
  "expired w c A \<equiv> w\<lparr>currentBucket := c, buckets := (buckets w)[c := None], heap := (heap w) |` (- A)\<rparr>"

lemma bucket_view:
  assumes rep: "rep w L {}" and wf: "wheel_wf w" and b: "b < bucketCount w" and a: "a \<in> set (L b)"
  shows "\<exists>e k. heap w a = Some e \<and> ticks_for (timeoutSec e) w = Inr k \<and>
    view w a = Some (ahead (bucketCount w) (currentBucket w) b, k, callback e, owner e)"
proof -
  obtain e where e: "heap w a = Some e"
    using rep_bucket [OF rep b a] by blast
  moreover obtain k where k: "ticks_for (timeoutSec e) w = Inr k"
    using wf e by (auto simp: wheel_wf_def)
  ultimately show ?thesis
    using view_in [OF rep b a e k] by blast
qed

lemma tick_runs_bucket:
  assumes rep: "rep w L {}" and wf: "wheel_wf w" and c: "c = (currentBucket w + 1) mod bucketCount w"
  shows "tick (pure_env run dead) (w, s) = Inr (expired w c (set (L c)), fire run dead (view w) (L c) s)"
proof -
  have cn: "c < bucketCount w"
    using repD(1) [OF rep] c by simp
  then obtain l where l: "seg (heap w) c (buckets w ! c) None (L c) None l"
    using repD(5) [OF rep] by blast
  let ?w2 = "w\<lparr>currentBucket := c, buckets := (buckets w)[c := None]\<rparr>"
  have sub: "set (L c) \<subseteq> {..<fresh w}"
    using repD(6,9) [OF rep] cn by (auto simp: dom_def)
  have "tick (pure_env run dead) (w, s) = tick_loop (pure_env run dead) (Suc (fresh w)) (buckets w ! c) (?w2, s)"
    using repD(1,2) [OF rep] cn by (simp add: tick_def Let_def get_bucket_def set_bucket_def c)
  also have "\<dots> = Inr (?w2\<lparr>heap := (heap ?w2) |` (- set (L c))\<rparr>, fire run dead (view w) (L c) s)"
  proof (rule tick_loop_pure)
    show "length (L c) \<le> Suc (fresh w)"
      using card_mono [OF finite_lessThan sub] distinct_card [OF repD(4) [OF rep cn]] by simp
    show "seg (heap ?w2) c (buckets w ! c) None (L c) None l"
      using l by simp
    show "\<exists>e r k. heap ?w2 a = Some e \<and> view w a = Some (r, k, callback e, owner e)" if "a \<in> set (L c)" for a
      using bucket_view [OF rep wf cn that] by auto
  qed (use repD(4) [OF rep cn] in simp_all)
  finally show ?thesis
    by simp
qed

lemma rep_expired:
  assumes rep: "rep w L {}" and c: "c < bucketCount w"
  shows "rep (expired w c (set (L c))) (L(c := [])) {}"
proof (rule repI)
  let ?w3 = "expired w c (set (L c))"
  fix b
  assume "b < bucketCount ?w3"
  then have b: "b < bucketCount w"
    by simp
  show "\<exists>l. seg (heap ?w3) b (buckets ?w3 ! b) None ((L(c := [])) b) None l"
  proof (cases "b = c")
    case True
    then show ?thesis
      using c repD(2) [OF rep] by simp
  next
    case False
    have "heap ?w3 x = heap w x" if "x \<in> set (L b)" for x
      using rep_other_bucket [OF rep b c False that] by simp
    from seg_cong [OF this] show ?thesis
      using repD(5) [OF rep b] False by simp
  qed
next
  let ?w3 = "expired w c (set (L c))"
  have n: "bucketCount ?w3 = bucketCount w" and "dom (heap ?w3) = dom (heap w) - set (L c)"
    by auto
  then show "dom (heap ?w3) = (\<Union>b<bucketCount ?w3. set ((L(c := [])) b)) \<union> {}"
    using rep_other_bucket [OF rep _ c]
    unfolding n UN_bucket(1) [OF c] repD(6) [OF rep] UN_bucket(2) [OF c, of L]
    by auto
next
  show "x < fresh (expired w c (set (L c)))" if "x \<in> dom (heap (expired w c (set (L c))))" for x
    using that repD(9) [OF rep, of x] by auto
qed (use repD(1-4) [OF rep] c in auto)

lemma view_expired:
  assumes rep: "rep w L {}" and wf: "wheel_wf w" and c: "c = (currentBucket w + 1) mod bucketCount w"
  shows "(a \<in> set (L c) \<longleftrightarrow> (\<exists>rest. view w a = Some (1, rest)))
    \<and> view (expired w c (set (L c))) a = age (view w) a"
proof -
  let ?n = "bucketCount w" and ?w3 = "expired w c (set (L c))"
  have cn: "c < ?n"
    using repD(1) [OF rep] c by simp
  have ticks: "ticks_for t ?w3 = ticks_for t w" for t
    by (rule ticks_for_cong) simp_all
  show ?thesis
  proof (cases rule: wheel_wf_cases [OF rep wf, of a])
    case 1
    then have "view ?w3 a = None"
      by (intro view_None) (simp add: restrict_map_def)
    with 1 show ?thesis
      using bucket_view [OF rep wf cn, of a] by (auto simp: age_def)
  next
    case (2 b e k)
    note ahead = ahead_tick [OF repD(3) [OF rep] 2(1), folded c]
    have here: "a \<in> set (L c) \<longleftrightarrow> b = c"
      using rep_other_bucket [OF rep _ cn, of b a] 2 by auto
    show ?thesis
    proof (cases "b = c")
      case True
      then have "view w a = Some (Suc 0, k, callback e, owner e)"
        using 2 ahead(1) by simp
      moreover have "view ?w3 a = None"
        using True 2(2) by (intro view_None) (simp add: restrict_map_def)
      ultimately show ?thesis
        using here True by (simp add: age_def)
    next
      case False
      obtain m where m: "ahead ?n (currentBucket w) b = Suc (Suc m)"
        using ahead(2) [OF False]
        by (cases "ahead ?n (currentBucket w) b"; cases "ahead ?n (currentBucket w) b - 1") auto
      have "view ?w3 a = Some (ahead ?n c b, k, callback e, owner e)"
        using rep_bucket [OF rep 2(1,2)] 2(3,4) ticks here False by (simp add: view_def)
      then show ?thesis
        using 2 m ahead(2) [OF False] here False by (simp add: age_def)
    qed
  qed
qed

lemma tick_view:
  assumes wf: "wheel_wf w"
  shows "\<exists>w' as. tick (pure_env run dead) (w, s) = Inr (w', fire run dead (view w) as s)
    \<and> wheel_wf w' \<and> distinct as \<and> set as = {a. \<exists>rest. view w a = Some (1, rest)}
    \<and> view w' = age (view w)"
proof -
  obtain L where rep: "rep w L {}"
    using wf by (auto simp: wheel_wf_def)
  define c where "c = (currentBucket w + 1) mod bucketCount w"
  let ?w3 = "expired w c (set (L c))"
  have c: "c < bucketCount w"
    using repD(1) [OF rep] by (simp add: c_def)
  have ticks: "ticks_for t ?w3 = ticks_for t w" for t
    by (rule ticks_for_cong) simp_all
  have "wheel_wf ?w3"
    unfolding wheel_wf_def using wf ticks rep_expired [OF rep c]
    by (auto simp: wheel_wf_def restrict_map_def split: if_splits)
  then show ?thesis
    using tick_runs_bucket [OF rep wf c_def] view_expired [OF rep wf c_def] repD(4) [OF rep c]
    by (intro exI [of _ ?w3] exI [of _ "L c"]) (auto simp: fun_eq_iff)
qed

section \<open>The interface\<close>

text \<open>
  What the servers rely on: an entry is a deadline in ticks, refreshing restarts it, and a
  tick fires exactly the entries whose deadline is one tick away.
\<close>

datatype 'cb wheel_op = Add rat 'cb nat | Remove nat | Refresh nat | Tick

fun entry_of :: "'cb wheel_op \<Rightarrow> nat option" where
  "entry_of (Remove a) = Some a"
| "entry_of (Refresh a) = Some a"
| "entry_of _ = None"

locale deadline_wheel =
  fixes wf :: "'t \<Rightarrow> bool" and look :: "'t \<Rightarrow> 'cb view" and span :: "rat \<Rightarrow> 't \<Rightarrow> nat res"
    and insert_entry :: "rat \<Rightarrow> 'cb \<Rightarrow> nat \<Rightarrow> 't \<Rightarrow> (nat \<times> 't) res"
    and drop_entry :: "nat option \<Rightarrow> 't \<Rightarrow> 't res"
    and restart_entry :: "nat option \<Rightarrow> 't \<Rightarrow> 't res"
    and advance :: "'t \<times> 'w \<Rightarrow> ('t \<times> 'w) res"
    and run :: "'cb \<Rightarrow> 'w \<Rightarrow> 'w" and dead :: "nat \<Rightarrow> 'w \<Rightarrow> bool"
  assumes insert_look: "wf w \<Longrightarrow> span t w = Inr k \<Longrightarrow>
      \<exists>a w'. insert_entry t cb own w = Inr (a, w') \<and> wf w' \<and> look w a = None
        \<and> look w' = (look w)(a \<mapsto> (k, k, cb, own))"
    and drop_look: "wf w \<Longrightarrow> look w a = Some (r, k, cb, own) \<Longrightarrow>
      \<exists>w'. drop_entry (Some a) w = Inr w' \<and> wf w' \<and> look w' = (look w)(a := None)"
    and restart_look: "wf w \<Longrightarrow> look w a = Some (r, k, cb, own) \<Longrightarrow>
      \<exists>w'. restart_entry (Some a) w = Inr w' \<and> wf w' \<and> look w' = (look w)(a \<mapsto> (k, k, cb, own))"
    and insert_span: "insert_entry t cb own w = Inr aw \<Longrightarrow> \<exists>k. span t w = Inr k"
    and drop_live: "wf w \<Longrightarrow> drop_entry (Some a) w = Inr w' \<Longrightarrow> look w a \<noteq> None"
    and restart_live: "wf w \<Longrightarrow> restart_entry (Some a) w = Inr w' \<Longrightarrow> look w a \<noteq> None"
    and advance_look: "wf w \<Longrightarrow>
      \<exists>w' as. advance (w, s) = Inr (w', fire run dead (look w) as s) \<and> wf w' \<and> distinct as
        \<and> set as = {a. \<exists>rest. look w a = Some (1, rest)} \<and> look w' = age (look w)"
begin

fun step :: "'cb wheel_op \<Rightarrow> 't \<times> 'w \<Rightarrow> ('t \<times> 'w) res" where
  "step (Add t cb own) (w, s) = rbind (insert_entry t cb own w) (\<lambda>(a, w'). Inr (w', s))"
| "step (Remove a) (w, s) = rbind (drop_entry (Some a) w) (\<lambda>w'. Inr (w', s))"
| "step (Refresh a) (w, s) = rbind (restart_entry (Some a) w) (\<lambda>w'. Inr (w', s))"
| "step Tick ws = advance ws"

fun steps :: "'cb wheel_op list \<Rightarrow> 't \<times> 'w \<Rightarrow> ('t \<times> 'w) res" where
  "steps [] ws = Inr ws"
| "steps (x # xs) ws = rbind (step x ws) (steps xs)"

lemma step_other:
  assumes "wf w" and "step x (w, s) = Inr (w', s')" and "entry_of x \<noteq> Some a"
    and "look w a = Some (r, rest)" and "x = Tick \<Longrightarrow> 2 \<le> r"
  shows "wf w' \<and> look w' a = Some (if x = Tick then r - 1 else r, rest)"
proof (cases x)
  case (Add t cb own)
  then obtain aw where "insert_entry t cb own w = Inr aw"
    using assms(2) by (auto elim!: rbind_InrE)
  then obtain k where "span t w = Inr k"
    using insert_span by blast
  from insert_look [OF assms(1) this, of cb own] assms(2,4) Add show ?thesis by auto
next
  case (Remove a')
  then obtain r' k' cb' own' where "look w a' = Some (r', k', cb', own')"
    using assms(2) drop_live [OF assms(1), of a'] by (auto elim!: rbind_InrE)
  from drop_look [OF assms(1) this] assms(2-4) Remove show ?thesis by auto
next
  case (Refresh a')
  then obtain r' k' cb' own' where "look w a' = Some (r', k', cb', own')"
    using assms(2) restart_live [OF assms(1), of a'] by (auto elim!: rbind_InrE)
  from restart_look [OF assms(1) this] assms(2-4) Refresh show ?thesis by auto
next
  case Tick
  with assms(5) obtain m where "r = Suc (Suc m)"
    by (cases r; cases "r - 1") auto
  with advance_look [OF assms(1), of s] assms(2,4) Tick show ?thesis
    by (auto simp: age_def)
qed

lemma steps_pending:
  assumes "steps xs (w, s) = Inr (w', s')" and "wf w" and "look w a = Some (r, rest)"
    and "\<forall>x\<in>set xs. entry_of x \<noteq> Some a" and "length (filter (\<lambda>x. x = Tick) xs) < r"
  shows "wf w' \<and> look w' a = Some (r - length (filter (\<lambda>x. x = Tick) xs), rest)"
  using assms
proof (induction xs arbitrary: w s r)
  case (Cons x xs)
  then obtain w1 s1 where 1: "step x (w, s) = Inr (w1, s1)" "steps xs (w1, s1) = Inr (w', s')"
    by (auto elim!: rbind_InrE)
  have "wf w1 \<and> look w1 a = Some (if x = Tick then r - 1 else r, rest)"
    using Cons.prems by (intro step_other [OF _ 1(1)]) auto
  then show ?case
    using Cons.IH [OF 1(2), of "if x = Tick then r - 1 else r"] Cons.prems by (cases "x = Tick") auto
qed simp

lemma steps_fire:
  assumes "steps xs (w, s) = Inr (w', s')" and "wf w" and "look w a = Some (r, rest)"
    and "\<forall>x\<in>set xs. entry_of x \<noteq> Some a" and "Suc (length (filter (\<lambda>x. x = Tick) xs)) = r"
  shows "\<exists>w2 as. advance (w', s') = Inr (w2, fire run dead (look w') as s')
    \<and> a \<in> set as \<and> distinct as \<and> look w2 a = None"
proof -
  have "wf w'" and 1: "look w' a = Some (1, rest)"
    using steps_pending [OF assms(1-4)] assms(5) by auto
  from advance_look [OF this(1), of s'] obtain w2 as
    where "advance (w', s') = Inr (w2, fire run dead (look w') as s')" "distinct as"
      and "set as = {a. \<exists>rest. look w' a = Some (1, rest)}" "look w2 = age (look w')"
    by blast
  with 1 show ?thesis
    by (cases rest; intro exI [of _ w2] exI [of _ as]) (auto simp: age_def)
qed

end

lemma live_op:
  "wheel_wf w \<Longrightarrow> heap w a \<noteq> None \<Longrightarrow> view w a \<noteq> None"
  using wheel_wf_cases [of w _ a] by (metis option.distinct(1) wheel_wf_def)

interpretation dw: deadline_wheel wheel_wf view ticks_for add remove refresh "tick (pure_env run dead)" run dead
  for run dead
proof unfold_locales
  show "\<exists>k. ticks_for t w = Inr k" if ok: "add t cb own w = Inr aw"
    for t cb own aw and w :: "'c wheel"
  proof -
    let ?w1 = "w\<lparr>fresh := Suc (fresh w),
        heap := (heap w)(fresh w \<mapsto> \<lparr>bucketIndex = None, timeoutSec = t, callback = cb,
                                       owner = own, prev = None, next = None\<rparr>)\<rparr>"
    obtain k where "ticks_for t ?w1 = Inr k"
      using ok by (auto simp only: add_def Let_def elim!: rbind_InrE)
    moreover have "ticks_for t ?w1 = ticks_for t w"
      by (rule ticks_for_cong) simp_all
    ultimately show ?thesis
      by simp
  qed
  show "view w a \<noteq> None" if "wheel_wf w" and "remove (Some a) w = Inr w'" for w w' :: "'c wheel" and a
    using that by (intro live_op) (auto simp: remove_def load_def split: option.splits)
  show "view w a \<noteq> None" if "wheel_wf w" and "refresh (Some a) w = Inr w'" for w w' :: "'c wheel" and a
    using that by (intro live_op) (auto simp: refresh_def load_def split: option.splits)
qed (fact add_view remove_view refresh_view tick_view)+

section \<open>Properties\<close>

fun run_op :: "('cb, 'w) callback_env \<Rightarrow> 'cb wheel_op \<Rightarrow> 'cb wheel \<times> 'w \<Rightarrow> ('cb wheel \<times> 'w) res" where
  "run_op env (Add t cb own) (w, s) = rbind (add t cb own w) (\<lambda>(a, w'). Inr (w', s))"
| "run_op env (Remove a) (w, s) = rbind (remove (Some a) w) (\<lambda>w'. Inr (w', s))"
| "run_op env (Refresh a) (w, s) = rbind (refresh (Some a) w) (\<lambda>w'. Inr (w', s))"
| "run_op env Tick (w, s) = tick env (w, s)"

fun run_ops :: "('cb, 'w) callback_env \<Rightarrow> 'cb wheel_op list \<Rightarrow> 'cb wheel \<times> 'w \<Rightarrow> ('cb wheel \<times> 'w) res" where
  "run_ops env [] ws = Inr ws"
| "run_ops env (x # xs) ws = rbind (run_op env x ws) (run_ops env xs)"

definition tick_count :: "'cb wheel_op list \<Rightarrow> nat" where
  "tick_count ops = length (filter (\<lambda>x. x = Tick) ops)"

lemma run_op_step: "run_op (pure_env run dead) x (w, s) = dw.step run dead x (w, s)"
  by (cases x) simp_all

lemma run_ops_steps: "run_ops (pure_env run dead) xs ws = dw.steps run dead xs ws"
proof (induction xs arbitrary: ws)
  case (Cons x xs)
  have "run_op (pure_env run dead) x ws = dw.step run dead x ws"
    by (cases ws) (simp add: run_op_step)
  moreover have "run_ops (pure_env run dead) xs = dw.steps run dead xs"
    using Cons.IH by (rule ext)
  ultimately show ?case
    by simp
qed simp



text \<open>The wheel of \<^verbatim>\<open>EventLoop\<close> with one idle connection, whose callback is number 1.\<close>

definition demo_wheel :: "nat wheel" where
  "demo_wheel =
     (case add 60 1 9 (wheel_new 60 1) of Inr (a, w) \<Rightarrow> w | Inl e \<Rightarrow> wheel_new 60 1)"

lemma demo_wheel_view: "wheel_wf demo_wheel \<and> view demo_wheel 0 = Some (60, 60, 1, 9)"
proof -
  have "ticks_for 60 (wheel_new 60 1 :: nat wheel) = Inr 60"
    by (simp add: ticks_for_def wheel_new_def in_int_def)
  from dw.insert_look [OF wheel_new_wf this, of 1 9] obtain a w
    where "add 60 1 9 (wheel_new 60 1 :: nat wheel) = Inr (a, w)" "wheel_wf w"
      "view w = (view (wheel_new 60 1))(a \<mapsto> (60, 60, 1, 9))"
    by (auto simp del: One_nat_def)
  moreover from this(1) have "a = 0"
    by (auto simp: add_def wheel_new_def Let_def elim!: rbind_InrE split: if_splits)
  ultimately show ?thesis
    by (simp add: demo_wheel_def)
qed



section \<open>The destructor\<close>

lemma free_chain_seg:
  assumes "seg (heap w) b h p xs None l" and "distinct xs" and "length xs < fuel"
  shows "free_chain fuel h w = Inr (w\<lparr>heap := heap w |` (- set xs)\<rparr>)"
  using assms
proof (induction xs arbitrary: w h p fuel)
  case Nil
  have "heap w |` UNIV = heap w"
    by (simp add: restrict_map_def)
  with Nil show ?case
    by simp
next
  case (Cons x xs)
  obtain n where fuel: "fuel = Suc n" "length xs < n"
    using Cons.prems(3) by (cases fuel) auto
  obtain e where e: "h = Some x" "heap w x = Some e" "seg (heap w) b (next e) (Some x) xs None l"
    using Cons.prems(1) by auto
  let ?w1 = "w\<lparr>heap := (heap w)(x := None)\<rparr>"
  have "seg (heap ?w1) b (next e) (Some x) xs None l" "distinct xs"
    using e(3) Cons.prems(2) by simp_all
  note Cons.IH [OF this fuel(2)]
  moreover have "?w1\<lparr>heap := heap ?w1 |` (- set xs)\<rparr> = w\<lparr>heap := heap w |` (- set (x # xs))\<rparr>"
    by (intro wheel.equality) (auto simp: restrict_map_def)
  ultimately have "free_chain n (next e) ?w1 = Inr (w\<lparr>heap := heap w |` (- set (x # xs))\<rparr>)"
    by (simp only:)
  then show ?case
    using e(1,2) fuel(1) by (simp add: load_def free_def)
qed

lemma chain_fuel:
  assumes "rep w L X" and "b < bucketCount w"
  shows "length (L b) \<le> fresh w"
proof -
  have "set (L b) \<subseteq> {..<fresh w}"
    using repD(6,9) [OF assms(1)] assms(2) by blast
  then have "card (set (L b)) \<le> fresh w"
    using card_mono [of "{..<fresh w}" "set (L b)"] by simp
  then show ?thesis
    using distinct_card [OF repD(4) [OF assms]] by simp
qed

lemma destroy_buckets:
  assumes "rep w L X" and "k \<le> bucketCount w"
  shows "fold (\<lambda>i acc. rbind acc (\<lambda>w. rbind (get_bucket i w) (\<lambda>entry. free_chain (Suc (fresh w)) entry w)))
      [0..<k] (Inr w) = Inr (w\<lparr>heap := heap w |` (- (\<Union>b<k. set (L b)))\<rparr>)"
  using assms(2)
proof (induction k)
  case 0
  have "heap w |` UNIV = heap w"
    by (simp add: restrict_map_def)
  then show ?case
    by simp
next
  case (Suc k)
  let ?w1 = "w\<lparr>heap := heap w |` (- (\<Union>b<k. set (L b)))\<rparr>"
  have k: "k < bucketCount w" "k < length (buckets w)"
    using Suc.prems repD(2) [OF assms(1)] by simp_all
  obtain l where "seg (heap w) k (buckets w ! k) None (L k) None l"
    using repD(5) [OF assms(1) k(1)] by blast
  moreover have "heap ?w1 x = heap w x" if "x \<in> set (L k)" for x
  proof -
    have "x \<notin> set (L b)" if "b < k" for b
      using rep_other_bucket [OF assms(1) k(1) _ _ \<open>x \<in> set (L k)\<close>] that k(1) by simp
    then show ?thesis
      by (simp add: restrict_map_def)
  qed
  ultimately have "seg (heap ?w1) k (buckets ?w1 ! k) None (L k) None l"
    using seg_cong [of "L k" "heap ?w1" "heap w"] by simp
  from free_chain_seg [OF this repD(4) [OF assms(1) k(1)], of "Suc (fresh w)"] chain_fuel [OF assms(1) k(1)]
  have "free_chain (Suc (fresh w)) (buckets w ! k) ?w1 = Inr (?w1\<lparr>heap := heap ?w1 |` (- set (L k))\<rparr>)"
    by simp
  moreover have "heap ?w1 |` (- set (L k)) = heap w |` (- (\<Union>b<Suc k. set (L b)))"
    by (rule ext) (auto simp: restrict_map_def less_Suc_eq)
  ultimately show ?case
    using Suc.IH Suc.prems k by (simp add: get_bucket_def)
qed

text \<open>
  The destructor of the wheel deletes every entry, each once: no entry is leaked and no
  deleted entry is touched.
\<close>

theorem wheel_destructor_frees_all:
  assumes "wheel_wf w"
  shows "\<exists>w'. wheel_destroy w = Inr w' \<and> heap w' = Map.empty"
proof -
  obtain L where rep: "rep w L {}"
    using assms by (auto simp: wheel_wf_def)
  have "heap w |` (- (\<Union>b<bucketCount w. set (L b))) = Map.empty"
    using repD(6) [OF rep] by (auto simp: restrict_map_def fun_eq_iff domIff)
  with destroy_buckets [OF rep order_refl] show ?thesis
    by (simp add: wheel_destroy_def)
qed

theorem wheel_destructor_frees_all_witness:
  "\<exists>w'. wheel_destroy demo_wheel = Inr w' \<and> heap w' = Map.empty"
  by (rule wheel_destructor_frees_all [OF conjunct1 [OF demo_wheel_view]])

end
