(* ===== verification/Kernel.thy ===== *)
theory Kernel
  imports EzPrelude "HOL-Library.Word"
begin

text \<open>
  The operating system as the sources use it. It is not part of the repository, so it is a
  parameter: a record of functions on a kernel state of any type. What the proofs need of it
  are the named hypotheses \<open>epoll_ok\<close>, \<open>interest_ok\<close>, \<open>write_ok\<close>, \<open>sendfile_ok\<close> and \<open>quiet_ok\<close>, which state
  what the manual pages say of \<^verbatim>\<open>epoll_ctl\<close>, \<^verbatim>\<open>write\<close> and \<^verbatim>\<open>sendfile\<close>; \<open>demo_kernel\<close> shows
  that they can hold together.
\<close>

unbundle bit_operations_syntax

section \<open>Event masks\<close>

type_synonym events = "32 word"

definition EPOLLIN :: events where "EPOLLIN = 0x001"
definition EPOLLOUT :: events where "EPOLLOUT = 0x004"
definition EPOLLERR :: events where "EPOLLERR = 0x008"
definition EPOLLHUP :: events where "EPOLLHUP = 0x010"
definition EPOLLET :: events where "EPOLLET = 0x80000000"

definition has :: "events \<Rightarrow> events \<Rightarrow> bool" where
  "has ev flag \<longleftrightarrow> ev AND flag \<noteq> 0"

lemma EPOLLIN_flags [simp]:
  "has EPOLLIN EPOLLIN" "\<not> has EPOLLIN EPOLLOUT" "\<not> has EPOLLIN (EPOLLERR OR EPOLLHUP)"
  by (simp_all add: has_def EPOLLIN_def EPOLLOUT_def EPOLLERR_def EPOLLHUP_def)

lemma EPOLLOUT_flags [simp]:
  "has EPOLLOUT EPOLLOUT" "\<not> has EPOLLOUT EPOLLIN" "\<not> has EPOLLOUT (EPOLLERR OR EPOLLHUP)"
  by (simp_all add: has_def EPOLLIN_def EPOLLOUT_def EPOLLERR_def EPOLLHUP_def)

section \<open>System calls\<close>

text \<open>A call that returns -1 is \<open>False\<close>, \<open>None\<close> or the error number.\<close>

record 'k kernel =
  sys_epoll_add :: "int \<Rightarrow> events \<Rightarrow> 'k \<Rightarrow> bool \<times> 'k"
  sys_epoll_mod :: "int \<Rightarrow> events \<Rightarrow> 'k \<Rightarrow> bool \<times> 'k"
  sys_epoll_del :: "int \<Rightarrow> 'k \<Rightarrow> bool \<times> 'k"
  sys_write :: "int \<Rightarrow> string \<Rightarrow> 'k \<Rightarrow> (errno + nat) \<times> 'k"
  sys_readv :: "int \<Rightarrow> nat \<Rightarrow> 'k \<Rightarrow> (errno + string) \<times> 'k"
  sys_sendfile :: "int \<Rightarrow> int \<Rightarrow> int \<Rightarrow> nat \<Rightarrow> 'k \<Rightarrow> (errno + nat) \<times> 'k"
  sys_open :: "string \<Rightarrow> 'k \<Rightarrow> int option \<times> 'k"
  sys_lseek :: "int \<Rightarrow> int \<Rightarrow> 'k \<Rightarrow> bool \<times> 'k"
  sys_close :: "int \<Rightarrow> 'k \<Rightarrow> 'k"
  sys_shutdown :: "int \<Rightarrow> 'k \<Rightarrow> 'k"
  sys_accept :: "int \<Rightarrow> 'k \<Rightarrow> int option \<times> 'k"

section \<open>Documented behaviour\<close>

text \<open>
  \<^verbatim>\<open>epoll_ctl\<close>: the interest list is a set of descriptors. Adding one that is there or
  naming a negative one fails, changing or deleting one that is not there fails, and the
  other calls leave the list alone, except \<^verbatim>\<open>close\<close>, which drops the descriptor.
\<close>

definition epoll_ok :: "'k kernel \<Rightarrow> ('k \<Rightarrow> int set) \<Rightarrow> bool" where
  "epoll_ok K interest \<longleftrightarrow>
     (\<forall>fd ev k. fst (sys_epoll_add K fd ev k) \<longrightarrow>
        0 \<le> fd \<and> fd \<notin> interest k \<and> interest (snd (sys_epoll_add K fd ev k)) = insert fd (interest k))
     \<and> (\<forall>fd ev k. fst (sys_epoll_mod K fd ev k) = (fd \<in> interest k)
          \<and> interest (snd (sys_epoll_mod K fd ev k)) = interest k)
     \<and> (\<forall>fd k. fst (sys_epoll_del K fd k) = (fd \<in> interest k)
          \<and> interest (snd (sys_epoll_del K fd k)) = interest k - {fd})"

text \<open>
  \<^verbatim>\<open>write\<close> on a socket: \<open>wire k fd\<close> is the stream of bytes the socket has accepted. A
  successful call accepts a prefix of the data, a failing one nothing.
\<close>

definition write_ok :: "'k kernel \<Rightarrow> ('k \<Rightarrow> int \<Rightarrow> string) \<Rightarrow> bool" where
  "write_ok K wire \<longleftrightarrow>
     (\<forall>fd data k. case sys_write K fd data k of
        (Inl e, k') \<Rightarrow> wire k' = wire k
      | (Inr n, k') \<Rightarrow> n \<le> length data \<and> wire k' = (wire k)(fd := wire k fd @ take n data))"

text \<open>
  \<^verbatim>\<open>sendfile\<close> with an offset argument: it sends at most \<open>count\<close> bytes of the file from the
  offset on, and only bytes the file has.
\<close>

definition sendfile_ok :: "'k kernel \<Rightarrow> ('k \<Rightarrow> int \<Rightarrow> string) \<Rightarrow> (int \<Rightarrow> string) \<Rightarrow> bool" where
  "sendfile_ok K wire file \<longleftrightarrow>
     (\<forall>fd ffd off count k. 0 \<le> off \<longrightarrow>
       (case sys_sendfile K fd ffd off count k of
          (Inl e, k') \<Rightarrow> wire k' = wire k
        | (Inr n, k') \<Rightarrow> n \<le> count \<and> n \<le> length (drop (nat off) (file ffd))
            \<and> wire k' = (wire k)(fd := wire k fd @ take n (drop (nat off) (file ffd)))))"

text \<open>No other call puts bytes on a socket.\<close>

definition quiet_ok :: "'k kernel \<Rightarrow> ('k \<Rightarrow> int \<Rightarrow> string) \<Rightarrow> bool" where
  "quiet_ok K wire \<longleftrightarrow>
     (\<forall>fd ev k. wire (snd (sys_epoll_add K fd ev k)) = wire k)
     \<and> (\<forall>fd ev k. wire (snd (sys_epoll_mod K fd ev k)) = wire k)
     \<and> (\<forall>fd k. wire (snd (sys_epoll_del K fd k)) = wire k)
     \<and> (\<forall>p k. wire (snd (sys_open K p k)) = wire k)
     \<and> (\<forall>fd off k. wire (snd (sys_lseek K fd off k)) = wire k)
     \<and> (\<forall>fd k. wire (sys_close K fd k) = wire k)
     \<and> (\<forall>fd k. wire (sys_shutdown K fd k) = wire k)"

text \<open>Reading, writing and shutting down do not touch the interest list; closing drops the descriptor.\<close>

definition interest_ok :: "'k kernel \<Rightarrow> ('k \<Rightarrow> int set) \<Rightarrow> bool" where
  "interest_ok K interest \<longleftrightarrow>
     (\<forall>fd data k. interest (snd (sys_write K fd data k)) = interest k)
     \<and> (\<forall>fd n k. interest (snd (sys_readv K fd n k)) = interest k)
     \<and> (\<forall>fd ffd off n k. interest (snd (sys_sendfile K fd ffd off n k)) = interest k)
     \<and> (\<forall>p k. interest (snd (sys_open K p k)) = interest k)
     \<and> (\<forall>fd off k. interest (snd (sys_lseek K fd off k)) = interest k)
     \<and> (\<forall>fd k. interest (sys_close K fd k) = interest k - {fd})
     \<and> (\<forall>fd k. interest (sys_shutdown K fd k) = interest k)"

lemma interest_okD:
  assumes "interest_ok K interest"
  shows "interest (snd (sys_write K fd data k)) = interest k"
    and "interest (snd (sys_readv K fd n k)) = interest k"
    and "interest (snd (sys_sendfile K fd ffd off n k)) = interest k"
    and "interest (snd (sys_open K p k)) = interest k"
    and "interest (snd (sys_lseek K fd off k)) = interest k"
    and "interest (sys_close K fd k) = interest k - {fd}"
    and "interest (sys_shutdown K fd k) = interest k"
  using assms by (simp_all add: interest_ok_def)

lemma epoll_okD:
  assumes "epoll_ok K interest"
  shows "fst (sys_epoll_add K fd ev k) \<Longrightarrow>
      0 \<le> fd \<and> fd \<notin> interest k \<and> interest (snd (sys_epoll_add K fd ev k)) = insert fd (interest k)"
    and "fst (sys_epoll_mod K fd ev k) = (fd \<in> interest k)"
    and "interest (snd (sys_epoll_mod K fd ev k)) = interest k"
    and "fst (sys_epoll_del K fd k) = (fd \<in> interest k)"
    and "interest (snd (sys_epoll_del K fd k)) = interest k - {fd}"
  using assms by (simp_all add: epoll_ok_def)

lemma write_okD:
  assumes "write_ok K wire"
  shows "sys_write K fd data k = (Inl e, k') \<Longrightarrow> wire k' = wire k"
    and "sys_write K fd data k = (Inr n, k') \<Longrightarrow>
      n \<le> length data \<and> wire k' = (wire k)(fd := wire k fd @ take n data)"
proof -
  have "case sys_write K fd data k of (Inl e, k') \<Rightarrow> wire k' = wire k
      | (Inr n, k') \<Rightarrow> n \<le> length data \<and> wire k' = (wire k)(fd := wire k fd @ take n data)"
    by (rule assms [unfolded write_ok_def, THEN spec, THEN spec, THEN spec])
  then show "sys_write K fd data k = (Inl e, k') \<Longrightarrow> wire k' = wire k"
    and "sys_write K fd data k = (Inr n, k') \<Longrightarrow>
      n \<le> length data \<and> wire k' = (wire k)(fd := wire k fd @ take n data)"
    by simp_all
qed

lemma sendfile_okD:
  assumes "sendfile_ok K wire file" and "0 \<le> off"
  shows "sys_sendfile K fd ffd off count k = (Inl e, k') \<Longrightarrow> wire k' = wire k"
    and "sys_sendfile K fd ffd off count k = (Inr n, k') \<Longrightarrow>
      n \<le> count \<and> n \<le> length (drop (nat off) (file ffd))
      \<and> wire k' = (wire k)(fd := wire k fd @ take n (drop (nat off) (file ffd)))"
proof -
  have "case sys_sendfile K fd ffd off count k of (Inl e, k') \<Rightarrow> wire k' = wire k
      | (Inr n, k') \<Rightarrow> n \<le> count \<and> n \<le> length (drop (nat off) (file ffd))
          \<and> wire k' = (wire k)(fd := wire k fd @ take n (drop (nat off) (file ffd)))"
    by (rule assms(1) [unfolded sendfile_ok_def, THEN spec, THEN spec, THEN spec, THEN spec, THEN spec,
          THEN mp, OF assms(2)])
  then show "sys_sendfile K fd ffd off count k = (Inl e, k') \<Longrightarrow> wire k' = wire k"
    and "sys_sendfile K fd ffd off count k = (Inr n, k') \<Longrightarrow>
      n \<le> count \<and> n \<le> length (drop (nat off) (file ffd))
      \<and> wire k' = (wire k)(fd := wire k fd @ take n (drop (nat off) (file ffd)))"
    by simp_all
qed

lemma quiet_okD [simp]:
  assumes "quiet_ok K wire"
  shows "wire (snd (sys_epoll_add K fd ev k)) = wire k"
    and "wire (snd (sys_epoll_mod K fd ev k)) = wire k"
    and "wire (snd (sys_epoll_del K fd k)) = wire k"
    and "wire (snd (sys_lseek K fd off k)) = wire k"
    and "wire (sys_close K fd k) = wire k"
    and "wire (sys_shutdown K fd k) = wire k"
    and "wire (snd (sys_open K p k)) = wire k"
  using assms by (simp_all add: quiet_ok_def)

section \<open>A concrete kernel\<close>

text \<open>
  Every descriptor is a socket or a file with the contents \<open>files\<close>; sockets accept at most
  \<open>room\<close> bytes per call; reads deliver the queued input and then block.
\<close>

record demo_state =
  ds_interest :: "int set"
  ds_wire :: "int \<Rightarrow> string"
  ds_input :: "int \<Rightarrow> string list"
  ds_backlog :: "int list"

definition demo_state_new :: demo_state where
  "demo_state_new = \<lparr>ds_interest = {}, ds_wire = (\<lambda>fd. []), ds_input = (\<lambda>fd. []), ds_backlog = []\<rparr>"

definition demo_send :: "nat \<Rightarrow> int \<Rightarrow> string \<Rightarrow> demo_state \<Rightarrow> (errno + nat) \<times> demo_state" where
  "demo_send room fd data k =
     (let d = take room data
      in (Inr (length d), k\<lparr>ds_wire := (ds_wire k)(fd := ds_wire k fd @ d)\<rparr>))"

definition demo_kernel :: "nat \<Rightarrow> (int \<Rightarrow> string) \<Rightarrow> (string \<Rightarrow> int option) \<Rightarrow> demo_state kernel" where
  "demo_kernel room file open_file =
     \<lparr>sys_epoll_add = (\<lambda>fd ev k. if 0 \<le> fd \<and> fd \<notin> ds_interest k
          then (True, k\<lparr>ds_interest := insert fd (ds_interest k)\<rparr>) else (False, k)),
      sys_epoll_mod = (\<lambda>fd ev k. (fd \<in> ds_interest k, k)),
      sys_epoll_del = (\<lambda>fd k. (fd \<in> ds_interest k, k\<lparr>ds_interest := ds_interest k - {fd}\<rparr>)),
      sys_write = demo_send room,
      sys_readv = (\<lambda>fd cap k. case ds_input k fd of
          [] \<Rightarrow> (Inl EAGAIN, k)
        | d # ds \<Rightarrow> (Inr (take cap d), k\<lparr>ds_input := (ds_input k)(fd := ds)\<rparr>)),
      sys_sendfile = (\<lambda>fd ffd off count k. demo_send room fd (take count (drop (nat off) (file ffd))) k),
      sys_open = (\<lambda>path k. (open_file path, k)),
      sys_lseek = (\<lambda>fd off k. (True, k)),
      sys_close = (\<lambda>fd k. k\<lparr>ds_interest := ds_interest k - {fd}\<rparr>),
      sys_shutdown = (\<lambda>fd k. k),
      sys_accept = (\<lambda>fd k. (None, k))\<rparr>"

lemma demo_kernel_ok [simp]:
  "epoll_ok (demo_kernel room file open_file) ds_interest"
  "interest_ok (demo_kernel room file open_file) ds_interest"
  "write_ok (demo_kernel room file open_file) ds_wire"
  "sendfile_ok (demo_kernel room file open_file) ds_wire file"
  "quiet_ok (demo_kernel room file open_file) ds_wire"
  by (auto simp: epoll_ok_def interest_ok_def write_ok_def sendfile_ok_def quiet_ok_def demo_kernel_def
      demo_send_def Let_def min_def split: list.split)

end
