(* ===== verification/EventLoop.thy ===== *)
theory EventLoop
  imports Kernel TimeWheel
begin

text \<open>
  \<^verbatim>\<open>core/EventLoop.h\<close> and \<^verbatim>\<open>core/EventLoop.cpp\<close>: the table of descriptors and callbacks, the
  dispatch of a batch of events, the callbacks queued by \<^verbatim>\<open>runInLoop\<close>, and the loop. The
  lambdas the program registers are the constructors of \<open>loop_cb\<close>. The abstract view of the
  table is a partial map from descriptors to event masks and callbacks, kept equal to the
  kernel's interest list. \<^verbatim>\<open>epoll_create1\<close>, \<^verbatim>\<open>timerfd_create\<close> and the mutex are not modelled;
  the answers of \<^verbatim>\<open>epoll_wait\<close> are an input of the loop.
\<close>

section \<open>State\<close>

datatype trigger_mode = LT | ET

text \<open>
  The callbacks: the timer of the wheel, the listening socket, a connection (with and
  without the write branch), a \<^verbatim>\<open>Timer\<close> object and a UDP socket.
\<close>

datatype loop_cb = WheelTimerCb | AcceptCb | ConnReadWriteCb nat | ConnReadCb nat | TimerCb nat | UdpCb nat

text \<open>The one callback the wheel gets: the idle timeout of a connection.\<close>

datatype wheel_cb = CloseIdle nat

record fd_context =
  fc_fd :: int
  fc_events :: events
  fc_callback :: "loop_cb option"

definition fd_context_default :: fd_context where
  "fd_context_default = \<lparr>fc_fd = 0, fc_events = 0, fc_callback = None\<rparr>"

record 'p event_loop =
  triggerMode :: trigger_mode
  running :: bool
  events_size :: nat
  fdContexts :: "fd_context list"
  timerFd :: int
  timeWheel :: "wheel_cb wheel"
  pendingCallbacks :: "'p list"

section \<open>Registering descriptors\<close>

definition with_mode :: "'p event_loop \<Rightarrow> events \<Rightarrow> events" where
  "with_mode L ev = (if triggerMode L = ET then ev OR EPOLLET else ev)"

definition addFd ::
    "'k kernel \<Rightarrow> int \<Rightarrow> events \<Rightarrow> loop_cb \<Rightarrow> 'p event_loop \<times> 'k \<Rightarrow> ('p event_loop \<times> 'k) res" where
  "addFd K fd ev cb Lk =
     (let (L, k) = Lk; (ok, k') = sys_epoll_add K fd (with_mode L ev) k in
      if \<not> ok then Inl (Thrown ''fail epoll_ctl EPOLL_CTL_ADD'')
      else if fd < 0 then Inl (Undefined ''negative index'')
      else
        let ctxs = (if nat fd \<ge> length (fdContexts L)
                    then fdContexts L @ replicate (nat fd + 1 - length (fdContexts L)) fd_context_default
                    else fdContexts L)
        in Inr (L\<lparr>fdContexts :=
                   ctxs[nat fd := \<lparr>fc_fd = fd, fc_events = ev, fc_callback = Some cb\<rparr>]\<rparr>, k'))"

definition modFd ::
    "'k kernel \<Rightarrow> int \<Rightarrow> events \<Rightarrow> loop_cb \<Rightarrow> 'p event_loop \<times> 'k \<Rightarrow> ('p event_loop \<times> 'k) res" where
  "modFd K fd ev cb Lk =
     (let (L, k) = Lk in
      if fd < 0 \<or> fd \<ge> int (length (fdContexts L)) \<or> fc_fd (fdContexts L ! nat fd) = - 1
      then Inl (Thrown ''modFd: fd not registered or has been removed'')
      else
        let L1 = L\<lparr>fdContexts := (fdContexts L)[nat fd :=
                     (fdContexts L ! nat fd)\<lparr>fc_events := ev, fc_callback := Some cb\<rparr>]\<rparr>;
            (ok, k') = sys_epoll_mod K fd (with_mode L ev) k
        in if \<not> ok then Inl (Thrown ''fail epoll_ctl EPOLL_CTL_MOD'') else Inr (L1, k'))"

definition removeFd :: "'k kernel \<Rightarrow> int \<Rightarrow> 'p event_loop \<times> 'k \<Rightarrow> ('p event_loop \<times> 'k) res" where
  "removeFd K fd Lk =
     (let (L, k) = Lk; (ok, k') = sys_epoll_del K fd k in
      if \<not> ok then Inl (Thrown ''fail epoll_ctl EPOLL_CTL_DEL'')
      else if fd < 0 \<or> fd \<ge> int (length (fdContexts L)) then Inl (Undefined ''fdContexts_ index'')
      else Inr (L\<lparr>fdContexts := (fdContexts L)[nat fd := (fdContexts L ! nat fd)\<lparr>fc_fd := - 1\<rparr>]\<rparr>, k'))"

text \<open>The constructor: 1024 empty contexts, a wheel of 60 one-second buckets, the timer registered.\<close>

definition event_loop_new ::
    "'k kernel \<Rightarrow> trigger_mode \<Rightarrow> int \<Rightarrow> 'k \<Rightarrow> ('p event_loop \<times> 'k) res" where
  "event_loop_new K m tfd k =
     (let L = \<lparr>triggerMode = m, running = False, events_size = 16,
               fdContexts = replicate 1024 fd_context_default, timerFd = tfd,
               timeWheel = wheel_new 60 1, pendingCallbacks = []\<rparr>
      in addFd K tfd EPOLLIN WheelTimerCb (L, k))"

text \<open>The destructor, given the descriptor of the epoll instance; it removes no registration.\<close>

definition loop_destroy :: "'k kernel \<Rightarrow> int \<Rightarrow> 'p event_loop \<times> 'k \<Rightarrow> 'k" where
  "loop_destroy K epollFd Lk =
     (let (L, k) = Lk in sys_close K epollFd (sys_close K (timerFd L) k))"

section \<open>Dispatching\<close>

text \<open>What \<^verbatim>\<open>loop\<close> calls for an event: whatever callback the slot holds.\<close>

definition dispatch_target :: "'p event_loop \<Rightarrow> int \<Rightarrow> loop_cb option" where
  "dispatch_target L fd =
     (if fd < 0 \<or> fd \<ge> int (length (fdContexts L)) then None
      else fc_callback (fdContexts L ! nat fd))"

text \<open>
  The rest of the program's state has type \<open>'s\<close>; \<open>run\<close> executes a registered callback and
  \<open>runp\<close> a queued one.
\<close>

fun dispatch ::
    "(loop_cb \<Rightarrow> events \<Rightarrow> 'p event_loop \<times> 's \<Rightarrow> ('p event_loop \<times> 's) res)
     \<Rightarrow> (int \<times> events) list \<Rightarrow> 'p event_loop \<times> 's \<Rightarrow> ('p event_loop \<times> 's) res" where
  "dispatch run [] w = Inr w"
| "dispatch run ((fd, revents) # evs) w =
     rbind (case dispatch_target (fst w) fd of None \<Rightarrow> Inr w | Some cb \<Rightarrow> run cb revents w)
       (dispatch run evs)"

lemma dispatch_Nil [simp]: "dispatch run [] = Inr"
  by (rule ext) simp

definition runInLoop :: "'p \<Rightarrow> 'p event_loop \<Rightarrow> 'p event_loop" where
  "runInLoop cb L = L\<lparr>pendingCallbacks := pendingCallbacks L @ [cb]\<rparr>"

fun run_queue :: "('p \<Rightarrow> 'w \<Rightarrow> 'w res) \<Rightarrow> 'p list \<Rightarrow> 'w \<Rightarrow> 'w res" where
  "run_queue runp [] w = Inr w"
| "run_queue runp (cb # cbs) w = rbind (runp cb w) (run_queue runp cbs)"

definition executePendingCallbacks ::
    "('p \<Rightarrow> 'p event_loop \<times> 's \<Rightarrow> ('p event_loop \<times> 's) res)
     \<Rightarrow> 'p event_loop \<times> 's \<Rightarrow> ('p event_loop \<times> 's) res" where
  "executePendingCallbacks runp w =
     (let (L, s) = w in run_queue runp (pendingCallbacks L) (L\<lparr>pendingCallbacks := []\<rparr>, s))"

text \<open>The body of the wheel's timer; the number of expirations read is not used.\<close>

definition onWheelTimer ::
    "('p \<Rightarrow> 'p event_loop \<times> 's \<Rightarrow> ('p event_loop \<times> 's) res)
     \<Rightarrow> ('p event_loop \<times> 's \<Rightarrow> ('p event_loop \<times> 's) res)
     \<Rightarrow> 'p event_loop \<times> 's \<Rightarrow> ('p event_loop \<times> 's) res" where
  "onWheelTimer runp tick_wheel w = rbind (executePendingCallbacks runp w) tick_wheel"

definition loop_stop :: "'p event_loop \<Rightarrow> 'p event_loop" where
  "loop_stop L = L\<lparr>running := False\<rparr>"

definition grow_events :: "nat \<Rightarrow> 'p event_loop \<Rightarrow> 'p event_loop" where
  "grow_events n L = (if n = events_size L then L\<lparr>events_size := events_size L * 2\<rparr> else L)"

text \<open>
  \<^verbatim>\<open>loop\<close>, over the answers \<^verbatim>\<open>epoll_wait\<close> gives: an error or a batch of events. When the
  answers are used up the thread is blocked in \<^verbatim>\<open>epoll_wait\<close>.
\<close>

fun loop_run ::
    "(loop_cb \<Rightarrow> events \<Rightarrow> 'p event_loop \<times> 's \<Rightarrow> ('p event_loop \<times> 's) res)
     \<Rightarrow> ('p \<Rightarrow> 'p event_loop \<times> 's \<Rightarrow> ('p event_loop \<times> 's) res)
     \<Rightarrow> (errno + (int \<times> events) list) list \<Rightarrow> 'p event_loop \<times> 's \<Rightarrow> ('p event_loop \<times> 's) res" where
  "loop_run run runp [] w = Inr w"
| "loop_run run runp (r # rs) w =
     (if \<not> running (fst w) then Inr w
      else case r of
        Inl e \<Rightarrow> if e = EINTR then loop_run run runp rs w else Inr w
      | Inr evs \<Rightarrow>
          rbind (executePendingCallbacks runp w) (\<lambda>w1.
          rbind (dispatch run evs w1) (\<lambda>(L2, s2).
          loop_run run runp rs (grow_events (length evs) L2, s2))))"

definition loop_start ::
    "(loop_cb \<Rightarrow> events \<Rightarrow> 'p event_loop \<times> 's \<Rightarrow> ('p event_loop \<times> 's) res)
     \<Rightarrow> ('p \<Rightarrow> 'p event_loop \<times> 's \<Rightarrow> ('p event_loop \<times> 's) res)
     \<Rightarrow> (errno + (int \<times> events) list) list \<Rightarrow> 'p event_loop \<times> 's \<Rightarrow> ('p event_loop \<times> 's) res" where
  "loop_start run runp rs w = loop_run run runp rs ((fst w)\<lparr>running := True\<rparr>, snd w)"

section \<open>The table as a map\<close>

type_synonym fd_table = "int \<Rightarrow> (events \<times> loop_cb) option"

definition registered :: "'p event_loop \<Rightarrow> fd_table" where
  "registered L fd =
     (if 0 \<le> fd \<and> nat fd < length (fdContexts L) \<and> fc_fd (fdContexts L ! nat fd) = fd
      then map_option (\<lambda>cb. (fc_events (fdContexts L ! nat fd), cb)) (fc_callback (fdContexts L ! nat fd))
      else None)"

definition loop_ok :: "'k kernel \<Rightarrow> ('k \<Rightarrow> int set) \<Rightarrow> 'p event_loop \<times> 'k \<Rightarrow> bool" where
  "loop_ok K interest Lk \<longleftrightarrow>
     epoll_ok K interest \<and> interest (snd Lk) = dom (registered (fst Lk))"

datatype fd_op = AddFd int events loop_cb | ModFd int events loop_cb | RemoveFd int

text \<open>What the operations mean for the map; \<open>None\<close>: an exception.\<close>

fun table_op :: "fd_op \<Rightarrow> fd_table \<Rightarrow> fd_table option" where
  "table_op (AddFd fd ev cb) t = (if t fd = None then Some (t(fd \<mapsto> (ev, cb))) else None)"
| "table_op (ModFd fd ev cb) t = (if t fd \<noteq> None then Some (t(fd \<mapsto> (ev, cb))) else None)"
| "table_op (RemoveFd fd) t = (if t fd \<noteq> None then Some (t(fd := None)) else None)"

fun table_ops :: "fd_op list \<Rightarrow> fd_table \<Rightarrow> fd_table option" where
  "table_ops [] t = Some t"
| "table_ops (x # xs) t = Option.bind (table_op x t) (table_ops xs)"

locale fd_registry =
  fixes ok :: "'s \<Rightarrow> bool" and entries :: "'s \<Rightarrow> fd_table"
    and radd :: "int \<Rightarrow> events \<Rightarrow> loop_cb \<Rightarrow> 's \<Rightarrow> 's res"
    and rmod :: "int \<Rightarrow> events \<Rightarrow> loop_cb \<Rightarrow> 's \<Rightarrow> 's res"
    and rdel :: "int \<Rightarrow> 's \<Rightarrow> 's res"
  assumes radd_entries: "ok s \<Longrightarrow> radd fd ev cb s = Inr s' \<Longrightarrow>
      ok s' \<and> entries s fd = None \<and> entries s' = (entries s)(fd \<mapsto> (ev, cb))"
    and rmod_entries: "ok s \<Longrightarrow> entries s fd \<noteq> None \<Longrightarrow>
      \<exists>s'. rmod fd ev cb s = Inr s' \<and> ok s' \<and> entries s' = (entries s)(fd \<mapsto> (ev, cb))"
    and rmod_fails: "ok s \<Longrightarrow> entries s fd = None \<Longrightarrow> \<exists>why. rmod fd ev cb s = Inl (Thrown why)"
    and rdel_entries: "ok s \<Longrightarrow> entries s fd \<noteq> None \<Longrightarrow>
      \<exists>s'. rdel fd s = Inr s' \<and> ok s' \<and> entries s' = (entries s)(fd := None)"
    and rdel_fails: "ok s \<Longrightarrow> entries s fd = None \<Longrightarrow> \<exists>why. rdel fd s = Inl (Thrown why)"
begin

fun reg_op :: "fd_op \<Rightarrow> 's \<Rightarrow> 's res" where
  "reg_op (AddFd fd ev cb) s = radd fd ev cb s"
| "reg_op (ModFd fd ev cb) s = rmod fd ev cb s"
| "reg_op (RemoveFd fd) s = rdel fd s"

fun reg_ops :: "fd_op list \<Rightarrow> 's \<Rightarrow> 's res" where
  "reg_ops [] s = Inr s"
| "reg_ops (x # xs) s = rbind (reg_op x s) (reg_ops xs)"

lemma reg_op_table:
  assumes "ok s" and "reg_op x s = Inr s'"
  shows "ok s' \<and> table_op x (entries s) = Some (entries s')"
proof (cases x)
  case (AddFd fd ev cb)
  with radd_entries [OF assms(1), of fd ev cb s'] assms(2) show ?thesis
    by auto
next
  case (ModFd fd ev cb)
  show ?thesis
  proof (cases "entries s fd")
    case None
    with rmod_fails [OF assms(1) None, of ev cb] assms(2) ModFd show ?thesis
      by auto
  next
    case (Some e)
    with rmod_entries [OF assms(1), of fd ev cb] assms(2) ModFd show ?thesis
      by auto
  qed
next
  case (RemoveFd fd)
  show ?thesis
  proof (cases "entries s fd")
    case None
    with rdel_fails [OF assms(1) None] assms(2) RemoveFd show ?thesis
      by auto
  next
    case (Some e)
    with rdel_entries [OF assms(1), of fd] assms(2) RemoveFd show ?thesis
      by auto
  qed
qed

lemma reg_ops_table:
  "ok s \<Longrightarrow> reg_ops xs s = Inr s' \<Longrightarrow> ok s' \<and> table_ops xs (entries s) = Some (entries s')"
proof (induction xs arbitrary: s)
  case (Cons x xs)
  then obtain s1 where 1: "reg_op x s = Inr s1" and 2: "reg_ops xs s1 = Inr s'"
    by (auto elim!: rbind_InrE)
  show ?case
    using reg_op_table [OF Cons.prems(1) 1] Cons.IH [OF _ 2] by simp
qed simp

end

lemma registered_write:
  assumes "0 \<le> fd" and "nat fd < length ctxs"
  shows "registered (L\<lparr>fdContexts := ctxs[nat fd := c]\<rparr>) =
    (registered (L\<lparr>fdContexts := ctxs\<rparr>))(fd :=
      (if fc_fd c = fd then map_option (\<lambda>cb. (fc_events c, cb)) (fc_callback c) else None))"
proof
  fix x
  show "registered (L\<lparr>fdContexts := ctxs[nat fd := c]\<rparr>) x =
    ((registered (L\<lparr>fdContexts := ctxs\<rparr>))(fd :=
      (if fc_fd c = fd then map_option (\<lambda>cb. (fc_events c, cb)) (fc_callback c) else None))) x"
  proof (cases "x = fd")
    case False
    then have "0 \<le> x \<Longrightarrow> nat x \<noteq> nat fd"
      using assms(1) by simp
    with False show ?thesis
      by (auto simp: registered_def nth_list_update)
  qed (use assms in \<open>simp add: registered_def\<close>)
qed

lemma registered_grow:
  "registered (L\<lparr>fdContexts := fdContexts L @ replicate n fd_context_default\<rparr>) = registered L"
  by (rule ext) (auto simp: registered_def nth_append fd_context_default_def)

lemma registered_Some:
  "registered L fd = Some e \<Longrightarrow>
   0 \<le> fd \<and> nat fd < length (fdContexts L) \<and> fc_fd (fdContexts L ! nat fd) = fd"
  by (auto simp: registered_def split: if_splits)

lemma registered_update_ctx:
  "registered (L\<lparr>fdContexts := fdContexts L\<rparr>) = registered L"
  by simp

lemma addFd_registers:
  assumes "loop_ok K interest (L, k)" and "addFd K fd ev cb (L, k) = Inr (L', k')"
  shows "loop_ok K interest (L', k') \<and> registered L fd = None
    \<and> registered L' = (registered L)(fd \<mapsto> (ev, cb))"
proof -
  let ?r = "sys_epoll_add K fd (with_mode L ev) k"
  let ?ctxs = "if nat fd \<ge> length (fdContexts L)
    then fdContexts L @ replicate (nat fd + 1 - length (fdContexts L)) fd_context_default
    else fdContexts L"
  let ?c = "\<lparr>fc_fd = fd, fc_events = ev, fc_callback = Some cb\<rparr>"
  have ok: "fst ?r" "0 \<le> fd" "k' = snd ?r" and L': "L' = L\<lparr>fdContexts := ?ctxs[nat fd := ?c]\<rparr>"
    using assms(2) by (auto simp: addFd_def Let_def split: prod.splits if_splits)
  have fresh_fd: "fd \<notin> interest k" and int': "interest k' = insert fd (interest k)"
    using epoll_okD(1) [of K interest fd "with_mode L ev" k] assms(1) ok by (simp_all add: loop_ok_def)
  have "registered (L\<lparr>fdContexts := ?ctxs\<rparr>) = registered L"
    using registered_grow [of L] by auto
  then have "registered L' = (registered L)(fd \<mapsto> (ev, cb))"
    unfolding L' using ok(2) by (subst registered_write) auto
  with fresh_fd int' assms(1) show ?thesis
    by (auto simp: loop_ok_def)
qed

lemma modFd_cases:
  assumes "loop_ok K interest (L, k)"
  shows "registered L fd \<noteq> None \<Longrightarrow> \<exists>L' k'. modFd K fd ev cb (L, k) = Inr (L', k')
      \<and> k' = snd (sys_epoll_mod K fd (with_mode L ev) k)
      \<and> loop_ok K interest (L', k') \<and> registered L' = (registered L)(fd \<mapsto> (ev, cb))"
    and "registered L fd = None \<Longrightarrow> \<exists>why. modFd K fd ev cb (L, k) = Inl (Thrown why)"
proof -
  let ?r = "sys_epoll_mod K fd (with_mode L ev) k"
  have mod: "fst ?r = (registered L fd \<noteq> None)" "interest (snd ?r) = interest k"
    using epoll_okD(2,3) [of K interest fd "with_mode L ev" k] assms by (auto simp: loop_ok_def)
  show "\<exists>why. modFd K fd ev cb (L, k) = Inl (Thrown why)" if "registered L fd = None"
    using mod that by (auto simp: modFd_def Let_def split: prod.splits)
  let ?L' = "L\<lparr>fdContexts := (fdContexts L)[nat fd :=
      (fdContexts L ! nat fd)\<lparr>fc_events := ev, fc_callback := Some cb\<rparr>]\<rparr>"
  show "\<exists>L' k'. modFd K fd ev cb (L, k) = Inr (L', k')
      \<and> k' = snd (sys_epoll_mod K fd (with_mode L ev) k)
      \<and> loop_ok K interest (L', k') \<and> registered L' = (registered L)(fd \<mapsto> (ev, cb))"
    if "registered L fd \<noteq> None"
  proof (intro exI conjI)
    have fd: "0 \<le> fd" "nat fd < length (fdContexts L)" "fc_fd (fdContexts L ! nat fd) = fd"
      using that registered_Some by auto
    show "modFd K fd ev cb (L, k) = Inr (?L', snd ?r)"
      using mod that fd by (auto simp: modFd_def Let_def split: prod.splits)
    show reg: "registered ?L' = (registered L)(fd \<mapsto> (ev, cb))"
      using fd by (subst registered_write) simp_all
    show "loop_ok K interest (?L', snd ?r)"
      using assms mod(2) that unfolding loop_ok_def fst_conv snd_conv reg by auto
  qed (rule refl)
qed

lemma removeFd_cases:
  assumes "loop_ok K interest (L, k)"
  shows "registered L fd \<noteq> None \<Longrightarrow> \<exists>L' k'. removeFd K fd (L, k) = Inr (L', k')
      \<and> k' = snd (sys_epoll_del K fd k)
      \<and> loop_ok K interest (L', k') \<and> registered L' = (registered L)(fd := None)"
    and "registered L fd = None \<Longrightarrow> \<exists>why. removeFd K fd (L, k) = Inl (Thrown why)"
proof -
  let ?r = "sys_epoll_del K fd k"
  have del: "fst ?r = (registered L fd \<noteq> None)" "interest (snd ?r) = interest k - {fd}"
    using epoll_okD(4,5) [of K interest fd k] assms by (auto simp: loop_ok_def)
  show "\<exists>why. removeFd K fd (L, k) = Inl (Thrown why)" if "registered L fd = None"
    using del(1) that by (cases ?r) (simp add: removeFd_def)
  let ?L' = "L\<lparr>fdContexts := (fdContexts L)[nat fd := (fdContexts L ! nat fd)\<lparr>fc_fd := - 1\<rparr>]\<rparr>"
  show "\<exists>L' k'. removeFd K fd (L, k) = Inr (L', k') \<and> k' = snd (sys_epoll_del K fd k)
      \<and> loop_ok K interest (L', k') \<and> registered L' = (registered L)(fd := None)"
    if "registered L fd \<noteq> None"
  proof (intro exI conjI)
    have fd: "0 \<le> fd" "nat fd < length (fdContexts L)"
      using that registered_Some by auto
    show "removeFd K fd (L, k) = Inr (?L', snd ?r)"
      using del(1) that fd by (cases ?r) (simp add: removeFd_def)
    show reg: "registered ?L' = (registered L)(fd := None)"
      using fd by (subst registered_write) simp_all
    show "loop_ok K interest (?L', snd ?r)"
      using assms del(2) unfolding loop_ok_def fst_conv snd_conv reg by simp
  qed (rule refl)
qed

interpretation fdr: fd_registry "loop_ok K interest" "\<lambda>Lk. registered (fst Lk)"
  "addFd K" "modFd K" "removeFd K" for K interest
proof unfold_locales
  fix s s' :: "'c event_loop \<times> 'a" and fd ev cb
  show "loop_ok K interest s' \<and> registered (fst s) fd = None
      \<and> registered (fst s') = (registered (fst s))(fd \<mapsto> (ev, cb))"
    if "loop_ok K interest s" "addFd K fd ev cb s = Inr s'"
    using addFd_registers [of K interest "fst s" "snd s" fd ev cb "fst s'" "snd s'"] that by simp
  show "\<exists>s'. modFd K fd ev cb s = Inr s' \<and> loop_ok K interest s'
      \<and> registered (fst s') = (registered (fst s))(fd \<mapsto> (ev, cb))"
    if "loop_ok K interest s" "registered (fst s) fd \<noteq> None"
    using modFd_cases(1) [of K interest "fst s" "snd s" fd ev cb] that by auto
  show "\<exists>why. modFd K fd ev cb s = Inl (Thrown why)"
    if "loop_ok K interest s" "registered (fst s) fd = None"
    using modFd_cases(2) [of K interest "fst s" "snd s" fd ev cb] that by simp
  show "\<exists>s'. removeFd K fd s = Inr s' \<and> loop_ok K interest s'
      \<and> registered (fst s') = (registered (fst s))(fd := None)"
    if "loop_ok K interest s" "registered (fst s) fd \<noteq> None"
    using removeFd_cases(1) [of K interest "fst s" "snd s" fd] that by auto
  show "\<exists>why. removeFd K fd s = Inl (Thrown why)"
    if "loop_ok K interest s" "registered (fst s) fd = None"
    using removeFd_cases(2) [of K interest "fst s" "snd s" fd] that by simp
qed

text \<open>The registration operations leave the wheel alone.\<close>

lemma addFd_timeWheel:
  "addFd K f ev cb (L, k) = Inr (L', k') \<Longrightarrow> timeWheel L' = timeWheel L"
  by (auto simp: addFd_def Let_def split: prod.splits if_splits)

lemma removeFd_timeWheel:
  "removeFd K f (L, k) = Inr (L', k') \<Longrightarrow> timeWheel L' = timeWheel L"
  by (auto simp: removeFd_def Let_def split: prod.splits if_splits)

text \<open>They leave the trigger mode alone as well.\<close>

lemma addFd_mode: "addFd K f ev cb (L, k) = Inr (L', k') \<Longrightarrow> triggerMode L' = triggerMode L"
  by (auto simp: addFd_def Let_def split: prod.splits if_splits)

lemma modFd_mode: "modFd K f ev cb (L, k) = Inr (L', k') \<Longrightarrow> triggerMode L' = triggerMode L"
  by (auto simp: modFd_def Let_def split: prod.splits if_splits)

lemma removeFd_mode: "removeFd K f (L, k) = Inr (L', k') \<Longrightarrow> triggerMode L' = triggerMode L"
  by (auto simp: removeFd_def Let_def split: prod.splits if_splits)

section \<open>Properties\<close>

fun run_fd_op :: "'k kernel \<Rightarrow> fd_op \<Rightarrow> 'p event_loop \<times> 'k \<Rightarrow> ('p event_loop \<times> 'k) res" where
  "run_fd_op K (AddFd fd ev cb) Lk = addFd K fd ev cb Lk"
| "run_fd_op K (ModFd fd ev cb) Lk = modFd K fd ev cb Lk"
| "run_fd_op K (RemoveFd fd) Lk = removeFd K fd Lk"

fun run_fd_ops :: "'k kernel \<Rightarrow> fd_op list \<Rightarrow> 'p event_loop \<times> 'k \<Rightarrow> ('p event_loop \<times> 'k) res" where
  "run_fd_ops K [] Lk = Inr Lk"
| "run_fd_ops K (x # xs) Lk = rbind (run_fd_op K x Lk) (run_fd_ops K xs)"

lemma run_fd_op_reg: "run_fd_op K x Lk = fdr.reg_op K x Lk"
  by (cases x) simp_all

lemma run_fd_ops_reg: "run_fd_ops K xs = fdr.reg_ops K xs"
proof (induction xs)
  case (Cons x xs)
  show ?case
    by (rule ext) (simp add: run_fd_op_reg Cons.IH)
qed (simp add: fun_eq_iff)

lemma event_loop_new_ok:
  fixes L :: "'p event_loop"
  assumes "epoll_ok K interest" and "interest k = {}"
    and "event_loop_new K m tfd k = Inr (L, k')"
  shows "loop_ok K interest (L, k') \<and> registered L = [tfd \<mapsto> (EPOLLIN, WheelTimerCb)]"
proof -
  let ?L = "\<lparr>triggerMode = m, running = False, events_size = 16,
      fdContexts = replicate 1024 fd_context_default, timerFd = tfd,
      timeWheel = wheel_new 60 1, pendingCallbacks = ([] :: 'p list)\<rparr>"
  have empty: "registered ?L = Map.empty"
    by (rule ext) (simp add: registered_def fd_context_default_def)
  then have "loop_ok K interest (?L, k)"
    using assms(1,2) unfolding loop_ok_def fst_conv snd_conv empty by simp
  with addFd_registers [OF this] assms(3) empty show ?thesis
    by (simp add: event_loop_new_def)
qed

text \<open>
  C22: the table of callbacks refines a partial map. Starting from a fresh loop, any
  sequence of \<^verbatim>\<open>addFd\<close>, \<^verbatim>\<open>modFd\<close> and \<^verbatim>\<open>removeFd\<close> that throws nothing leaves the table equal
  to the map the sequence describes, and the kernel's interest list equal to its domain.
\<close>

theorem fd_table_refines_map:
  assumes "epoll_ok K interest" and "interest k = {}"
    and "event_loop_new K m tfd k = Inr (L, k1)"
    and "run_fd_ops K ops (L, k1) = Inr (L', k')"
  shows "table_ops ops [tfd \<mapsto> (EPOLLIN, WheelTimerCb)] = Some (registered L')
    \<and> interest k' = dom (registered L')"
  using event_loop_new_ok [OF assms(1-3)] fdr.reg_ops_table [of K interest "(L, k1)" ops "(L', k')"] assms(4)
  by (auto simp: run_fd_ops_reg loop_ok_def)

theorem fd_table_refines_map_witness:
  "\<exists>L k1 L' k'. event_loop_new (demo_kernel 9 (\<lambda>f. []) (\<lambda>p. None)) ET 4 demo_state_new = Inr (L :: unit event_loop, k1)
    \<and> run_fd_ops (demo_kernel 9 (\<lambda>f. []) (\<lambda>p. None))
        [AddFd 7 EPOLLIN (ConnReadCb 1), ModFd 7 EPOLLOUT (ConnReadWriteCb 1), RemoveFd 4] (L, k1) = Inr (L', k')
    \<and> registered L' = [7 \<mapsto> (EPOLLOUT, ConnReadWriteCb 1)]"
proof -
  let ?K = "demo_kernel 9 (\<lambda>f. []) (\<lambda>p. None)"
  let ?ops = "[AddFd 7 EPOLLIN (ConnReadCb 1), ModFd 7 EPOLLOUT (ConnReadWriteCb 1), RemoveFd 4]"
  obtain L :: "unit event_loop" and k1 where 1: "event_loop_new ?K ET 4 demo_state_new = Inr (L, k1)"
    by (simp add: event_loop_new_def addFd_def demo_kernel_def demo_state_new_def)
  note new = event_loop_new_ok [OF demo_kernel_ok(1) _ 1]
  have "\<exists>L' k'. run_fd_ops ?K ?ops (L, k1) = Inr (L', k')"
    using 1 by (auto simp: event_loop_new_def addFd_def modFd_def removeFd_def demo_kernel_def
        demo_state_new_def Let_def fd_context_default_def nth_list_update)
  then obtain L' k' where 2: "run_fd_ops ?K ?ops (L, k1) = Inr (L', k')"
    by blast
  have "registered L' = [7 \<mapsto> (EPOLLOUT, ConnReadWriteCb 1)]"
    using fd_table_refines_map [OF demo_kernel_ok(1) _ 1 2] by (simp add: demo_state_new_def)
  with 1 2 show ?thesis
    by blast
qed

text \<open>
  \<^verbatim>\<open>modFd\<close> and \<^verbatim>\<open>removeFd\<close> succeed exactly on registered descriptors. A slot that no
  \<^verbatim>\<open>addFd\<close> ever filled passes the guard of \<^verbatim>\<open>modFd\<close> (its \<^verbatim>\<open>fd\<close> is 0, not -1), and the
  exception then comes from \<^verbatim>\<open>epoll_ctl\<close> instead of the guard that names this case.
\<close>

theorem mod_remove_need_registration:
  assumes "loop_ok K interest (L, k)"
  shows "((\<exists>s'. modFd K fd ev cb (L, k) = Inr s') \<longleftrightarrow> registered L fd \<noteq> None)
    \<and> ((\<exists>s'. removeFd K fd (L, k) = Inr s') \<longleftrightarrow> registered L fd \<noteq> None)
    \<and> (0 \<le> fd \<and> nat fd < length (fdContexts L) \<and> fdContexts L ! nat fd = fd_context_default
        \<longrightarrow> modFd K fd ev cb (L, k) = Inl (Thrown ''fail epoll_ctl EPOLL_CTL_MOD''))"
proof (intro conjI impI)
  show "(\<exists>s'. modFd K fd ev cb (L, k) = Inr s') \<longleftrightarrow> registered L fd \<noteq> None"
    using fdr.rmod_entries [OF assms, of fd ev cb] fdr.rmod_fails [OF assms, of fd ev cb] by fastforce
  show "(\<exists>s'. removeFd K fd (L, k) = Inr s') \<longleftrightarrow> registered L fd \<noteq> None"
    using fdr.rdel_entries [OF assms, of fd] fdr.rdel_fails [OF assms, of fd] by fastforce
  assume slot: "0 \<le> fd \<and> nat fd < length (fdContexts L) \<and> fdContexts L ! nat fd = fd_context_default"
  then have "fd \<notin> interest k"
    using assms by (auto simp: loop_ok_def registered_def fd_context_default_def split: if_splits)
  then have "\<not> fst (sys_epoll_mod K fd (with_mode L ev) k)"
    using epoll_okD(2) [of K interest fd "with_mode L ev" k] assms by (simp add: loop_ok_def)
  then show "modFd K fd ev cb (L, k) = Inl (Thrown ''fail epoll_ctl EPOLL_CTL_MOD'')"
    using slot by (cases "sys_epoll_mod K fd (with_mode L ev) k")
      (auto simp: modFd_def fd_context_default_def)
qed

text \<open>
  A descriptor that was removed keeps its callback in the slot, and \<^verbatim>\<open>loop\<close> looks only
  at the callback: an event for it later in the same batch still runs the old callback.
\<close>

theorem dispatch_ignores_removal:
  assumes "removeFd K fd (L, k) = Inr (L', k')"
  shows "dispatch_target L' fd = dispatch_target L fd
    \<and> (\<forall>cb. dispatch_target L fd = Some cb \<longrightarrow>
        dispatch run [(fd, revents)] (L', s) = run cb revents (L', s))"
proof -
  have "dispatch_target L' fd = dispatch_target L fd"
    using assms by (auto simp: removeFd_def dispatch_target_def Let_def split: prod.splits if_splits)
  then show ?thesis
    by simp
qed

text \<open>A runner that logs a callback and queues the callbacks it schedules.\<close>

definition scheduling_run :: "('p \<Rightarrow> 'p list) \<Rightarrow> 'p \<Rightarrow> 'p event_loop \<times> 'p list \<Rightarrow> ('p event_loop \<times> 'p list) res" where
  "scheduling_run spawns p w = Inr (fold runInLoop (spawns p) (fst w), snd w @ [p])"

lemma pending_fold_runInLoop:
  "pendingCallbacks (fold runInLoop ps L) = pendingCallbacks L @ ps"
  by (induction ps arbitrary: L) (simp_all add: runInLoop_def)

lemma run_queue_scheduling:
  "\<exists>L'. run_queue (scheduling_run spawns) ps (L, hist) = Inr (L', hist @ ps)
    \<and> pendingCallbacks L' = pendingCallbacks L @ concat (map spawns ps)"
proof (induction ps arbitrary: L hist)
  case (Cons p ps)
  obtain L' where "run_queue (scheduling_run spawns) ps (fold runInLoop (spawns p) L, hist @ [p])
      = Inr (L', (hist @ [p]) @ ps)"
    "pendingCallbacks L' = pendingCallbacks (fold runInLoop (spawns p) L) @ concat (map spawns ps)"
    using Cons.IH by blast
  then show ?case
    by (simp add: scheduling_run_def [of spawns p "(L, hist)"] pending_fold_runInLoop)
qed simp

text \<open>
  \<^verbatim>\<open>executePendingCallbacks\<close> runs every queued callback exactly once, in the order of
  the \<^verbatim>\<open>runInLoop\<close> calls; what those callbacks queue themselves, in whatever number, waits
  for the next round, in order, so a round always ends.
\<close>

theorem pending_callbacks_fifo:
  "\<exists>L'. executePendingCallbacks (scheduling_run spawns) (L, hist) = Inr (L', hist @ pendingCallbacks L)
    \<and> pendingCallbacks L' = concat (map spawns (pendingCallbacks L))"
  using run_queue_scheduling [of spawns "pendingCallbacks L" "L\<lparr>pendingCallbacks := []\<rparr>" hist]
  by (simp add: executePendingCallbacks_def)

theorem mod_remove_need_registration_witness:
  "\<exists>L k. event_loop_new (demo_kernel 9 (\<lambda>f. []) (\<lambda>p. None)) ET 4 demo_state_new = Inr (L :: unit event_loop, k)
    \<and> modFd (demo_kernel 9 (\<lambda>f. []) (\<lambda>p. None)) 9 EPOLLIN AcceptCb (L, k)
        = Inl (Thrown ''fail epoll_ctl EPOLL_CTL_MOD'')"
proof -
  let ?K = "demo_kernel 9 (\<lambda>f. []) (\<lambda>p. None)"
  obtain L :: "unit event_loop" and k where 1: "event_loop_new ?K ET 4 demo_state_new = Inr (L, k)"
    by (simp add: event_loop_new_def addFd_def demo_kernel_def demo_state_new_def)
  then have "9 < length (fdContexts L)" "fdContexts L ! 9 = fd_context_default"
    by (auto simp: event_loop_new_def addFd_def demo_kernel_def demo_state_new_def)
  moreover have "loop_ok ?K ds_interest (L, k)"
    using event_loop_new_ok [OF demo_kernel_ok(1) _ 1] by (simp add: demo_state_new_def)
  ultimately show ?thesis
    using 1 mod_remove_need_registration [of ?K ds_interest L k 9 EPOLLIN AcceptCb] by auto
qed

theorem dispatch_ignores_removal_witness:
  "\<exists>L k L' k'. event_loop_new (demo_kernel 9 (\<lambda>f. []) (\<lambda>p. None)) ET 4 demo_state_new = Inr (L :: unit event_loop, k)
    \<and> removeFd (demo_kernel 9 (\<lambda>f. []) (\<lambda>p. None)) 4 (L, k) = Inr (L', k')
    \<and> dispatch (\<lambda>cb ev (L, s). Inr (L, s @ [cb])) [(4, EPOLLIN)] (L', []) = Inr (L', [WheelTimerCb])"
proof -
  let ?K = "demo_kernel 9 (\<lambda>f. []) (\<lambda>p. None)"
  obtain L :: "unit event_loop" and k where 1: "event_loop_new ?K ET 4 demo_state_new = Inr (L, k)"
    by (simp add: event_loop_new_def addFd_def demo_kernel_def demo_state_new_def)
  have new: "loop_ok ?K ds_interest (L, k)" "registered L = [4 \<mapsto> (EPOLLIN, WheelTimerCb)]"
    using event_loop_new_ok [OF demo_kernel_ok(1) _ 1] by (simp_all add: demo_state_new_def)
  obtain L' k' where 2: "removeFd ?K 4 (L, k) = Inr (L', k')"
    using fdr.rdel_entries [OF new(1), of 4] new(2) by auto
  have "dispatch_target L 4 = Some WheelTimerCb"
    using 1 by (auto simp: event_loop_new_def addFd_def demo_kernel_def demo_state_new_def dispatch_target_def)
  with dispatch_ignores_removal [OF 2, of "\<lambda>cb ev (L, s). Inr (L, s @ [cb])" EPOLLIN "[]"]
  have "dispatch_target L' 4 = Some WheelTimerCb"
    by simp
  then have "dispatch (\<lambda>cb ev (L, s). Inr (L, s @ [cb])) [(4, EPOLLIN)] (L', []) = Inr (L', [WheelTimerCb])"
    by simp
  with 1 2 show ?thesis
    by blast
qed

end
