(* ===== verification/Timer.thy ===== *)
theory Timer
  imports EventLoop
begin

text \<open>
  \<^verbatim>\<open>core/Timer.h\<close> and \<^verbatim>\<open>core/Timer.cpp\<close>: a one-shot or periodic timer on an event loop. The
  state of the timer object is a record; \<^verbatim>\<open>timerfd_settime\<close> is recorded in the field
  \<open>tm_armed\<close> (what the kernel was last told), because its result is ignored. Times are
  rationals, the casts truncate.
\<close>

section \<open>State and operations\<close>

record itimerspec =
  value_sec :: int
  value_nsec :: int
  interval_sec :: int
  interval_nsec :: int

record 'c timer =
  tm_fd :: int
  tm_running :: bool
  tm_repeat :: bool
  tm_callback :: "'c option"
  tm_armed :: itimerspec

definition itimerspec_zero :: itimerspec where
  "itimerspec_zero = \<lparr>value_sec = 0, value_nsec = 0, interval_sec = 0, interval_nsec = 0\<rparr>"

definition timer_new :: "int \<Rightarrow> 'c timer res" where
  "timer_new fd =
     (if fd = - 1 then Inl (Thrown ''timerfd_create failed'')
      else Inr \<lparr>tm_fd = fd, tm_running = False, tm_repeat = False, tm_callback = None,
                tm_armed = itimerspec_zero\<rparr>)"

text \<open>A cast from \<^verbatim>\<open>double\<close> to a signed integer truncates; out of range it is undefined.\<close>

definition cast64 :: "rat \<Rightarrow> int res" where
  "cast64 x =
     (let i = (if 0 \<le> x then \<lfloor>x\<rfloor> else \<lceil>x\<rceil>)
      in if in_int 64 i then Inr i else Inl (Undefined ''cast to a 64-bit integer''))"

definition spec_of :: "rat \<Rightarrow> bool \<Rightarrow> itimerspec res" where
  "spec_of intervalSec again =
     rbind (cast64 intervalSec) (\<lambda>sec.
     rbind (cast64 ((intervalSec - of_int sec) * 1000000000)) (\<lambda>nsec.
     Inr \<lparr>value_sec = sec, value_nsec = nsec,
          interval_sec = (if again then sec else 0), interval_nsec = (if again then nsec else 0)\<rparr>))"

type_synonym ('c, 'p, 'k) timer_state = "'c timer \<times> 'p event_loop \<times> 'k"

definition start ::
    "'k kernel \<Rightarrow> nat \<Rightarrow> rat \<Rightarrow> bool \<Rightarrow> 'c \<Rightarrow> ('c, 'p, 'k) timer_state \<Rightarrow> ('c, 'p, 'k) timer_state res" where
  "start K i intervalSec again cb st =
     (let (t, Lk) = st; t1 = t\<lparr>tm_repeat := again, tm_callback := Some cb\<rparr> in
      rbind (spec_of intervalSec again) (\<lambda>ts.
      rbind (addFd K (tm_fd t1) EPOLLIN (TimerCb i) Lk) (\<lambda>Lk1.
      Inr (t1\<lparr>tm_armed := ts, tm_running := True\<rparr>, Lk1))))"

definition stop ::
    "'k kernel \<Rightarrow> ('c, 'p, 'k) timer_state \<Rightarrow> ('c, 'p, 'k) timer_state res" where
  "stop K st =
     (let (t, Lk) = st in
      if \<not> tm_running t then Inr st
      else rbind (removeFd K (tm_fd t) Lk) (\<lambda>Lk1.
           Inr (t\<lparr>tm_armed := itimerspec_zero, tm_running := False\<rparr>, Lk1)))"

definition timer_destroy ::
    "'k kernel \<Rightarrow> ('c, 'p, 'k) timer_state \<Rightarrow> ('p event_loop \<times> 'k) res" where
  "timer_destroy K st =
     rbind (stop K st) (\<lambda>(t, L, k). Inr (L, sys_close K (tm_fd t) k))"

definition isRunning :: "'c timer \<Rightarrow> bool" where
  "isRunning t = tm_running t"

text \<open>The timer's callback runs on the timer, the loop and the kernel: it may call \<^verbatim>\<open>stop\<close> itself.\<close>

definition handleTimeout ::
    "'k kernel \<Rightarrow> ('c \<Rightarrow> ('c, 'p, 'k) timer_state \<Rightarrow> ('c, 'p, 'k) timer_state res)
     \<Rightarrow> ('c, 'p, 'k) timer_state \<Rightarrow> ('c, 'p, 'k) timer_state res" where
  "handleTimeout K run st =
     (case tm_callback (fst st) of
        None \<Rightarrow> Inl (Thrown ''bad_function_call'')
      | Some cb \<Rightarrow>
          rbind (run cb st) (\<lambda>st1.
          if \<not> tm_repeat (fst st1) then stop K st1 else Inr st1))"

section \<open>Invariant\<close>

text \<open>The timer runs exactly when its descriptor is registered, with the timer's callback.\<close>

definition timer_ok ::
    "'k kernel \<Rightarrow> ('k \<Rightarrow> int set) \<Rightarrow> nat \<Rightarrow> ('c, 'p, 'k) timer_state \<Rightarrow> bool" where
  "timer_ok K interest i st \<longleftrightarrow>
     loop_ok K interest (snd st)
     \<and> registered (fst (snd st)) (tm_fd (fst st))
        = (if tm_running (fst st) then Some (EPOLLIN, TimerCb i) else None)
     \<and> (tm_running (fst st) \<longrightarrow> tm_callback (fst st) \<noteq> None)"

lemma start_ok:
  assumes "timer_ok K interest i (t, L, k)"
    and "start K i d again cb (t, L, k) = Inr (t', L', k')"
  shows "timer_ok K interest i (t', L', k') \<and> tm_running t' \<and> \<not> tm_running t
    \<and> tm_callback t' = Some cb \<and> tm_repeat t' = again \<and> spec_of d again = Inr (tm_armed t')
    \<and> registered L' = (registered L)(tm_fd t \<mapsto> (EPOLLIN, TimerCb i))"
proof -
  obtain ts where ts: "spec_of d again = Inr ts"
    and add: "addFd K (tm_fd t) EPOLLIN (TimerCb i) (L, k) = Inr (L', k')"
    and t': "t' = t\<lparr>tm_repeat := again, tm_callback := Some cb, tm_armed := ts, tm_running := True\<rparr>"
    using assms(2) by (auto simp: start_def elim!: rbind_InrE)
  from addFd_registers [OF _ add, of interest] assms(1) have
    "loop_ok K interest (L', k')" "registered L (tm_fd t) = None"
    "registered L' = (registered L)(tm_fd t \<mapsto> (EPOLLIN, TimerCb i))"
    by (simp_all add: timer_ok_def)
  with assms(1) ts t' show ?thesis
    by (auto simp: timer_ok_def split: if_splits)
qed

lemma stop_ok:
  assumes "timer_ok K interest i (t, L, k)"
  shows "\<exists>t' L' k'. stop K (t, L, k) = Inr (t', L', k') \<and> timer_ok K interest i (t', L', k')
    \<and> \<not> tm_running t' \<and> registered L' = (registered L)(tm_fd t := None)
    \<and> tm_fd t' = tm_fd t"
proof (cases "tm_running t")
  case False
  then have "registered L = (registered L)(tm_fd t := None)"
    using assms by (auto simp: timer_ok_def)
  with False assms show ?thesis
    by (simp add: stop_def)
next
  case True
  then have reg: "registered L (tm_fd t) \<noteq> None" and ok: "loop_ok K interest (L, k)"
    using assms by (simp_all add: timer_ok_def)
  from removeFd_cases(1) [OF ok reg] obtain L' k' where
    "removeFd K (tm_fd t) (L, k) = Inr (L', k')" "loop_ok K interest (L', k')"
    "registered L' = (registered L)(tm_fd t := None)"
    by blast
  with True show ?thesis
    by (simp add: stop_def timer_ok_def)
qed

lemma cast64_floor:
  assumes "0 \<le> x" and "\<lfloor>x\<rfloor> < 9223372036854775808"
  shows "cast64 x = Inr \<lfloor>x\<rfloor>"
proof -
  have "0 \<le> \<lfloor>x\<rfloor>"
    using assms(1) by simp
  with assms(2) have "in_int 64 \<lfloor>x\<rfloor>"
    by (simp only: in_int_def) simp
  with assms(1) show ?thesis
    by (simp add: cast64_def)
qed

section \<open>Properties\<close>

text \<open>
  For a non-negative interval the timer is armed with the interval rounded down to
  nanoseconds, in the form \<^verbatim>\<open>timerfd_settime\<close> accepts; a periodic timer repeats with the
  same interval and a one-shot timer with none. An interval below one nanosecond disarms it.
\<close>

theorem spec_of_interval:
  assumes "0 \<le> d" and "d < 9000000000000000000"
  shows "\<exists>ts. spec_of d again = Inr ts
    \<and> value_sec ts * 1000000000 + value_nsec ts = \<lfloor>d * 1000000000\<rfloor>
    \<and> 0 \<le> value_nsec ts \<and> value_nsec ts < 1000000000
    \<and> (interval_sec ts, interval_nsec ts) = (if again then (value_sec ts, value_nsec ts) else (0, 0))
    \<and> (d < 1 / 1000000000 \<longleftrightarrow> value_sec ts = 0 \<and> value_nsec ts = 0)"
proof -
  let ?s = "\<lfloor>d\<rfloor>" and ?n = "\<lfloor>(d - of_int \<lfloor>d\<rfloor>) * 1000000000\<rfloor>"
  have s: "0 \<le> ?s" "?s < 9000000000000000000"
    using assms by (simp_all add: floor_less_iff)
  have frac: "0 \<le> d - of_int ?s" "d - of_int ?s < 1"
    by linarith+
  then have n: "0 \<le> ?n" "?n < 1000000000"
    by (simp_all add: floor_less_iff)
  have c1: "cast64 d = Inr ?s"
    using assms(1) s by (intro cast64_floor) linarith+
  have c2: "cast64 ((d - of_int ?s) * 1000000000) = Inr ?n"
    using frac n by (intro cast64_floor) (simp, linarith)
  have sum: "?s * 1000000000 + ?n = \<lfloor>d * 1000000000\<rfloor>"
  proof -
    have "d * 1000000000 = of_int (?s * 1000000000) + (d - of_int ?s) * 1000000000"
      by (simp add: algebra_simps)
    then show ?thesis
      by (metis floor_add_int add.commute)
  qed
  have "d < 1 / 1000000000 \<longleftrightarrow> \<lfloor>d * 1000000000\<rfloor> < 1"
    by (simp add: floor_less_iff field_simps)
  also have "\<dots> \<longleftrightarrow> ?s = 0 \<and> ?n = 0"
  proof -
    have key: "a * 1000000000 + b < 1 \<longleftrightarrow> a = 0 \<and> b = 0" if "0 \<le> a" "0 \<le> b" for a b :: int
      using that by linarith
    show ?thesis
      unfolding sum [symmetric] by (rule key [OF s(1) n(1)])
  qed
  finally show ?thesis
    using c1 c2 sum n by (simp add: spec_of_def)
qed

theorem spec_of_interval_witness:
  "\<exists>ts. spec_of (5 / 2) True = Inr ts \<and> value_nsec ts < 1000000000"
  using spec_of_interval [of "5 / 2" True] by auto

text \<open>
  The life cycle of a timer. \<^verbatim>\<open>start\<close> registers an idle timer and throws on a running
  one; \<^verbatim>\<open>stop\<close> never fails and takes the registration back; after a timeout a one-shot timer
  whose callback leaves the timer alone is stopped and can be started again, and a periodic
  one keeps running.
\<close>

theorem timer_life_cycle:
  assumes "timer_ok K interest i (t, L, k)"
  shows "(\<forall>t' L' k'. start K i d again cb (t, L, k) = Inr (t', L', k') \<longrightarrow>
        \<not> tm_running t \<and> tm_running t' \<and> timer_ok K interest i (t', L', k'))
    \<and> (\<exists>t' L' k'. stop K (t, L, k) = Inr (t', L', k') \<and> \<not> tm_running t'
        \<and> timer_ok K interest i (t', L', k') \<and> registered L' = (registered L)(tm_fd t := None))
    \<and> (tm_running t \<longrightarrow> (\<exists>t' L' k'. handleTimeout K (\<lambda>cb st. Inr st) (t, L, k) = Inr (t', L', k')
        \<and> tm_running t' = tm_repeat t \<and> timer_ok K interest i (t', L', k')))"
proof (intro conjI allI impI)
  show "\<not> tm_running t" "tm_running t'" "timer_ok K interest i (t', L', k')"
    if "start K i d again cb (t, L, k) = Inr (t', L', k')" for t' L' k'
    using start_ok [OF assms that] by simp_all
  show "\<exists>t' L' k'. stop K (t, L, k) = Inr (t', L', k') \<and> \<not> tm_running t'
      \<and> timer_ok K interest i (t', L', k') \<and> registered L' = (registered L)(tm_fd t := None)"
    using stop_ok [OF assms] by blast
  show "\<exists>t' L' k'. handleTimeout K (\<lambda>cb st. Inr st) (t, L, k) = Inr (t', L', k')
      \<and> tm_running t' = tm_repeat t \<and> timer_ok K interest i (t', L', k')" if on: "tm_running t"
  proof -
    obtain cb where cb: "tm_callback t = Some cb"
      using on assms by (auto simp: timer_ok_def)
    show ?thesis
      using stop_ok [OF assms] assms on cb by (cases "tm_repeat t") (auto simp: handleTimeout_def)
  qed
qed

theorem timer_life_cycle_witness:
  "\<exists>L k t. event_loop_new (demo_kernel 9 (\<lambda>f. []) (\<lambda>p. None)) ET 4 demo_state_new = Inr (L :: unit event_loop, k)
    \<and> timer_new 8 = Inr t
    \<and> (\<exists>t' L' k'. stop (demo_kernel 9 (\<lambda>f. []) (\<lambda>p. None)) (t :: unit timer, L, k) = Inr (t', L', k') \<and> \<not> tm_running t')"
proof -
  let ?K = "demo_kernel 9 (\<lambda>f. []) (\<lambda>p. None)"
  obtain L :: "unit event_loop" and k where 1: "event_loop_new ?K ET 4 demo_state_new = Inr (L, k)"
    by (simp add: event_loop_new_def addFd_def demo_kernel_def demo_state_new_def)
  let ?t = "\<lparr>tm_fd = 8, tm_running = False, tm_repeat = False, tm_callback = None,
             tm_armed = itimerspec_zero\<rparr> :: unit timer"
  have "timer_ok ?K ds_interest 0 (?t, L, k)"
    using event_loop_new_ok [OF demo_kernel_ok(1) _ 1] by (simp add: demo_state_new_def timer_ok_def)
  from timer_life_cycle [OF this, of 0 False "()"] obtain t' L' k'
    where "stop ?K (?t, L, k) = Inr (t', L', k')" "\<not> tm_running t'"
    by (elim conjE exE)
  with 1 show ?thesis
    by (intro exI [of _ L] exI [of _ k] exI [of _ ?t]) (auto simp: timer_new_def)
qed

end
