(* ===== verification/Connection.thy ===== *)
theory Connection
  imports Buffer EventLoop
begin

text \<open>
  \<^verbatim>\<open>core/Connection.h\<close> and \<^verbatim>\<open>core/Connection.cpp\<close>: a client connection with its two buffers,
  its callbacks and the file it may be sending. Connections live in a store of objects (they
  are reference counted in C++; the store never frees them). Every operation works on the
  world: the event loop, the kernel, the store, and the state of the layers above.

  The callbacks a connection holds are tokens; what they do is the record \<open>conn_env\<close>, which
  the layers above provide. The write-complete callback may call \<^verbatim>\<open>close()\<close> on the connection
  from inside \<^verbatim>\<open>handleClose\<close>, so that it takes \<^verbatim>\<open>close\<close> as an argument and \<open>handleClose\<close> has
  fuel for the nesting (two levels are reached by this program).
\<close>

section \<open>State\<close>

datatype conn_state = ReadingRequest | Processing | SendingResponse | Closing

datatype data_cb = HttpOnData

text \<open>The close callbacks: \<^verbatim>\<open>TcpServer\<close>'s, and \<^verbatim>\<open>HttpServer\<close>'s, which owns a parser context.\<close>

datatype close_cb = TcpOnClose | HttpOnClose nat "close_cb option"

datatype write_cb = HttpOnWriteComplete

record connection =
  fd :: int
  state :: conn_state
  keepAlive :: bool
  inputBuffer :: buffer
  outputBuffer :: buffer
  dataCallback :: "data_cb option"
  closeCallback :: "close_cb option"
  writeCompleteCallback :: "write_cb option"
  userData :: "nat option"
  wheelEntry :: "nat option"
  fileFd :: int
  fileSentSize :: nat
  fileSize :: nat
  fileOffset :: int
  bytesToSend :: nat
  sendingFile :: bool

definition connection_new :: "int \<Rightarrow> connection" where
  "connection_new f =
     \<lparr>fd = f, state = ReadingRequest, keepAlive = False, inputBuffer = buffer_default,
      outputBuffer = buffer_default, dataCallback = None, closeCallback = None,
      writeCompleteCallback = None, userData = None, wheelEntry = None, fileFd = - 1,
      fileSentSize = 0, fileSize = 0, fileOffset = 0, bytesToSend = 0, sendingFile = False\<rparr>"

record ('p, 'k, 'x) world =
  evloop :: "'p event_loop"
  kern :: 'k
  conns :: "nat \<Rightarrow> connection option"
  app :: 'x

text \<open>What the callbacks of connection \<open>c\<close> do; the write callback gets \<^verbatim>\<open>close\<close>.\<close>

record ('p, 'k, 'x) conn_env =
  run_data :: "data_cb \<Rightarrow> nat \<Rightarrow> ('p, 'k, 'x) world \<Rightarrow> ('p, 'k, 'x) world res"
  run_close :: "close_cb \<Rightarrow> nat \<Rightarrow> ('p, 'k, 'x) world \<Rightarrow> ('p, 'k, 'x) world res"
  run_write :: "(nat \<Rightarrow> ('p, 'k, 'x) world \<Rightarrow> ('p, 'k, 'x) world res)
     \<Rightarrow> write_cb \<Rightarrow> nat \<Rightarrow> ('p, 'k, 'x) world \<Rightarrow> ('p, 'k, 'x) world res"

text \<open>The setters.\<close>

definition conn_setDataCallback :: "data_cb option \<Rightarrow> connection \<Rightarrow> connection" where
  "conn_setDataCallback cb = dataCallback_update (\<lambda>_. cb)"

definition setCloseCallback :: "close_cb option \<Rightarrow> connection \<Rightarrow> connection" where
  "setCloseCallback cb = closeCallback_update (\<lambda>_. cb)"

definition setWriteCompleteCallback :: "write_cb option \<Rightarrow> connection \<Rightarrow> connection" where
  "setWriteCompleteCallback cb = writeCompleteCallback_update (\<lambda>_. cb)"

definition conn_setKeepAlive :: "bool \<Rightarrow> connection \<Rightarrow> connection" where
  "conn_setKeepAlive b = keepAlive_update (\<lambda>_. b)"

definition setUserData :: "nat option \<Rightarrow> connection \<Rightarrow> connection" where
  "setUserData d = userData_update (\<lambda>_. d)"

definition setWheelEntry :: "nat option \<Rightarrow> connection \<Rightarrow> connection" where
  "setWheelEntry e = wheelEntry_update (\<lambda>_. e)"

lemmas conn_setters [simp] =
  conn_setDataCallback_def setCloseCallback_def setWriteCompleteCallback_def conn_setKeepAlive_def setUserData_def
  setWheelEntry_def

definition conn :: "nat \<Rightarrow> ('p, 'k, 'x) world \<Rightarrow> connection res" where
  "conn c w = (case conns w c of None \<Rightarrow> Inl (Undefined ''no such connection'') | Some C \<Rightarrow> Inr C)"

definition upd :: "nat \<Rightarrow> (connection \<Rightarrow> connection) \<Rightarrow> ('p, 'k, 'x) world \<Rightarrow> ('p, 'k, 'x) world" where
  "upd c f w = w\<lparr>conns := (conns w)(c := map_option f (conns w c))\<rparr>"

definition on_loop ::
    "('p event_loop \<times> 'k \<Rightarrow> ('p event_loop \<times> 'k) res) \<Rightarrow> ('p, 'k, 'x) world \<Rightarrow> ('p, 'k, 'x) world res" where
  "on_loop f w = rbind (f (evloop w, kern w)) (\<lambda>(L, k). Inr (w\<lparr>evloop := L, kern := k\<rparr>))"

section \<open>Setters\<close>

definition setState :: "conn_state \<Rightarrow> nat \<Rightarrow> ('p, 'k, 'x) world \<Rightarrow> ('p, 'k, 'x) world" where
  "setState s c = upd c (state_update (\<lambda>_. s))"

definition resetForNextRequest :: "nat \<Rightarrow> ('p, 'k, 'x) world \<Rightarrow> ('p, 'k, 'x) world" where
  "resetForNextRequest c w = setState ReadingRequest c (upd c (inputBuffer_update retrieveAll) w)"

definition conn_start :: "'k kernel \<Rightarrow> nat \<Rightarrow> ('p, 'k, 'x) world \<Rightarrow> ('p, 'k, 'x) world res" where
  "conn_start K c w = rbind (conn c w) (\<lambda>C. on_loop (addFd K (fd C) EPOLLIN (ConnReadWriteCb c)) w)"

section \<open>Closing\<close>

definition shutdownWrite :: "'k kernel \<Rightarrow> nat \<Rightarrow> ('p, 'k, 'x) world \<Rightarrow> ('p, 'k, 'x) world res" where
  "shutdownWrite K c w = rbind (conn c w) (\<lambda>C. Inr (w\<lparr>kern := sys_shutdown K (fd C) (kern w)\<rparr>))"

text \<open>\<^verbatim>\<open>forceClose\<close> and \<^verbatim>\<open>close\<close>, over the \<^verbatim>\<open>handleClose\<close> they call.\<close>

definition forceClose_with ::
    "'k kernel \<Rightarrow> (nat \<Rightarrow> ('p, 'k, 'x) world \<Rightarrow> ('p, 'k, 'x) world res)
     \<Rightarrow> nat \<Rightarrow> ('p, 'k, 'x) world \<Rightarrow> ('p, 'k, 'x) world res" where
  "forceClose_with K hc c w = rbind (shutdownWrite K c w) (hc c)"

definition close_with ::
    "'k kernel \<Rightarrow> (nat \<Rightarrow> ('p, 'k, 'x) world \<Rightarrow> ('p, 'k, 'x) world res)
     \<Rightarrow> nat \<Rightarrow> ('p, 'k, 'x) world \<Rightarrow> ('p, 'k, 'x) world res" where
  "close_with K hc c w =
     rbind (conn c (setState Closing c w)) (\<lambda>C.
     if readableBytes (outputBuffer C) = 0 then forceClose_with K hc c (setState Closing c w)
     else Inr (setState Closing c w))"

text \<open>
  The middle of \<^verbatim>\<open>handleClose\<close>, from \<^verbatim>\<open>::close(fd_)\<close> to the move out of \<^verbatim>\<open>closeCallback_\<close>.
\<close>

definition release :: "'k kernel \<Rightarrow> nat \<Rightarrow> connection \<Rightarrow> ('p, 'k, 'x) world \<Rightarrow> ('p, 'k, 'x) world" where
  "release K c C w =
     (let w1 = upd c (fd_update (\<lambda>_. - 1)) (w\<lparr>kern := sys_close K (fd C) (kern w)\<rparr>);
          w2 = (if fileFd C \<ge> 0
                then upd c (\<lambda>C. C\<lparr>fileFd := - 1, sendingFile := False\<rparr>)
                       (w1\<lparr>kern := sys_close K (fileFd C) (kern w1)\<rparr>)
                else w1)
      in upd c (closeCallback_update (\<lambda>_. None)) w2)"

text \<open>The destructor: the descriptor is closed, nobody is told, the file is not closed.\<close>

definition conn_destroy :: "'k kernel \<Rightarrow> nat \<Rightarrow> ('p, 'k, 'x) world \<Rightarrow> ('p, 'k, 'x) world res" where
  "conn_destroy K c w =
     rbind (conn c w) (\<lambda>C.
     let w1 = (if fd C \<ge> 0 then w\<lparr>kern := sys_close K (fd C) (kern w)\<rparr> else w)
     in Inr (w1\<lparr>conns := (conns w1)(c := None)\<rparr>))"

fun handleClose ::
    "('p, 'k, 'x) conn_env \<Rightarrow> 'k kernel \<Rightarrow> nat \<Rightarrow> nat \<Rightarrow> ('p, 'k, 'x) world \<Rightarrow> ('p, 'k, 'x) world res" where
  "handleClose env K 0 c w = Inl OutOfFuel"
| "handleClose env K (Suc n) c w =
     rbind (conn c w) (\<lambda>C.
     if fd C < 0 then Inr w
     else
       rbind (if sendingFile C
              then (case writeCompleteCallback C of
                      None \<Rightarrow> Inr w
                    | Some cb \<Rightarrow> run_write env (close_with K (\<lambda>c w. handleClose env K n c w)) cb c w)
              else Inr w) (\<lambda>w1.
       rbind (conn c w1) (\<lambda>C1.
       rbind (on_loop (removeFd K (fd C1)) w1) (\<lambda>w2.
       case closeCallback C1 of
         None \<Rightarrow> Inr (release K c C1 w2)
       | Some cb \<Rightarrow> run_close env cb c (release K c C1 w2)))))"

definition handleError ::
    "('p, 'k, 'x) conn_env \<Rightarrow> 'k kernel \<Rightarrow> nat \<Rightarrow> nat \<Rightarrow> ('p, 'k, 'x) world \<Rightarrow> ('p, 'k, 'x) world res" where
  "handleError env K n c w = handleClose env K n c w"

definition forceClose ::
    "('p, 'k, 'x) conn_env \<Rightarrow> 'k kernel \<Rightarrow> nat \<Rightarrow> nat \<Rightarrow> ('p, 'k, 'x) world \<Rightarrow> ('p, 'k, 'x) world res" where
  "forceClose env K n = forceClose_with K (handleClose env K n)"

definition close_conn ::
    "('p, 'k, 'x) conn_env \<Rightarrow> 'k kernel \<Rightarrow> nat \<Rightarrow> nat \<Rightarrow> ('p, 'k, 'x) world \<Rightarrow> ('p, 'k, 'x) world res" where
  "close_conn env K n = close_with K (handleClose env K n)"

section \<open>Sending\<close>

definition want_write :: "'k kernel \<Rightarrow> nat \<Rightarrow> ('p, 'k, 'x) world \<Rightarrow> ('p, 'k, 'x) world res" where
  "want_write K c w =
     rbind (conn c w) (\<lambda>C. on_loop (modFd K (fd C) (EPOLLIN OR EPOLLOUT) (ConnReadWriteCb c)) w)"

definition send ::
    "('p, 'k, 'x) conn_env \<Rightarrow> 'k kernel \<Rightarrow> nat \<Rightarrow> string \<Rightarrow> nat
     \<Rightarrow> ('p, 'k, 'x) world \<Rightarrow> ('p, 'k, 'x) world res" where
  "send env K n data c w =
     rbind (conn c w) (\<lambda>C.
     if state C = Closing then Inr w
     else
       let (r, w1) =
             (if readableBytes (outputBuffer C) = 0
              then (let (r, k') = sys_write K (fd C) data (kern w)
                    in (r, w\<lparr>kern := k'\<rparr>))
              else (Inr 0, w))
       in case r of
            Inl e \<Rightarrow>
              if e \<noteq> EAGAIN then handleError env K n c w1
              else
                let w2 = upd c (outputBuffer_update (buffer_append data)) w1
                in if readableBytes (buffer_append data (outputBuffer C)) > 0
                   then want_write K c w2 else Inr w2
          | Inr m \<Rightarrow>
              let w2 = upd c (outputBuffer_update (buffer_append (drop m data))) w1
              in if readableBytes (buffer_append (drop m data) (outputBuffer C)) > 0
                 then want_write K c w2 else Inr w2)"

text \<open>
  \<^verbatim>\<open>sendFile(int fileFd, ...)\<close>. A zero length means to the end of the file; the subtraction
  is on \<^verbatim>\<open>size_t\<close> and wraps when the offset is behind the end.
\<close>

definition span_of :: "nat \<Rightarrow> int \<Rightarrow> nat \<Rightarrow> nat" where
  "span_of size_of_file off len =
     (if len = 0 then nat (to_unsigned 64 (int size_of_file - off)) else len)"

definition sendFile_fd ::
    "'k kernel \<Rightarrow> int \<Rightarrow> nat \<Rightarrow> int \<Rightarrow> nat \<Rightarrow> nat \<Rightarrow> ('p, 'k, 'x) world \<Rightarrow> ('p, 'k, 'x) world res" where
  "sendFile_fd K ffd size_of_file off len c w =
     rbind (conn c w) (\<lambda>C.
     if sendingFile C then Inr (w\<lparr>kern := sys_close K ffd (kern w)\<rparr>)
     else
       let (ok, k1) = (if off > 0 then sys_lseek K ffd off (kern w) else (True, kern w));
           w1 = w\<lparr>kern := k1\<rparr>
       in if \<not> ok then Inr (w1\<lparr>kern := sys_close K ffd (kern w1)\<rparr>)
          else want_write K c
                 (upd c (\<lambda>C. C\<lparr>sendingFile := True, fileFd := ffd, fileSize := size_of_file,
                              fileOffset := off, bytesToSend := span_of size_of_file off len,
                              fileSentSize := 0\<rparr>) w1))"

definition sendFile_path ::
    "'k kernel \<Rightarrow> string \<Rightarrow> nat \<Rightarrow> int \<Rightarrow> nat \<Rightarrow> nat \<Rightarrow> ('p, 'k, 'x) world \<Rightarrow> ('p, 'k, 'x) world res" where
  "sendFile_path K path size_of_file off len c w =
     rbind (conn c w) (\<lambda>C.
     if sendingFile C then Inr w
     else
       let (f, k1) = sys_open K path (kern w); w1 = w\<lparr>kern := k1\<rparr>
       in case f of
            None \<Rightarrow> Inr w1
          | Some ffd \<Rightarrow> sendFile_fd K ffd size_of_file off len c w1)"

section \<open>Writing\<close>

text \<open>
  \<^verbatim>\<open>handleWrite\<close> pumps bytes into the socket and then either waits for the next event,
  fails, or is done and completes the write.
\<close>

datatype pump_result = Wait | Fail | Done

fun sendfile_loop ::
    "'k kernel \<Rightarrow> nat \<Rightarrow> nat \<Rightarrow> ('p, 'k, 'x) world \<Rightarrow> (pump_result \<times> ('p, 'k, 'x) world) res" where
  "sendfile_loop K 0 c w = Inl OutOfFuel"
| "sendfile_loop K (Suc n) c w =
     rbind (conn c w) (\<lambda>C.
     if \<not> fileSentSize C < bytesToSend C then Inr (Done, w)
     else
       let (r, k') = sys_sendfile K (fd C) (fileFd C) (fileOffset C + int (fileSentSize C))
                       (bytesToSend C - fileSentSize C) (kern w);
           w1 = w\<lparr>kern := k'\<rparr>
       in case r of
            Inr 0 \<Rightarrow> Inr (Wait, w1)
          | Inr (Suc m) \<Rightarrow> sendfile_loop K n c (upd c (fileSentSize_update (\<lambda>s. s + Suc m)) w1)
          | Inl EAGAIN \<Rightarrow> Inr (Wait, w1)
          | Inl EINTR \<Rightarrow> sendfile_loop K n c w1
          | Inl EFAIL \<Rightarrow> Inr (Fail, w1))"

text \<open>One \<^verbatim>\<open>outputBuffer_.writeToFd(fd_, ...)\<close>.\<close>

definition write_output ::
    "'k kernel \<Rightarrow> nat \<Rightarrow> ('p, 'k, 'x) world \<Rightarrow> ((errno + nat) \<times> ('p, 'k, 'x) world) res" where
  "write_output K c w =
     rbind (conn c w) (\<lambda>C.
     rbind (peek_bytes (readableBytes (outputBuffer C)) (outputBuffer C)) (\<lambda>data.
     let (wr, k') = sys_write K (fd C) data (kern w);
         (r, b') = writeToFd wr (outputBuffer C)
     in Inr (r, upd c (outputBuffer_update (\<lambda>_. b')) (w\<lparr>kern := k'\<rparr>))))"

text \<open>The file mode: the header first, then the file.\<close>

definition pump_file ::
    "'k kernel \<Rightarrow> nat \<Rightarrow> nat \<Rightarrow> ('p, 'k, 'x) world \<Rightarrow> (pump_result \<times> ('p, 'k, 'x) world) res" where
  "pump_file K n c w =
     rbind (conn c w) (\<lambda>C.
     rbind (if readableBytes (outputBuffer C) > 0 then write_output K c w else Inr (Inr 0, w)) (\<lambda>(r, w1).
     case r of
       Inl e \<Rightarrow> Inr (if e \<noteq> EAGAIN then Fail else Wait, w1)
     | Inr m \<Rightarrow>
         rbind (conn c w1) (\<lambda>C1.
         if readableBytes (outputBuffer C1) > 0 then Inr (Wait, w1)
         else if fileFd C1 < 0 then Inr (Fail, w1)
         else sendfile_loop K n c w1)))"

text \<open>The buffer mode: write until the buffer is empty or the kernel takes no more.\<close>

fun pump_buffer ::
    "'k kernel \<Rightarrow> nat \<Rightarrow> nat \<Rightarrow> ('p, 'k, 'x) world \<Rightarrow> (pump_result \<times> ('p, 'k, 'x) world) res" where
  "pump_buffer K 0 c w = Inl OutOfFuel"
| "pump_buffer K (Suc n) c w =
     rbind (conn c w) (\<lambda>C.
     if readableBytes (outputBuffer C) = 0 then Inr (Done, w)
     else
       rbind (write_output K c w) (\<lambda>(r, w1).
       case r of
         Inl e \<Rightarrow> Inr (if e \<noteq> EAGAIN then Fail else Wait, w1)
       | Inr 0 \<Rightarrow> Inr (Wait, w1)
       | Inr (Suc m) \<Rightarrow> pump_buffer K n c w1))"

definition complete_write ::
    "('p, 'k, 'x) conn_env \<Rightarrow> 'k kernel \<Rightarrow> nat \<Rightarrow> nat \<Rightarrow> ('p, 'k, 'x) world \<Rightarrow> ('p, 'k, 'x) world res" where
  "complete_write env K n c w =
     rbind (conn c w) (\<lambda>C.
     rbind (on_loop (modFd K (fd C) EPOLLIN (ConnReadCb c)) w) (\<lambda>w1.
     rbind (case writeCompleteCallback C of
              None \<Rightarrow> Inr w1
            | Some cb \<Rightarrow> run_write env (close_conn env K n) cb c w1) (\<lambda>w2.
     rbind (conn c w2) (\<lambda>C2.
     if state C2 = Closing then handleClose env K n c w2 else Inr w2))))"

text \<open>The file is closed before the completion.\<close>

definition finish_file :: "'k kernel \<Rightarrow> nat \<Rightarrow> ('p, 'k, 'x) world \<Rightarrow> ('p, 'k, 'x) world res" where
  "finish_file K c w =
     rbind (conn c w) (\<lambda>C.
     Inr (upd c (\<lambda>C. C\<lparr>fileFd := - 1, sendingFile := False\<rparr>)
            (w\<lparr>kern := sys_close K (fileFd C) (kern w)\<rparr>)))"

definition pump ::
    "'k kernel \<Rightarrow> nat \<Rightarrow> nat \<Rightarrow> ('p, 'k, 'x) world \<Rightarrow> (pump_result \<times> ('p, 'k, 'x) world) res" where
  "pump K n c w =
     rbind (conn c w) (\<lambda>C. if sendingFile C then pump_file K n c w else pump_buffer K n c w)"

definition handleWrite ::
    "('p, 'k, 'x) conn_env \<Rightarrow> 'k kernel \<Rightarrow> nat \<Rightarrow> nat \<Rightarrow> ('p, 'k, 'x) world \<Rightarrow> ('p, 'k, 'x) world res" where
  "handleWrite env K n c w =
     rbind (conn c w) (\<lambda>C.
     rbind (pump K n c w) (\<lambda>(r, w1).
     case r of
       Fail \<Rightarrow> handleError env K n c w1
     | Wait \<Rightarrow> Inr w1
     | Done \<Rightarrow>
         rbind (if sendingFile C then finish_file K c w1 else Inr w1)
           (complete_write env K n c)))"

section \<open>Reading and events\<close>

text \<open>
  \<^verbatim>\<open>handleRead\<close> reads until the kernel has no more; the fuel bounds the number of reads.
\<close>

fun handleRead ::
    "('p, 'k, 'x) conn_env \<Rightarrow> 'k kernel \<Rightarrow> nat \<Rightarrow> nat \<Rightarrow> ('p, 'k, 'x) world \<Rightarrow> ('p, 'k, 'x) world res" where
  "handleRead env K 0 c w = Inl OutOfFuel"
| "handleRead env K (Suc n) c w =
     rbind (conn c w) (\<lambda>C.
     let (rr, k') = sys_readv K (fd C) (readv_capacity (inputBuffer C)) (kern w);
         (r, b') = readFromFd rr (inputBuffer C);
         w1 = upd c (inputBuffer_update (\<lambda>_. b')) (w\<lparr>kern := k'\<rparr>)
     in case r of
          Inr 0 \<Rightarrow> handleClose env K n c w1
        | Inr (Suc m) \<Rightarrow>
            rbind (case dataCallback C of None \<Rightarrow> Inr w1 | Some cb \<Rightarrow> run_data env cb c w1)
              (\<lambda>w2. handleRead env K n c w2)
        | Inl e \<Rightarrow> if e = EAGAIN then Inr w1 else handleError env K n c w1)"

text \<open>The lambdas registered with the loop, with and without the branch for writing.\<close>

definition onEvents ::
    "('p, 'k, 'x) conn_env \<Rightarrow> 'k kernel \<Rightarrow> nat \<Rightarrow> bool \<Rightarrow> nat \<Rightarrow> events
     \<Rightarrow> ('p, 'k, 'x) world \<Rightarrow> ('p, 'k, 'x) world res" where
  "onEvents env K n with_write c ev w =
     rbind (if has ev EPOLLIN then handleRead env K n c w else Inr w) (\<lambda>w1.
     rbind (if with_write \<and> has ev EPOLLOUT then handleWrite env K n c w1 else Inr w1) (\<lambda>w2.
     if has ev (EPOLLERR OR EPOLLHUP) then handleError env K n c w2 else Inr w2))"

section \<open>Basic facts\<close>

named_theorems conn_simps "reading and updating the store"

lemma conn_Inr [simp]: "conn c w = Inr C \<longleftrightarrow> conns w c = Some C"
  by (simp add: conn_def split: option.split)

lemma conn_Some [conn_simps]: "conns w c = Some C \<Longrightarrow> conn c w = Inr C"
  by simp

lemma upd_fields [simp]:
  "evloop (upd c f w) = evloop w" "kern (upd c f w) = kern w" "app (upd c f w) = app w"
  "conns (upd c f w) c = map_option f (conns w c)"
  "c' \<noteq> c \<Longrightarrow> conns (upd c f w) c' = conns w c'"
  by (simp_all add: upd_def)

lemma on_loop_Inr:
  "on_loop f w = Inr w' \<longleftrightarrow> (\<exists>L k. f (evloop w, kern w) = Inr (L, k) \<and> w' = w\<lparr>evloop := L, kern := k\<rparr>)"
  by (auto simp: on_loop_def rbind_Inr_iff)

text \<open>What the connection has yet to send of its file, and everything it has sent or will send.\<close>

definition file_rest :: "(int \<Rightarrow> string) \<Rightarrow> connection \<Rightarrow> string" where
  "file_rest file C =
     (if sendingFile C
      then take (bytesToSend C - fileSentSize C)
             (drop (nat (fileOffset C) + fileSentSize C) (file (fileFd C)))
      else [])"

definition promised ::
    "('k \<Rightarrow> int \<Rightarrow> string) \<Rightarrow> (int \<Rightarrow> string) \<Rightarrow> nat \<Rightarrow> ('p, 'k, 'x) world \<Rightarrow> string" where
  "promised wire file c w =
     (case conns w c of
        None \<Rightarrow> []
      | Some C \<Rightarrow> wire (kern w) (fd C) @ contents (outputBuffer C) @ file_rest file C)"

lemma promised_Some:
  "conns w c = Some C \<Longrightarrow>
   promised wire file c w = wire (kern w) (fd C) @ contents (outputBuffer C) @ file_rest file C"
  by (simp add: promised_def)

text \<open>An open connection: its buffers, its registration, and the file it may be sending.\<close>

definition conn_ok ::
    "'k kernel \<Rightarrow> ('k \<Rightarrow> int set) \<Rightarrow> nat \<Rightarrow> ('p, 'k, 'x) world \<Rightarrow> bool" where
  "conn_ok K interest c w \<longleftrightarrow>
     interest_ok K interest \<and> loop_ok K interest (evloop w, kern w) \<and>
     (\<exists>C. conns w c = Some C
       \<and> buffer_wf (inputBuffer C) \<and> buffer_wf (outputBuffer C) \<and> 0 \<le> fd C
       \<and> registered (evloop w) (fd C) \<noteq> None
       \<and> (0 < readableBytes (outputBuffer C) \<or> sendingFile C \<longrightarrow>
           registered (evloop w) (fd C) = Some (EPOLLIN OR EPOLLOUT, ConnReadWriteCb c))
       \<and> (sendingFile C \<longrightarrow>
           0 \<le> fileFd C \<and> 0 \<le> fileOffset C \<and> registered (evloop w) (fileFd C) = None)
       \<and> (\<not> sendingFile C \<longrightarrow> fileFd C < 0))"

definition net_ok ::
    "'k kernel \<Rightarrow> ('k \<Rightarrow> int \<Rightarrow> string) \<Rightarrow> (int \<Rightarrow> string) \<Rightarrow> bool" where
  "net_ok K wire file \<longleftrightarrow> write_ok K wire \<and> sendfile_ok K wire file \<and> quiet_ok K wire"

lemma demo_net_ok [simp]: "net_ok (demo_kernel room file open_file) ds_wire file"
  by (simp add: net_ok_def)

lemma file_rest_output [simp]: "file_rest file (C\<lparr>outputBuffer := b\<rparr>) = file_rest file C"
  by (simp add: file_rest_def)

text \<open>Steps that touch neither the loop nor the registration.\<close>

lemma loop_ok_kern:
  "loop_ok K interest (L, k) \<Longrightarrow> interest k' = interest k \<Longrightarrow> loop_ok K interest (L, k')"
  by (simp add: loop_ok_def)

lemma want_write_ok:
  assumes ok: "loop_ok K interest (evloop w, kern w)" and C: "conns w c = Some C"
    and reg: "registered (evloop w) (fd C) \<noteq> None" and q: "quiet_ok K wire"
  shows "\<exists>L k. want_write K c w = Inr (w\<lparr>evloop := L, kern := k\<rparr>) \<and> loop_ok K interest (L, k)
    \<and> wire k = wire (kern w)
    \<and> registered L = (registered (evloop w))(fd C \<mapsto> (EPOLLIN OR EPOLLOUT, ConnReadWriteCb c))"
proof -
  obtain L k where "modFd K (fd C) (EPOLLIN OR EPOLLOUT) (ConnReadWriteCb c) (evloop w, kern w) = Inr (L, k)"
      "k = snd (sys_epoll_mod K (fd C) (with_mode (evloop w) (EPOLLIN OR EPOLLOUT)) (kern w))"
      "loop_ok K interest (L, k)"
      "registered L = (registered (evloop w))(fd C \<mapsto> (EPOLLIN OR EPOLLOUT, ConnReadWriteCb c))"
    using modFd_cases(1) [OF ok reg] by blast
  with C quiet_okD(2) [OF q] show ?thesis
    by (intro exI [of _ L] exI [of _ k]) (simp add: want_write_def conn_Some on_loop_def)
qed

text \<open>
  The common end of \<^verbatim>\<open>send\<close>: the rest of the data is appended, and the write event is asked
  for when there is something to write.
\<close>

definition queue_rest :: "'k kernel \<Rightarrow> string \<Rightarrow> nat \<Rightarrow> connection \<Rightarrow> ('p, 'k, 'x) world \<Rightarrow> ('p, 'k, 'x) world res" where
  "queue_rest K data c C w =
     (let w2 = upd c (outputBuffer_update (buffer_append data)) w
      in if readableBytes (buffer_append data (outputBuffer C)) > 0 then want_write K c w2 else Inr w2)"

lemma send_queue_rest:
  assumes "conns w c = Some C" and "state C \<noteq> Closing"
  shows "send env K n data c w =
    (if readableBytes (outputBuffer C) = 0
     then (case sys_write K (fd C) data (kern w) of
             (Inl e, k') \<Rightarrow> if e \<noteq> EAGAIN then handleError env K n c (w\<lparr>kern := k'\<rparr>)
                           else queue_rest K data c C (w\<lparr>kern := k'\<rparr>)
           | (Inr m, k') \<Rightarrow> queue_rest K (drop m data) c C (w\<lparr>kern := k'\<rparr>))
     else queue_rest K data c C w)"
  using assms by (simp add: send_def queue_rest_def conn_Some Let_def split: prod.split sum.split)

lemma conn_okD:
  assumes "conn_ok K interest c w" and "conns w c = Some C"
  shows "interest_ok K interest" and "loop_ok K interest (evloop w, kern w)"
    and "buffer_wf (inputBuffer C)" and "buffer_wf (outputBuffer C)" and "0 \<le> fd C"
    and "registered (evloop w) (fd C) \<noteq> None"
    and "0 < readableBytes (outputBuffer C) \<Longrightarrow>
      registered (evloop w) (fd C) = Some (EPOLLIN OR EPOLLOUT, ConnReadWriteCb c)"
    and "sendingFile C \<Longrightarrow>
      registered (evloop w) (fd C) = Some (EPOLLIN OR EPOLLOUT, ConnReadWriteCb c)
      \<and> 0 \<le> fileFd C \<and> 0 \<le> fileOffset C \<and> registered (evloop w) (fileFd C) = None"
    and "\<not> sendingFile C \<Longrightarrow> fileFd C < 0"
  using assms by (auto simp: conn_ok_def)

lemma conn_okI:
  assumes "interest_ok K interest" and "loop_ok K interest (evloop w, kern w)"
    and "conns w c = Some C"
    and "buffer_wf (inputBuffer C)" and "buffer_wf (outputBuffer C)" and "0 \<le> fd C"
    and "registered (evloop w) (fd C) \<noteq> None"
    and "0 < readableBytes (outputBuffer C) \<Longrightarrow>
      registered (evloop w) (fd C) = Some (EPOLLIN OR EPOLLOUT, ConnReadWriteCb c)"
    and "sendingFile C \<Longrightarrow>
      registered (evloop w) (fd C) = Some (EPOLLIN OR EPOLLOUT, ConnReadWriteCb c)
      \<and> 0 \<le> fileFd C \<and> 0 \<le> fileOffset C \<and> registered (evloop w) (fileFd C) = None"
    and "\<not> sendingFile C \<Longrightarrow> fileFd C < 0"
  shows "conn_ok K interest c w"
  using assms by (auto simp: conn_ok_def)

lemma outputBuffer_update_apply: "outputBuffer_update f C = C\<lparr>outputBuffer := f (outputBuffer C)\<rparr>"
  by (cases C) simp

lemma fileSentSize_update_apply: "fileSentSize_update f C = C\<lparr>fileSentSize := f (fileSentSize C)\<rparr>"
  by (cases C) simp

lemma queue_rest_stream:
  assumes ok: "conn_ok K interest c w" and C: "conns w c = Some C" and q: "quiet_ok K wire"
    and int': "interest k = interest (kern w)"
  shows "\<exists>w'. queue_rest K data c C (w\<lparr>kern := k\<rparr>) = Inr w' \<and> conn_ok K interest c w'
    \<and> wire (kern w') = wire k
    \<and> conns w' = (conns w)(c \<mapsto> C\<lparr>outputBuffer := buffer_append data (outputBuffer C)\<rparr>)
    \<and> app w' = app w
    \<and> (\<forall>f. f \<noteq> fd C \<longrightarrow> registered (evloop w') f = registered (evloop w) f)"
proof -
  let ?C = "C\<lparr>outputBuffer := buffer_append data (outputBuffer C)\<rparr>"
  let ?w2 = "w\<lparr>kern := k, conns := (conns w)(c \<mapsto> ?C)\<rparr>"
  note okD = conn_okD [OF ok C]
  have w2: "upd c (outputBuffer_update (buffer_append data)) (w\<lparr>kern := k\<rparr>) = ?w2"
    using C by (simp add: upd_def outputBuffer_update_apply [of "buffer_append data" C])
  have loop: "loop_ok K interest (evloop ?w2, kern ?w2)"
    using loop_ok_kern [OF okD(2) int'] by simp
  show ?thesis
  proof (cases "readableBytes (outputBuffer ?C) > 0")
    case True
    obtain L k2 where 1: "want_write K c ?w2 = Inr (?w2\<lparr>evloop := L, kern := k2\<rparr>)"
        "loop_ok K interest (L, k2)" "wire k2 = wire k"
        "registered L = (registered (evloop w))(fd C \<mapsto> (EPOLLIN OR EPOLLOUT, ConnReadWriteCb c))"
      using want_write_ok [OF loop, of c ?C wire] okD(6) q by auto
    have "conn_ok K interest c (?w2\<lparr>evloop := L, kern := k2\<rparr>)"
      using okD 1 by (intro conn_okI [where C = ?C]) auto
    with 1 True w2 show ?thesis
      by (intro exI [of _ "?w2\<lparr>evloop := L, kern := k2\<rparr>"]) (simp add: queue_rest_def)
  next
    case False
    then have "conn_ok K interest c ?w2"
      using okD loop by (intro conn_okI [where C = ?C]) auto
    with False w2 show ?thesis
      by (intro exI [of _ ?w2]) (simp add: queue_rest_def)
  qed
qed

lemma send_stream:
  assumes ok: "conn_ok K interest c w" and net: "net_ok K wire file" and C: "conns w c = Some C"
    and open_conn: "state C \<noteq> Closing"
    and soft: "\<And>e. readableBytes (outputBuffer C) = 0 \<Longrightarrow>
      fst (sys_write K (fd C) data (kern w)) = Inl e \<Longrightarrow> e = EAGAIN"
  shows "\<exists>w' b. send env K n data c w = Inr w' \<and> conn_ok K interest c w'
    \<and> promised wire file c w' = wire (kern w) (fd C) @ contents (outputBuffer C) @ data @ file_rest file C
    \<and> conns w' = (conns w)(c \<mapsto> C\<lparr>outputBuffer := b\<rparr>) \<and> app w' = app w
    \<and> (\<forall>f. f \<noteq> fd C \<longrightarrow> wire (kern w') f = wire (kern w) f)
    \<and> (\<forall>f. f \<noteq> fd C \<longrightarrow> registered (evloop w') f = registered (evloop w) f)"
proof -
  note okD = conn_okD [OF ok C]
  have w: "write_ok K wire" and q: "quiet_ok K wire"
    using net by (simp_all add: net_ok_def)
  have queued: "\<exists>w' b. queue_rest K (drop m data) c C (w\<lparr>kern := k\<rparr>) = Inr w' \<and> conn_ok K interest c w'
      \<and> promised wire file c w' = wire (kern w) (fd C) @ contents (outputBuffer C) @ data @ file_rest file C
      \<and> conns w' = (conns w)(c \<mapsto> C\<lparr>outputBuffer := b\<rparr>) \<and> app w' = app w
      \<and> (\<forall>f. f \<noteq> fd C \<longrightarrow> wire (kern w') f = wire (kern w) f)
      \<and> (\<forall>f. f \<noteq> fd C \<longrightarrow> registered (evloop w') f = registered (evloop w) f)"
    if k: "interest k = interest (kern w)" "wire k = (wire (kern w))(fd C := wire (kern w) (fd C) @ take m data)"
      and m: "m = 0 \<or> contents (outputBuffer C) = []" for k m
  proof -
    obtain w' where w': "queue_rest K (drop m data) c C (w\<lparr>kern := k\<rparr>) = Inr w'" "conn_ok K interest c w'"
      "wire (kern w') = wire k" "app w' = app w"
      "conns w' = (conns w)(c \<mapsto> C\<lparr>outputBuffer := buffer_append (drop m data) (outputBuffer C)\<rparr>)"
      "\<forall>f. f \<noteq> fd C \<longrightarrow> registered (evloop w') f = registered (evloop w) f"
      using queue_rest_stream [OF ok C q k(1), of "drop m data"] by blast
    have "promised wire file c w' =
        wire (kern w) (fd C) @ contents (outputBuffer C) @ data @ file_rest file C"
      using w'(3,5) k(2) m okD(4) by (auto simp: promised_def)
    with w' k(2) show ?thesis
      by auto
  qed
  show ?thesis
  proof (cases "readableBytes (outputBuffer C) = 0")
    case False
    have "wire (kern w) = (wire (kern w))(fd C := wire (kern w) (fd C) @ take 0 data)"
      by simp
    from queued [OF refl this] False show ?thesis
      by (simp add: send_queue_rest [OF C open_conn])
  next
    case True
    then have empty: "contents (outputBuffer C) = []"
      using okD(4) by (simp add: readable_0_iff)
    obtain r k where wr: "sys_write K (fd C) data (kern w) = (r, k)"
      by fastforce
    have int': "interest k = interest (kern w)"
      using interest_okD(1) [OF okD(1), of "fd C" data "kern w"] wr by simp
    show ?thesis
    proof (cases r)
      case (Inl e)
      then have "e = EAGAIN" and "wire k = wire (kern w)"
        using soft [OF True, of e] write_okD(1) [OF w, of "fd C" data "kern w" e k] wr by simp_all
      then show ?thesis
        using queued [OF int', of 0] wr Inl True by (simp add: send_queue_rest [OF C open_conn])
    next
      case (Inr m)
      then show ?thesis
        using queued [OF int', of m] write_okD(2) [OF w, of "fd C" data "kern w" m k] wr True empty
        by (simp add: send_queue_rest [OF C open_conn])
    qed
  qed
qed

text \<open>\<^verbatim>\<open>sendFile\<close> on an idle connection promises the slice of the file.\<close>

lemma sendFile_stream:
  assumes ok: "conn_ok K interest c w" and net: "net_ok K wire file" and C: "conns w c = Some C"
    and idle: "\<not> sendingFile C" and off: "0 \<le> off" and ffd: "0 \<le> ffd"
    and unreg: "registered (evloop w) ffd = None"
    and seek: "0 < off \<Longrightarrow> fst (sys_lseek K ffd off (kern w))"
  shows "\<exists>w' C'. sendFile_fd K ffd size_of_file off len c w = Inr w' \<and> conn_ok K interest c w'
    \<and> conns w' = (conns w)(c \<mapsto> C') \<and> app w' = app w
    \<and> C' = C\<lparr>sendingFile := True, fileFd := ffd, fileSize := size_of_file, fileOffset := off,
              bytesToSend := span_of size_of_file off len, fileSentSize := 0\<rparr>
    \<and> promised wire file c w' = promised wire file c w
        @ take (span_of size_of_file off len) (drop (nat off) (file ffd))
    \<and> wire (kern w') = wire (kern w)"
proof -
  note okD = conn_okD [OF ok C]
  have q: "quiet_ok K wire"
    using net by (simp add: net_ok_def)
  let ?k = "if off > 0 then snd (sys_lseek K ffd off (kern w)) else kern w"
  let ?C = "C\<lparr>sendingFile := True, fileFd := ffd, fileSize := size_of_file, fileOffset := off,
              bytesToSend := span_of size_of_file off len, fileSentSize := 0\<rparr>"
  let ?w2 = "w\<lparr>kern := ?k, conns := (conns w)(c \<mapsto> ?C)\<rparr>"
  have k: "interest ?k = interest (kern w)" "wire ?k = wire (kern w)"
    using interest_okD(5) [OF okD(1)] quiet_okD(4) [OF q] by simp_all
  have loop: "loop_ok K interest (evloop ?w2, kern ?w2)"
    using loop_ok_kern [OF okD(2) k(1)] by simp
  obtain L k2 where 1: "want_write K c ?w2 = Inr (?w2\<lparr>evloop := L, kern := k2\<rparr>)"
      "loop_ok K interest (L, k2)" "wire k2 = wire ?k"
      "registered L = (registered (evloop w))(fd C \<mapsto> (EPOLLIN OR EPOLLOUT, ConnReadWriteCb c))"
    using want_write_ok [OF loop, of c ?C wire] okD(6) q by auto
  let ?w' = "?w2\<lparr>evloop := L, kern := k2\<rparr>"
  have "ffd \<noteq> fd C"
    using unreg okD(6) by auto
  then have "conn_ok K interest c ?w'"
    using okD(1-6) 1 off ffd unreg by (intro conn_okI [where C = ?C]) auto
  moreover have "sendFile_fd K ffd size_of_file off len c w = Inr ?w'"
  proof -
    have "upd c (\<lambda>C. C\<lparr>sendingFile := True, fileFd := ffd, fileSize := size_of_file, fileOffset := off,
              bytesToSend := span_of size_of_file off len, fileSentSize := 0\<rparr>) (w\<lparr>kern := ?k\<rparr>) = ?w2"
      using C by (simp add: upd_def)
    then show ?thesis
      using C idle seek 1(1)
      by (cases "sys_lseek K ffd off (kern w)") (auto simp: sendFile_fd_def conn_Some Let_def)
  qed
  moreover have "promised wire file c ?w' = promised wire file c w
        @ take (span_of size_of_file off len) (drop (nat off) (file ffd))"
    using C idle 1(3) k(2) by (simp add: promised_def file_rest_def)
  ultimately show ?thesis
    using 1(3) k(2) by (intro exI [of _ ?w'] exI [of _ ?C]) simp
qed

lemma write_output_stream:
  assumes ok: "conn_ok K interest c w" and net: "net_ok K wire file" and C: "conns w c = Some C"
  shows "\<exists>r b k. write_output K c w = Inr (r, w\<lparr>kern := k, conns := (conns w)(c \<mapsto> C\<lparr>outputBuffer := b\<rparr>)\<rparr>)
    \<and> fst (sys_write K (fd C) (contents (outputBuffer C)) (kern w)) = r
    \<and> conn_ok K interest c (w\<lparr>kern := k, conns := (conns w)(c \<mapsto> C\<lparr>outputBuffer := b\<rparr>)\<rparr>)
    \<and> wire k (fd C) @ contents b = wire (kern w) (fd C) @ contents (outputBuffer C)
    \<and> (\<forall>m. r = Inr m \<longrightarrow> readableBytes (outputBuffer C) = readableBytes b + m)"
proof -
  note okD = conn_okD [OF ok C]
  let ?data = "contents (outputBuffer C)"
  obtain r k where wr: "sys_write K (fd C) ?data (kern w) = (r, k)"
    by fastforce
  obtain b where b: "writeToFd r (outputBuffer C) = (r, b)"
    by (cases r; cases "r = Inr 0") (auto simp: writeToFd_def)
  have wfb: "buffer_wf b"
    using wf_writeToFd [OF okD(4), of r] b by simp
  have peek: "peek_bytes (readableBytes (outputBuffer C)) (outputBuffer C) = Inr ?data"
    using okD(4) by (simp add: peek_bytes_def contents_def buffer_wf_def readableBytes_def)
  let ?w1 = "w\<lparr>kern := k, conns := (conns w)(c \<mapsto> C\<lparr>outputBuffer := b\<rparr>)\<rparr>"
  have run: "write_output K c w = Inr (r, ?w1)"
    using C wr b peek
    by (simp add: write_output_def conn_Some upd_def)
  have sent: "wire k (fd C) @ contents b = wire (kern w) (fd C) @ ?data
      \<and> (\<forall>m. r = Inr m \<longrightarrow> readableBytes (outputBuffer C) = readableBytes b + m)"
  proof (cases r)
    case (Inl e)
    then show ?thesis
      using write_okD(1) [of K wire "fd C" ?data "kern w" e k] net wr b by (simp add: net_ok_def)
  next
    case (Inr m)
    have m: "m \<le> length ?data" "wire k (fd C) = wire (kern w) (fd C) @ take m ?data"
      using write_okD(2) [of K wire "fd C" ?data "kern w" m k] net wr Inr by (simp_all add: net_ok_def)
    then have "contents b = drop m ?data"
      using contents_writeToFd [OF okD(4), of m] b Inr okD(4) by simp
    with m Inr length_contents [OF wfb] length_contents [OF okD(4)] show ?thesis
      by simp
  qed
  have "conn_ok K interest c ?w1"
  proof (rule conn_okI [where C = "C\<lparr>outputBuffer := b\<rparr>"])
    show "loop_ok K interest (evloop ?w1, kern ?w1)"
      using loop_ok_kern [OF okD(2)] interest_okD(1) [OF okD(1), of "fd C" ?data "kern w"] wr by simp
    have "readableBytes b \<le> readableBytes (outputBuffer C)"
      using sent b by (cases r) auto
    then show "0 < readableBytes (outputBuffer (C\<lparr>outputBuffer := b\<rparr>)) \<Longrightarrow>
        registered (evloop ?w1) (fd (C\<lparr>outputBuffer := b\<rparr>)) = Some (EPOLLIN OR EPOLLOUT, ConnReadWriteCb c)"
      using okD(7) by simp
  qed (use okD wfb in simp_all)
  with run sent wr show ?thesis
    by (intro exI [of _ r] exI [of _ b] exI [of _ k]) simp
qed

text \<open>One call of \<^verbatim>\<open>sendfile\<close>, without and with bytes sent.\<close>

lemma sendfile_quiet:
  assumes ok: "conn_ok K interest c w" and net: "net_ok K wire file" and C: "conns w c = Some C" and sending: "sendingFile C"
    and call: "sys_sendfile K (fd C) (fileFd C) (fileOffset C + int (fileSentSize C)) (bytesToSend C - fileSentSize C) (kern w)
      = (r, k)" and idle: "\<forall>m. r \<noteq> Inr (Suc m)"
  shows "conn_ok K interest c (w\<lparr>kern := k\<rparr>) \<and> promised wire file c (w\<lparr>kern := k\<rparr>) = promised wire file c w"
proof -
  note okD = conn_okD [OF ok C]
  let ?off = "fileOffset C + int (fileSentSize C)" and ?rem = "bytesToSend C - fileSentSize C"
  have off: "0 \<le> ?off" and sfok: "sendfile_ok K wire file"
    using okD(8) sending net by (simp_all add: net_ok_def)
  have "interest k = interest (kern w)"
    using interest_okD(3) [OF okD(1), of "fd C" "fileFd C" ?off ?rem "kern w"] call by simp
  then have "conn_ok K interest c (w\<lparr>kern := k\<rparr>)"
    using okD loop_ok_kern [OF okD(2)] C by (intro conn_okI [where C = C]) simp_all
  moreover have "wire k = wire (kern w)"
  proof (cases r)
    case (Inl e)
    then show ?thesis
      using sendfile_okD(1) [OF sfok off] call by blast
  next
    case (Inr m)
    then have "r = Inr 0"
      using idle by (cases m) auto
    then show ?thesis
      using sendfile_okD(2) [OF sfok off] call by fastforce
  qed
  ultimately show ?thesis
    using C by (simp add: promised_def)
qed

lemma sendfile_sends:
  assumes ok: "conn_ok K interest c w" and net: "net_ok K wire file" and C: "conns w c = Some C" and sending: "sendingFile C"
    and empty: "contents (outputBuffer C) = []"
    and call: "sys_sendfile K (fd C) (fileFd C) (fileOffset C + int (fileSentSize C)) (bytesToSend C - fileSentSize C) (kern w)
      = (Inr m, k)"
  shows "let w1 = w\<lparr>kern := k, conns := (conns w)(c \<mapsto> C\<lparr>fileSentSize := fileSentSize C + m\<rparr>)\<rparr>
    in conn_ok K interest c w1 \<and> promised wire file c w1 = promised wire file c w"
proof -
  note okD = conn_okD [OF ok C]
  let ?off = "fileOffset C + int (fileSentSize C)" and ?rem = "bytesToSend C - fileSentSize C"
  let ?C1 = "C\<lparr>fileSentSize := fileSentSize C + m\<rparr>"
  let ?w1 = "w\<lparr>kern := k, conns := (conns w)(c \<mapsto> ?C1)\<rparr>" and ?rest = "drop (nat ?off) (file (fileFd C))"
  have off: "0 \<le> ?off" "nat ?off = nat (fileOffset C) + fileSentSize C"
    using okD(8) sending by (simp_all add: nat_add_distrib)
  have "interest k = interest (kern w)"
    using interest_okD(3) [OF okD(1), of "fd C" "fileFd C" ?off ?rem "kern w"] call by simp
  then have "conn_ok K interest c ?w1"
    using okD loop_ok_kern [OF okD(2)] by (intro conn_okI [where C = ?C1]) simp_all
  moreover have sfok: "sendfile_ok K wire file"
    using net by (simp add: net_ok_def)
  moreover have sent: "m \<le> ?rem" "m \<le> length ?rest"
    "wire k = (wire (kern w))(fd C := wire (kern w) (fd C) @ take m ?rest)"
    using sendfile_okD(2) [OF sfok off(1)] call by blast+
  moreover have "take m ?rest @ take (?rem - m) (drop m ?rest) = take ?rem ?rest"
    using sent(1) by (metis le_add_diff_inverse take_add)
  ultimately show ?thesis
    using C sending empty off(2) by (simp add: promised_def file_rest_def add.commute add.left_commute)
qed

lemma sendfile_loop_stream:
  assumes "conn_ok K interest c w" and "net_ok K wire file" and "conns w c = Some C"
    and "sendingFile C" and "contents (outputBuffer C) = []"
    and "sendfile_loop K n c w = Inr (r, w1)"
  shows "\<exists>s k. w1 = w\<lparr>kern := k, conns := (conns w)(c \<mapsto> C\<lparr>fileSentSize := s\<rparr>)\<rparr>
    \<and> conn_ok K interest c w1 \<and> promised wire file c w1 = promised wire file c w
    \<and> (r = Done \<longrightarrow> bytesToSend C \<le> s)"
  using assms
proof (induction n arbitrary: w C)
  case 0
  then show ?case
    by simp
next
  case (Suc n)
  note ok = Suc.prems(1) and net = Suc.prems(2) and C = Suc.prems(3) and run = Suc.prems(6)
  have same: "w\<lparr>kern := k\<rparr> = w\<lparr>kern := k, conns := (conns w)(c \<mapsto> C\<lparr>fileSentSize := fileSentSize C\<rparr>)\<rparr>" for k
    using C by (simp add: fun_upd_idem)
  show ?case
  proof (cases "fileSentSize C < bytesToSend C")
    case False
    then have w1: "w1 = w\<lparr>kern := kern w\<rparr>"
      using run C by (simp add: conn_Some)
    show ?thesis
      by (intro exI conjI, rule trans [OF w1 same]) (use w1 ok False in simp_all)
  next
    case True
    obtain sr k where sf: "sys_sendfile K (fd C) (fileFd C) (fileOffset C + int (fileSentSize C))
        (bytesToSend C - fileSentSize C) (kern w) = (sr, k)"
      by fastforce
    note quiet = sendfile_quiet [OF ok net C Suc.prems(4) sf]
    have stay: ?thesis if "w1 = w\<lparr>kern := k\<rparr>" "r \<noteq> Done" "\<forall>m. sr \<noteq> Inr (Suc m)"
      by (intro exI conjI, rule trans [OF that(1) same]) (use quiet [OF that(3)] that in simp_all)
    have go_on: ?thesis if again: "sendfile_loop K n c (w\<lparr>kern := k, conns := (conns w)(c \<mapsto> C1)\<rparr>) = Inr (r, w1)"
      and C1: "C1 = C\<lparr>fileSentSize := s\<rparr>" "conn_ok K interest c (w\<lparr>kern := k, conns := (conns w)(c \<mapsto> C1)\<rparr>)"
        "promised wire file c (w\<lparr>kern := k, conns := (conns w)(c \<mapsto> C1)\<rparr>) = promised wire file c w" for C1 s
    proof -
      let ?v = "w\<lparr>kern := k, conns := (conns w)(c \<mapsto> C1)\<rparr>"
      have "conns ?v c = Some C1" "sendingFile C1" "contents (outputBuffer C1) = []"
        using Suc.prems(4,5) C1(1) by simp_all
      from Suc.IH [OF C1(2) net this again] obtain s' k' where
        *: "w1 = ?v\<lparr>kern := k', conns := (conns ?v)(c \<mapsto> C1\<lparr>fileSentSize := s'\<rparr>)\<rparr>" "conn_ok K interest c w1"
        "promised wire file c w1 = promised wire file c ?v" "r = Done \<longrightarrow> bytesToSend C1 \<le> s'"
        by blast
      have eq: "w1 = w\<lparr>kern := k', conns := (conns w)(c \<mapsto> C\<lparr>fileSentSize := s'\<rparr>)\<rparr>"
        by (subst *(1)) (simp add: C1(1))
      show ?thesis
        by (intro exI conjI, rule eq) (use * C1 in simp_all)
    qed
    show ?thesis
    proof (cases sr)
      case (Inl e)
      show ?thesis
      proof (cases "e = EINTR")
        case False
        then show ?thesis
          using run C True sf Inl by (intro stay) (cases e; simp add: conn_Some)+
      next
        case EINTR: True
        show ?thesis
          using run C True sf Inl EINTR quiet same [of k] by (intro go_on [of C "fileSentSize C"]) (simp_all add: conn_Some)
      qed
    next
      case (Inr m)
      show ?thesis
      proof (cases m)
        case 0
        then show ?thesis
          using run C True sf Inr by (intro stay) (simp_all add: conn_Some)
      next
        case (Suc m')
        have "upd c (fileSentSize_update (\<lambda>s. s + Suc m')) (w\<lparr>kern := k\<rparr>)
            = w\<lparr>kern := k, conns := (conns w)(c \<mapsto> C\<lparr>fileSentSize := fileSentSize C + m\<rparr>)\<rparr>"
          using C Suc by (simp add: upd_def fileSentSize_update_apply [of "\<lambda>s. s + Suc m'"]
              fileSentSize_update_apply [of "\<lambda>s. Suc (s + m')"])
        then have again: "sendfile_loop K n c (w\<lparr>kern := k, conns := (conns w)(c \<mapsto> C\<lparr>fileSentSize := fileSentSize C + m\<rparr>)\<rparr>) = Inr (r, w1)"
          using run C True sf Inr Suc by (simp add: conn_Some)
        show ?thesis
          by (rule go_on [OF again refl]) (use sendfile_sends [OF ok net C Suc.prems(4,5) sf [unfolded Inr]] in \<open>simp_all add: Let_def\<close>)
      qed
    qed
  qed
qed

lemma pump_file_stream:
  assumes ok: "conn_ok K interest c w" and net: "net_ok K wire file" and C: "conns w c = Some C"
    and sending: "sendingFile C" and run: "pump_file K n c w = Inr (r, w1)"
  shows "\<exists>b s. conns w1 = (conns w)(c \<mapsto> C\<lparr>outputBuffer := b, fileSentSize := s\<rparr>)
    \<and> evloop w1 = evloop w \<and> app w1 = app w
    \<and> conn_ok K interest c w1 \<and> promised wire file c w1 = promised wire file c w
    \<and> (r = Done \<longrightarrow> contents b = [] \<and> bytesToSend C \<le> s)"
proof -
  note okD = conn_okD [OF ok C]
  have file_mode: "\<exists>b' s. conns w1 = (conns w')(c \<mapsto> C'\<lparr>outputBuffer := b', fileSentSize := s\<rparr>)
      \<and> evloop w1 = evloop w' \<and> app w1 = app w'
      \<and> conn_ok K interest c w1 \<and> promised wire file c w1 = promised wire file c w'
      \<and> (r = Done \<longrightarrow> contents b' = [] \<and> bytesToSend C' \<le> s)"
    if ok': "conn_ok K interest c w'" and C': "conns w' c = Some C'" and s': "sendingFile C'"
      and rest: "(if readableBytes (outputBuffer C') > 0 then Inr (Wait, w')
                  else if fileFd C' < 0 then Inr (Fail, w') else sendfile_loop K n c w') = Inr (r, w1)" for w' C'
  proof (cases "readableBytes (outputBuffer C') = 0 \<and> 0 \<le> fileFd C'")
    case True
    then have empty: "contents (outputBuffer C') = []"
      using conn_okD(4) [OF ok' C'] by (simp add: readable_0_iff)
    have "sendfile_loop K n c w' = Inr (r, w1)"
      using rest True by simp
    from sendfile_loop_stream [OF ok' net C' s' empty this] obtain s k where
      *: "w1 = w'\<lparr>kern := k, conns := (conns w')(c \<mapsto> C'\<lparr>fileSentSize := s\<rparr>)\<rparr>"
        "conn_ok K interest c w1" "promised wire file c w1 = promised wire file c w'"
        "r = Done \<longrightarrow> bytesToSend C' \<le> s"
      by blast
    have "conns w1 = (conns w')(c \<mapsto> C'\<lparr>outputBuffer := outputBuffer C', fileSentSize := s\<rparr>)"
      by (subst *(1)) simp
    moreover have "evloop w1 = evloop w'" "app w1 = app w'"
      by (subst *(1); simp)+
    ultimately show ?thesis
      using *(2-4) empty by blast
  next
    case False
    then have "w1 = w'" "r \<noteq> Done"
      using rest by (auto split: if_splits)
    then show ?thesis
      using ok' C' by (intro exI [of _ "outputBuffer C'"] exI [of _ "fileSentSize C'"]) (simp add: fun_upd_idem)
  qed
  show ?thesis
  proof (cases "readableBytes (outputBuffer C) > 0")
    case False
    then have "(if readableBytes (outputBuffer C) > 0 then Inr (Wait, w)
        else if fileFd C < 0 then Inr (Fail, w) else sendfile_loop K n c w) = Inr (r, w1)"
      using run C by (simp add: pump_file_def conn_Some)
    from file_mode [OF ok C sending this] show ?thesis .
  next
    case True
    obtain wr b k where wo: "write_output K c w = Inr (wr, w\<lparr>kern := k, conns := (conns w)(c \<mapsto> C\<lparr>outputBuffer := b\<rparr>)\<rparr>)"
      and ok1: "conn_ok K interest c (w\<lparr>kern := k, conns := (conns w)(c \<mapsto> C\<lparr>outputBuffer := b\<rparr>)\<rparr>)"
      and kept: "wire k (fd C) @ contents b = wire (kern w) (fd C) @ contents (outputBuffer C)"
      using write_output_stream [OF ok net C] by blast
    let ?C1 = "C\<lparr>outputBuffer := b\<rparr>"
    let ?w1 = "w\<lparr>kern := k, conns := (conns w)(c \<mapsto> ?C1)\<rparr>"
    have p1: "promised wire file c ?w1 = promised wire file c w"
      using C kept by (simp add: promised_def)
    have C1: "conns ?w1 c = Some ?C1"
      by simp
    show ?thesis
    proof (cases wr)
      case (Inl e)
      then have "w1 = ?w1" "r \<noteq> Done"
        using run C True wo by (auto simp: pump_file_def conn_Some split: if_splits)
      then show ?thesis
        using ok1 p1 by (intro exI [of _ b] exI [of _ "fileSentSize C"]) simp
    next
      case (Inr m)
      then have "(if readableBytes (outputBuffer ?C1) > 0 then Inr (Wait, ?w1)
          else if fileFd ?C1 < 0 then Inr (Fail, ?w1) else sendfile_loop K n c ?w1) = Inr (r, w1)"
        using run C True wo by (simp add: pump_file_def conn_Some)
      from file_mode [OF ok1 C1 _ this] sending obtain b' s where
        "conns w1 = (conns ?w1)(c \<mapsto> ?C1\<lparr>outputBuffer := b', fileSentSize := s\<rparr>)"
        "evloop w1 = evloop ?w1" "app w1 = app ?w1" "conn_ok K interest c w1"
        "promised wire file c w1 = promised wire file c ?w1"
        "r = Done \<longrightarrow> contents b' = [] \<and> bytesToSend ?C1 \<le> s"
        by auto
      then show ?thesis
        using p1 by (intro exI [of _ b'] exI [of _ s]) simp
    qed
  qed
qed

lemma pump_buffer_stream:
  assumes "conn_ok K interest c w" and "net_ok K wire file" and "conns w c = Some C"
    and "\<not> sendingFile C" and "pump_buffer K n c w = Inr (r, w1)"
  shows "\<exists>b. conns w1 = (conns w)(c \<mapsto> C\<lparr>outputBuffer := b\<rparr>)
    \<and> evloop w1 = evloop w \<and> app w1 = app w
    \<and> conn_ok K interest c w1 \<and> promised wire file c w1 = promised wire file c w
    \<and> (r = Done \<longrightarrow> contents b = [])"
  using assms
proof (induction n arbitrary: w C)
  case 0
  then show ?case
    by simp
next
  case (Suc n)
  note ok = Suc.prems(1) and net = Suc.prems(2) and C = Suc.prems(3) and run = Suc.prems(5)
  note okD = conn_okD [OF ok C]
  show ?case
  proof (cases "readableBytes (outputBuffer C) = 0")
    case True
    then have "w1 = w" "contents (outputBuffer C) = []"
      using run C okD(4) by (simp_all add: conn_Some readable_0_iff)
    then show ?thesis
      using ok C by (intro exI [of _ "outputBuffer C"]) (simp add: fun_upd_idem)
  next
    case False
    obtain wr b k where wo: "write_output K c w = Inr (wr, w\<lparr>kern := k, conns := (conns w)(c \<mapsto> C\<lparr>outputBuffer := b\<rparr>)\<rparr>)"
      and ok1: "conn_ok K interest c (w\<lparr>kern := k, conns := (conns w)(c \<mapsto> C\<lparr>outputBuffer := b\<rparr>)\<rparr>)"
      and kept: "wire k (fd C) @ contents b = wire (kern w) (fd C) @ contents (outputBuffer C)"
      using write_output_stream [OF ok net C] by blast
    let ?C1 = "C\<lparr>outputBuffer := b\<rparr>"
    let ?w1 = "w\<lparr>kern := k, conns := (conns w)(c \<mapsto> ?C1)\<rparr>"
    have p1: "promised wire file c ?w1 = promised wire file c w"
      using C kept by (simp add: promised_def)
    have stay: ?thesis if "w1 = ?w1" "r \<noteq> Done"
      using that ok1 p1 by (intro exI [of _ b]) simp
    show ?thesis
    proof (cases wr)
      case (Inl e)
      then show ?thesis
        using run C False wo by (intro stay) (auto simp: conn_Some split: if_splits)
    next
      case (Inr m)
      show ?thesis
      proof (cases m)
        case 0
        then show ?thesis
          using run C False wo Inr by (intro stay) (auto simp: conn_Some)
      next
        case (Suc m')
        have 1: "pump_buffer K n c ?w1 = Inr (r, w1)"
          using run C False wo Inr Suc by (simp add: conn_Some)
        have 2: "conns ?w1 c = Some ?C1" "\<not> sendingFile ?C1"
          using Suc.prems(4) by simp_all
        obtain b' where "conns w1 = (conns ?w1)(c \<mapsto> ?C1\<lparr>outputBuffer := b'\<rparr>)"
          "evloop w1 = evloop ?w1" "app w1 = app ?w1" "conn_ok K interest c w1"
          "promised wire file c w1 = promised wire file c ?w1" "r = Done \<longrightarrow> contents b' = []"
          using Suc.IH [OF ok1 net 2 1] by blast
        then show ?thesis
          using p1 by (intro exI [of _ b']) simp
      qed
    qed
  qed
qed

lemma pump_stream:
  assumes ok: "conn_ok K interest c w" and net: "net_ok K wire file" and C: "conns w c = Some C"
    and run: "pump K n c w = Inr (r, w1)"
  shows "\<exists>b s. conns w1 = (conns w)(c \<mapsto> C\<lparr>outputBuffer := b, fileSentSize := s\<rparr>)
    \<and> evloop w1 = evloop w \<and> app w1 = app w
    \<and> conn_ok K interest c w1 \<and> promised wire file c w1 = promised wire file c w
    \<and> (r = Done \<longrightarrow> contents b = [] \<and> wire (kern w1) (fd C) = promised wire file c w)"
proof (cases "sendingFile C")
  case True
  have "pump_file K n c w = Inr (r, w1)"
    using run C True by (simp add: pump_def conn_Some)
  from pump_file_stream [OF ok net C True this] obtain b s where
    *: "conns w1 = (conns w)(c \<mapsto> C\<lparr>outputBuffer := b, fileSentSize := s\<rparr>)"
      "evloop w1 = evloop w" "app w1 = app w" "conn_ok K interest c w1"
      "promised wire file c w1 = promised wire file c w"
      "r = Done \<longrightarrow> contents b = [] \<and> bytesToSend C \<le> s"
    by blast
  have "promised wire file c w1 = wire (kern w1) (fd C)" if "r = Done"
    using *(1,6) that by (simp add: promised_def file_rest_def)
  with * show ?thesis
    by (intro exI [of _ b] exI [of _ s]) simp
next
  case False
  have "pump_buffer K n c w = Inr (r, w1)"
    using run C False by (simp add: pump_def conn_Some)
  from pump_buffer_stream [OF ok net C False this] obtain b where
    *: "conns w1 = (conns w)(c \<mapsto> C\<lparr>outputBuffer := b\<rparr>)"
      "evloop w1 = evloop w" "app w1 = app w" "conn_ok K interest c w1"
      "promised wire file c w1 = promised wire file c w" "r = Done \<longrightarrow> contents b = []"
    by blast
  have "promised wire file c w1 = wire (kern w1) (fd C)" if "r = Done"
    using *(1,6) that False by (simp add: promised_def file_rest_def)
  with * show ?thesis
    by (intro exI [of _ b] exI [of _ "fileSentSize C"]) simp
qed

text \<open>With enough fuel a pump returns, when the kernel is not interrupted for ever.\<close>

definition no_EINTR :: "'k kernel \<Rightarrow> bool" where
  "no_EINTR K \<longleftrightarrow> (\<forall>fd ffd off n k. fst (sys_sendfile K fd ffd off n k) \<noteq> Inl EINTR)"

lemma sendfile_loop_returns:
  assumes "no_EINTR K" and "conns w c = Some C" and "bytesToSend C - fileSentSize C < n"
  shows "\<exists>rw. sendfile_loop K n c w = Inr rw"
  using assms
proof (induction n arbitrary: w C)
  case 0
  then show ?case
    by simp
next
  case (Suc n)
  let ?r = "sys_sendfile K (fd C) (fileFd C) (fileOffset C + int (fileSentSize C))
      (bytesToSend C - fileSentSize C) (kern w)"
  have "fst ?r \<noteq> Inl EINTR"
    using Suc.prems(1) by (simp add: no_EINTR_def)
  then consider "fileSentSize C \<ge> bytesToSend C" | e where "fst ?r = Inl e" "e \<noteq> EINTR" | "fst ?r = Inr 0"
    | m where "fst ?r = Inr (Suc m)" "fileSentSize C < bytesToSend C"
    by (cases "fileSentSize C < bytesToSend C"; cases "fst ?r"; cases "projr (fst ?r)") (auto simp: not_less)
  then show ?case
  proof cases
    case (2 e)
    then show ?thesis
      using Suc.prems(2) by (cases ?r; cases e) (simp_all add: conn_Some)
  next
    case (4 m)
    let ?w1 = "upd c (fileSentSize_update (\<lambda>s. s + Suc m)) (w\<lparr>kern := snd ?r\<rparr>)"
    have "conns ?w1 c = Some (fileSentSize_update (\<lambda>s. s + Suc m) C)"
      using Suc.prems(2) by (simp add: upd_def)
    from Suc.IH [OF Suc.prems(1) this] Suc.prems(3) 4(2) have "\<exists>rw. sendfile_loop K n c ?w1 = Inr rw"
      by simp
    then show ?thesis
      using Suc.prems(2) 4 by (cases ?r) (simp add: conn_Some)
  qed (use Suc.prems(2) in \<open>cases ?r; simp add: conn_Some\<close>)+
qed

lemma pump_buffer_returns:
  assumes "conn_ok K interest c w" and "net_ok K wire file" and "conns w c = Some C"
    and "readableBytes (outputBuffer C) < n"
  shows "\<exists>rw. pump_buffer K n c w = Inr rw"
  using assms
proof (induction n arbitrary: w C)
  case 0
  then show ?case
    by simp
next
  case (Suc n)
  note ok = Suc.prems(1) and net = Suc.prems(2) and C = Suc.prems(3)
  show ?case
  proof (cases "readableBytes (outputBuffer C) = 0")
    case False
    obtain wr b k where wo: "write_output K c w = Inr (wr, w\<lparr>kern := k, conns := (conns w)(c \<mapsto> C\<lparr>outputBuffer := b\<rparr>)\<rparr>)"
      and ok1: "conn_ok K interest c (w\<lparr>kern := k, conns := (conns w)(c \<mapsto> C\<lparr>outputBuffer := b\<rparr>)\<rparr>)"
      and less: "\<forall>m. wr = Inr m \<longrightarrow> readableBytes (outputBuffer C) = readableBytes b + m"
      using write_output_stream [OF ok net C] by blast
    let ?w1 = "w\<lparr>kern := k, conns := (conns w)(c \<mapsto> C\<lparr>outputBuffer := b\<rparr>)\<rparr>"
    have C1: "conns ?w1 c = Some (C\<lparr>outputBuffer := b\<rparr>)"
      by simp
    show ?thesis
    proof (cases "\<exists>m. wr = Inr (Suc m)")
      case True
      then obtain m where m: "wr = Inr (Suc m)" ..
      then have "readableBytes (outputBuffer (C\<lparr>outputBuffer := b\<rparr>)) < n"
        using less Suc.prems(4) by simp
      from Suc.IH [OF ok1 net C1 this] show ?thesis
        using C False wo m by (simp add: conn_Some)
    next
      case False
      then have "(\<exists>e. wr = Inl e) \<or> wr = Inr 0"
        by (cases wr; cases "projr wr") auto
      then show ?thesis
        using C \<open>readableBytes (outputBuffer C) \<noteq> 0\<close> wo by (auto simp: conn_Some)
    qed
  qed (use C in \<open>simp add: conn_Some\<close>)
qed

lemma pump_returns:
  assumes ok: "conn_ok K interest c w" and net: "net_ok K wire file" and C: "conns w c = Some C"
    and "no_EINTR K" and "readableBytes (outputBuffer C) < n" and "bytesToSend C - fileSentSize C < n"
  shows "\<exists>r w1. pump K n c w = Inr (r, w1)"
proof (cases "sendingFile C")
  case False
  then show ?thesis
    using pump_buffer_returns [OF ok net C assms(5)] C by (auto simp: pump_def conn_Some)
next
  case True
  obtain wr b k where wo: "write_output K c w = Inr (wr, w\<lparr>kern := k, conns := (conns w)(c \<mapsto> C\<lparr>outputBuffer := b\<rparr>)\<rparr>)"
    using write_output_stream [OF ok net C] by blast
  let ?w1 = "w\<lparr>kern := k, conns := (conns w)(c \<mapsto> C\<lparr>outputBuffer := b\<rparr>)\<rparr>"
  have "\<exists>rw. sendfile_loop K n c w = Inr rw"
    by (rule sendfile_loop_returns [where C = C]) (use assms in simp_all)
  moreover have "\<exists>rw. sendfile_loop K n c ?w1 = Inr rw"
    by (rule sendfile_loop_returns [where C = "C\<lparr>outputBuffer := b\<rparr>"]) (use assms in simp_all)
  ultimately show ?thesis
    using C True wo by (cases wr) (auto simp: pump_def pump_file_def conn_Some)
qed

section \<open>The interface: a sender of byte streams\<close>

text \<open>
  What a response needs from a connection: \<open>queue_bytes\<close> and \<open>queue_slice\<close> extend the stream the connection
  has promised, \<open>drain\<close> moves bytes of it to the wire and, when it reports \<open>Done\<close>, has moved
  all of them.
\<close>

locale stream_sender =
  fixes good :: "'s \<Rightarrow> bool" and plain :: "'s \<Rightarrow> bool"
    and stream :: "'s \<Rightarrow> string" and sent :: "'s \<Rightarrow> string"
    and queue_bytes :: "string \<Rightarrow> 's \<Rightarrow> 's option"
    and slice_of :: "'f \<Rightarrow> string" and queue_slice :: "'f \<Rightarrow> 's \<Rightarrow> 's option"
    and drain :: "'s \<Rightarrow> (pump_result \<times> 's) option"
  assumes queue_bytes_stream: "good s \<Longrightarrow> plain s \<Longrightarrow> queue_bytes d s = Some s' \<Longrightarrow>
      good s' \<and> plain s' \<and> stream s' = stream s @ d"
    and queue_slice_stream: "good s \<Longrightarrow> plain s \<Longrightarrow> queue_slice f s = Some s' \<Longrightarrow>
      good s' \<and> stream s' = stream s @ slice_of f"
    and drain_stream: "good s \<Longrightarrow> drain s = Some (r, s') \<Longrightarrow>
      good s' \<and> stream s' = stream s \<and> (r = Done \<longrightarrow> sent s' = stream s)"
begin

fun drains :: "nat \<Rightarrow> 's \<Rightarrow> (pump_result \<times> 's) option" where
  "drains 0 s = Some (Wait, s)"
| "drains (Suc n) s =
     (case drain s of
        None \<Rightarrow> None
      | Some (Wait, s') \<Rightarrow> drains n s'
      | Some (r, s') \<Rightarrow> Some (r, s'))"

lemma drains_stream:
  "good s \<Longrightarrow> drains n s = Some (r, s') \<Longrightarrow>
   good s' \<and> stream s' = stream s \<and> (r = Done \<longrightarrow> sent s' = stream s)"
proof (induction n arbitrary: s)
  case (Suc n)
  obtain r1 s1 where d: "drain s = Some (r1, s1)"
    using Suc.prems(2) by (cases "drain s") auto
  note 1 = drain_stream [OF Suc.prems(1) d]
  show ?case
  proof (cases r1)
    case Wait
    with Suc.prems d have "drains n s1 = Some (r, s')"
      by simp
    from Suc.IH [OF conjunct1 [OF 1] this] 1 show ?thesis
      by auto
  qed (use Suc.prems d 1 in auto)
qed simp

text \<open>Header, then slice: when the drain is done the peer has been sent exactly both.\<close>

lemma response_delivered:
  assumes "good s0" and "plain s0" and "queue_bytes header s0 = Some s1"
    and "queue_slice f s1 = Some s2" and "drains n s2 = Some (Done, s3)"
  shows "sent s3 = stream s0 @ header @ slice_of f"
proof -
  have 1: "good s1" "plain s1" "stream s1 = stream s0 @ header"
    using queue_bytes_stream [OF assms(1-3)] by auto
  have 2: "good s2" "stream s2 = stream s1 @ slice_of f"
    using queue_slice_stream [OF 1(1,2) assms(4)] by auto
  show ?thesis
    using drains_stream [OF 2(1) assms(5)] 1 2 by simp
qed

end

text \<open>The operations of a connection in that form: \<open>None\<close> when the socket fails.\<close>

definition try_send ::
    "('p, 'k, 'x) conn_env \<Rightarrow> 'k kernel \<Rightarrow> nat \<Rightarrow> nat \<Rightarrow> string \<Rightarrow> ('p, 'k, 'x) world \<Rightarrow> ('p, 'k, 'x) world option" where
  "try_send env K n c data w =
     (case conns w c of
        None \<Rightarrow> None
      | Some C \<Rightarrow>
          if readableBytes (outputBuffer C) = 0
             \<and> fst (sys_write K (fd C) data (kern w)) \<in> {Inl EINTR, Inl EFAIL} then None
          else (case send env K n data c w of Inl e \<Rightarrow> None | Inr w' \<Rightarrow> Some w'))"

type_synonym file_slice = "int \<times> nat \<times> int \<times> nat"

definition slice_bytes :: "(int \<Rightarrow> string) \<Rightarrow> file_slice \<Rightarrow> string" where
  "slice_bytes file f =
     (let (ffd, size_of_file, off, len) = f
      in take (span_of size_of_file off len) (drop (nat off) (file ffd)))"

definition try_sendFile ::
    "'k kernel \<Rightarrow> nat \<Rightarrow> file_slice \<Rightarrow> ('p, 'k, 'x) world \<Rightarrow> ('p, 'k, 'x) world option" where
  "try_sendFile K c f w =
     (let (ffd, size_of_file, off, len) = f in
      if off < 0 \<or> ffd < 0 \<or> registered (evloop w) ffd \<noteq> None
         \<or> (0 < off \<and> \<not> fst (sys_lseek K ffd off (kern w))) then None
      else (case sendFile_fd K ffd size_of_file off len c w of Inl e \<Rightarrow> None | Inr w' \<Rightarrow> Some w'))"

definition try_pump ::
    "'k kernel \<Rightarrow> nat \<Rightarrow> nat \<Rightarrow> ('p, 'k, 'x) world \<Rightarrow> (pump_result \<times> ('p, 'k, 'x) world) option" where
  "try_pump K n c w = (case pump K n c w of Inl e \<Rightarrow> None | Inr rw \<Rightarrow> Some rw)"

definition sending_ok ::
    "'k kernel \<Rightarrow> ('k \<Rightarrow> int set) \<Rightarrow> ('k \<Rightarrow> int \<Rightarrow> string) \<Rightarrow> (int \<Rightarrow> string) \<Rightarrow> nat
     \<Rightarrow> ('p, 'k, 'x) world \<Rightarrow> bool" where
  "sending_ok K interest wire file c w \<longleftrightarrow> conn_ok K interest c w \<and> net_ok K wire file"

definition idle :: "nat \<Rightarrow> ('p, 'k, 'x) world \<Rightarrow> bool" where
  "idle c w \<longleftrightarrow> (\<forall>C. conns w c = Some C \<longrightarrow> \<not> sendingFile C \<and> state C \<noteq> Closing)"

definition on_wire :: "('k \<Rightarrow> int \<Rightarrow> string) \<Rightarrow> nat \<Rightarrow> ('p, 'k, 'x) world \<Rightarrow> string" where
  "on_wire wire c w = (case conns w c of None \<Rightarrow> [] | Some C \<Rightarrow> wire (kern w) (fd C))"

lemma sending_okE:
  assumes "sending_ok K interest wire file c w"
  obtains C where "conn_ok K interest c w" and "net_ok K wire file" and "conns w c = Some C"
  using assms that unfolding sending_ok_def conn_ok_def by blast

interpretation sender: stream_sender "sending_ok K interest wire files c" "idle c" "promised wire files c"
  "on_wire wire c" "try_send env K n c" "slice_bytes files" "try_sendFile K c" "try_pump K n c"
  for K interest wire files c env n
proof unfold_locales
  fix w w' :: "('b, 'a, 'c) world" and d f r
  assume good: "sending_ok K interest wire files c w"
  obtain C where ok: "conn_ok K interest c w" and net: "net_ok K wire files" and C: "conns w c = Some C"
    using sending_okE [OF good] .
  show "sending_ok K interest wire files c w' \<and> promised wire files c w' = promised wire files c w
      \<and> (r = Done \<longrightarrow> on_wire wire c w' = promised wire files c w)"
    if "try_pump K n c w = Some (r, w')"
  proof -
    have "pump K n c w = Inr (r, w')"
      using that by (auto simp: try_pump_def split: sum.splits)
    from pump_stream [OF ok net C this] net C show ?thesis
      by (auto simp: sending_ok_def on_wire_def)
  qed
  assume plain: "idle c w"
  show "sending_ok K interest wire files c w' \<and> idle c w' \<and> promised wire files c w' = promised wire files c w @ d"
    if queued: "try_send env K n c d w = Some w'"
  proof -
    have st: "state C \<noteq> Closing" "\<not> sendingFile C"
      using plain C by (auto simp: idle_def)
    have soft: "e = EAGAIN" if "readableBytes (outputBuffer C) = 0"
      "fst (sys_write K (fd C) d (kern w)) = Inl e" for e
      using that queued C by (cases e) (auto simp: try_send_def)
    have run: "send env K n d c w = Inr w'"
      using queued C by (auto simp: try_send_def split: if_splits sum.splits)
    have "file_rest files C = []"
      using st by (simp add: file_rest_def)
    then obtain b where "conn_ok K interest c w'"
        "promised wire files c w' = wire (kern w) (fd C) @ contents (outputBuffer C) @ d"
        "conns w' = (conns w)(c \<mapsto> C\<lparr>outputBuffer := b\<rparr>)"
      using send_stream [OF ok net C st(1), of d env n] soft run by auto
    with net st \<open>file_rest files C = []\<close> show ?thesis
      by (simp add: sending_ok_def idle_def promised_Some [OF C])
  qed
  show "sending_ok K interest wire files c w' \<and> promised wire files c w' = promised wire files c w @ slice_bytes files f"
    if queued: "try_sendFile K c f w = Some w'"
  proof -
    obtain ffd sz off len where f: "f = (ffd, sz, off, len)"
      by (cases f)
    have pre: "0 \<le> off" "0 \<le> ffd" "registered (evloop w) ffd = None"
        "0 < off \<Longrightarrow> fst (sys_lseek K ffd off (kern w))"
      and run: "sendFile_fd K ffd sz off len c w = Inr w'"
      using queued by (cases "registered (evloop w) ffd"; auto simp: try_sendFile_def f split: if_splits sum.splits)+
    have st: "\<not> sendingFile C"
      using plain C by (auto simp: idle_def)
    from sendFile_stream [OF ok net C st pre, of sz len] run net show ?thesis
      by (auto simp: sending_ok_def slice_bytes_def f)
  qed
qed

section \<open>Closing, once\<close>

text \<open>The world after \<^verbatim>\<open>handleClose\<close> has released the descriptors, before the close callback.\<close>

definition released :: "connection \<Rightarrow> connection" where
  "released C =
     C\<lparr>fd := - 1, fileFd := (if 0 \<le> fileFd C then - 1 else fileFd C),
       sendingFile := (if 0 \<le> fileFd C then False else sendingFile C), closeCallback := None\<rparr>"

lemma handleClose_releases:
  assumes ok: "conn_ok K interest c w" and C: "conns w c = Some C"
    and quiet: "\<And>cb. sendingFile C \<Longrightarrow> writeCompleteCallback C = Some cb \<Longrightarrow>
      run_write env (close_with K (\<lambda>c w. handleClose env K n c w)) cb c w = Inr w"
  shows "\<exists>w'. handleClose env K (Suc n) c w =
      (case closeCallback C of None \<Rightarrow> Inr w' | Some cb \<Rightarrow> run_close env cb c w')
    \<and> conns w' = (conns w)(c \<mapsto> released C) \<and> app w' = app w
    \<and> loop_ok K interest (evloop w', kern w')
    \<and> registered (evloop w') = (registered (evloop w))(fd C := None)
    \<and> timeWheel (evloop w') = timeWheel (evloop w)"
proof -
  note okD = conn_okD [OF ok C]
  obtain L k where rm: "removeFd K (fd C) (evloop w, kern w) = Inr (L, k)" "loop_ok K interest (L, k)"
      "registered L = (registered (evloop w))(fd C := None)"
    using removeFd_cases(1) [OF okD(2,6)] by blast
  have wheel: "timeWheel L = timeWheel (evloop w)"
    using removeFd_timeWheel [OF rm(1)] .
  let ?k1 = "sys_close K (fd C) k"
  let ?k2 = "if 0 \<le> fileFd C then sys_close K (fileFd C) ?k1 else ?k1"
  define w' where "w' = w\<lparr>evloop := L, kern := ?k2, conns := (conns w)(c \<mapsto> released C)\<rparr>"
  have w': "evloop w' = L" "kern w' = ?k2" "conns w' = (conns w)(c \<mapsto> released C)" "app w' = app w"
    by (simp_all add: w'_def)
  have "registered (evloop w) (fileFd C) = None" if "0 \<le> fileFd C"
    using okD(8,9) that by (cases "sendingFile C") auto
  then have "interest ?k2 = interest k"
    using rm(2,3) interest_okD(6) [OF okD(1)] by (auto simp: loop_ok_def)
  then have loop: "loop_ok K interest (evloop w', kern w')"
    using loop_ok_kern [OF rm(2)] by (simp only: w')
  have "handleClose env K (Suc n) c w =
      (case closeCallback C of None \<Rightarrow> Inr w' | Some cb \<Rightarrow> run_close env cb c w')"
  proof -
    have before: "(if sendingFile C
        then (case writeCompleteCallback C of
                None \<Rightarrow> Inr w
              | Some cb \<Rightarrow> run_write env (close_with K (\<lambda>c w. handleClose env K n c w)) cb c w)
        else Inr w) = Inr w"
      using quiet by (simp split: option.split)
    have "release K c C (w\<lparr>evloop := L, kern := k\<rparr>) = w'"
      using C by (simp add: release_def upd_def released_def Let_def w'_def)
    with before show ?thesis
      using C okD(5) rm(1) by (simp add: conn_Some on_loop_def split: option.split)
  qed
  with loop rm(3) w' wheel show ?thesis
    by (intro exI [of _ w']) simp
qed

lemma handleClose_closed:
  "conns w c = Some C \<Longrightarrow> fd C < 0 \<Longrightarrow> handleClose env K (Suc n) c w = Inr w"
  by (simp add: conn_Some)

section \<open>A concrete connection\<close>

text \<open>A world with the one connection \<open>c\<close>, its descriptor registered for reading and writing.\<close>

definition demo_world :: "nat \<Rightarrow> connection \<Rightarrow> demo_state \<Rightarrow> (unit, demo_state, unit) world" where
  "demo_world c C k =
     \<lparr>evloop = \<lparr>triggerMode = ET, running = True, events_size = 16,
        fdContexts = replicate (nat (fd C)) fd_context_default
          @ [\<lparr>fc_fd = fd C, fc_events = EPOLLIN OR EPOLLOUT, fc_callback = Some (ConnReadWriteCb c)\<rparr>],
        timerFd = 0, timeWheel = wheel_new 60 1, pendingCallbacks = []\<rparr>,
      kern = k, conns = [c \<mapsto> C], app = ()\<rparr>"

lemma demo_world_ok:
  assumes "buffer_wf (inputBuffer C)" and "buffer_wf (outputBuffer C)" and "0 \<le> fd C"
    and "ds_interest k = {fd C}" and "sendingFile C \<Longrightarrow> 0 \<le> fileFd C \<and> 0 \<le> fileOffset C \<and> fileFd C \<noteq> fd C"
    and "\<not> sendingFile C \<Longrightarrow> fileFd C < 0"
  shows "conn_ok (demo_kernel room file open_file) ds_interest c (demo_world c C k)"
proof -
  have reg: "registered (evloop (demo_world c C k)) = [fd C \<mapsto> (EPOLLIN OR EPOLLOUT, ConnReadWriteCb c)]"
    using assms(3)
    by (auto simp: registered_def demo_world_def nth_append fd_context_default_def fun_eq_iff)
  have "loop_ok (demo_kernel room file open_file) ds_interest (evloop (demo_world c C k), k)"
    unfolding loop_ok_def fst_conv snd_conv reg using assms(4) by simp
  then show ?thesis
    using assms reg by (intro conn_okI [where C = C]) (auto simp: demo_world_def)
qed

lemma demo_world_fields [simp]:
  "conns (demo_world c C k) = [c \<mapsto> C]" "kern (demo_world c C k) = k"
  by (simp_all add: demo_world_def)

definition demo_open :: "demo_state" where
  "demo_open = demo_state_new\<lparr>ds_interest := {7}\<rparr>"

definition demo_file :: "int \<Rightarrow> string" where
  "demo_file f = (if f = 9 then ''0123456789'' else [])"

abbreviation demoK :: "demo_state kernel" where
  "demoK \<equiv> demo_kernel 4 demo_file (\<lambda>p. Some 9)"

definition demo_env :: "(unit, demo_state, unit) conn_env" where
  "demo_env = \<lparr>run_data = (\<lambda>cb c w. Inr w), run_close = (\<lambda>cb c w. Inr w),
     run_write = (\<lambda>close cb c w. Inr w)\<rparr>"

lemma demo_new_ok [simp]:
  "conn_ok demoK ds_interest 1 (demo_world 1 (connection_new 7) demo_open)"
  by (rule demo_world_ok) (simp_all add: connection_new_def buffer_default_def demo_open_def)

text \<open>A connection that has flushed its header and is sending bytes 2 to 7 of file 9.\<close>

definition demo_sending :: connection where
  "demo_sending = (connection_new 7)\<lparr>sendingFile := True, fileFd := 9, fileSize := 10,
     fileOffset := 2, bytesToSend := 6, fileSentSize := 1\<rparr>"

lemma demo_sending_ok [simp]:
  "conn_ok demoK ds_interest 1 (demo_world 1 demo_sending demo_open)"
  by (rule demo_world_ok)
     (simp_all add: demo_sending_def connection_new_def buffer_default_def demo_open_def)

lemma demo_write_soft [simp]:
  "fst (sys_write demoK f d k) \<notin> {Inl EINTR, Inl EFAIL}"
  by (simp add: demo_kernel_def demo_send_def Let_def)

lemma demo_no_EINTR [simp]: "no_EINTR demoK"
  by (simp add: no_EINTR_def demo_kernel_def demo_send_def Let_def)

section \<open>Properties\<close>

fun drain_events ::
    "'k kernel \<Rightarrow> nat \<Rightarrow> nat \<Rightarrow> nat \<Rightarrow> ('p, 'k, 'x) world \<Rightarrow> (pump_result \<times> ('p, 'k, 'x) world) option" where
  "drain_events K n c 0 w = Some (Wait, w)"
| "drain_events K n c (Suc m) w =
     (case pump K n c w of
        Inl e \<Rightarrow> None
      | Inr (Wait, w') \<Rightarrow> drain_events K n c m w'
      | Inr (r, w') \<Rightarrow> Some (r, w'))"

lemma drain_events_drains: "drain_events K n c m w = sender.drains K n c m w"
  by (induction m arbitrary: w) (auto simp: try_pump_def split: sum.split prod.split pump_result.split)





text \<open>
  When the peer closes while a file is pending behind a flushed header, one event with
  both flags closes the connection in its read branch and then runs the write branch on the
  closed connection, which asks the loop to modify descriptor -1: the program ends with an
  uncaught exception.
\<close>

theorem eof_with_pending_file_throws:
  assumes "conn_ok K interest c w" and "conns w c = Some C"
    and "sendingFile C" and "writeCompleteCallback C = None" and "contents (outputBuffer C) = []"
    and "sys_readv K (fd C) (readv_capacity (inputBuffer C)) (kern w) = (Inr [], k)"
    and "\<And>cb v. \<exists>v'. run_close env cb c v = Inr v' \<and> conns v' c = conns v c"
  shows "\<exists>why. onEvents env K (Suc (Suc n)) True c (EPOLLIN OR EPOLLOUT) w = Inl (Thrown why)"
proof -
  note okD = conn_okD [OF assms(1,2)]
  let ?w1 = "w\<lparr>kern := k\<rparr>"
  have same: "upd c (inputBuffer_update (\<lambda>_. inputBuffer C)) ?w1 = ?w1"
    using assms(2) by (simp add: upd_def fun_upd_idem)
  have "interest k = interest (kern w)"
    using interest_okD(2) [OF okD(1), of "fd C" _ "kern w"] assms(6) by (metis snd_conv)
  then have "loop_ok K interest (evloop ?w1, kern ?w1)"
    using loop_ok_kern [OF okD(2)] by simp
  then have ok1: "conn_ok K interest c ?w1" and C1: "conns ?w1 c = Some C"
    using okD assms(2) by (auto intro!: conn_okI [where C = C])
  obtain w' where hc: "handleClose env K (Suc n) c ?w1 =
      (case closeCallback C of None \<Rightarrow> Inr w' | Some cb \<Rightarrow> run_close env cb c w')"
    and w': "conns w' c = Some (released C)"
    using handleClose_releases [OF ok1 C1, of env n] assms(4) by auto
  obtain v where v: "handleClose env K (Suc n) c ?w1 = Inr v" "conns v c = Some (released C)"
  proof (cases "closeCallback C")
    case None
    then show ?thesis
      using that hc w' by simp
  next
    case (Some cb)
    obtain v' where "run_close env cb c w' = Inr v'" "conns v' c = conns w' c"
      using assms(7) by blast
    then show ?thesis
      using that hc w' Some by simp
  qed
  have rd: "handleRead env K (Suc (Suc n)) c w = Inr v"
    using assms(2,6) v(1) same by (simp add: conn_Some readFromFd_def del: handleClose.simps)
  have rel: "\<not> sendingFile (released C)" "fd (released C) = - 1"
      "outputBuffer (released C) = outputBuffer C"
    using okD(8) assms(3) by (simp_all add: released_def)
  have "pump K (Suc (Suc n)) c v = Inr (Done, v)"
    using v(2) rel okD(4) assms(5) by (simp add: pump_def conn_Some readable_0_iff)
  then have "handleWrite env K (Suc (Suc n)) c v
      = Inl (Thrown ''modFd: fd not registered or has been removed'')"
    using v(2) rel by (simp add: handleWrite_def complete_write_def conn_Some on_loop_def modFd_def del: pump_buffer.simps)
  moreover have "has (EPOLLIN OR EPOLLOUT) EPOLLIN" "has (EPOLLIN OR EPOLLOUT) EPOLLOUT"
    by (simp_all add: has_def EPOLLIN_def EPOLLOUT_def)
  ultimately show ?thesis
    using rd by (simp add: onEvents_def del: handleRead.simps)
qed

text \<open>
  \<^verbatim>\<open>send\<close> while a file is being sent does not wait for it: the data comes before the
  bytes of the file that are still to be sent, in the middle of the body when some have gone.
\<close>

theorem send_interrupts_file:
  assumes "conn_ok K interest c w" and "net_ok K wire file" and "conns w c = Some C"
    and "state C \<noteq> Closing" and "sendingFile C"
    and "fst (sys_write K (fd C) data (kern w)) \<notin> {Inl EINTR, Inl EFAIL}"
  shows "\<exists>w'. send env K n data c w = Inr w'
    \<and> promised wire file c w = on_wire wire c w @ contents (outputBuffer C) @ file_rest file C
    \<and> promised wire file c w' = on_wire wire c w @ contents (outputBuffer C) @ data @ file_rest file C"
proof -
  have soft: "e = EAGAIN" if "fst (sys_write K (fd C) data (kern w)) = Inl e" for e
    using assms(6) that by (cases e) auto
  have "promised wire file c w = on_wire wire c w @ contents (outputBuffer C) @ file_rest file C"
    using assms(3) by (simp add: promised_def on_wire_def)
  with send_stream [OF assms(1-4), of data env n] soft assms(3) show ?thesis
    by (auto simp: on_wire_def)
qed

section \<open>Witnesses\<close>




theorem eof_with_pending_file_throws_witness:
  "\<exists>why. onEvents demo_env demoK 3 True 1 (EPOLLIN OR EPOLLOUT)
    (demo_world 1 demo_sending (demo_open\<lparr>ds_input := (\<lambda>f. [[]])\<rparr>)) = Inl (Thrown why)"
proof -
  let ?k = "demo_open\<lparr>ds_input := (\<lambda>f. [[]])\<rparr>"
  have ok: "conn_ok demoK ds_interest 1 (demo_world 1 demo_sending ?k)"
    by (rule demo_world_ok)
       (simp_all add: demo_sending_def connection_new_def buffer_default_def demo_open_def)
  have st: "sendingFile demo_sending" "writeCompleteCallback demo_sending = None"
    "contents (outputBuffer demo_sending) = []" "fd demo_sending = 7"
    by (simp_all add: demo_sending_def connection_new_def buffer_default_def)
  have rd: "sys_readv demoK (fd demo_sending) (readv_capacity (inputBuffer demo_sending))
      (kern (demo_world 1 demo_sending ?k)) = (Inr [], ?k\<lparr>ds_input := (ds_input ?k)(7 := [])\<rparr>)"
    by (simp add: demo_kernel_def st(4))
  from eof_with_pending_file_throws [OF ok _ st(1-3) rd, of demo_env 1] show ?thesis
    by (simp add: demo_env_def numeral_3_eq_3 del: onEvents_def)
qed

theorem send_interrupts_file_witness:
  "\<exists>w'. send demo_env demoK 3 ''HTTP'' 1 (demo_world 1 demo_sending demo_open) = Inr w'
    \<and> promised ds_wire demo_file 1 w' = ''HTTP34567''"
proof -
  have st: "state demo_sending \<noteq> Closing" "sendingFile demo_sending" "contents (outputBuffer demo_sending) = []"
    "fd demo_sending = 7" "file_rest demo_file demo_sending = ''34567''"
    by (simp_all add: demo_sending_def connection_new_def buffer_default_def file_rest_def demo_file_def)
  have "on_wire ds_wire 1 (demo_world 1 demo_sending demo_open) = []"
    by (simp add: on_wire_def demo_open_def demo_state_new_def)
  with send_interrupts_file [OF demo_sending_ok demo_net_ok _ st(1,2) demo_write_soft,
      where env = demo_env and n = 3 and data = "''HTTP''"] st
  show ?thesis
    by auto
qed

lemma buffer_append_Nil [simp]: "buffer_append [] b = b"
  by (simp add: buffer_append_def ensureWritableBytes_def blit_def)


end
