(* ===== verification/TcpServer.thy ===== *)
theory TcpServer
  imports Connection "HOL-Library.AList"
begin

text \<open>
  \<^verbatim>\<open>core/TcpServer.h\<close> and \<^verbatim>\<open>core/TcpServer.cpp\<close>: accepting connections, the table of
  connections by descriptor, the idle timeout of 60 seconds on the loop's wheel, and the
  removal of a connection when it closes. \<^verbatim>\<open>socket\<close>, \<^verbatim>\<open>bind\<close> and \<^verbatim>\<open>listen\<close> are inputs (their
  results); the order in which \<^verbatim>\<open>stop\<close> walks its hash table is the order of an association
  list.
\<close>

section \<open>State\<close>

datatype connection_cb = HttpOnConnection

record 'y tcp_server =
  listenFd :: int
  port :: nat
  srv_running :: bool
  connections :: "(int \<times> nat) list"
  next_conn :: nat
  connectionCallback :: "connection_cb option"
  srv_dataCallback :: "data_cb option"
  rest :: 'y

type_synonym ('p, 'k, 'y) tcp_world = "('p, 'k, 'y tcp_server) world"

definition tcp_server_new :: "int option \<Rightarrow> nat \<Rightarrow> 'y \<Rightarrow> 'y tcp_server res" where
  "tcp_server_new socket_fd p y =
     (case socket_fd of
        None \<Rightarrow> Inl (Thrown ''create socket failed'')
      | Some f \<Rightarrow> Inr \<lparr>listenFd = f, port = p, srv_running = False, connections = [], next_conn = 0,
                      connectionCallback = None, srv_dataCallback = None, rest = y\<rparr>)"

definition upd_app :: "('x \<Rightarrow> 'x) \<Rightarrow> ('p, 'k, 'x) world \<Rightarrow> ('p, 'k, 'x) world" where
  "upd_app f w = w\<lparr>app := f (app w)\<rparr>"

definition setConnectionCallback :: "connection_cb \<Rightarrow> ('p, 'k, 'y) tcp_world \<Rightarrow> ('p, 'k, 'y) tcp_world" where
  "setConnectionCallback cb = upd_app (connectionCallback_update (\<lambda>_. Some cb))"

definition setDataCallback :: "data_cb \<Rightarrow> ('p, 'k, 'y) tcp_world \<Rightarrow> ('p, 'k, 'y) tcp_world" where
  "setDataCallback cb = upd_app (srv_dataCallback_update (\<lambda>_. Some cb))"

section \<open>The wheel of the loop\<close>

definition set_wheel :: "wheel_cb wheel \<Rightarrow> ('p, 'k, 'x) world \<Rightarrow> ('p, 'k, 'x) world" where
  "set_wheel wh w = w\<lparr>evloop := (evloop w)\<lparr>timeWheel := wh\<rparr>\<rparr>"

definition on_wheel ::
    "(wheel_cb wheel \<Rightarrow> wheel_cb wheel res) \<Rightarrow> ('p, 'k, 'x) world \<Rightarrow> ('p, 'k, 'x) world res" where
  "on_wheel f w = rbind (f (timeWheel (evloop w))) (\<lambda>wh. Inr (set_wheel wh w))"

text \<open>The callback of an idle connection.\<close>

definition run_wheel_cb ::
    "('p, 'k, 'x) conn_env \<Rightarrow> 'k kernel \<Rightarrow> nat \<Rightarrow> wheel_cb \<Rightarrow> ('p, 'k, 'x) world \<Rightarrow> ('p, 'k, 'x) world res" where
  "run_wheel_cb env K n cb w =
     (case cb of
        CloseIdle c \<Rightarrow>
          if conns w c = None then Inr w
          else forceClose env K n c (upd c (setWheelEntry None) w))"

definition wheel_env ::
    "('p, 'k, 'x) conn_env \<Rightarrow> 'k kernel \<Rightarrow> nat \<Rightarrow> (wheel_cb, ('p, 'k, 'x) world) callback_env" where
  "wheel_env env K n =
     \<lparr>run_callback = (\<lambda>cb (wh, w). rbind (run_wheel_cb env K n cb (set_wheel wh w))
                                   (\<lambda>w'. Inr (timeWheel (evloop w'), w'))),
      expired = (\<lambda>c w. conns w c = None)\<rparr>"

definition wheel_tick ::
    "('p, 'k, 'x) conn_env \<Rightarrow> 'k kernel \<Rightarrow> nat \<Rightarrow> ('p, 'k, 'x) world \<Rightarrow> ('p, 'k, 'x) world res" where
  "wheel_tick env K n w =
     rbind (tick (wheel_env env K n) (timeWheel (evloop w), w)) (\<lambda>(wh, w'). Inr (set_wheel wh w'))"

section \<open>Operations\<close>

text \<open>\<^verbatim>\<open>removeConnection\<close> reads the descriptor when it erases: \<^verbatim>\<open>handleClose\<close> has set it to -1.\<close>

definition removeConnection :: "nat \<Rightarrow> ('p, 'k, 'y) tcp_world \<Rightarrow> ('p, 'k, 'y) tcp_world res" where
  "removeConnection c w =
     rbind (conn c w) (\<lambda>C.
     rbind (case wheelEntry C of
              None \<Rightarrow> Inr w
            | Some e \<Rightarrow>
                rbind (on_wheel (remove (Some e)) w) (\<lambda>w1.
                Inr (upd c (setWheelEntry None) w1))) (\<lambda>w1.
     rbind (conn c w1) (\<lambda>C1.
     Inr (upd_app (connections_update (AList.delete (fd C1))) w1))))"

text \<open>
  \<^verbatim>\<open>handleAccept\<close>: one turn of the loop for an accepted descriptor, and the loop; \<open>on_conn\<close> is
  the connection callback.
\<close>

definition accept_one ::
    "'k kernel \<Rightarrow> (connection_cb \<Rightarrow> nat \<Rightarrow> ('p, 'k, 'y) tcp_world \<Rightarrow> ('p, 'k, 'y) tcp_world res)
     \<Rightarrow> int \<Rightarrow> ('p, 'k, 'y) tcp_world \<Rightarrow> ('p, 'k, 'y) tcp_world res" where
  "accept_one K on_conn connFd w =
     (let c = next_conn (app w);
          C = setCloseCallback (Some TcpOnClose) (conn_setDataCallback (srv_dataCallback (app w)) (connection_new connFd));
          w1 = upd_app (\<lambda>s. s\<lparr>next_conn := Suc c, connections := AList.update connFd c (connections s)\<rparr>)
                 (w\<lparr>conns := (conns w)(c \<mapsto> C)\<rparr>)
      in rbind (conn_start K c w1) (\<lambda>w2.
         rbind (add 60 (CloseIdle c) c (timeWheel (evloop w2))) (\<lambda>(entry, wh).
         let w3 = upd c (setWheelEntry (Some entry)) (set_wheel wh w2)
         in case connectionCallback (app w3) of
              None \<Rightarrow> Inr w3
            | Some cb \<Rightarrow> on_conn cb c w3)))"

fun handleAccept ::
    "'k kernel \<Rightarrow> (connection_cb \<Rightarrow> nat \<Rightarrow> ('p, 'k, 'y) tcp_world \<Rightarrow> ('p, 'k, 'y) tcp_world res)
     \<Rightarrow> nat \<Rightarrow> ('p, 'k, 'y) tcp_world \<Rightarrow> ('p, 'k, 'y) tcp_world res" where
  "handleAccept K on_conn 0 w = Inl OutOfFuel"
| "handleAccept K on_conn (Suc n) w =
     (let (r, k) = sys_accept K (listenFd (app w)) (kern w); w1 = w\<lparr>kern := k\<rparr>
      in case r of
           None \<Rightarrow> Inr w1
         | Some connFd \<Rightarrow> rbind (accept_one K on_conn connFd w1) (\<lambda>w2. handleAccept K on_conn n w2))"

text \<open>\<^verbatim>\<open>start\<close>, given the results of \<^verbatim>\<open>bind\<close> and \<^verbatim>\<open>listen\<close>.\<close>

definition tcp_start ::
    "'k kernel \<Rightarrow> bool \<Rightarrow> bool \<Rightarrow> ('p, 'k, 'y) tcp_world \<Rightarrow> ('p, 'k, 'y) tcp_world res" where
  "tcp_start K bound listening w =
     (if \<not> bound then Inl (Thrown ''bind failed'')
      else if \<not> listening then Inl (Thrown ''listen failed'')
      else rbind (on_loop (addFd K (listenFd (app w)) EPOLLIN AcceptCb) w) (\<lambda>w1.
           Inr (upd_app (srv_running_update (\<lambda>_. True)) w1)))"

fun force_close_all ::
    "('p, 'k, 'y tcp_server) conn_env \<Rightarrow> 'k kernel \<Rightarrow> nat \<Rightarrow> (int \<times> nat) list
     \<Rightarrow> ('p, 'k, 'y) tcp_world \<Rightarrow> ('p, 'k, 'y) tcp_world res" where
  "force_close_all env K n [] w = Inr w"
| "force_close_all env K n ((f, c) # cs) w = rbind (forceClose env K n c w) (force_close_all env K n cs)"

definition tcp_stop ::
    "('p, 'k, 'y tcp_server) conn_env \<Rightarrow> 'k kernel \<Rightarrow> nat \<Rightarrow> ('p, 'k, 'y) tcp_world \<Rightarrow> ('p, 'k, 'y) tcp_world res" where
  "tcp_stop env K n w =
     rbind (on_loop (removeFd K (listenFd (app w))) w) (\<lambda>w1.
     let w2 = upd_app (\<lambda>s. s\<lparr>listenFd := - 1, connections := []\<rparr>)
                (w1\<lparr>kern := sys_close K (listenFd (app w1)) (kern w1)\<rparr>)
     in force_close_all env K n (connections (app w1)) w2)"

text \<open>The destructor, up to the release of the table's references to the connections.\<close>

definition tcp_destroy :: "'k kernel \<Rightarrow> ('p, 'k, 'y) tcp_world \<Rightarrow> ('p, 'k, 'y) tcp_world" where
  "tcp_destroy K w =
     (let s = app w;
          w1 = (if listenFd s \<ge> 0
                then upd_app (listenFd_update (\<lambda>_. - 1)) (w\<lparr>kern := sys_close K (listenFd s) (kern w)\<rparr>)
                else w);
          w2 = fold (\<lambda>(f, c). upd c (setCloseCallback None)) (connections s) w1
      in upd_app (connections_update (\<lambda>_. [])) w2)"

lemma fold_no_callback:
  "evloop (fold (\<lambda>(f, c). upd c (closeCallback_update (\<lambda>_. None))) cs w) = evloop w
   \<and> app (fold (\<lambda>(f, c). upd c (closeCallback_update (\<lambda>_. None))) cs w) = app w
   \<and> conns (fold (\<lambda>(f, c). upd c (closeCallback_update (\<lambda>_. None))) cs w) c
     = (if c \<in> snd ` set cs then map_option (closeCallback_update (\<lambda>_. None)) (conns w c) else conns w c)"
proof (induction cs arbitrary: w)
  case (Cons x cs)
  obtain f d where x: "x = (f, d)"
    by (cases x)
  have twice: "map_option (closeCallback_update (\<lambda>_. None)) (map_option (closeCallback_update (\<lambda>_. None)) v)
      = map_option (closeCallback_update (\<lambda>_. None)) v" for v :: "connection option"
    by (cases v) simp_all
  show ?case
    using Cons.IH [of "upd d (closeCallback_update (\<lambda>_. None)) w"]
    by (auto simp: x upd_def twice)
qed simp

text \<open>After the destructor no connection of the table tells the server that it closes.\<close>

lemma tcp_destroy_silences:
  assumes "(f, c) \<in> set (connections (app w))" and "conns (tcp_destroy K w) c = Some C"
  shows "closeCallback C = None \<and> connections (app (tcp_destroy K w)) = [] \<and> listenFd (app (tcp_destroy K w)) < 0"
proof -
  have "c \<in> snd ` set (connections (app w))"
    using assms(1) by force
  with assms(2) show ?thesis
    by (auto simp: tcp_destroy_def Let_def fold_no_callback upd_app_def split: if_splits)
qed

text \<open>The callbacks of a plain TCP server, with the data callback of its user.\<close>

definition tcp_env ::
    "(data_cb \<Rightarrow> nat \<Rightarrow> ('p, 'k, 'y) tcp_world \<Rightarrow> ('p, 'k, 'y) tcp_world res)
     \<Rightarrow> ('p, 'k, 'y tcp_server) conn_env" where
  "tcp_env on_data =
     \<lparr>run_data = on_data,
      run_close = (\<lambda>cb c w. case cb of
          TcpOnClose \<Rightarrow> removeConnection c w
        | HttpOnClose ctx old \<Rightarrow> Inl (Undefined ''not a TcpServer callback'')),
      run_write = (\<lambda>close cb c w. Inr w)\<rparr>"

section \<open>Accepting\<close>

lemma set_wheel_fields [simp]:
  "kern (set_wheel wh w) = kern w" "conns (set_wheel wh w) = conns w" "app (set_wheel wh w) = app w"
  "timeWheel (evloop (set_wheel wh w)) = wh"
  "registered (evloop (set_wheel wh w)) = registered (evloop w)"
  by (simp_all add: set_wheel_def registered_def fun_eq_iff)

lemma loop_ok_set_wheel [simp]:
  "loop_ok K interest (evloop (set_wheel wh w), k) = loop_ok K interest (evloop w, k)"
  by (simp add: loop_ok_def)

lemma upd_app_fields [simp]:
  "kern (upd_app f w) = kern w" "conns (upd_app f w) = conns w" "evloop (upd_app f w) = evloop w"
  "app (upd_app f w) = f (app w)"
  by (simp_all add: upd_app_def)

definition wheel_60 :: "('p, 'k, 'x) world \<Rightarrow> bool" where
  "wheel_60 w \<longleftrightarrow> wheel_wf (timeWheel (evloop w)) \<and> bucketCount (timeWheel (evloop w)) = 60
     \<and> tickIntervalSec (timeWheel (evloop w)) = 1"

lemma ticks_60: "wheel_60 w \<Longrightarrow> ticks_for 60 (timeWheel (evloop w)) = Inr 60"
  by (simp add: wheel_60_def ticks_for_def in_int_def)

lemma accept_one_prepares:
  assumes "loop_ok K interest (evloop w, kern w)" and "interest_ok K interest" and "wheel_60 w"
    and "0 \<le> connFd" and "fst (sys_epoll_add K connFd (with_mode (evloop w) EPOLLIN) (kern w))"
  shows "\<exists>w' e. accept_one K on_conn connFd w =
      (case connectionCallback (app w) of None \<Rightarrow> Inr w' | Some cb \<Rightarrow> on_conn cb (next_conn (app w)) w')
    \<and> conn_ok K interest (next_conn (app w)) w'
    \<and> conns w' = (conns w)(next_conn (app w) \<mapsto> (connection_new connFd)\<lparr>dataCallback := srv_dataCallback (app w),
        closeCallback := Some TcpOnClose, wheelEntry := Some e\<rparr>)
    \<and> view (timeWheel (evloop w)) e = None
    \<and> view (timeWheel (evloop w'))
        = (view (timeWheel (evloop w)))(e \<mapsto> (60, 60, CloseIdle (next_conn (app w)), next_conn (app w)))
    \<and> wheel_wf (timeWheel (evloop w'))
    \<and> registered (evloop w')
        = (registered (evloop w))(connFd \<mapsto> (EPOLLIN, ConnReadWriteCb (next_conn (app w))))
    \<and> app w' = (app w)\<lparr>next_conn := Suc (next_conn (app w)),
        connections := AList.update connFd (next_conn (app w)) (connections (app w))\<rparr>
    \<and> kern w' = snd (sys_epoll_add K connFd (with_mode (evloop w) EPOLLIN) (kern w))
    \<and> wheel_60 w' \<and> triggerMode (evloop w') = triggerMode (evloop w)"
proof -
  let ?c = "next_conn (app w)"
  let ?C = "(connection_new connFd)\<lparr>dataCallback := srv_dataCallback (app w), closeCallback := Some TcpOnClose\<rparr>"
  let ?w1 = "upd_app (\<lambda>s. s\<lparr>next_conn := Suc ?c, connections := AList.update connFd ?c (connections s)\<rparr>)
      (w\<lparr>conns := (conns w)(?c \<mapsto> ?C)\<rparr>)"
  obtain L k where add: "addFd K connFd EPOLLIN (ConnReadWriteCb ?c) (evloop w, kern w) = Inr (L, k)"
    and k: "k = snd (sys_epoll_add K connFd (with_mode (evloop w) EPOLLIN) (kern w))"
    using assms(4,5) by (cases "sys_epoll_add K connFd (with_mode (evloop w) EPOLLIN) (kern w)")
      (simp add: addFd_def Let_def)
  note reg = addFd_registers [OF assms(1) add]
  let ?w2 = "?w1\<lparr>evloop := L, kern := k\<rparr>"
  have start: "conn_start K ?c ?w1 = Inr ?w2"
    using add by (simp add: conn_start_def conn_Some on_loop_def connection_new_def)
  have wh: "timeWheel L = timeWheel (evloop w)"
    using addFd_timeWheel [OF add] .
  have wf: "wheel_wf (timeWheel L)"
    using assms(3) wh by (simp add: wheel_60_def)
  have "ticks_for 60 (timeWheel L) = Inr 60"
    using ticks_60 [OF assms(3)] wh by simp
  from dw.insert_look [OF wf this, of "CloseIdle ?c" ?c] obtain e wh' where
    e: "add 60 (CloseIdle ?c) ?c (timeWheel L) = Inr (e, wh')" "wheel_wf wh'" "view (timeWheel L) e = None"
      "view wh' = (view (timeWheel L))(e \<mapsto> (60, 60, CloseIdle ?c, ?c))"
    by blast
  let ?w3 = "upd ?c (wheelEntry_update (\<lambda>_. Some e)) (set_wheel wh' ?w2)"
  have run: "accept_one K on_conn connFd w =
      (case connectionCallback (app w) of None \<Rightarrow> Inr ?w3 | Some cb \<Rightarrow> on_conn cb ?c ?w3)"
    using start e(1) by (simp add: accept_one_def Let_def)
  have C3: "conns ?w3 = (conns w)(?c \<mapsto> ?C\<lparr>wheelEntry := Some e\<rparr>)"
    by (simp add: upd_def)
  have "conn_ok K interest ?c ?w3"
  proof (rule conn_okI [where C = "?C\<lparr>wheelEntry := Some e\<rparr>"])
    show "loop_ok K interest (evloop ?w3, kern ?w3)"
      using reg by simp
  qed (use assms(2,4) reg C3 in \<open>simp_all add: connection_new_def buffer_default_def buffer_new_def readableBytes_def buffer_wf_def\<close>)
  moreover have "wheel_60 ?w3"
    using assms(3) e(2) shape_add [OF e(1)] wh by (simp add: wheel_60_def wheel_shape_def)
  moreover have "triggerMode (evloop ?w3) = triggerMode (evloop w)"
    using addFd_mode [OF add] by (simp add: set_wheel_def)
  ultimately show ?thesis
    using run C3 e reg wh k
    by (intro exI [of _ ?w3] exI [of _ e]) simp
qed

lemma accept_one_installs:
  assumes "loop_ok K interest (evloop w, kern w)" and "interest_ok K interest" and "wheel_60 w"
    and "0 \<le> connFd" and "connectionCallback (app w) = None"
    and "fst (sys_epoll_add K connFd (with_mode (evloop w) EPOLLIN) (kern w))"
  shows "\<exists>w' C e. accept_one K on_conn connFd w = Inr w'
    \<and> conn_ok K interest (next_conn (app w)) w'
    \<and> conns w' = (conns w)(next_conn (app w) \<mapsto> C) \<and> fd C = connFd \<and> state C = ReadingRequest
    \<and> closeCallback C = Some TcpOnClose \<and> wheelEntry C = Some e
    \<and> view (timeWheel (evloop w')) = (view (timeWheel (evloop w)))
        (e \<mapsto> (60, 60, CloseIdle (next_conn (app w)), next_conn (app w)))
    \<and> registered (evloop w') = (registered (evloop w))
        (connFd \<mapsto> (EPOLLIN, ConnReadWriteCb (next_conn (app w))))
    \<and> map_of (connections (app w')) connFd = Some (next_conn (app w))"
proof -
  obtain w' e where "accept_one K on_conn connFd w = Inr w'" "conn_ok K interest (next_conn (app w)) w'"
    "conns w' = (conns w)(next_conn (app w) \<mapsto> (connection_new connFd)\<lparr>dataCallback := srv_dataCallback (app w),
        closeCallback := Some TcpOnClose, wheelEntry := Some e\<rparr>)"
    "view (timeWheel (evloop w')) = (view (timeWheel (evloop w)))
        (e \<mapsto> (60, 60, CloseIdle (next_conn (app w)), next_conn (app w)))"
    "registered (evloop w') = (registered (evloop w))(connFd \<mapsto> (EPOLLIN, ConnReadWriteCb (next_conn (app w))))"
    "app w' = (app w)\<lparr>next_conn := Suc (next_conn (app w)),
        connections := AList.update connFd (next_conn (app w)) (connections (app w))\<rparr>"
    using accept_one_prepares [OF assms(1-4,6), of on_conn] assms(5) by auto
  then show ?thesis
    by (intro exI [of _ w'] exI [of _ "(connection_new connFd)\<lparr>dataCallback := srv_dataCallback (app w),
        closeCallback := Some TcpOnClose, wheelEntry := Some e\<rparr>"] exI [of _ e])
      (simp add: connection_new_def update_conv')
qed

section \<open>Removing\<close>

lemma removeConnection_closed:
  assumes C: "conns w c = Some C" and fd: "fd C = - 1"
    and e: "wheelEntry C = Some e" and wf: "wheel_wf (timeWheel (evloop w))"
    and live: "view (timeWheel (evloop w)) e \<noteq> None"
    and keys: "\<forall>(f, d)\<in>set (connections (app w)). 0 \<le> f"
  shows "\<exists>w'. removeConnection c w = Inr w'
    \<and> conns w' = (conns w)(c \<mapsto> C\<lparr>wheelEntry := None\<rparr>)
    \<and> view (timeWheel (evloop w')) = (view (timeWheel (evloop w)))(e := None)
    \<and> wheel_wf (timeWheel (evloop w'))
    \<and> connections (app w') = connections (app w)
    \<and> registered (evloop w') = registered (evloop w) \<and> kern w' = kern w"
proof -
  obtain r k cb own where "view (timeWheel (evloop w)) e = Some (r, k, cb, own)"
    using live by auto
  from dw.drop_look [OF wf this] obtain wh where wh:
    "remove (Some e) (timeWheel (evloop w)) = Inr wh" "wheel_wf wh"
    "view wh = (view (timeWheel (evloop w)))(e := None)"
    by blast
  let ?w1 = "upd c (wheelEntry_update (\<lambda>_. None)) (set_wheel wh w)"
  let ?w' = "upd_app (connections_update (AList.delete (- 1))) ?w1"
  have "removeConnection c w = Inr ?w'"
    using C e wh(1) fd by (simp add: removeConnection_def conn_Some on_wheel_def)
  moreover have "AList.delete (- 1) (connections (app w)) = connections (app w)"
    using keys by (auto simp: AList.delete_eq intro!: filter_True)
  ultimately show ?thesis
    using wh C by (intro exI [of _ ?w']) (simp add: upd_def)
qed

section \<open>Properties\<close>

text \<open>
  Accepting a descriptor installs everything a connection needs: an object in the state
  ReadingRequest under its descriptor in the table, registered for reading, and an entry on
  the wheel that closes it after 60 ticks; the other connections and deadlines are untouched.
\<close>

theorem accept_installs_connection:
  assumes "loop_ok K interest (evloop w, kern w)" and "interest_ok K interest" and "wheel_60 w"
    and "0 \<le> connFd" and "connectionCallback (app w) = None"
    and "fst (sys_epoll_add K connFd (with_mode (evloop w) EPOLLIN) (kern w))"
  shows "\<exists>w' C e. accept_one K on_conn connFd w = Inr w'
    \<and> conn_ok K interest (next_conn (app w)) w'
    \<and> conns w' = (conns w)(next_conn (app w) \<mapsto> C) \<and> fd C = connFd \<and> state C = ReadingRequest
    \<and> closeCallback C = Some TcpOnClose \<and> wheelEntry C = Some e
    \<and> view (timeWheel (evloop w')) = (view (timeWheel (evloop w)))
        (e \<mapsto> (60, 60, CloseIdle (next_conn (app w)), next_conn (app w)))
    \<and> registered (evloop w') = (registered (evloop w))
        (connFd \<mapsto> (EPOLLIN, ConnReadWriteCb (next_conn (app w))))
    \<and> map_of (connections (app w')) connFd = Some (next_conn (app w))"
  using accept_one_installs [OF assms, of on_conn] by blast

text \<open>
  C39: closing a connection of a TCP server releases its descriptor, its registration and
  its deadline, but not its entry in the table: \<^verbatim>\<open>removeConnection\<close> erases the key -1, which
  the descriptor has become, so that the table keeps the closed connection alive under its
  old descriptor.
\<close>

theorem closed_connection_stays_in_table:
  assumes "conn_ok K interest c w" and "conns w c = Some C" and "\<not> sendingFile C"
    and "closeCallback C = Some TcpOnClose" and "wheelEntry C = Some e"
    and "wheel_wf (timeWheel (evloop w))" and "view (timeWheel (evloop w)) e \<noteq> None"
    and "\<forall>(f, d)\<in>set (connections (app w)). 0 \<le> f"
  shows "\<exists>w' C'. handleClose (tcp_env on_data) K (Suc n) c w = Inr w'
    \<and> conns w' c = Some C' \<and> fd C' = - 1 \<and> wheelEntry C' = None
    \<and> registered (evloop w') (fd C) = None
    \<and> view (timeWheel (evloop w')) = (view (timeWheel (evloop w)))(e := None)
    \<and> connections (app w') = connections (app w)"
proof -
  obtain w1 where 1: "handleClose (tcp_env on_data) K (Suc n) c w =
      (case closeCallback C of None \<Rightarrow> Inr w1 | Some cb \<Rightarrow> run_close (tcp_env on_data) cb c w1)"
    "conns w1 = (conns w)(c \<mapsto> released C)" "app w1 = app w"
    "registered (evloop w1) = (registered (evloop w))(fd C := None)"
    "timeWheel (evloop w1) = timeWheel (evloop w)"
    using handleClose_releases [OF assms(1,2), of "tcp_env on_data" n] assms(3) by blast
  have rel: "conns w1 c = Some (released C)" "fd (released C) = - 1" "wheelEntry (released C) = Some e"
    using 1(2) assms(5) by (simp_all add: released_def)
  from removeConnection_closed [OF rel] assms(6-8) 1(3,5) obtain w' where
    "removeConnection c w1 = Inr w'" "conns w' = (conns w1)(c \<mapsto> (released C)\<lparr>wheelEntry := None\<rparr>)"
    "view (timeWheel (evloop w')) = (view (timeWheel (evloop w)))(e := None)"
    "connections (app w') = connections (app w)" "registered (evloop w') = registered (evloop w1)"
    by auto
  then show ?thesis
    using 1(1,4) assms(4) rel
    by (intro exI [of _ w'] exI [of _ "(released C)\<lparr>wheelEntry := None\<rparr>"]) (simp add: tcp_env_def)
qed

section \<open>Witnesses\<close>

definition demo_tcp :: "unit tcp_server" where
  "demo_tcp = \<lparr>listenFd = 3, port = 8080, srv_running = True, connections = [], next_conn = 5,
     connectionCallback = None, srv_dataCallback = None, rest = ()\<rparr>"

definition demo_tcp_world :: "connection \<Rightarrow> (unit, demo_state, unit) tcp_world" where
  "demo_tcp_world C =
     \<lparr>evloop = evloop (demo_world 1 C demo_open), kern = demo_open, conns = [1 \<mapsto> C], app = demo_tcp\<rparr>"

lemma demo_tcp_loop:
  "loop_ok demoK ds_interest (evloop (demo_tcp_world (connection_new 7)), demo_open)"
  using conn_okD(2) [OF demo_new_ok, of "connection_new 7"] by (simp add: demo_tcp_world_def)

theorem accept_installs_connection_witness:
  "\<exists>w' C e. accept_one demoK (\<lambda>cb c w. Inr w) 12 (demo_tcp_world (connection_new 7)) = Inr w'
    \<and> conns w' 5 = Some C \<and> wheelEntry C = Some e
    \<and> view (timeWheel (evloop w')) e = Some (60, 60, CloseIdle 5, 5)"
proof -
  let ?w = "demo_tcp_world (connection_new 7)"
  have k: "kern ?w = demo_open" "app ?w = demo_tcp" "next_conn demo_tcp = 5" "connectionCallback demo_tcp = None"
    by (simp_all add: demo_tcp_world_def demo_tcp_def)
  have "wheel_60 ?w"
    by (simp add: wheel_60_def demo_tcp_world_def demo_world_def wheel_new_wf) (simp add: wheel_new_def)
  moreover have "fst (sys_epoll_add demoK 12 (with_mode (evloop ?w) EPOLLIN) demo_open)"
    by (simp add: demo_kernel_def demo_open_def)
  ultimately show ?thesis
    using accept_installs_connection [of demoK ds_interest ?w 12 "\<lambda>cb c w. Inr w"] demo_tcp_loop k by auto
qed

text \<open>A connection with a deadline, in the table under its descriptor.\<close>

definition demo_idle :: connection where
  "demo_idle = (connection_new 7)\<lparr>closeCallback := Some TcpOnClose, wheelEntry := Some 0\<rparr>"

definition demo_idle_world :: "(unit, demo_state, unit) tcp_world" where
  "demo_idle_world =
     (case add 60 (CloseIdle 1) 1 (wheel_new 60 1) of
        Inr (a, wh) \<Rightarrow> upd_app (connections_update (\<lambda>_. [(7, 1)])) (set_wheel wh (demo_tcp_world demo_idle))
      | Inl e \<Rightarrow> demo_tcp_world demo_idle)"

lemma demo_idle_wheel:
  "\<exists>wh. add 60 (CloseIdle 1) 1 (wheel_new 60 1) = Inr (0, wh) \<and> wheel_wf wh
    \<and> view wh 0 = Some (60, 60, CloseIdle 1, 1)"
proof -
  have "ticks_for 60 (wheel_new 60 1 :: wheel_cb wheel) = Inr 60"
    by (simp add: ticks_for_def wheel_new_def in_int_def)
  from dw.insert_look [OF wheel_new_wf this, of "CloseIdle 1" 1] obtain a w
    where 1: "add 60 (CloseIdle 1) 1 (wheel_new 60 1) = Inr (a, w)" "wheel_wf w"
      "view w = (view (wheel_new 60 1))(a \<mapsto> (60, 60, CloseIdle 1, 1))"
    by auto
  then have "a = 0"
    by (auto simp: add_def wheel_new_def Let_def elim!: rbind_InrE split: if_splits)
  with 1 show ?thesis
    by auto
qed

theorem closed_connection_stays_in_table_witness:
  "\<exists>w' C'. handleClose (tcp_env (\<lambda>cb c w. Inr w)) demoK 2 1 demo_idle_world = Inr w'
    \<and> conns w' 1 = Some C' \<and> fd C' = - 1 \<and> connections (app w') = [(7, 1)]"
proof -
  obtain wh where wh: "add 60 (CloseIdle 1) 1 (wheel_new 60 1) = Inr (0, wh)" "wheel_wf wh"
    "view wh 0 = Some (60, 60, CloseIdle 1, 1)"
    using demo_idle_wheel by blast
  have W: "demo_idle_world = upd_app (connections_update (\<lambda>_. [(7, 1)])) (set_wheel wh (demo_tcp_world demo_idle))"
    using wh(1) by (simp add: demo_idle_world_def)
  have base: "conn_ok demoK ds_interest 1 (demo_world 1 demo_idle demo_open)"
    by (rule demo_world_ok) (simp_all add: demo_idle_def connection_new_def buffer_default_def demo_open_def)
  have fields: "conns demo_idle_world = [1 \<mapsto> demo_idle]" "kern demo_idle_world = demo_open"
    "timeWheel (evloop demo_idle_world) = wh" "connections (app demo_idle_world) = [(7, 1)]"
    "registered (evloop demo_idle_world) = registered (evloop (demo_world 1 demo_idle demo_open))"
    "loop_ok demoK ds_interest (evloop demo_idle_world, demo_open)"
    using conn_okD(2) [OF base, of demo_idle] by (simp_all add: W demo_tcp_world_def)
  have ok: "conn_ok demoK ds_interest 1 demo_idle_world"
    using conn_okD [OF base, of demo_idle] fields by (intro conn_okI [where C = demo_idle]) auto
  have st: "\<not> sendingFile demo_idle" "closeCallback demo_idle = Some TcpOnClose" "wheelEntry demo_idle = Some 0"
    by (simp_all add: demo_idle_def connection_new_def)
  have "conns demo_idle_world 1 = Some demo_idle" "wheel_wf (timeWheel (evloop demo_idle_world))"
    "view (timeWheel (evloop demo_idle_world)) 0 \<noteq> None"
    "\<forall>(f, d)\<in>set (connections (app demo_idle_world)). 0 \<le> f"
    using fields wh by simp_all
  from closed_connection_stays_in_table [OF ok this(1) st this(2-4), of "\<lambda>cb c w. Inr w" 1] fields(4)
  show ?thesis
    by (auto simp: numeral_2_eq_2 simp del: handleClose.simps)
qed

end
