(* ===== verification/HttpServer.thy ===== *)
theory HttpServer
  imports TcpServer HttpResponse Router
begin

text \<open>
  \<^verbatim>\<open>http/HttpServer.h\<close> and \<^verbatim>\<open>http/HttpServer.cpp\<close>: the parser context of a connection, the
  callbacks the parser calls, \<^verbatim>\<open>onConnection\<close>, \<^verbatim>\<open>onData\<close>, \<^verbatim>\<open>processRequest\<close> with its file and
  range branches, and the close and write-complete callbacks. \<^verbatim>\<open>http_parser\<close> is a vendored
  library and a parameter: a call of \<^verbatim>\<open>http_parser_execute\<close> yields the callbacks it makes, in
  order, the number of bytes parsed and whether \<^verbatim>\<open>http_errno\<close> is \<^verbatim>\<open>HPE_OK\<close>. The request
  handlers and the two hooks are parameters as well; a hook that is not set does nothing.

  A parser context is owned by the close callback of its connection, so it is freed when
  that callback has run; the store of contexts makes a later access the fault \<open>Undefined\<close>.
\<close>

section \<open>State\<close>

datatype parse_event =
    MessageBegin | Url string | HeaderField string | HeaderValue string
  | HeadersComplete string int int bool | Body string | MessageComplete

record 'q parser_context =
  pc_parser :: 'q
  pc_ok :: bool
  pc_request :: http_request
  pc_currentHeaderField :: string
  pc_headersComplete :: bool
  pc_messageComplete :: bool

record ('h, 'q, 'y) http_state =
  router :: "'h router"
  ctxs :: "nat \<Rightarrow> 'q parser_context option"
  next_ctx :: nat
  user :: 'y

type_synonym ('p, 'k, 'h, 'q, 'y) http_world = "('p, 'k, ('h, 'q, 'y) http_state) tcp_world"

record ('p, 'k, 'h, 'q, 'y) http_param =
  parser_init :: 'q
  parser_execute :: "'q \<Rightarrow> string \<Rightarrow> parse_event list \<times> nat \<times> bool \<times> 'q"
  handle :: "'h \<Rightarrow> http_request \<Rightarrow> nat \<Rightarrow> http_response \<Rightarrow> ('p, 'k, 'h, 'q, 'y) http_world
     \<Rightarrow> (http_response \<times> ('p, 'k, 'h, 'q, 'y) http_world) res"
  connectionHook :: "nat \<Rightarrow> ('p, 'k, 'h, 'q, 'y) http_world \<Rightarrow> ('p, 'k, 'h, 'q, 'y) http_world res"
  writeCompleteHook :: "nat \<Rightarrow> ('p, 'k, 'h, 'q, 'y) http_world \<Rightarrow> ('p, 'k, 'h, 'q, 'y) http_world res"

text \<open>A hook that the program registers; before that it does nothing.\<close>

definition setConnectionHook ::
    "(nat \<Rightarrow> ('p, 'k, 'h, 'q, 'y) http_world \<Rightarrow> ('p, 'k, 'h, 'q, 'y) http_world res)
     \<Rightarrow> ('p, 'k, 'h, 'q, 'y) http_param \<Rightarrow> ('p, 'k, 'h, 'q, 'y) http_param" where
  "setConnectionHook hook P = P\<lparr>connectionHook := hook\<rparr>"

definition setWriteCompleteHook ::
    "(nat \<Rightarrow> ('p, 'k, 'h, 'q, 'y) http_world \<Rightarrow> ('p, 'k, 'h, 'q, 'y) http_world res)
     \<Rightarrow> ('p, 'k, 'h, 'q, 'y) http_param \<Rightarrow> ('p, 'k, 'h, 'q, 'y) http_param" where
  "setWriteCompleteHook hook P = P\<lparr>writeCompleteHook := hook\<rparr>"

lemmas hook_setters [simp] = setConnectionHook_def setWriteCompleteHook_def

definition http_of :: "('p, 'k, 'h, 'q, 'y) http_world \<Rightarrow> ('h, 'q, 'y) http_state" where
  "http_of w = rest (app w)"

definition upd_http ::
    "(('h, 'q, 'y) http_state \<Rightarrow> ('h, 'q, 'y) http_state)
     \<Rightarrow> ('p, 'k, 'h, 'q, 'y) http_world \<Rightarrow> ('p, 'k, 'h, 'q, 'y) http_world" where
  "upd_http f = upd_app (rest_update f)"

definition get_ctx :: "nat \<Rightarrow> ('p, 'k, 'h, 'q, 'y) http_world \<Rightarrow> 'q parser_context res" where
  "get_ctx p w =
     (case ctxs (http_of w) p of
        None \<Rightarrow> Inl (Undefined ''parser context used after free'')
      | Some x \<Rightarrow> Inr x)"

definition upd_ctx ::
    "nat \<Rightarrow> ('q parser_context \<Rightarrow> 'q parser_context)
     \<Rightarrow> ('p, 'k, 'h, 'q, 'y) http_world \<Rightarrow> ('p, 'k, 'h, 'q, 'y) http_world" where
  "upd_ctx p f = upd_http (ctxs_update (\<lambda>m. m(p := map_option f (m p))))"

definition free_ctx :: "nat \<Rightarrow> ('p, 'k, 'h, 'q, 'y) http_world \<Rightarrow> ('p, 'k, 'h, 'q, 'y) http_world" where
  "free_ctx p = upd_http (ctxs_update (\<lambda>m. m(p := None)))"

definition http_addRoute ::
    "string \<Rightarrow> string \<Rightarrow> 'h \<Rightarrow> ('p, 'k, 'h, 'q, 'y) http_world \<Rightarrow> ('p, 'k, 'h, 'q, 'y) http_world" where
  "http_addRoute m path h = upd_http (router_update (addRoute m path h))"

definition http_start ::
    "'k kernel \<Rightarrow> bool \<Rightarrow> bool \<Rightarrow> ('p, 'k, 'h, 'q, 'y) http_world \<Rightarrow> ('p, 'k, 'h, 'q, 'y) http_world res" where
  "http_start K = tcp_start K"

lemmas http_start_tcp [simp] = http_start_def

section \<open>The callbacks of the parser\<close>

fun on_event :: "parse_event \<Rightarrow> 'q parser_context \<Rightarrow> 'q parser_context" where
  "on_event MessageBegin x = pc_request_update request_reset x"
| "on_event (Url u) x = pc_request_update (setUrl u) x"
| "on_event (HeaderField f) x = x\<lparr>pc_currentHeaderField := f\<rparr>"
| "on_event (HeaderValue v) x = pc_request_update (setHeader (pc_currentHeaderField x) v) x"
| "on_event (HeadersComplete m major minor ka) x =
     pc_request_update
       (\<lambda>r. parseRange (setKeepAlive_req ka (setHttpVersion major minor (setMethod m r)))) x"
| "on_event (Body d) x = pc_request_update (appendBody d) x"
| "on_event MessageComplete x = x\<lparr>pc_messageComplete := True\<rparr>"

section \<open>The callbacks of a connection\<close>

fun on_close ::
    "close_cb \<Rightarrow> nat \<Rightarrow> ('p, 'k, 'h, 'q, 'y) http_world \<Rightarrow> ('p, 'k, 'h, 'q, 'y) http_world res" where
  "on_close TcpOnClose c w = removeConnection c w"
| "on_close (HttpOnClose p old) c w =
     (let w1 = upd c (setUserData None) w
      in rbind (case old of None \<Rightarrow> Inr w1 | Some cb \<Rightarrow> on_close cb c w1) (\<lambda>w2. Inr (free_ctx p w2)))"

definition on_write_complete ::
    "('p, 'k, 'h, 'q, 'y) http_param
     \<Rightarrow> (nat \<Rightarrow> ('p, 'k, 'h, 'q, 'y) http_world \<Rightarrow> ('p, 'k, 'h, 'q, 'y) http_world res)
     \<Rightarrow> nat \<Rightarrow> ('p, 'k, 'h, 'q, 'y) http_world \<Rightarrow> ('p, 'k, 'h, 'q, 'y) http_world res" where
  "on_write_complete P close c w =
     rbind (writeCompleteHook P c w) (\<lambda>w1.
     rbind (conn c w1) (\<lambda>C.
     if state C = SendingResponse then
       (if keepAlive C then Inr (resetForNextRequest c w1) else close c w1)
     else Inr w1))"

text \<open>The callbacks without \<^verbatim>\<open>onData\<close>, which sending and closing do not call.\<close>

definition base_env ::
    "('p, 'k, 'h, 'q, 'y) http_param \<Rightarrow> ('p, 'k, ('h, 'q, 'y) http_state tcp_server) conn_env" where
  "base_env P =
     \<lparr>run_data = (\<lambda>cb c w. Inr w), run_close = on_close,
      run_write = (\<lambda>close cb c w. on_write_complete P close c w)\<rparr>"

definition onConnection ::
    "('p, 'k, 'h, 'q, 'y) http_param \<Rightarrow> nat
     \<Rightarrow> ('p, 'k, 'h, 'q, 'y) http_world \<Rightarrow> ('p, 'k, 'h, 'q, 'y) http_world res" where
  "onConnection P c w =
     (let p = next_ctx (http_of w);
          x = \<lparr>pc_parser = parser_init P, pc_ok = True, pc_request = request_new,
               pc_currentHeaderField = [], pc_headersComplete = False, pc_messageComplete = False\<rparr>;
          w1 = upd_http (\<lambda>s. s\<lparr>next_ctx := Suc p, ctxs := (ctxs s)(p \<mapsto> x)\<rparr>) w
      in rbind (conn c w1) (\<lambda>C.
         connectionHook P c
           (upd c (\<lambda>C. setWriteCompleteCallback (Some HttpOnWriteComplete)
                        (setCloseCallback (Some (HttpOnClose p (closeCallback C))) (setUserData (Some p) C))) w1)))"

section \<open>Ranges\<close>

text \<open>The arithmetic of \<^verbatim>\<open>processRequest\<close> on a range request; \<open>None\<close> is the answer 416.\<close>

definition decide_range :: "int \<Rightarrow> int \<Rightarrow> int \<Rightarrow> (int \<times> int) option" where
  "decide_range size_of_file start0 end0 =
     (let (start1, end1) = (if start0 = - 1 then (size_of_file - end0, size_of_file - 1) else (start0, end0));
          end2 = (if end1 = - 1 \<or> end1 \<ge> size_of_file then size_of_file - 1 else end1)
      in if start1 < 0 \<or> start1 \<ge> size_of_file \<or> end2 < 0 \<or> end2 \<ge> size_of_file \<or> start1 > end2
         then None else Some (start1, end2))"

section \<open>Processing a request\<close>

definition not_found_response :: http_response where
  "not_found_response =
     setBody ''404 Not Found'' (setStatusMessage ''Not Found'' (setStatusCode 404 response_new))"

definition bad_request_response :: http_response where
  "bad_request_response = setStatusMessage ''Bad Request'' (setStatusCode 400 response_new)"

definition gone_response :: "bool \<Rightarrow> http_response" where
  "gone_response ka =
     setBody ''File no longer available''
       (setKeepAlive ka (setStatusMessage ''Gone'' (setStatusCode 410 response_new)))"

definition unsatisfiable_response :: "int \<Rightarrow> bool \<Rightarrow> http_response" where
  "unsatisfiable_response size_of_file ka =
     setKeepAlive ka
       (addHeader ''Content-Range'' (''bytes */'' @ int_to_string size_of_file)
         (setStatusMessage ''Range Not Satisfiable'' (setStatusCode 416 response_new)))"

definition partial_response :: "int \<Rightarrow> int \<Rightarrow> int \<Rightarrow> http_response \<Rightarrow> bool \<Rightarrow> http_response" where
  "partial_response start end size_of_file resp ka =
     (let r1 = setContentRange start end size_of_file response_new;
          contentType = resp_header ''Content-Type'' resp;
          r2 = (if contentType \<noteq> [] then setContentType contentType r1 else r1)
      in setKeepAlive ka r2)"

text \<open>
  The end of every answer that is not a file: the request, which lives in the parser
  context, is read again to decide between \<^verbatim>\<open>close\<close> and \<^verbatim>\<open>resetForNextRequest\<close>.
\<close>

definition finish_response ::
    "('p, 'k, 'h, 'q, 'y) http_param \<Rightarrow> 'k kernel \<Rightarrow> nat \<Rightarrow> nat \<Rightarrow> nat
     \<Rightarrow> ('p, 'k, 'h, 'q, 'y) http_world \<Rightarrow> ('p, 'k, 'h, 'q, 'y) http_world res" where
  "finish_response P K n p c w =
     rbind (get_ctx p w) (\<lambda>x.
     if \<not> rq_keepAlive (pc_request x) then close_conn (base_env P) K n c w
     else Inr (resetForNextRequest c w))"

definition send_response ::
    "('p, 'k, 'h, 'q, 'y) http_param \<Rightarrow> 'k kernel \<Rightarrow> nat \<Rightarrow> nat \<Rightarrow> nat \<Rightarrow> http_response
     \<Rightarrow> ('p, 'k, 'h, 'q, 'y) http_world \<Rightarrow> ('p, 'k, 'h, 'q, 'y) http_world res" where
  "send_response P K n p c resp w =
     rbind (send (base_env P) K n (build resp) c w) (finish_response P K n p c)"

text \<open>Header and file; the write-complete callback finishes the response.\<close>

definition send_head_and_file ::
    "('p, 'k, 'h, 'q, 'y) http_param \<Rightarrow> 'k kernel \<Rightarrow> nat \<Rightarrow> nat \<Rightarrow> http_response \<Rightarrow> int \<Rightarrow> nat \<Rightarrow> int \<Rightarrow> nat
     \<Rightarrow> ('p, 'k, 'h, 'q, 'y) http_world \<Rightarrow> ('p, 'k, 'h, 'q, 'y) http_world res" where
  "send_head_and_file P K n c resp ffd size_of_file off len w =
     rbind (send (base_env P) K n (build resp) c w) (\<lambda>w1.
     rbind (sendFile_fd K ffd size_of_file off len c w1) (\<lambda>w2.
     Inr (setState SendingResponse c w2)))"

definition file_response ::
    "('p, 'k, 'h, 'q, 'y) http_param \<Rightarrow> 'k kernel \<Rightarrow> nat \<Rightarrow> nat \<Rightarrow> nat \<Rightarrow> http_request \<Rightarrow> http_response
     \<Rightarrow> ('p, 'k, 'h, 'q, 'y) http_world \<Rightarrow> ('p, 'k, 'h, 'q, 'y) http_world res" where
  "file_response P K n p c req resp w =
     (let (r, k) = sys_open K (rs_filePath resp) (kern w); w1 = w\<lparr>kern := k\<rparr>
      in case r of
           None \<Rightarrow> send_response P K n p c (gone_response (rq_keepAlive req)) w1
         | Some ffd \<Rightarrow>
             if rq_hasRange req then
               (let sz = int (rs_fileSize resp)
                in case decide_range sz (rq_rangeStart req) (rq_rangeEnd req) of
                     None \<Rightarrow>
                       send_response P K n p c (unsatisfiable_response sz (rq_keepAlive req))
                         (w1\<lparr>kern := sys_close K ffd (kern w1)\<rparr>)
                   | Some (s, e) \<Rightarrow>
                       send_head_and_file P K n c (partial_response s e sz resp (rq_keepAlive req))
                         ffd (rs_fileSize resp) s (nat (e - s + 1)) w1)
             else send_head_and_file P K n c resp ffd (rs_fileSize resp) 0 0 w1)"

definition processRequest ::
    "('p, 'k, 'h, 'q, 'y) http_param \<Rightarrow> 'k kernel \<Rightarrow> nat \<Rightarrow> nat
     \<Rightarrow> ('p, 'k, 'h, 'q, 'y) http_world \<Rightarrow> ('p, 'k, 'h, 'q, 'y) http_world res" where
  "processRequest P K n c w =
     rbind (conn c w) (\<lambda>C.
     case userData C of
       None \<Rightarrow> Inr w
     | Some p \<Rightarrow>
         rbind (get_ctx p w) (\<lambda>x.
         let (req1, found) = route (router (http_of w)) (pc_request x);
             w1 = upd_ctx p (pc_request_update (\<lambda>_. req1)) w
         in rbind (case found of
                     None \<Rightarrow> Inr (not_found_response, w1)
                   | Some h \<Rightarrow> handle P h req1 c response_new w1) (\<lambda>(resp0, w2).
            rbind (get_ctx p w2) (\<lambda>x2.
            let req = pc_request x2; resp = setKeepAlive (rq_keepAlive req) resp0
            in if rs_isFile resp then file_response P K n p c req resp w2
               else send_response P K n p c resp w2))))"

section \<open>Incoming data\<close>

definition refresh_deadline ::
    "nat \<Rightarrow> ('p, 'k, 'x) world \<Rightarrow> ('p, 'k, 'x) world res" where
  "refresh_deadline c w =
     rbind (conn c w) (\<lambda>C.
     case wheelEntry C of None \<Rightarrow> Inr w | Some e \<Rightarrow> on_wheel (refresh (Some e)) w)"

definition onData ::
    "('p, 'k, 'h, 'q, 'y) http_param \<Rightarrow> 'k kernel \<Rightarrow> nat \<Rightarrow> nat
     \<Rightarrow> ('p, 'k, 'h, 'q, 'y) http_world \<Rightarrow> ('p, 'k, 'h, 'q, 'y) http_world res" where
  "onData P K n c w =
     rbind (conn c w) (\<lambda>C.
     case userData C of
       None \<Rightarrow> Inr w
     | Some p \<Rightarrow>
         rbind (refresh_deadline c w) (\<lambda>w1.
         rbind (get_ctx p w1) (\<lambda>x.
         rbind (peek_bytes (readableBytes (inputBuffer C)) (inputBuffer C)) (\<lambda>data.
         let (evs, nparsed, ok, q) = parser_execute P (pc_parser x) data;
             w2 = upd_ctx p (\<lambda>x. (fold on_event evs x)\<lparr>pc_parser := q, pc_ok := ok\<rparr>) w1
         in if \<not> ok then
              rbind (send (base_env P) K n (build bad_request_response) c w2)
                (close_conn (base_env P) K n c)
            else
              let w3 = upd c (inputBuffer_update (retrieve nparsed)) w2
              in rbind (get_ctx p w3) (\<lambda>x3.
                 if pc_messageComplete x3 then
                   rbind (processRequest P K n c w3) (\<lambda>w4.
                   rbind (get_ctx p w4) (\<lambda>x4.
                   Inr (upd_ctx p (\<lambda>x. x\<lparr>pc_messageComplete := False,
                                        pc_request := request_reset (pc_request x),
                                        pc_parser := parser_init P, pc_ok := True\<rparr>) w4)))
                 else Inr w3)))))"

definition http_env ::
    "('p, 'k, 'h, 'q, 'y) http_param \<Rightarrow> 'k kernel \<Rightarrow> nat
     \<Rightarrow> ('p, 'k, ('h, 'q, 'y) http_state tcp_server) conn_env" where
  "http_env P K n = (base_env P)\<lparr>run_data := (\<lambda>cb c w. onData P K n c w)\<rparr>"

section \<open>Basic facts\<close>

lemma get_ctx_Inr [simp]: "get_ctx p w = Inr x \<longleftrightarrow> ctxs (http_of w) p = Some x"
  by (simp add: get_ctx_def split: option.split)

lemma get_ctx_Some: "ctxs (http_of w) p = Some x \<Longrightarrow> get_ctx p w = Inr x"
  by simp

lemma get_ctx_freed: "ctxs (http_of w) p = None \<Longrightarrow> get_ctx p w = Inl (Undefined ''parser context used after free'')"
  by (simp add: get_ctx_def)

lemma http_of_simps [simp]:
  "http_of (upd c f w) = http_of w" "http_of (w\<lparr>kern := k\<rparr>) = http_of w"
  "http_of (set_wheel wh w) = http_of w" "http_of (upd_http g w) = g (http_of w)"
  "http_of (setState s c w) = http_of w"
  by (simp_all add: http_of_def upd_def upd_http_def setState_def)

lemma upd_http_fields [simp]:
  "kern (upd_http f w) = kern w" "conns (upd_http f w) = conns w" "evloop (upd_http f w) = evloop w"
  "connections (app (upd_http f w)) = connections (app w)"
  by (simp_all add: upd_http_def)

lemma ctxs_upd_ctx [simp]:
  "ctxs (http_of (upd_ctx p f w)) = (ctxs (http_of w))(p := map_option f (ctxs (http_of w) p))"
  by (simp add: upd_ctx_def)

lemma upd_ctx_fields [simp]:
  "kern (upd_ctx p f w) = kern w" "conns (upd_ctx p f w) = conns w" "evloop (upd_ctx p f w) = evloop w"
  "connections (app (upd_ctx p f w)) = connections (app w)" "router (http_of (upd_ctx p f w)) = router (http_of w)"
  by (simp_all add: upd_ctx_def)

lemma free_ctx_fields [simp]:
  "kern (free_ctx p w) = kern w" "conns (free_ctx p w) = conns w" "evloop (free_ctx p w) = evloop w"
  "ctxs (http_of (free_ctx p w)) = (ctxs (http_of w))(p := None)"
  by (simp_all add: free_ctx_def)

lemma base_env_simps [simp]:
  "run_close (base_env P) = on_close"
  "run_write (base_env P) = (\<lambda>close cb c w. on_write_complete P close c w)"
  by (simp_all add: base_env_def)

text \<open>Changes of a world that the invariant of a connection does not see.\<close>

lemma conn_ok_cong:
  assumes "conn_ok K interest c w" and "evloop w' = evloop w" and "interest (kern w') = interest (kern w)"
    and "conns w' c = conns w c"
  shows "conn_ok K interest c w'"
  using assms loop_ok_kern [of K interest "evloop w" "kern w" "kern w'"] unfolding conn_ok_def by auto

lemma conn_ok_setState:
  assumes "conn_ok K interest c w"
  shows "conn_ok K interest c (setState st c w)"
proof -
  obtain C where C: "conns w c = Some C"
    using assms unfolding conn_ok_def by blast
  show ?thesis
    using conn_okD [OF assms C] C
    by (intro conn_okI [where C = "state_update (\<lambda>_. st) C"]) (simp_all add: setState_def)
qed

lemma promised_setState:
  "promised wire file c (setState st c w) = promised wire file c w"
  by (cases "conns w c") (simp_all add: promised_def setState_def file_rest_def)

section \<open>Ranges: what is decided\<close>

lemma decide_range_inside:
  "decide_range sz s0 e0 = Some (s, e) \<Longrightarrow> 0 \<le> s \<and> s \<le> e \<and> e < sz"
  by (auto simp: decide_range_def Let_def split: if_splits)

section \<open>Responses on an open connection\<close>

text \<open>
  The situation in which \<^verbatim>\<open>onData\<close> calls \<^verbatim>\<open>processRequest\<close> on a connection that has nothing
  left to send.
\<close>

definition serving ::
    "'k kernel \<Rightarrow> ('k \<Rightarrow> int set) \<Rightarrow> ('k \<Rightarrow> int \<Rightarrow> string) \<Rightarrow> (int \<Rightarrow> string) \<Rightarrow> nat \<Rightarrow> connection \<Rightarrow> nat
     \<Rightarrow> 'q parser_context \<Rightarrow> ('p, 'k, 'h, 'q, 'y) http_world \<Rightarrow> bool" where
  "serving K interest wire file c C p x w \<longleftrightarrow>
     conn_ok K interest c w \<and> net_ok K wire file \<and> conns w c = Some C \<and> state C \<noteq> Closing
     \<and> \<not> sendingFile C \<and> userData C = Some p \<and> ctxs (http_of w) p = Some x"

lemma serving_kern:
  assumes "serving K interest wire file c C p x w" and "interest k = interest (kern w)"
  shows "serving K interest wire file c C p x (w\<lparr>kern := k\<rparr>)"
  using assms conn_ok_cong [of K interest c w "w\<lparr>kern := k\<rparr>"] by (simp add: serving_def)

lemma serving_ctx:
  assumes "serving K interest wire file c C p x w"
  shows "serving K interest wire file c C p (f x) (upd_ctx p f w)"
  using assms conn_ok_cong [of K interest c w "upd_ctx p f w"] by (simp add: serving_def)

lemma serving_send:
  assumes s: "serving K interest wire file c C p x w"
    and soft: "fst (sys_write K (fd C) d (kern w)) \<notin> {Inl EINTR, Inl EFAIL}"
  shows "\<exists>w' b. send env K n d c w = Inr w' \<and> serving K interest wire file c (C\<lparr>outputBuffer := b\<rparr>) p x w'
    \<and> promised wire file c w' = promised wire file c w @ d \<and> app w' = app w
    \<and> conns w' = (conns w)(c \<mapsto> C\<lparr>outputBuffer := b\<rparr>)
    \<and> (\<forall>f. f \<noteq> fd C \<longrightarrow> registered (evloop w') f = registered (evloop w) f)"
proof -
  have st: "conn_ok K interest c w" "net_ok K wire file" "conns w c = Some C" "state C \<noteq> Closing"
    "\<not> sendingFile C" "userData C = Some p" "ctxs (http_of w) p = Some x"
    using s by (simp_all add: serving_def)
  have soft': "e = EAGAIN" if "fst (sys_write K (fd C) d (kern w)) = Inl e" for e
    using soft that by (cases e) auto
  obtain w' b where 1: "send env K n d c w = Inr w'" "conn_ok K interest c w'"
      "promised wire file c w' = wire (kern w) (fd C) @ contents (outputBuffer C) @ d @ file_rest file C"
      "conns w' = (conns w)(c \<mapsto> C\<lparr>outputBuffer := b\<rparr>)" "app w' = app w"
      "\<forall>f. f \<noteq> fd C \<longrightarrow> registered (evloop w') f = registered (evloop w) f"
    using send_stream [OF st(1-4), of d env n] soft' by blast
  moreover have "file_rest file C = []"
    using st(5) by (simp add: file_rest_def)
  moreover have "http_of w' = http_of w"
    using 1(5) by (simp add: http_of_def)
  ultimately show ?thesis
    using st by (intro exI [of _ w'] exI [of _ b]) (simp add: serving_def promised_Some [OF st(3)])
qed

lemma serving_sendFile:
  assumes s: "serving K interest wire file c C p x w" and off: "0 \<le> off" and ffd: "0 \<le> ffd"
    and unreg: "registered (evloop w) ffd = None"
    and seek: "0 < off \<Longrightarrow> fst (sys_lseek K ffd off (kern w))"
  shows "\<exists>w' C'. sendFile_fd K ffd sz off len c w = Inr w' \<and> conn_ok K interest c w'
    \<and> conns w' = (conns w)(c \<mapsto> C') \<and> sendingFile C' \<and> fd C' = fd C \<and> app w' = app w
    \<and> promised wire file c w' = promised wire file c w @ take (span_of sz off len) (drop (nat off) (file ffd))"
proof -
  have st: "conn_ok K interest c w" "net_ok K wire file" "conns w c = Some C" "\<not> sendingFile C"
    using s by (simp_all add: serving_def)
  let ?C' = "C\<lparr>sendingFile := True, fileFd := ffd, fileSize := sz, fileOffset := off,
      bytesToSend := span_of sz off len, fileSentSize := 0\<rparr>"
  have "sendingFile ?C'" "fd ?C' = fd C"
    by simp_all
  with sendFile_stream [OF st off ffd unreg seek, of sz len] show ?thesis
    by blast
qed

lemma head_and_file_promised:
  assumes s: "serving K interest wire file c C p x w"
    and soft: "fst (sys_write K (fd C) (build resp) (kern w)) \<notin> {Inl EINTR, Inl EFAIL}"
    and off: "0 \<le> off" and ffd: "0 \<le> ffd" and unreg: "registered (evloop w) ffd = None"
    and seek: "\<And>k. 0 < off \<Longrightarrow> fst (sys_lseek K ffd off k)"
  shows "\<exists>w' C'. send_head_and_file P K n c resp ffd sz off len w = Inr w' \<and> conn_ok K interest c w'
    \<and> conns w' c = Some C' \<and> state C' = SendingResponse \<and> sendingFile C' \<and> fd C' = fd C \<and> app w' = app w
    \<and> promised wire file c w' = promised wire file c w @ build resp
        @ take (span_of sz off len) (drop (nat off) (file ffd))"
proof -
  obtain w1 b where 1: "send (base_env P) K n (build resp) c w = Inr w1"
      "serving K interest wire file c (C\<lparr>outputBuffer := b\<rparr>) p x w1"
      "promised wire file c w1 = promised wire file c w @ build resp" "app w1 = app w"
      "\<forall>f. f \<noteq> fd C \<longrightarrow> registered (evloop w1) f = registered (evloop w) f"
    using serving_send [OF s soft, of "base_env P" n] by blast
  have "registered (evloop w) (fd C) \<noteq> None"
    using s conn_okD(6) [of K interest c w C] by (simp add: serving_def)
  then have "registered (evloop w1) ffd = None"
    using unreg 1(5) by (cases "ffd = fd C") auto
  from serving_sendFile [OF 1(2) off ffd this seek, of sz len] obtain w2 C2 where
    2: "sendFile_fd K ffd sz off len c w1 = Inr w2" "conn_ok K interest c w2"
      "conns w2 = (conns w1)(c \<mapsto> C2)" "sendingFile C2" "fd C2 = fd C" "app w2 = app w1"
      "promised wire file c w2 = promised wire file c w1 @ take (span_of sz off len) (drop (nat off) (file ffd))"
    by auto
  let ?w' = "setState SendingResponse c w2" and ?C' = "state_update (\<lambda>_. SendingResponse) C2"
  have "app ?w' = app w2" "conns ?w' c = Some ?C'" "state ?C' = SendingResponse" "sendingFile ?C'" "fd ?C' = fd C"
    using 2(3-5) by (simp_all add: setState_def)
  with 1 2 conn_ok_setState [OF 2(2), of SendingResponse] show ?thesis
    by (intro exI [of _ ?w'] exI [of _ ?C']) (simp add: send_head_and_file_def promised_setState)
qed

lemma wire_same_promised:
  "wire k = wire (kern w) \<Longrightarrow> promised wire file c (w\<lparr>kern := k\<rparr>) = promised wire file c w"
  by (simp add: promised_def split: option.split)

lemma promised_upd_ctx [simp]: "promised wire file c (upd_ctx p f w) = promised wire file c w"
  by (simp add: promised_def split: option.split)

lemma interest_open:
  "interest_ok K interest \<Longrightarrow> interest (snd (sys_open K path k)) = interest k"
  by (simp add: interest_okD)

lemma file_response_promised:
  assumes s: "serving K interest wire file c C p x w"
    and soft: "\<And>f d k. fst (sys_write K f d k) \<notin> {Inl EINTR, Inl EFAIL}"
    and seek: "\<And>off k. fst (sys_lseek K ffd off k)"
    and op: "fst (sys_open K (rs_filePath resp) (kern w)) = Some ffd" "0 \<le> ffd"
    and unreg: "registered (evloop w) ffd = None" and sz: "rs_fileSize resp < 2 ^ 64"
    and range: "rq_hasRange req \<Longrightarrow>
      decide_range (int (rs_fileSize resp)) (rq_rangeStart req) (rq_rangeEnd req) = Some (a, b)"
  shows "\<exists>w' C'. file_response P K n p c req resp w = Inr w' \<and> conn_ok K interest c w'
    \<and> conns w' c = Some C' \<and> state C' = SendingResponse \<and> sendingFile C' \<and> fd C' = fd C \<and> app w' = app w
    \<and> promised wire file c w' = promised wire file c w @
       (if rq_hasRange req
        then build (partial_response a b (int (rs_fileSize resp)) resp (rq_keepAlive req))
             @ take (nat (b - a + 1)) (drop (nat a) (file ffd))
        else build resp @ take (rs_fileSize resp) (file ffd))"
proof -
  obtain k where k: "sys_open K (rs_filePath resp) (kern w) = (Some ffd, k)"
    using op(1) by (cases "sys_open K (rs_filePath resp) (kern w)") simp
  have io: "interest_ok K interest" and q: "quiet_ok K wire"
    using s conn_okD(1) [of K interest c w C] by (simp_all add: serving_def net_ok_def)
  have int': "interest k = interest (kern w)" and wire': "wire k = wire (kern w)"
    using interest_okD(4) [OF io, of "rs_filePath resp" "kern w"] quiet_okD(7) [OF q, of "rs_filePath resp" "kern w"] k
    by simp_all
  have s1: "serving K interest wire file c C p x (w\<lparr>kern := k\<rparr>)"
    using serving_kern [OF s int'] .
  have unreg1: "registered (evloop (w\<lparr>kern := k\<rparr>)) ffd = None"
    using unreg by simp
  show ?thesis
  proof (cases "rq_hasRange req")
    case False
    have "span_of (rs_fileSize resp) 0 0 = rs_fileSize resp"
      using sz by (simp add: span_of_def to_unsigned_id)
    with False k head_and_file_promised [OF s1 soft order_refl op(2) unreg1 seek,
        where resp = resp and P = P and n = n and sz = "rs_fileSize resp" and len = 0]
    show ?thesis
      by (simp add: file_response_def wire_same_promised [OF wire'])
  next
    case True
    note d = range [OF True]
    have ab: "0 \<le> a" "a \<le> b"
      using decide_range_inside [OF d] by simp_all
    then have "span_of (rs_fileSize resp) a (nat (b - a + 1)) = nat (b - a + 1)"
      by (simp add: span_of_def)
    with True k d head_and_file_promised [OF s1 soft ab(1) op(2) unreg1 seek,
        where resp = "partial_response a b (int (rs_fileSize resp)) resp (rq_keepAlive req)"
          and P = P and n = n and sz = "rs_fileSize resp" and len = "nat (b - a + 1)"]
    show ?thesis
      by (simp add: file_response_def wire_same_promised [OF wire'])
  qed
qed

text \<open>The handler answers from the request alone, as the handlers of files and pages do.\<close>

definition answers ::
    "('p, 'k, 'h, 'q, 'y) http_param \<Rightarrow> nat \<Rightarrow> 'h router \<Rightarrow> http_request \<Rightarrow> http_request \<Rightarrow> http_response \<Rightarrow> bool" where
  "answers P c r req req1 resp \<longleftrightarrow>
     (case route r req of
        (req', None) \<Rightarrow> req' = req1 \<and> resp = not_found_response
      | (req', Some h) \<Rightarrow> req' = req1 \<and> (\<forall>w. handle P h req1 c response_new w = Inr (resp, w)))"

lemma processRequest_answers:
  assumes s: "serving K interest wire file c C p x w"
    and a: "answers P c (router (http_of w)) (pc_request x) req1 resp"
  shows "processRequest P K n c w =
    (let w1 = upd_ctx p (pc_request_update (\<lambda>_. req1)) w; resp1 = setKeepAlive (rq_keepAlive req1) resp
     in if rs_isFile resp then file_response P K n p c req1 resp1 w1
        else send_response P K n p c resp1 w1)"
  using s a
  by (simp add: serving_def answers_def processRequest_def conn_Some get_ctx_Some Let_def setKeepAlive_def
      split: prod.splits option.splits)

text \<open>
  A handler may also change the state of the service behind it, depending on that state and the
  descriptor of the connection: \<open>y\<close> becomes \<open>y'\<close>.
\<close>

definition handles ::
    "('p, 'k, 'h, 'q, 'y) http_param \<Rightarrow> nat \<Rightarrow> int \<Rightarrow> 'h router \<Rightarrow> http_request \<Rightarrow> 'y
     \<Rightarrow> http_request \<Rightarrow> http_response \<Rightarrow> 'y \<Rightarrow> bool" where
  "handles P c f r req y req1 resp y' \<longleftrightarrow>
     (case route r req of
        (req', None) \<Rightarrow> req' = req1 \<and> resp = not_found_response \<and> y' = y
      | (req', Some h) \<Rightarrow> req' = req1 \<and> (\<forall>w C. conns w c = Some C \<longrightarrow> fd C = f \<longrightarrow> user (http_of w) = y \<longrightarrow>
          handle P h req1 c response_new w = Inr (resp, upd_http (user_update (\<lambda>_. y')) w)))"

lemma same_user: "user (http_of w) = y \<Longrightarrow> upd_http (user_update (\<lambda>_. y)) w = w"
  by (cases w, cases "app w", cases "rest (app w)") (simp add: http_of_def upd_http_def upd_app_def)

lemma answers_handles: "answers P c r req req1 resp \<Longrightarrow> handles P c f r req y req1 resp y"
  by (auto simp: answers_def handles_def same_user split: prod.splits option.splits)

lemma user_upd_ctx [simp]: "user (http_of (upd_ctx p g w)) = user (http_of w)"
  by (simp add: upd_ctx_def)

lemma processRequest_serves:
  assumes s: "serving K interest wire file c C p x w"
    and h: "handles P c (fd C) (router (http_of w)) (pc_request x) (user (http_of w)) req1 resp y'"
  shows "processRequest P K n c w =
    (let w1 = upd_http (user_update (\<lambda>_. y')) (upd_ctx p (pc_request_update (\<lambda>_. req1)) w);
         resp1 = setKeepAlive (rq_keepAlive req1) resp
     in if rs_isFile resp then file_response P K n p c req1 resp1 w1
        else send_response P K n p c resp1 w1)"
proof -
  have C: "conns w c = Some C" "userData C = Some p" "ctxs (http_of w) p = Some x"
    using s by (simp_all add: serving_def)
  obtain req' found where r: "route (router (http_of w)) (pc_request x) = (req', found)"
    by fastforce
  let ?w1 = "upd_ctx p (pc_request_update (\<lambda>_. req1)) w"
  have "(case found of None \<Rightarrow> Inr (not_found_response, ?w1) | Some h \<Rightarrow> handle P h req1 c response_new ?w1)
      = Inr (resp, upd_http (user_update (\<lambda>_. y')) ?w1)" and "req' = req1"
    using h r C(1) same_user [of ?w1] by (auto simp: handles_def split: option.splits)
  with r C show ?thesis
    by (simp add: processRequest_def conn_Some get_ctx_Some Let_def setKeepAlive_def)
qed

text \<open>A handler may change the world as long as the parser context of the request survives it.\<close>

lemma processRequest_handles:
  assumes s: "serving K interest wire file c C p x w"
    and r: "route (router (http_of w)) (pc_request x) = (req1, Some h)"
    and h: "handle P h req1 c response_new (upd_ctx p (pc_request_update (\<lambda>_. req1)) w) = Inr (resp, w2)"
    and x2: "ctxs (http_of w2) p = Some x2"
  shows "processRequest P K n c w =
    (let resp1 = setKeepAlive (rq_keepAlive (pc_request x2)) resp
     in if rs_isFile resp then file_response P K n p c (pc_request x2) resp1 w2
        else send_response P K n p c resp1 w2)"
proof -
  have "conns w c = Some C" "userData C = Some p" "ctxs (http_of w) p = Some x"
    using s by (simp_all add: serving_def)
  with r h x2 show ?thesis
    by (simp add: processRequest_def conn_Some get_ctx_Some Let_def setKeepAlive_def)
qed

lemma promised_upd_http [simp]: "promised wire file c (upd_http g w) = promised wire file c w"
  by (simp add: promised_def split: option.split)

section \<open>Closing from within a request\<close>

text \<open>The deadline of the connection is live and the table of the server is keyed by descriptors.\<close>

definition wheel_live :: "connection \<Rightarrow> ('p, 'k, 'y) tcp_world \<Rightarrow> bool" where
  "wheel_live C w \<longleftrightarrow>
     wheel_wf (timeWheel (evloop w))
     \<and> (\<exists>e. wheelEntry C = Some e \<and> view (timeWheel (evloop w)) e \<noteq> None)
     \<and> (\<forall>(f, d)\<in>set (connections (app w)). 0 \<le> f)"

lemma on_close_frees:
  assumes C: "conns w c = Some C" "fd C = - 1" and live: "wheel_live C w"
  shows "\<exists>w'. on_close (HttpOnClose p (Some TcpOnClose)) c w = Inr w' \<and> ctxs (http_of w') p = None
    \<and> (\<exists>C'. conns w' c = Some C' \<and> fd C' = - 1)
    \<and> registered (evloop w') = registered (evloop w) \<and> kern w' = kern w"
proof -
  let ?w1 = "upd c (userData_update (\<lambda>_. None)) w" and ?C1 = "userData_update (\<lambda>_. None) C"
  obtain e where e: "wheelEntry ?C1 = Some e" "view (timeWheel (evloop ?w1)) e \<noteq> None"
    using live by (auto simp: wheel_live_def)
  have "conns ?w1 c = Some ?C1" "fd ?C1 = - 1"
    using C by simp_all
  from removeConnection_closed [OF this e(1) _ e(2)] live obtain w2 where
    "removeConnection c ?w1 = Inr w2" "conns w2 = (conns ?w1)(c \<mapsto> ?C1\<lparr>wheelEntry := None\<rparr>)"
    "registered (evloop w2) = registered (evloop ?w1)" "kern w2 = kern ?w1"
    by (auto simp: wheel_live_def)
  with C(2) show ?thesis
    by (intro exI [of _ "free_ctx p w2"]) simp
qed

lemma close_frees_context:
  assumes ok: "conn_ok K interest c w" and C: "conns w c = Some C" and idle_file: "\<not> sendingFile C"
    and empty: "readableBytes (outputBuffer C) = 0"
    and cb: "closeCallback C = Some (HttpOnClose p (Some TcpOnClose))" and live: "wheel_live C w"
  shows "\<exists>w' C'. close_conn (base_env P) K (Suc n) c w = Inr w' \<and> ctxs (http_of w') p = None
    \<and> conns w' c = Some C' \<and> fd C' = - 1"
proof -
  let ?C1 = "state_update (\<lambda>_. Closing) C"
  let ?w1 = "(setState Closing c w)\<lparr>kern := sys_shutdown K (fd C) (kern w)\<rparr>"
  have C1: "conns ?w1 c = Some ?C1" "\<not> sendingFile ?C1"
    using C idle_file by (simp_all add: setState_def)
  have "interest (kern ?w1) = interest (kern w)"
    using interest_okD(7) [OF conn_okD(1) [OF ok C]] by simp
  then have ok1: "conn_ok K interest c ?w1"
    by (intro conn_ok_cong [OF conn_ok_setState [OF ok]]) (simp_all add: setState_def)
  obtain w2 where hc: "handleClose (base_env P) K (Suc n) c ?w1 =
      (case closeCallback ?C1 of None \<Rightarrow> Inr w2 | Some cb \<Rightarrow> run_close (base_env P) cb c w2)"
    and w2: "conns w2 = (conns ?w1)(c \<mapsto> released ?C1)" "app w2 = app ?w1"
      "timeWheel (evloop w2) = timeWheel (evloop ?w1)"
    using handleClose_releases [OF ok1 C1(1), of "base_env P" n] C1(2) by blast
  have "conns w2 c = Some (released ?C1)" "fd (released ?C1) = - 1"
    using w2(1) by (simp_all add: released_def)
  moreover have "wheel_live (released ?C1) w2"
    using live w2(2,3) by (simp add: wheel_live_def released_def setState_def)
  ultimately obtain w3 where "on_close (HttpOnClose p (Some TcpOnClose)) c w2 = Inr w3"
      "ctxs (http_of w3) p = None" "\<exists>C'. conns w3 c = Some C' \<and> fd C' = - 1"
    using on_close_frees by blast
  moreover have "close_conn (base_env P) K (Suc n) c w = handleClose (base_env P) K (Suc n) c ?w1"
    using C empty
    by (simp add: close_conn_def close_with_def forceClose_with_def shutdownWrite_def conn_Some setState_def
        del: handleClose.simps)
  ultimately show ?thesis
    using hc cb by auto
qed

lemma send_all_at_once:
  assumes "conns w c = Some C" and "state C \<noteq> Closing" and "readableBytes (outputBuffer C) = 0"
    and "sys_write K (fd C) d (kern w) = (Inr (length d), k)"
  shows "send env K n d c w = Inr (w\<lparr>kern := k\<rparr>)"
proof -
  have "upd c (outputBuffer_update (buffer_append [])) (w\<lparr>kern := k\<rparr>) = w\<lparr>kern := k\<rparr>"
    using assms(1) by (simp add: upd_def outputBuffer_update_apply [of "buffer_append []"] fun_upd_idem)
  with assms show ?thesis
    by (simp add: send_queue_rest queue_rest_def)
qed

lemma send_response_closes:
  assumes s: "serving K interest wire file c C p x w" and ka: "\<not> rq_keepAlive (pc_request x)"
    and empty: "readableBytes (outputBuffer C) = 0"
    and cb: "closeCallback C = Some (HttpOnClose p (Some TcpOnClose))" and live: "wheel_live C w"
    and wr: "fst (sys_write K (fd C) (build resp) (kern w)) = Inr (length (build resp))"
  shows "\<exists>w' C'. send_response P K (Suc n) p c resp w = Inr w' \<and> ctxs (http_of w') p = None
    \<and> conns w' c = Some C' \<and> fd C' = - 1"
proof -
  obtain k where k: "sys_write K (fd C) (build resp) (kern w) = (Inr (length (build resp)), k)"
    using wr by (cases "sys_write K (fd C) (build resp) (kern w)") simp
  have st: "conn_ok K interest c w" "conns w c = Some C" "state C \<noteq> Closing" "\<not> sendingFile C"
    "ctxs (http_of w) p = Some x"
    using s by (simp_all add: serving_def)
  have "interest k = interest (kern w)"
    using interest_okD(1) [OF conn_okD(1) [OF st(1,2)], of "fd C" "build resp" "kern w"] k by simp
  then have ok1: "conn_ok K interest c (w\<lparr>kern := k\<rparr>)"
    by (intro conn_ok_cong [OF st(1)]) simp_all
  have C1: "conns (w\<lparr>kern := k\<rparr>) c = Some C" "wheel_live C (w\<lparr>kern := k\<rparr>)"
    using st(2) live by (simp_all add: wheel_live_def)
  have "send (base_env P) K (Suc n) (build resp) c w = Inr (w\<lparr>kern := k\<rparr>)"
    using send_all_at_once [OF st(2,3) empty k] .
  then have "send_response P K (Suc n) p c resp w = close_conn (base_env P) K (Suc n) c (w\<lparr>kern := k\<rparr>)"
    using st(5) ka by (simp add: send_response_def finish_response_def get_ctx_Some)
  with close_frees_context [OF ok1 C1(1) st(4) empty cb C1(2), of P n] show ?thesis
    by simp
qed

lemma serving_user:
  assumes "serving K interest wire file c C p x w"
  shows "serving K interest wire file c C p x (upd_http (user_update g) w)"
  using assms conn_ok_cong [of K interest c w "upd_http (user_update g) w"] by (simp add: serving_def)

lemma plain_answer:
  assumes s: "serving K interest wire file c C p x w"
    and a: "handles P c (fd C) (router (http_of w)) (pc_request x) (user (http_of w)) req resp y'"
    and nf: "\<not> rs_isFile resp"
    and soft: "\<And>f d k. fst (sys_write K f d k) \<notin> {Inl EINTR, Inl EFAIL}" and ka: "rq_keepAlive req"
  shows "\<exists>w' b. processRequest P K n c w = Inr w'
    \<and> conns w' = (conns w)(c \<mapsto> C\<lparr>outputBuffer := b, inputBuffer := retrieveAll (inputBuffer C), state := ReadingRequest\<rparr>)
    \<and> ctxs (http_of w') p = Some (pc_request_update (\<lambda>_. req) x)
    \<and> promised wire file c w' = promised wire file c w @ build (setKeepAlive True resp)
    \<and> (\<exists>w0 w1. send (base_env P) K n (build (setKeepAlive True resp)) c w0 = Inr w1 \<and> conn_ok K interest c w1
        \<and> app w1 = app w0 \<and> w0 = upd_http (user_update (\<lambda>_. y')) (upd_ctx p (pc_request_update (\<lambda>_. req)) w)
        \<and> w' = resetForNextRequest c w1)"
proof -
  let ?x = "pc_request_update (\<lambda>_. req) x" and ?resp = "setKeepAlive True resp"
  let ?w1 = "upd_http (user_update (\<lambda>_. y')) (upd_ctx p (pc_request_update (\<lambda>_. req)) w)"
  have run: "processRequest P K n c w = send_response P K n p c ?resp ?w1"
    using processRequest_serves [OF s a] nf ka by (simp add: Let_def setKeepAlive_def)
  obtain w1 b where 1: "send (base_env P) K n (build ?resp) c ?w1 = Inr w1"
      "serving K interest wire file c (C\<lparr>outputBuffer := b\<rparr>) p ?x w1"
      "promised wire file c w1 = promised wire file c ?w1 @ build ?resp" "app w1 = app ?w1"
      "conns w1 = (conns ?w1)(c \<mapsto> C\<lparr>outputBuffer := b\<rparr>)"
    using serving_send [OF serving_user [OF serving_ctx [OF s]] soft, of "base_env P" n "build ?resp" "\<lambda>_. y'"
        "pc_request_update (\<lambda>_. req)"] by blast
  have C1: "conns w1 c = Some (C\<lparr>outputBuffer := b\<rparr>)" "ctxs (http_of w1) p = Some ?x" "conn_ok K interest c w1"
    using 1(2) by (simp_all add: serving_def)
  have fin: "finish_response P K n p c w1 = Inr (resetForNextRequest c w1)"
    using C1(2) ka by (simp add: finish_response_def get_ctx_Some)
  have "promised wire file c (resetForNextRequest c w1) = promised wire file c w1"
    using C1(1) by (simp add: promised_def resetForNextRequest_def setState_def file_rest_def)
  moreover have "conns (resetForNextRequest c w1) =
      (conns w)(c \<mapsto> C\<lparr>outputBuffer := b, inputBuffer := retrieveAll (inputBuffer C), state := ReadingRequest\<rparr>)"
    using 1(5) by (cases C) (simp add: resetForNextRequest_def setState_def upd_def)
  moreover have "ctxs (http_of (resetForNextRequest c w1)) p = Some ?x"
    using C1(2) by (simp add: resetForNextRequest_def)
  ultimately show ?thesis
    using run 1 fin C1(3) by (auto simp: send_response_def)
qed

text \<open>The first half of \<^verbatim>\<open>onData\<close>: the deadline starts anew, the context has what the parser reported.\<close>

definition parsed :: "parse_event list \<Rightarrow> 'q \<Rightarrow> 'q parser_context \<Rightarrow> 'q parser_context" where
  "parsed evs q x = (fold on_event evs x)\<lparr>pc_parser := q, pc_ok := True\<rparr>"

lemma parsed_fields [simp]:
  "pc_request (parsed evs q x) = pc_request (fold on_event evs x)"
  "pc_messageComplete (parsed evs q x) = pc_messageComplete (fold on_event evs x)"
  by (simp_all add: parsed_def)

lemma onData_parses:
  assumes s: "serving K interest wire file c C p x w" and live: "wheel_live C w"
    and parse: "parser_execute P (pc_parser x) (contents (inputBuffer C)) = (evs, np, True, q)"
  shows "\<exists>wh. let w3 = upd c (inputBuffer_update (retrieve np)) (upd_ctx p (parsed evs q) (set_wheel wh w))
    in onData P K n c w = (if pc_messageComplete (fold on_event evs x) then
        rbind (processRequest P K n c w3) (\<lambda>w4. rbind (get_ctx p w4) (\<lambda>x4.
        Inr (upd_ctx p (\<lambda>x. x\<lparr>pc_messageComplete := False, pc_request := request_reset (pc_request x),
                              pc_parser := parser_init P, pc_ok := True\<rparr>) w4))) else Inr w3)
      \<and> serving K interest wire file c (inputBuffer_update (retrieve np) C) p (parsed evs q x) w3
      \<and> wheel_live (inputBuffer_update (retrieve np) C) w3"
proof -
  have st: "conn_ok K interest c w" "conns w c = Some C" "userData C = Some p" "ctxs (http_of w) p = Some x"
    using s by (simp_all add: serving_def)
  note okD = conn_okD [OF st(1,2)]
  obtain e where e: "wheelEntry C = Some e" "view (timeWheel (evloop w)) e \<noteq> None" "wheel_wf (timeWheel (evloop w))"
    using live by (auto simp: wheel_live_def)
  obtain r k0 cb own where v: "view (timeWheel (evloop w)) e = Some (r, k0, cb, own)"
    using e(2) by auto
  obtain wh where wh: "refresh (Some e) (timeWheel (evloop w)) = Inr wh" "wheel_wf wh"
      "view wh = (view (timeWheel (evloop w)))(e \<mapsto> (k0, k0, cb, own))"
    using dw.restart_look [OF e(3) v] by blast
  let ?w1 = "set_wheel wh w"
  have refreshed: "refresh_deadline c w = Inr ?w1"
    using st(2) e(1) wh(1) by (simp add: refresh_deadline_def conn_Some on_wheel_def)
  have peek: "peek_bytes (readableBytes (inputBuffer C)) (inputBuffer C) = Inr (contents (inputBuffer C))"
    using okD(3) by (simp add: peek_bytes_def contents_def buffer_wf_def readableBytes_def)
  let ?w3 = "upd c (inputBuffer_update (retrieve np)) (upd_ctx p (parsed evs q) ?w1)"
  let ?C3 = "inputBuffer_update (retrieve np) C"
  have C3: "conns ?w3 c = Some ?C3" and x3: "ctxs (http_of ?w3) p = Some (parsed evs q x)"
    using st(2,4) by simp_all
  have "loop_ok K interest (evloop ?w3, kern ?w3)"
    using okD(2) by simp
  then have "conn_ok K interest c ?w3"
    using okD C3 by (intro conn_okI [OF okD(1) _ C3]) simp_all
  then have "serving K interest wire file c ?C3 p (parsed evs q x) ?w3"
    using s C3 x3 by (simp add: serving_def)
  moreover have "wheel_live ?C3 ?w3"
    using live e(1) wh(2,3) by (simp add: wheel_live_def)
  moreover have "onData P K n c w = (if pc_messageComplete (fold on_event evs x) then
      rbind (processRequest P K n c ?w3) (\<lambda>w4. rbind (get_ctx p w4) (\<lambda>x4.
        Inr (upd_ctx p (\<lambda>x. x\<lparr>pc_messageComplete := False, pc_request := request_reset (pc_request x),
                              pc_parser := parser_init P, pc_ok := True\<rparr>) w4))) else Inr ?w3)"
    using st refreshed peek parse x3
    by (simp add: onData_def conn_Some get_ctx_Some Let_def parsed_def [abs_def])
  ultimately show ?thesis
    by (intro exI [of _ wh]) (simp add: Let_def)
qed

section \<open>Properties\<close>

text \<open>
  C28: what is decided for a range request: an accepted range lies inside the file; a range
  from a start inside the file is cut at the end of the file, an open one runs to its end,
  and a suffix no longer than the file is its last bytes. A start behind the end, a range
  whose end lies before its start and an empty suffix are refused, and so is a suffix longer
  than the file.
\<close>

theorem decide_range_correct:
  "(\<forall>s e. decide_range sz s0 e0 = Some (s, e) \<longrightarrow> 0 \<le> s \<and> s \<le> e \<and> e < sz)
   \<and> (0 \<le> s0 \<and> s0 \<le> e0 \<and> s0 < sz \<longrightarrow> decide_range sz s0 e0 = Some (s0, min e0 (sz - 1)))
   \<and> (0 \<le> s0 \<and> s0 < sz \<longrightarrow> decide_range sz s0 (- 1) = Some (s0, sz - 1))
   \<and> (0 < e0 \<and> e0 \<le> sz \<longrightarrow> decide_range sz (- 1) e0 = Some (sz - e0, sz - 1))
   \<and> (0 \<le> s0 \<and> (sz \<le> s0 \<or> 0 \<le> e0 \<and> e0 < s0) \<longrightarrow> decide_range sz s0 e0 = None)
   \<and> (e0 = 0 \<or> sz < e0 \<longrightarrow> decide_range sz (- 1) e0 = None)"
proof (intro conjI allI impI)
  fix s e
  assume "decide_range sz s0 e0 = Some (s, e)"
  from decide_range_inside [OF this] show "0 \<le> s" "s \<le> e" "e < sz"
    by simp_all
next
  assume "0 \<le> s0 \<and> s0 \<le> e0 \<and> s0 < sz"
  then show "decide_range sz s0 e0 = Some (s0, min e0 (sz - 1))"
    by (simp add: decide_range_def)
next
  assume "0 \<le> s0 \<and> s0 < sz"
  then show "decide_range sz s0 (- 1) = Some (s0, sz - 1)"
    by (simp add: decide_range_def)
next
  assume "0 < e0 \<and> e0 \<le> sz"
  then show "decide_range sz (- 1) e0 = Some (sz - e0, sz - 1)"
    by (simp add: decide_range_def)
next
  assume "0 \<le> s0 \<and> (sz \<le> s0 \<or> 0 \<le> e0 \<and> e0 < s0)"
  then show "decide_range sz s0 e0 = None"
    by (auto simp: decide_range_def Let_def)
next
  assume "e0 = 0 \<or> sz < e0"
  then show "decide_range sz (- 1) e0 = None"
    by (auto simp: decide_range_def Let_def)
qed

theorem decide_range_correct_witness:
  "decide_range 10 7 99 = Some (7, 9) \<and> decide_range 10 7 (- 1) = Some (7, 9)
   \<and> decide_range 10 (- 1) 99 = None"
  using decide_range_correct [of 10 7 99] by simp

text \<open>
  C5: a request for a file is answered with exactly the header and the bytes asked for: the
  connection's promised stream grows by the serialised header (of the handler's response, or
  of the 206 response with the decided range) followed by the whole file or the slice, and
  the connection waits in the state SendingResponse for the write events.
\<close>

theorem file_request_served:
  assumes "serving K interest wire file c C p x w"
    and "answers P c (router (http_of w)) (pc_request x) req resp" and "rs_isFile resp"
    and "\<And>f d k. fst (sys_write K f d k) \<notin> {Inl EINTR, Inl EFAIL}"
    and "\<And>off k. fst (sys_lseek K ffd off k)"
    and "fst (sys_open K (rs_filePath resp) (kern w)) = Some ffd" and "0 \<le> ffd"
    and "registered (evloop w) ffd = None" and "rs_fileSize resp < 2 ^ 64"
    and "rq_hasRange req \<Longrightarrow>
      decide_range (int (rs_fileSize resp)) (rq_rangeStart req) (rq_rangeEnd req) = Some (a, b)"
  shows "\<exists>w' C'. processRequest P K n c w = Inr w' \<and> conn_ok K interest c w'
    \<and> conns w' c = Some C' \<and> state C' = SendingResponse
    \<and> promised wire file c w' = promised wire file c w @
       (if rq_hasRange req
        then build (partial_response a b (int (rs_fileSize resp)) resp (rq_keepAlive req))
             @ take (nat (b - a + 1)) (drop (nat a) (file ffd))
        else build (setKeepAlive (rq_keepAlive req) resp) @ take (rs_fileSize resp) (file ffd))"
proof -
  let ?w1 = "upd_ctx p (pc_request_update (\<lambda>_. req)) w" and ?resp = "setKeepAlive (rq_keepAlive req) resp"
  have run: "processRequest P K n c w = file_response P K n p c req ?resp ?w1"
    using processRequest_answers [OF assms(1,2)] assms(3) by (simp add: Let_def)
  have same: "rs_filePath ?resp = rs_filePath resp" "rs_fileSize ?resp = rs_fileSize resp"
      "partial_response a b sz ?resp ka = partial_response a b sz resp ka" for sz ka
    by (simp_all add: setKeepAlive_def partial_response_def resp_header_def)
  note s1 = serving_ctx [OF assms(1), of "pc_request_update (\<lambda>_. req)"]
  have pre: "fst (sys_open K (rs_filePath ?resp) (kern ?w1)) = Some ffd"
      "registered (evloop ?w1) ffd = None" "rs_fileSize ?resp < 2 ^ 64"
      "rq_hasRange req \<Longrightarrow>
        decide_range (int (rs_fileSize ?resp)) (rq_rangeStart req) (rq_rangeEnd req) = Some (a, b)"
    using assms(6,8-10) by (simp_all add: same)
  show ?thesis
    using file_response_promised [OF s1 assms(4,5) pre(1) assms(7) pre(2-4), of P n]
    unfolding run same promised_upd_ctx by blast
qed

text \<open>
  A request that is not for a file gets exactly one response: the stream grows by the
  serialised response of the handler, or of the 404 page when no route matches; a keep-alive
  connection is then ready for the next request with an empty input buffer.
\<close>

theorem plain_request_answered:
  assumes "serving K interest wire file c C p x w"
    and "answers P c (router (http_of w)) (pc_request x) req resp" and "\<not> rs_isFile resp"
    and "\<And>f d k. fst (sys_write K f d k) \<notin> {Inl EINTR, Inl EFAIL}" and "rq_keepAlive req"
  shows "\<exists>w' C'. processRequest P K n c w = Inr w' \<and> conns w' c = Some C'
    \<and> state C' = ReadingRequest \<and> contents (inputBuffer C') = [] \<and> fd C' = fd C
    \<and> promised wire file c w' = promised wire file c w @ build (setKeepAlive True resp)"
  using plain_answer [OF assms(1) answers_handles [OF assms(2)] assms(3) _ assms(5), of n] assms(4) by fastforce

text \<open>
  C35: every request without keep-alive that is answered at once makes \<^verbatim>\<open>onData\<close> use freed
  memory: \<^verbatim>\<open>processRequest\<close> closes the connection, the close callback that owns the parser
  context is destroyed, and \<^verbatim>\<open>onData\<close> then clears \<^verbatim>\<open>messageComplete\<close> in that context.
\<close>

theorem onData_uses_freed_context:
  assumes "serving K interest wire file c C p x w"
    and "readableBytes (outputBuffer C) = 0"
    and "closeCallback C = Some (HttpOnClose p (Some TcpOnClose))" and "wheel_live C w"
    and "parser_execute P (pc_parser x) (contents (inputBuffer C)) = (evs, np, True, q)"
    and "pc_messageComplete (fold on_event evs x)"
    and "answers P c (router (http_of w)) (pc_request (fold on_event evs x)) req resp"
    and "\<not> rs_isFile resp" and "\<not> rq_keepAlive req"
    and "\<And>k. fst (sys_write K (fd C) (build (setKeepAlive (rq_keepAlive req) resp)) k)
        = Inr (length (build (setKeepAlive (rq_keepAlive req) resp)))"
  shows "onData P K (Suc n) c w = Inl (Undefined ''parser context used after free'')"
proof -
  let ?C3 = "inputBuffer_update (retrieve np) C"
  obtain wh where on: "onData P K (Suc n) c w =
      rbind (processRequest P K (Suc n) c (upd c (inputBuffer_update (retrieve np)) (upd_ctx p (parsed evs q) (set_wheel wh w))))
        (\<lambda>w4. rbind (get_ctx p w4) (\<lambda>x4.
        Inr (upd_ctx p (\<lambda>x. x\<lparr>pc_messageComplete := False, pc_request := request_reset (pc_request x),
                              pc_parser := parser_init P, pc_ok := True\<rparr>) w4)))"
    and s3: "serving K interest wire file c ?C3 p (parsed evs q x)
        (upd c (inputBuffer_update (retrieve np)) (upd_ctx p (parsed evs q) (set_wheel wh w)))"
    and live: "wheel_live ?C3 (upd c (inputBuffer_update (retrieve np)) (upd_ctx p (parsed evs q) (set_wheel wh w)))"
    using onData_parses [OF assms(1,4,5), of "Suc n"] assms(6) by (auto simp: Let_def)
  let ?w3 = "upd c (inputBuffer_update (retrieve np)) (upd_ctx p (parsed evs q) (set_wheel wh w))"
  have a3: "answers P c (router (http_of ?w3)) (pc_request (parsed evs q x)) req resp"
    using assms(7) by simp
  let ?w4 = "upd_ctx p (pc_request_update (\<lambda>_. req)) ?w3" and ?resp = "setKeepAlive (rq_keepAlive req) resp"
  have pr: "processRequest P K (Suc n) c ?w3 = send_response P K (Suc n) p c ?resp ?w4"
    using processRequest_answers [OF s3 a3] assms(8) by (simp add: Let_def setKeepAlive_def)
  have live4: "wheel_live ?C3 ?w4"
    using live by (simp add: wheel_live_def)
  obtain w5 where w5: "send_response P K (Suc n) p c ?resp ?w4 = Inr w5" "ctxs (http_of w5) p = None"
    using send_response_closes [OF serving_ctx [OF s3, of "pc_request_update (\<lambda>_. req)"] _ _ _ live4, where P = P and resp = ?resp and n = n]
      assms(2,3,9,10) by auto
  show ?thesis
    unfolding on pr w5(1) by (simp add: get_ctx_freed [OF w5(2)])
qed

text \<open>
  C29: a client that goes away while it downloads ends the server. When the header has been
  flushed and the connection is closed with the file still pending, the write-complete
  callback calls \<^verbatim>\<open>close()\<close>, which closes the connection from inside \<^verbatim>\<open>handleClose\<close>, and the
  outer \<^verbatim>\<open>handleClose\<close> goes on to remove descriptor -1 from the loop and throws.
\<close>

theorem aborted_download_throws:
  assumes "conn_ok K interest c w" and "conns w c = Some C" and "sendingFile C"
    and "readableBytes (outputBuffer C) = 0" and "state C = SendingResponse" and "\<not> keepAlive C"
    and "writeCompleteCallback C = Some HttpOnWriteComplete"
    and "closeCallback C = Some (HttpOnClose p (Some TcpOnClose))" and "wheel_live C w"
    and "\<And>v. writeCompleteHook P c v = Inr v"
  shows "\<exists>why. handleClose (base_env P) K (Suc (Suc n)) c w = Inl (Thrown why)"
proof -
  let ?env = "base_env P"
  let ?C1 = "state_update (\<lambda>_. Closing) C"
  let ?w1 = "(setState Closing c w)\<lparr>kern := sys_shutdown K (fd C) (kern w)\<rparr>"
  have C1: "conns ?w1 c = Some ?C1"
    using assms(2) by (simp add: setState_def)
  have "interest (kern ?w1) = interest (kern w)"
    using interest_okD(7) [OF conn_okD(1) [OF assms(1,2)]] by simp
  then have ok1: "conn_ok K interest c ?w1"
    by (intro conn_ok_cong [OF conn_ok_setState [OF assms(1)]]) (simp_all add: setState_def)
  have inner_cb: "run_write ?env cl cb c ?w1 = Inr ?w1" for cl cb
    using C1 assms(10) by (simp add: on_write_complete_def conn_Some)
  obtain w2 where hc: "handleClose ?env K (Suc n) c ?w1 =
      (case closeCallback ?C1 of None \<Rightarrow> Inr w2 | Some cb \<Rightarrow> run_close ?env cb c w2)"
    and w2: "conns w2 = (conns ?w1)(c \<mapsto> released ?C1)" "app w2 = app ?w1"
      "timeWheel (evloop w2) = timeWheel (evloop ?w1)" "loop_ok K interest (evloop w2, kern w2)"
    using handleClose_releases [OF ok1 C1, of ?env n] inner_cb by blast
  have "conns w2 c = Some (released ?C1)" "fd (released ?C1) = - 1"
    using w2(1) by (simp_all add: released_def)
  moreover have "wheel_live (released ?C1) w2"
    using assms(9) w2(2,3) by (simp add: wheel_live_def released_def setState_def)
  ultimately obtain w3 C3 where w3: "on_close (HttpOnClose p (Some TcpOnClose)) c w2 = Inr w3"
      "conns w3 c = Some C3" "fd C3 = - 1" "registered (evloop w3) = registered (evloop w2)"
      "kern w3 = kern w2"
    using on_close_frees by blast
  have inner: "handleClose ?env K (Suc n) c ?w1 = Inr w3"
    using hc w3(1) assms(8) by simp
  have outer_cb: "run_write ?env (close_with K (\<lambda>c w. handleClose ?env K (Suc n) c w)) HttpOnWriteComplete c w = Inr w3"
    using assms(2,4-6,10) inner
    by (simp add: on_write_complete_def conn_Some close_with_def forceClose_with_def shutdownWrite_def
        setState_def del: handleClose.simps)
  have "loop_ok K interest (evloop w3, kern w3)" and "registered (evloop w3) (- 1) = None"
    using w2(4) w3(4,5) by (simp_all add: loop_ok_def registered_def)
  then obtain why where "removeFd K (fd C3) (evloop w3, kern w3) = Inl (Thrown why)"
    using removeFd_cases(2) w3(3) by metis
  then have "on_loop (removeFd K (fd C3)) w3 = Inl (Thrown why)"
    by (simp add: on_loop_def)
  then have "handleClose ?env K (Suc (Suc n)) c w = Inl (Thrown why)"
    using assms(2,3,7) conn_okD(5) [OF assms(1,2)] outer_cb w3(2)
    by (subst handleClose.simps) (simp add: conn_Some del: handleClose.simps)
  then show ?thesis
    by blast
qed

text \<open>
  The parser callbacks keep only the last piece. When the library hands over a URL or a
  header value in two pieces, which it does when the request arrives in two reads, the
  second replaces the first; and of two requests that arrive in one read the first is lost:
  after the second has begun, the context does not depend on the first one's request.
\<close>

theorem parser_pieces_overwrite:
  "rq_path (pc_request (on_event (Url b) (on_event (Url a) x))) = rq_path (setUrl b (pc_request x))
   \<and> req_header f (pc_request (fold on_event [HeaderField f, HeaderValue v1, HeaderValue v2] x)) = v2
   \<and> (\<forall>evs y. pc_request (fold on_event (evs @ [MessageBegin]) x)
        = pc_request (fold on_event [MessageBegin] y))"
proof (intro conjI allI)
  show "rq_path (pc_request (on_event (Url b) (on_event (Url a) x))) = rq_path (setUrl b (pc_request x))"
    by (simp add: setUrl_def split: option.split)
  show "req_header f (pc_request (fold on_event [HeaderField f, HeaderValue v1, HeaderValue v2] x)) = v2"
    by (simp add: rq.get_set)
  show "pc_request (fold on_event (evs @ [MessageBegin]) x) = pc_request (fold on_event [MessageBegin] y)" for evs y
    by simp
qed

text \<open>
  The answer to an unsatisfiable range has no body and carries no \<^verbatim>\<open>Content-Length\<close>,
  whether or not the connection is kept alive, so that a keep-alive client cannot tell where
  it ends.
\<close>

theorem unsatisfiable_unframed:
  "resp_header ''Content-Length'' (unsatisfiable_response sz ka) = []
   \<and> rs_body (unsatisfiable_response sz ka) = []
   \<and> resp_header ''Content-Range'' (unsatisfiable_response sz ka) = ''bytes */'' @ int_to_string sz"
proof -
  have "same_name ''Content-Range'' ''Content-Range''"
    by code_simp
  then show ?thesis
    by (simp add: unsatisfiable_response_def setKeepAlive_def setStatusMessage_def setStatusCode_def
        response_new_def addHeader_def resp_header_def)
qed

section \<open>Witnesses\<close>

definition demo_wheel_idle :: "wheel_cb wheel" where
  "demo_wheel_idle =
     (case add 60 (CloseIdle 1) 1 (wheel_new 60 1) of Inr (a, wh) \<Rightarrow> wh | Inl e \<Rightarrow> wheel_new 60 1)"

lemma demo_wheel_idle_ok: "wheel_wf demo_wheel_idle \<and> view demo_wheel_idle 0 = Some (60, 60, CloseIdle 1, 1)"
  using demo_idle_wheel by (auto simp: demo_wheel_idle_def)

definition demo_ctx :: "http_request \<Rightarrow> unit parser_context" where
  "demo_ctx req = \<lparr>pc_parser = (), pc_ok = True, pc_request = req, pc_currentHeaderField = [],
     pc_headersComplete = False, pc_messageComplete = False\<rparr>"

definition demo_http ::
    "connection \<Rightarrow> http_request \<Rightarrow> http_response router \<Rightarrow> (unit, demo_state, http_response, unit, unit) http_world" where
  "demo_http C req R =
     \<lparr>evloop = (evloop (demo_world 1 C demo_open))\<lparr>timeWheel := demo_wheel_idle\<rparr>, kern = demo_open,
      conns = [1 \<mapsto> C],
      app = \<lparr>listenFd = 3, port = 8080, srv_running = True, connections = [(7, 1)], next_conn = 5,
             connectionCallback = None, srv_dataCallback = Some HttpOnData,
             rest = \<lparr>router = R, ctxs = [0 \<mapsto> demo_ctx req], next_ctx = 1, user = ()\<rparr>\<rparr>\<rparr>"

lemma demo_http_fields [simp]:
  "kern (demo_http C req R) = demo_open" "conns (demo_http C req R) = [1 \<mapsto> C]"
  "ctxs (http_of (demo_http C req R)) = [0 \<mapsto> demo_ctx req]" "router (http_of (demo_http C req R)) = R"
  "registered (evloop (demo_http C req R)) = registered (evloop (demo_world 1 C demo_open))"
  by (simp_all add: demo_http_def http_of_def registered_def fun_eq_iff)

definition demo_http_conn :: connection where
  "demo_http_conn = (connection_new 7)\<lparr>closeCallback := Some (HttpOnClose 0 (Some TcpOnClose)),
     writeCompleteCallback := Some HttpOnWriteComplete, userData := Some 0, wheelEntry := Some 0\<rparr>"

definition demo_http_sending :: connection where
  "demo_http_sending = demo_http_conn\<lparr>state := SendingResponse, sendingFile := True, fileFd := 9,
     fileSize := 10, fileOffset := 0, bytesToSend := 10, fileSentSize := 4\<rparr>"

lemma demo_http_conn_ok:
  assumes "C = demo_http_conn \<or> C = demo_http_sending"
  shows "conn_ok (demo_kernel room file open_file) ds_interest 1 (demo_http C req R)"
    and "wheel_live C (demo_http C req R)"
proof -
  have ok: "conn_ok (demo_kernel room file open_file) ds_interest 1 (demo_world 1 C demo_open)"
    using assms
    by (intro demo_world_ok)
       (auto simp: demo_http_conn_def demo_http_sending_def connection_new_def buffer_default_def demo_open_def)
  have C: "conns (demo_world 1 C demo_open) 1 = Some C"
    by simp
  have "loop_ok (demo_kernel room file open_file) ds_interest (evloop (demo_http C req R), demo_open)"
    using conn_okD(2) [OF ok C] by (simp add: loop_ok_def)
  with conn_okD [OF ok C] show "conn_ok (demo_kernel room file open_file) ds_interest 1 (demo_http C req R)"
    by (intro conn_okI [where C = C]) simp_all
  show "wheel_live C (demo_http C req R)"
    using assms demo_wheel_idle_ok
    by (auto simp: wheel_live_def demo_http_def demo_http_conn_def demo_http_sending_def)
qed

definition demo_param :: "parse_event list \<Rightarrow> (unit, demo_state, http_response, unit, unit) http_param" where
  "demo_param evs = \<lparr>parser_init = (), parser_execute = (\<lambda>q d. (evs, length d, True, ())),
     handle = (\<lambda>h req c r w. Inr (h, w)), connectionHook = (\<lambda>c w. Inr w),
     writeCompleteHook = (\<lambda>c w. Inr w)\<rparr>"

lemma demo_http_conn_state:
  "state demo_http_conn \<noteq> Closing" "\<not> sendingFile demo_http_conn" "userData demo_http_conn = Some 0"
  "readableBytes (outputBuffer demo_http_conn) = 0" "fd demo_http_conn = 7"
  "closeCallback demo_http_conn = Some (HttpOnClose 0 (Some TcpOnClose))"
  "contents (outputBuffer demo_http_conn) = []"
  by (simp_all add: demo_http_conn_def connection_new_def buffer_default_def buffer_new_def readableBytes_def
      contents_def)

lemma demo_serving:
  "serving (demo_kernel room file open_file) ds_interest ds_wire file 1 demo_http_conn 0 (demo_ctx req)
     (demo_http demo_http_conn req R)"
  using demo_http_conn_ok(1) [of demo_http_conn] demo_http_conn_state by (simp add: serving_def)

lemma demo_soft: "fst (sys_write (demo_kernel room file open_file) f d k) \<notin> {Inl EINTR, Inl EFAIL}"
  by (simp add: demo_kernel_def demo_send_def Let_def)

lemma demo_promised_start:
  "promised ds_wire file 1 (demo_http demo_http_conn req R) = []"
  using demo_http_conn_state
  by (simp add: promised_def file_rest_def demo_open_def demo_state_new_def)

definition demo_file_response :: http_response where
  "demo_file_response = response_new\<lparr>rs_isFile := True, rs_filePath := ''f'', rs_fileSize := 10\<rparr>"

theorem file_request_served_witness:
  "\<exists>w'. processRequest (demo_param []) demoK 3 1
      (demo_http demo_http_conn request_new (setDefaultHandler demo_file_response router_new)) = Inr w'
    \<and> promised ds_wire demo_file 1 w' = build (setKeepAlive False demo_file_response) @ ''0123456789''"
proof -
  let ?R = "setDefaultHandler demo_file_response router_new"
  let ?w = "demo_http demo_http_conn request_new ?R"
  have a: "answers (demo_param []) 1 (router (http_of ?w)) (pc_request (demo_ctx request_new)) request_new demo_file_response"
    by (simp add: answers_def route_def router_new_def setDefaultHandler_def demo_param_def demo_ctx_def)
  have f: "rs_isFile demo_file_response" "rs_fileSize demo_file_response = 10" "\<not> rq_hasRange request_new"
      "\<not> rq_keepAlive request_new"
    by (simp_all add: demo_file_response_def request_new_def)
  have seek: "fst (sys_lseek demoK 9 off k)" for off k
    by (simp add: demo_kernel_def)
  have op: "fst (sys_open demoK (rs_filePath demo_file_response) (kern ?w)) = Some 9"
    by (simp add: demo_kernel_def)
  have reg: "registered (evloop ?w) 9 = None"
    by (simp add: registered_def demo_world_def demo_http_conn_state)
  have size: "rs_fileSize demo_file_response < 2 ^ 64"
    by (simp add: f)
  from file_request_served [OF demo_serving a f(1) demo_soft seek op _ reg size, where a = 0 and b = 0 and n = 3] f(3)
  obtain w' C' where "processRequest (demo_param []) demoK 3 1 ?w = Inr w'"
      "promised ds_wire demo_file 1 w' = promised ds_wire demo_file 1 ?w @
        build (setKeepAlive False demo_file_response) @ take 10 (demo_file 9)"
    by (auto simp: f)
  then show ?thesis
    by (intro exI [of _ w']) (simp add: demo_promised_start demo_file_def del: One_nat_def)
qed

theorem plain_request_answered_witness:
  "\<exists>w'. processRequest (demo_param []) demoK 3 1
      (demo_http demo_http_conn (request_new\<lparr>rq_keepAlive := True\<rparr>) router_new) = Inr w'
    \<and> promised ds_wire demo_file 1 w' = build (setKeepAlive True not_found_response)"
proof -
  let ?req = "request_new\<lparr>rq_keepAlive := True\<rparr>"
  let ?w = "demo_http demo_http_conn ?req router_new"
  have a: "answers (demo_param []) 1 (router (http_of ?w)) (pc_request (demo_ctx ?req)) ?req not_found_response"
    by (simp add: answers_def route_def router_new_def demo_ctx_def)
  have nf: "\<not> rs_isFile not_found_response" "rq_keepAlive ?req"
    by (simp_all add: not_found_response_def setStatusMessage_def setStatusCode_def response_new_def)
  from plain_request_answered [OF demo_serving [of 4 demo_file "\<lambda>p. Some 9"]
      a nf(1) demo_soft nf(2), where n = 3]
  obtain w' where "processRequest (demo_param []) demoK 3 1 ?w = Inr w'"
      "promised ds_wire demo_file 1 w' = promised ds_wire demo_file 1 ?w @ build (setKeepAlive True not_found_response)"
    by blast
  then show ?thesis
    by (intro exI [of _ w']) (simp add: demo_promised_start del: One_nat_def)
qed

theorem onData_uses_freed_context_witness:
  "onData (demo_param [MessageComplete])
      (demo_kernel (length (build (setKeepAlive False not_found_response))) demo_file (\<lambda>p. None)) 2 1
      (demo_http demo_http_conn request_new router_new)
    = Inl (Undefined ''parser context used after free'')"
proof -
  let ?K = "demo_kernel (length (build (setKeepAlive False not_found_response))) demo_file (\<lambda>p. None)"
  let ?P = "demo_param [MessageComplete]" and ?x = "demo_ctx request_new"
  let ?w = "demo_http demo_http_conn request_new router_new"
  have 1: "parser_execute ?P (pc_parser ?x) (contents (inputBuffer demo_http_conn))
      = ([MessageComplete], length (contents (inputBuffer demo_http_conn)), True, ())"
    by (simp add: demo_param_def)
  have 2: "pc_messageComplete (fold on_event [MessageComplete] ?x)"
    by simp
  have 3: "answers ?P 1 (router (http_of ?w)) (pc_request (fold on_event [MessageComplete] ?x)) request_new not_found_response"
    by (simp add: answers_def route_def router_new_def demo_ctx_def)
  have 4: "\<not> rs_isFile not_found_response" "\<not> rq_keepAlive request_new"
    by (simp_all add: not_found_response_def setStatusMessage_def setStatusCode_def response_new_def request_new_def)
  have 5: "fst (sys_write ?K (fd demo_http_conn) (build (setKeepAlive (rq_keepAlive request_new) not_found_response)) k)
      = Inr (length (build (setKeepAlive (rq_keepAlive request_new) not_found_response)))" for k
    using 4(2) by (simp add: demo_kernel_def demo_send_def Let_def)
  have 6: "wheel_live demo_http_conn ?w"
    using demo_http_conn_ok(2) by blast
  from onData_uses_freed_context [OF demo_serving demo_http_conn_state(4,6) 6 1 2 3 4 5, of 1]
  show ?thesis
    by (simp add: numeral_2_eq_2)
qed

theorem aborted_download_throws_witness:
  "\<exists>why. handleClose (base_env (demo_param [])) demoK 2 1
      (demo_http demo_http_sending request_new router_new) = Inl (Thrown why)"
proof -
  let ?w = "demo_http demo_http_sending request_new router_new"
  have ok: "conn_ok demoK ds_interest 1 ?w" "wheel_live demo_http_sending ?w"
    using demo_http_conn_ok by blast+
  have st: "conns ?w 1 = Some demo_http_sending" "sendingFile demo_http_sending"
      "readableBytes (outputBuffer demo_http_sending) = 0" "state demo_http_sending = SendingResponse"
      "\<not> keepAlive demo_http_sending" "writeCompleteCallback demo_http_sending = Some HttpOnWriteComplete"
      "closeCallback demo_http_sending = Some (HttpOnClose 0 (Some TcpOnClose))"
    by (simp_all add: demo_http_sending_def demo_http_conn_def connection_new_def buffer_default_def
        buffer_new_def readableBytes_def)
  have hook: "writeCompleteHook (demo_param []) 1 v = Inr v" for v
    by (simp add: demo_param_def)
  from aborted_download_throws [OF ok(1) st(1-7) ok(2) hook, of 0] show ?thesis
    by (simp add: numeral_2_eq_2)
qed

end
