(* ===== verification/UdpProtocols.thy ===== *)
theory UdpProtocols
  imports EzPrelude "HOL-Library.Word"
begin

text \<open>
  \<^verbatim>\<open>udp/CustomProtocol.cpp\<close> and \<^verbatim>\<open>udp/UdpEcho.cpp\<close>: what the two datagram protocols answer.
  The header of \<^verbatim>\<open>CustomProtocol\<close> is read with \<^verbatim>\<open>reinterpret_cast\<close>: three 32-bit words of the
  machine, little-endian on the platforms the project builds for, at the offsets 0, 4 and 8.
  \<^verbatim>\<open>sizeof(MessageHeader) + header->length\<close> is computed in \<^verbatim>\<open>size_t\<close>, 64 bits wide, so the sum
  does not wrap. The \<^verbatim>\<open>SendCallback\<close> is an argument \<open>sender\<close> on a state of any type.
\<close>

section \<open>Words in memory\<close>

definition read_u32 :: "string \<Rightarrow> 32 word" where
  "read_u32 bs = word_of_nat (foldr (\<lambda>c acc. code c + 256 * acc) (take 4 bs) 0)"

definition write_u32 :: "32 word \<Rightarrow> string" where
  "write_u32 w =
     [char_of (unat w), char_of (unat w div 256), char_of (unat w div 65536), char_of (unat w div 16777216)]"

lemma code_char_of_mod [simp]: "code (char_of n) = n mod 256"
  by (simp add: code_def)

lemma length_write_u32 [simp]: "length (write_u32 w) = 4"
  by (simp add: write_u32_def)

lemma base_256:
  "(n::nat) mod 256 + 256 * (n div 256 mod 256 + 256 * (n div 65536 mod 256 + 256 * (n div 16777216)))
   = n"
proof -
  have "n div 65536 = n div 256 div 256" "n div 16777216 = n div 256 div 256 div 256"
    by (simp_all add: div_mult2_eq [symmetric])
  then show ?thesis
    by (simp add: mod_mult_div_eq)
qed

lemma read_write_u32: "read_u32 (write_u32 w @ rest) = w"
proof -
  have "unat w < 2 ^ 32"
    using unsigned_less [of w] by simp
  then have "unat w div 16777216 mod 256 = unat w div 16777216"
    by (intro mod_less) (simp add: less_mult_imp_div_less)
  then have "read_u32 (write_u32 w @ rest) = word_of_nat (unat w)"
    using base_256 [of "unat w"] by (simp add: read_u32_def write_u32_def)
  then show ?thesis
    by simp
qed

lemma digit_less: "(x::nat) < 256 \<Longrightarrow> y < m \<Longrightarrow> x + 256 * y < 256 * m"
  by (simp add: less_eq_Suc_le)

lemma digit_div_mod: "(x::nat) < 256 \<Longrightarrow> (x + 256 * y) mod 256 = x" "(x::nat) < 256 \<Longrightarrow> (x + 256 * y) div 256 = y"
  by simp_all

lemma div_256_twice: "(n::nat) div 65536 = n div 256 div 256" "n div 16777216 = n div 256 div 256 div 256"
  by (simp_all add: div_mult2_eq [symmetric])

lemma unat_word_of_nat_32: "n < 2 ^ 32 \<Longrightarrow> unat (word_of_nat n :: 32 word) = n"
  by (simp add: unat_of_nat)

lemma write_read_u32:
  assumes "length bs = 4"
  shows "write_u32 (read_u32 bs) = bs"
proof -
  obtain a b c d where bs: "bs = [a, b, c, d]"
    using assms by (auto simp: numeral_eq_Suc length_Suc_conv)
  let ?n = "code a + 256 * (code b + 256 * (code c + 256 * code d))"
  have "?n < 4294967296"
    using digit_less [OF _ digit_less [OF _ digit_less [OF _ code_less_256 [of d]]],
        of "code a" "code b" "code c"]
    by simp
  then have n: "unat (word_of_nat ?n :: 32 word) = ?n"
    by (intro unat_word_of_nat_32) simp
  have *: "?n mod 256 = code a" "?n div 256 mod 256 = code b" "?n div 65536 mod 256 = code c"
      "?n div 16777216 mod 256 = code d"
    by (simp_all only: div_256_twice digit_div_mod [OF code_less_256] mod_less [OF code_less_256])
  have eq: "char_of k = x" if "k mod 256 = code x" for k x
    using that by (metis char_of_code code_char_of_mod)
  have "write_u32 (word_of_nat ?n) = [a, b, c, d]"
    unfolding write_u32_def n by (simp only: eq [OF *(1)] eq [OF *(2)] eq [OF *(3)] eq [OF *(4)])
  then show ?thesis
    by (simp add: bs read_u32_def)
qed

section \<open>The protocols\<close>

record message_header =
  mh_magic :: "32 word"
  mh_length :: "32 word"
  mh_type :: "32 word"

definition header_size :: nat where "header_size = 12"

definition kMagicNumber :: "32 word" where "kMagicNumber = 0xFFDD0011"

definition read_header :: "string \<Rightarrow> message_header" where
  "read_header data =
     \<lparr>mh_magic = read_u32 data, mh_length = read_u32 (drop 4 data), mh_type = read_u32 (drop 8 data)\<rparr>"

text \<open>The UTF-8 bytes of the Chinese words for ``received'' and a full-width colon.\<close>

definition received :: string where
  "received = [CHR 0xE5, CHR 0xB7, CHR 0xB2, CHR 0xE6, CHR 0x94, CHR 0xB6, CHR 0xE5, CHR 0x88, CHR 0xB0,
               CHR 0xEF, CHR 0xBC, CHR 0x9A]"

definition custom_onMessage ::
    "(string \<Rightarrow> 'a \<Rightarrow> 'w \<Rightarrow> 'w) \<Rightarrow> string \<Rightarrow> 'a \<Rightarrow> 'w \<Rightarrow> 'w" where
  "custom_onMessage sender data addr w =
     (if length data < header_size then w
      else let header = read_header data in
        if mh_magic header \<noteq> kMagicNumber then w
        else if length data < header_size + unat (mh_length header) then w
        else
          let payload = drop header_size data; payloadLen = unat (mh_length header)
          in sender (received @ take payloadLen payload) addr w)"

definition echo_onMessage ::
    "(string \<Rightarrow> 'a \<Rightarrow> 'w \<Rightarrow> 'w) \<Rightarrow> string \<Rightarrow> 'a \<Rightarrow> 'w \<Rightarrow> 'w" where
  "echo_onMessage sender data addr w = sender data addr w"

section \<open>Messages on the wire\<close>

definition encode_message :: "32 word \<Rightarrow> string \<Rightarrow> string" where
  "encode_message ty payload =
     write_u32 kMagicNumber @ write_u32 (word_of_nat (length payload)) @ write_u32 ty @ payload"

definition is_message :: "string \<Rightarrow> string \<Rightarrow> bool" where
  "is_message data payload \<longleftrightarrow>
     length payload < 2 ^ 32 \<and> (\<exists>ty trailing. data = encode_message ty payload @ trailing)"

definition sent_log :: "string \<Rightarrow> 'a \<Rightarrow> (string \<times> 'a) list \<Rightarrow> (string \<times> 'a) list" where
  "sent_log data addr out = out @ [(data, addr)]"

lemma read_header_encode:
  assumes "length payload < 2 ^ 32"
  shows "read_header (encode_message ty payload @ trailing) =
    \<lparr>mh_magic = kMagicNumber, mh_length = word_of_nat (length payload), mh_type = ty\<rparr>"
    and "unat (mh_length (read_header (encode_message ty payload @ trailing))) = length payload"
proof -
  show *: "read_header (encode_message ty payload @ trailing) =
    \<lparr>mh_magic = kMagicNumber, mh_length = word_of_nat (length payload), mh_type = ty\<rparr>"
    by (simp add: read_header_def encode_message_def read_write_u32 drop_append)
  show "unat (mh_length (read_header (encode_message ty payload @ trailing))) = length payload"
    using assms by (simp add: * unat_of_nat)
qed

lemma custom_onMessage_message:
  assumes "is_message data payload"
  shows "custom_onMessage sender data addr w = sender (received @ payload) addr w"
proof -
  obtain ty trailing where l: "length payload < 2 ^ 32" and d: "data = encode_message ty payload @ trailing"
    using assms by (auto simp: is_message_def)
  note h = read_header_encode [OF l, of ty trailing]
  have len: "length data = header_size + length payload + length trailing"
      "drop header_size data = payload @ trailing"
    by (simp_all add: d encode_message_def header_size_def)
  have magic: "mh_magic (read_header data) = kMagicNumber"
    by (simp add: d h)
  have lh: "unat (mh_length (read_header data)) = length payload"
    by (simp only: d h(2))
  show ?thesis
    by (simp add: custom_onMessage_def magic lh len)
qed

lemma message_of_guards:
  assumes "header_size \<le> length data" and "mh_magic (read_header data) = kMagicNumber"
    and "header_size + unat (mh_length (read_header data)) \<le> length data"
  shows "is_message data (take (unat (mh_length (read_header data))) (drop header_size data))"
proof -
  let ?l = "unat (mh_length (read_header data))"
  let ?payload = "take ?l (drop header_size data)"
  have l: "length ?payload = ?l"
    using assms(3) by simp
  have 1: "write_u32 kMagicNumber = take 4 data"
    using write_read_u32 [of "take 4 data"] assms(1,2)
    by (simp add: read_header_def header_size_def read_u32_def)
  have 2: "write_u32 (word_of_nat (length ?payload)) = take 4 (drop 4 data)"
    using write_read_u32 [of "take 4 (drop 4 data)"] assms(1) unfolding l
    by (simp add: read_header_def header_size_def read_u32_def)
  have 3: "write_u32 (mh_type (read_header data)) = take 4 (drop 8 data)"
    using write_read_u32 [of "take 4 (drop 8 data)"] assms(1)
    by (simp add: read_header_def header_size_def read_u32_def)
  have split: "data = take 4 data @ take 4 (drop 4 data) @ take 4 (drop 8 data) @ drop 12 data"
  proof -
    have "data = take 4 data @ drop 4 data" "drop 4 data = take 4 (drop 4 data) @ drop 8 data"
        "drop 8 data = take 4 (drop 8 data) @ drop 12 data"
      using append_take_drop_id [of 4 data] append_take_drop_id [of 4 "drop 4 data"]
        append_take_drop_id [of 4 "drop 8 data"] by simp_all
    then show ?thesis
      by metis
  qed
  have "data = encode_message (mh_type (read_header data)) ?payload @ drop ?l (drop header_size data)"
    unfolding encode_message_def 1 2 3 by (subst split) (simp add: header_size_def del: drop_drop)
  then show ?thesis
    using l unsigned_less [of "mh_length (read_header data)"] unfolding is_message_def by auto
qed

lemma custom_onMessage_other:
  assumes "\<nexists>payload. is_message data payload"
  shows "custom_onMessage sender data addr w = w"
  using assms message_of_guards [of data]
  by (auto simp: custom_onMessage_def Let_def not_less)

lemma is_message_unique:
  assumes "is_message data p" and "is_message data q"
  shows "p = q"
proof -
  have "received @ p = custom_onMessage (\<lambda>d a w. d) data () []"
    using custom_onMessage_message [OF assms(1), of "\<lambda>d a w. d" "()" "[]"] by simp
  also have "\<dots> = received @ q"
    using custom_onMessage_message [OF assms(2), of "\<lambda>d a w. d" "()" "[]"] by simp
  finally show ?thesis
    by simp
qed

text \<open>
  The protocol answers exactly the well-formed messages. A datagram is answered with
  the given bytes if and only if these are the fixed prefix and a payload such that the
  datagram starts with the encoding of this payload (magic number, its length, any type),
  whatever follows it; and nothing is sent, and no byte outside the datagram read, for
  every other datagram.
\<close>

theorem custom_answers_messages:
  "(custom_onMessage sent_log data addr out = out @ [(r, addr)]
     \<longleftrightarrow> (\<exists>payload. is_message data payload \<and> r = received @ payload))
   \<and> (custom_onMessage sent_log data addr out = out \<longleftrightarrow> (\<nexists>payload. is_message data payload))"
proof -
  have a: "custom_onMessage sent_log data addr out = out @ [(received @ payload, addr)]"
    if "is_message data payload" for payload
    using custom_onMessage_message [OF that, of sent_log addr out] by (simp add: sent_log_def)
  have b: "custom_onMessage sent_log data addr out = out" if "\<nexists>payload. is_message data payload"
    using custom_onMessage_other [OF that] .
  show ?thesis
    using a b by (cases "\<exists>payload. is_message data payload") (auto dest: is_message_unique)
qed

end
