(* ===== verification/UdpServer.thy ===== *)
theory UdpServer
  imports EventLoop UdpProtocols
begin

text \<open>
  \<^verbatim>\<open>core/UdpServer.h\<close> and \<^verbatim>\<open>core/UdpServer.cpp\<close>, with the message callbacks that the programs
  of the repository install: \<^verbatim>\<open>UdpEcho::onMessage\<close> and \<^verbatim>\<open>CustomProtocol::onMessage\<close>, whose
  senders are \<^verbatim>\<open>sendTo\<close> of the same server (\<^verbatim>\<open>main.cpp\<close>). \<^verbatim>\<open>recvfrom\<close> and \<^verbatim>\<open>sendto\<close> are a
  parameter \<open>udp_sys\<close> on a kernel state; the results of \<^verbatim>\<open>socket\<close> and \<^verbatim>\<open>bind\<close> are inputs. The
  fuel of \<^verbatim>\<open>handleRead\<close> bounds the number of \<^verbatim>\<open>recvfrom\<close> calls.
\<close>

section \<open>State and operations\<close>

datatype message_cb = EchoMessages | CustomMessages

record udp_server =
  us_port :: nat
  sockFd :: int
  us_running :: bool
  messageCallback :: "message_cb option"

record ('a, 'k) udp_sys =
  sys_recvfrom :: "int \<Rightarrow> nat \<Rightarrow> 'k \<Rightarrow> (errno + string \<times> 'a) \<times> 'k"
  sys_sendto :: "int \<Rightarrow> string \<Rightarrow> 'a \<Rightarrow> 'k \<Rightarrow> 'k"

definition udp_server_new :: "int option \<Rightarrow> nat \<Rightarrow> udp_server res" where
  "udp_server_new socket_fd p =
     (case socket_fd of
        None \<Rightarrow> Inl (Thrown ''UdpServer constructor socket failed'')
      | Some f \<Rightarrow> Inr \<lparr>us_port = p, sockFd = f, us_running = False, messageCallback = None\<rparr>)"

definition udp_start ::
    "'k kernel \<Rightarrow> bool \<Rightarrow> nat \<Rightarrow> udp_server \<times> 'p event_loop \<times> 'k \<Rightarrow> (udp_server \<times> 'p event_loop \<times> 'k) res" where
  "udp_start K bound self w =
     (let (S, L, k) = w in
      if \<not> bound then Inl (Thrown ''bind failed'')
      else rbind (addFd K (sockFd S) EPOLLIN (UdpCb self) (L, k)) (\<lambda>(L1, k1).
           Inr (S\<lparr>us_running := True\<rparr>, L1, k1)))"

definition udp_stop ::
    "'k kernel \<Rightarrow> udp_server \<times> 'p event_loop \<times> 'k \<Rightarrow> (udp_server \<times> 'p event_loop \<times> 'k) res" where
  "udp_stop K w =
     (let (S, L, k) = w in
      rbind (removeFd K (sockFd S) (L, k)) (\<lambda>(L1, k1).
      Inr (S\<lparr>sockFd := - 1\<rparr>, L1, sys_close K (sockFd S) k1)))"

definition udp_destroy :: "'k kernel \<Rightarrow> udp_server \<times> 'k \<Rightarrow> udp_server \<times> 'k" where
  "udp_destroy K w =
     (let (S, k) = w in if sockFd S \<ge> 0 then (S\<lparr>sockFd := - 1\<rparr>, sys_close K (sockFd S) k) else (S, k))"

definition setMessageCallback :: "message_cb \<Rightarrow> udp_server \<Rightarrow> udp_server" where
  "setMessageCallback cb S = S\<lparr>messageCallback := Some cb\<rparr>"

definition sendTo :: "('a, 'k) udp_sys \<Rightarrow> udp_server \<Rightarrow> string \<Rightarrow> 'a \<Rightarrow> 'k \<Rightarrow> 'k" where
  "sendTo U S data addr k = sys_sendto U (sockFd S) data addr k"

definition run_message ::
    "('a, 'k) udp_sys \<Rightarrow> udp_server \<Rightarrow> message_cb \<Rightarrow> string \<Rightarrow> 'a \<Rightarrow> 'k \<Rightarrow> 'k" where
  "run_message U S cb data addr k =
     (case cb of
        EchoMessages \<Rightarrow> echo_onMessage (sendTo U S) data addr k
      | CustomMessages \<Rightarrow> custom_onMessage (sendTo U S) data addr k)"

definition datagram_buffer :: nat where "datagram_buffer = 65536"

fun udp_handleRead :: "('a, 'k) udp_sys \<Rightarrow> udp_server \<Rightarrow> nat \<Rightarrow> 'k \<Rightarrow> 'k res" where
  "udp_handleRead U S 0 k = Inl OutOfFuel"
| "udp_handleRead U S (Suc n) k =
     (case sys_recvfrom U (sockFd S) datagram_buffer k of
        (Inl e, k1) \<Rightarrow> Inr k1
      | (Inr (data, addr), k1) \<Rightarrow>
          udp_handleRead U S n
            (case messageCallback S of None \<Rightarrow> k1 | Some cb \<Rightarrow> run_message U S cb data addr k1))"

section \<open>What a datagram socket does\<close>

text \<open>
  The documented behaviour: the socket has a queue of received datagrams; \<^verbatim>\<open>recvfrom\<close> takes
  the first, cut to the buffer, or fails with \<^verbatim>\<open>EAGAIN\<close> when there is none (the socket is
  non-blocking); \<^verbatim>\<open>sendto\<close> hands a datagram to the network and receives nothing.
\<close>

definition udp_ok ::
    "('a, 'k) udp_sys \<Rightarrow> ('k \<Rightarrow> int \<Rightarrow> (string \<times> 'a) list) \<Rightarrow> ('k \<Rightarrow> int \<Rightarrow> (string \<times> 'a) list) \<Rightarrow> bool" where
  "udp_ok U inbox outbox \<longleftrightarrow>
     (\<forall>fd cap k. case inbox k fd of
          [] \<Rightarrow> sys_recvfrom U fd cap k = (Inl EAGAIN, k)
        | (d, a) # ds \<Rightarrow> \<exists>k'. sys_recvfrom U fd cap k = (Inr (take cap d, a), k')
             \<and> inbox k' = (inbox k)(fd := ds) \<and> outbox k' = outbox k)
     \<and> (\<forall>fd d a k. inbox (sys_sendto U fd d a k) = inbox k
          \<and> outbox (sys_sendto U fd d a k) = (outbox k)(fd := outbox k fd @ [(d, a)]))"

lemma udp_recv_empty:
  "udp_ok U inbox outbox \<Longrightarrow> inbox k fd = [] \<Longrightarrow> sys_recvfrom U fd cap k = (Inl EAGAIN, k)"
  unfolding udp_ok_def by (metis (mono_tags, lifting) list.case(1))

lemma udp_recv_Cons:
  assumes "udp_ok U inbox outbox" and "inbox k fd = (d, a) # ds"
  obtains k' where "sys_recvfrom U fd cap k = (Inr (take cap d, a), k')"
    and "inbox k' = (inbox k)(fd := ds)" and "outbox k' = outbox k"
proof -
  have "case inbox k fd of
          [] \<Rightarrow> sys_recvfrom U fd cap k = (Inl EAGAIN, k)
        | (d, a) # ds \<Rightarrow> \<exists>k'. sys_recvfrom U fd cap k = (Inr (take cap d, a), k')
             \<and> inbox k' = (inbox k)(fd := ds) \<and> outbox k' = outbox k"
    using assms(1) unfolding udp_ok_def by blast
  with assms(2) that show ?thesis
    by auto
qed

lemma udp_sent:
  assumes "udp_ok U inbox outbox"
  shows "inbox (sys_sendto U fd d a k) = inbox k"
    and "outbox (sys_sendto U fd d a k) = (outbox k)(fd := outbox k fd @ [(d, a)])"
  using assms by (simp_all add: udp_ok_def)

text \<open>The datagrams that answer one received datagram.\<close>

definition replies :: "message_cb option \<Rightarrow> string \<times> 'a \<Rightarrow> (string \<times> 'a) list" where
  "replies cb m =
     (let data = take datagram_buffer (fst m) in
      case cb of
        None \<Rightarrow> []
      | Some EchoMessages \<Rightarrow> [(data, snd m)]
      | Some CustomMessages \<Rightarrow> custom_onMessage sent_log data (snd m) [])"

lemma run_message_replies:
  assumes "udp_ok U inbox outbox"
  shows "inbox (run_message U S cb (take datagram_buffer d) a k) = inbox k"
    and "outbox (run_message U S cb (take datagram_buffer d) a k) =
         (outbox k)(sockFd S := outbox k (sockFd S) @ replies (Some cb) (d, a))"
  using udp_sent [OF assms]
  by (cases cb; simp add: run_message_def replies_def echo_onMessage_def custom_onMessage_def sendTo_def
      sent_log_def Let_def)+

lemma udp_handleRead_serves:
  assumes ok: "udp_ok U inbox outbox"
  shows "length (inbox k (sockFd S)) < n \<Longrightarrow>
    \<exists>k'. udp_handleRead U S n k = Inr k' \<and> inbox k' (sockFd S) = []
       \<and> outbox k' (sockFd S) = outbox k (sockFd S) @
           concat (map (replies (messageCallback S)) (inbox k (sockFd S)))"
proof (induction n arbitrary: k)
  case (Suc n)
  let ?fd = "sockFd S"
  show ?case
  proof (cases "inbox k ?fd")
    case Nil
    then show ?thesis
      by (auto simp: udp_recv_empty [OF ok])
  next
    case (Cons m ds)
    obtain d a where m: "m = (d, a)" by (cases m)
    obtain k1 where k1: "sys_recvfrom U ?fd datagram_buffer k = (Inr (take datagram_buffer d, a), k1)"
        and i1: "inbox k1 = (inbox k)(?fd := ds)" and o1: "outbox k1 = outbox k"
      using udp_recv_Cons [OF ok, of k ?fd d a ds datagram_buffer] Cons m by auto
    define k2 where "k2 = (case messageCallback S of None \<Rightarrow> k1
        | Some cb \<Rightarrow> run_message U S cb (take datagram_buffer d) a k1)"
    have i2: "inbox k2 ?fd = ds"
      by (simp add: k2_def i1 run_message_replies [OF ok] split: option.split)
    have o2: "outbox k2 ?fd = outbox k ?fd @ replies (messageCallback S) m"
      by (simp add: k2_def o1 m run_message_replies [OF ok] split: option.split)
        (simp add: replies_def)
    have "length (inbox k2 ?fd) < n"
      using Suc.prems Cons i2 by simp
    from Suc.IH [OF this] i2 o2 show ?thesis
      by (simp add: k1 k2_def [symmetric] Cons)
  qed
qed simp

text \<open>
  C24: a read event serves the whole queue. With more fuel than received datagrams,
  \<^verbatim>\<open>handleRead\<close> returns with an empty queue, having sent the answers to all of them, in the
  order of arrival and each to the address it came from; for the echo protocol the answer is
  the datagram itself (up to 65536 bytes), empty datagrams included.
\<close>

theorem udp_read_serves_queue:
  assumes "udp_ok U inbox outbox" and "length (inbox k (sockFd S)) < n"
  shows "\<exists>k'. udp_handleRead U S n k = Inr k' \<and> inbox k' (sockFd S) = []
       \<and> outbox k' (sockFd S) = outbox k (sockFd S) @
           concat (map (replies (messageCallback S)) (inbox k (sockFd S)))
       \<and> (messageCallback S = Some EchoMessages \<longrightarrow>
           outbox k' (sockFd S) = outbox k (sockFd S) @
             map (\<lambda>(d, a). (take 65536 d, a)) (inbox k (sockFd S)))"
proof -
  obtain k' where k': "udp_handleRead U S n k = Inr k'" "inbox k' (sockFd S) = []"
      "outbox k' (sockFd S) = outbox k (sockFd S) @
         concat (map (replies (messageCallback S)) (inbox k (sockFd S)))"
    using udp_handleRead_serves [OF assms] by blast
  have "concat (map (replies (Some EchoMessages)) ms) = map (\<lambda>(d, a). (take 65536 d, a)) ms"
    for ms :: "(string \<times> 'a) list"
    by (induction ms) (auto simp: replies_def datagram_buffer_def)
  with k' show ?thesis
    by auto
qed

definition demo_udp :: "(nat, (int \<Rightarrow> (string \<times> nat) list) \<times> (int \<Rightarrow> (string \<times> nat) list)) udp_sys" where
  "demo_udp =
     \<lparr>sys_recvfrom = (\<lambda>fd cap (i, out). case i fd of
          [] \<Rightarrow> (Inl EAGAIN, i, out) | (d, a) # ds \<Rightarrow> (Inr (take cap d, a), i(fd := ds), out)),
      sys_sendto = (\<lambda>fd d a (i, out). (i, out(fd := out fd @ [(d, a)])))\<rparr>"

lemma demo_udp_ok: "udp_ok demo_udp fst snd"
  by (auto simp: udp_ok_def demo_udp_def split: list.split)

theorem udp_read_serves_queue_witness:
  "\<exists>k'. udp_handleRead demo_udp \<lparr>us_port = 8081, sockFd = 5, us_running = True, messageCallback = Some EchoMessages\<rparr>
        3 ((\<lambda>fd. [])(5 := [(''ping'', 7), ([], 8)]), \<lambda>fd. []) = Inr k'
     \<and> fst k' 5 = [] \<and> snd k' 5 = [(''ping'', 7), ([], 8)]"
proof -
  let ?S = "\<lparr>us_port = 8081, sockFd = 5, us_running = True, messageCallback = Some EchoMessages\<rparr>"
  let ?k = "((\<lambda>fd. [])(5 := [(''ping'', 7), ([], 8)]), \<lambda>fd::int. []) ::
      (int \<Rightarrow> (string \<times> nat) list) \<times> (int \<Rightarrow> (string \<times> nat) list)"
  have "length (fst ?k (sockFd ?S)) < 3"
    by simp
  from udp_read_serves_queue [where U = demo_udp and inbox = fst and outbox = snd and k = ?k and S = ?S and n = 3,
      OF demo_udp_ok this] show ?thesis
    by (simp add: replies_def datagram_buffer_def)
qed

end
