(* ===== verification/ThreadPool.thy ===== *)
theory ThreadPool
  imports EzPrelude "HOL-Library.Multiset"
begin

text \<open>
  \<^verbatim>\<open>util/ThreadPool.h\<close> and \<^verbatim>\<open>util/ThreadPool.cpp\<close>. Every critical section of \<^verbatim>\<open>mutex_\<close> is one
  step; between them the threads interleave freely. A worker is \<open>Checking\<close> when it is about to
  take the lock and evaluate the predicate of \<^verbatim>\<open>cv_.wait\<close>, \<open>Asleep\<close> inside the wait, \<open>Running\<close>
  a task, or \<open>Exited\<close>. \<^verbatim>\<open>notify_one\<close> and \<^verbatim>\<open>notify_all\<close> happen after the lock is released, so
  they are steps of their own; a wait may also end spuriously. Exceptions of a task are caught
  by the worker, so a task that throws ends like one that returns.
\<close>

section \<open>State and operations\<close>

datatype 'a worker = Checking | Asleep | Running 'a | Exited

record 'a pool =
  tasks :: "'a list"
  stop_flag :: bool
  maxQueueSize :: nat
  workers :: "'a worker list"
  notifies_due :: nat
  notify_all_due :: bool

text \<open>
  The constructor, given which of the thread creations succeed: when one fails, the threads
  there are so far are stopped and joined and the exception goes on.
\<close>

definition pool_new :: "bool list \<Rightarrow> nat \<Rightarrow> 'a pool res" where
  "pool_new created cap =
     (if False \<in> set created then Inl (Thrown ''std::system_error'')
      else Inr \<lparr>tasks = [], stop_flag = False, maxQueueSize = cap,
                workers = replicate (length created) Checking, notifies_due = 0, notify_all_due = False\<rparr>)"

definition enqueue :: "'a \<Rightarrow> 'a pool \<Rightarrow> 'a pool res" where
  "enqueue t p =
     (if maxQueueSize p > 0 \<and> length (tasks p) \<ge> maxQueueSize p
      then Inl (Thrown ''ThreadPool queue full'')
      else Inr (p\<lparr>tasks := tasks p @ [t], notifies_due := Suc (notifies_due p)\<rparr>))"

definition queueSize :: "'a pool \<Rightarrow> nat" where
  "queueSize p = length (tasks p)"

text \<open>The critical section of \<^verbatim>\<open>workerLoop\<close>: the task it takes, if any, and the pool.\<close>

definition worker_check :: "nat \<Rightarrow> 'a pool \<Rightarrow> 'a option \<times> 'a pool" where
  "worker_check i p =
     (if \<not> (stop_flag p \<or> tasks p \<noteq> []) then (None, p\<lparr>workers := (workers p)[i := Asleep]\<rparr>)
      else case tasks p of
        [] \<Rightarrow> (None, p\<lparr>workers := (workers p)[i := Exited]\<rparr>)
      | t # ts \<Rightarrow> (Some t, p\<lparr>workers := (workers p)[i := Running t], tasks := ts\<rparr>))"

definition worker_finish :: "nat \<Rightarrow> 'a pool \<Rightarrow> 'a pool" where
  "worker_finish i p = p\<lparr>workers := (workers p)[i := Checking]\<rparr>"

definition stop_pool :: "'a pool \<Rightarrow> 'a pool" where
  "stop_pool p = p\<lparr>stop_flag := True, notify_all_due := True\<rparr>"

definition wake :: "nat \<Rightarrow> 'a pool \<Rightarrow> 'a pool" where
  "wake i p = p\<lparr>workers := (workers p)[i := Checking]\<rparr>"

definition wake_all :: "'a pool \<Rightarrow> 'a pool" where
  "wake_all p =
     p\<lparr>workers := map (\<lambda>w. case w of Asleep \<Rightarrow> Checking | _ \<Rightarrow> w) (workers p), notify_all_due := False\<rparr>"

text \<open>What the destructor waits for: every worker has left \<^verbatim>\<open>workerLoop\<close>.\<close>

definition joined :: "'a pool \<Rightarrow> bool" where
  "joined p = (\<forall>w\<in>set (workers p). w = Exited)"

section \<open>What a submitter relies on\<close>

text \<open>
  A queue with a limit (0 for none): a submission is put behind the others, and is refused
  with a fault when the limit is reached.
\<close>

locale bounded_queue =
  fixes submit :: "'a \<Rightarrow> 's \<Rightarrow> 's res" and items :: "'s \<Rightarrow> 'a list" and cap :: "'s \<Rightarrow> nat" and full :: fault
  assumes submit_room: "cap s = 0 \<or> length (items s) < cap s \<Longrightarrow>
      \<exists>s'. submit x s = Inr s' \<and> items s' = items s @ [x] \<and> cap s' = cap s"
    and submit_full: "0 < cap s \<Longrightarrow> cap s \<le> length (items s) \<Longrightarrow> submit x s = Inl full"
begin

fun submit_all :: "'a list \<Rightarrow> 's \<Rightarrow> 's res" where
  "submit_all [] s = Inr s"
| "submit_all (x # xs) s = rbind (submit x s) (submit_all xs)"

lemma submit_cases:
  "submit x s = Inr s' \<Longrightarrow>
   items s' = items s @ [x] \<and> cap s' = cap s \<and> (cap s = 0 \<or> length (items s) < cap s)"
  using submit_room [of s x] submit_full [of s x] by (cases "cap s = 0 \<or> length (items s) < cap s") auto

lemma submit_all_room:
  "cap s = 0 \<or> length (items s) + length xs \<le> cap s \<Longrightarrow>
   \<exists>s'. submit_all xs s = Inr s' \<and> items s' = items s @ xs \<and> cap s' = cap s"
proof (induction xs arbitrary: s)
  case (Cons x xs)
  then obtain s1 where s1: "submit x s = Inr s1" "items s1 = items s @ [x]" "cap s1 = cap s"
    using submit_room [of s x] by auto
  with Cons.IH [of s1] Cons.prems show ?case
    by auto
qed simp

lemma submit_all_full:
  "0 < cap s \<Longrightarrow> length (items s) \<le> cap s \<Longrightarrow> cap s < length (items s) + length xs \<Longrightarrow> submit_all xs s = Inl full"
proof (induction xs arbitrary: s)
  case (Cons x xs)
  show ?case
  proof (cases "length (items s) < cap s")
    case False
    then show ?thesis
      using submit_full [OF Cons.prems(1), of x] by simp
  next
    case True
    then obtain s1 where s1: "submit x s = Inr s1" "items s1 = items s @ [x]" "cap s1 = cap s"
      using submit_room [of s x] by auto
    with Cons.IH [of s1] Cons.prems True show ?thesis
      by simp
  qed
qed simp

end

interpretation pq: bounded_queue enqueue tasks maxQueueSize "Thrown ''ThreadPool queue full''"
  by unfold_locales (auto simp: enqueue_def)

section \<open>Interleaving\<close>

datatype 'a event = Enqueued 'a | Notified | Checked "'a option" | Finished 'a | Spurious | StopSet | NotifiedAll

inductive pool_step :: "'a pool \<Rightarrow> 'a event \<Rightarrow> 'a pool \<Rightarrow> bool" where
  Enqueue: "enqueue t p = Inr p' \<Longrightarrow> pool_step p (Enqueued t) p'"
| NotifyOne: "notifies_due p = Suc m \<Longrightarrow> i < length (workers p) \<Longrightarrow> workers p ! i = Asleep \<Longrightarrow>
    pool_step p Notified (wake i (p\<lparr>notifies_due := m\<rparr>))"
| NotifyNobody: "notifies_due p = Suc m \<Longrightarrow> Asleep \<notin> set (workers p) \<Longrightarrow>
    pool_step p Notified (p\<lparr>notifies_due := m\<rparr>)"
| Check: "i < length (workers p) \<Longrightarrow> workers p ! i = Checking \<Longrightarrow> worker_check i p = (got, p') \<Longrightarrow>
    pool_step p (Checked got) p'"
| Finish: "i < length (workers p) \<Longrightarrow> workers p ! i = Running t \<Longrightarrow>
    pool_step p (Finished t) (worker_finish i p)"
| SpuriousWake: "i < length (workers p) \<Longrightarrow> workers p ! i = Asleep \<Longrightarrow> pool_step p Spurious (wake i p)"
| Stop: "pool_step p StopSet (stop_pool p)"
| NotifyAll: "notify_all_due p \<Longrightarrow> pool_step p NotifiedAll (wake_all p)"

inductive_cases EnqueuedE [elim]: "pool_step p (Enqueued t) p'"
inductive_cases CheckedE [elim]: "pool_step p (Checked got) p'"
inductive_cases FinishedE [elim]: "pool_step p (Finished t) p'"
inductive_simps pool_step_StopSet: "pool_step p StopSet p'"

text \<open>Runs, with the events so far.\<close>

inductive pool_run :: "'a pool \<Rightarrow> 'a event list \<Rightarrow> 'a pool \<Rightarrow> bool" for p0 where
  Start: "pool_run p0 [] p0"
| Step: "pool_run p0 tr p \<Longrightarrow> pool_step p e p' \<Longrightarrow> pool_run p0 (tr @ [e]) p'"

fun accepted_of :: "'a event \<Rightarrow> 'a list" where
  "accepted_of (Enqueued t) = [t]"
| "accepted_of _ = []"

fun taken_of :: "'a event \<Rightarrow> 'a list" where
  "taken_of (Checked (Some t)) = [t]"
| "taken_of _ = []"

fun finished_of :: "'a event \<Rightarrow> 'a list" where
  "finished_of (Finished t) = [t]"
| "finished_of _ = []"

definition accepted :: "'a event list \<Rightarrow> 'a list" where "accepted tr = concat (map accepted_of tr)"
definition taken :: "'a event list \<Rightarrow> 'a list" where "taken tr = concat (map taken_of tr)"
definition finished :: "'a event list \<Rightarrow> 'a list" where "finished tr = concat (map finished_of tr)"

lemma trace_simps [simp]:
  "accepted [] = []" "accepted (tr @ [e]) = accepted tr @ accepted_of e"
  "taken [] = []" "taken (tr @ [e]) = taken tr @ taken_of e"
  "finished [] = []" "finished (tr @ [e]) = finished tr @ finished_of e"
  by (simp_all add: accepted_def taken_def finished_def)

fun task_of :: "'a worker \<Rightarrow> 'a multiset" where
  "task_of (Running t) = {#t#}"
| "task_of _ = {#}"

definition in_progress :: "'a pool \<Rightarrow> 'a multiset" where
  "in_progress p = sum_list (map task_of (workers p))"

text \<open>Tasks are not queued once the destructor has set the flag.\<close>

definition no_late_task :: "'a event list \<Rightarrow> bool" where
  "no_late_task tr \<longleftrightarrow> (\<forall>t. Enqueued t \<notin> set (dropWhile (\<lambda>e. e \<noteq> StopSet) tr))"

section \<open>Invariants\<close>

named_theorems step_defs "the operations behind the steps"
lemmas [step_defs] = enqueue_def worker_check_def worker_finish_def stop_pool_def wake_def wake_all_def

lemma sum_list_empty [simp]: "sum_list (replicate n {#}) = {#}"
  by (induction n) simp_all

lemma in_progress_update:
  assumes "i < length (workers p)"
  shows "in_progress (p\<lparr>workers := (workers p)[i := w]\<rparr>) + task_of (workers p ! i) = in_progress p + task_of w"
proof -
  have "sum_list (map task_of (ws[i := w])) + task_of (ws ! i) = sum_list (map task_of ws) + task_of w"
    if "i < length ws" for ws
    using that by (induction ws arbitrary: i) (auto simp: nth_Cons split: nat.splits)
  with assms show ?thesis
    by (simp add: in_progress_def)
qed

lemma in_progress_fields [simp]:
  "in_progress (p\<lparr>tasks := ts\<rparr>) = in_progress p"
  "in_progress (p\<lparr>notifies_due := m\<rparr>) = in_progress p"
  "in_progress (p\<lparr>notify_all_due := b\<rparr>) = in_progress p"
  "in_progress (p\<lparr>stop_flag := b\<rparr>) = in_progress p"
  by (simp_all add: in_progress_def)

lemma wake_all_fields [simp]:
  "tasks (wake_all p) = tasks p" "maxQueueSize (wake_all p) = maxQueueSize p"
  "stop_flag (wake_all p) = stop_flag p"
  by (simp_all add: wake_all_def)

lemma in_progress_wake_all [simp]: "in_progress (wake_all p) = in_progress p"
proof -
  have "task_of (case w of Asleep \<Rightarrow> Checking | _ \<Rightarrow> w) = task_of w" for w :: "'a worker"
    by (cases w) simp_all
  then show ?thesis
    by (simp add: in_progress_def wake_all_def comp_def)
qed

lemma no_late_append:
  "no_late_task (tr @ [e]) \<longleftrightarrow> no_late_task tr \<and> (StopSet \<in> set tr \<longrightarrow> (\<forall>t. e \<noteq> Enqueued t))"
proof (cases "StopSet \<in> set tr")
  case True
  then have "dropWhile (\<lambda>e. e \<noteq> StopSet) (tr @ [e]) = dropWhile (\<lambda>e. e \<noteq> StopSet) tr @ [e]"
    by (simp add: dropWhile_append)
  then show ?thesis
    using True by (auto simp: no_late_task_def)
next
  case False
  then have Nil: "dropWhile (\<lambda>e. e \<noteq> StopSet) tr = []"
    by (auto simp: dropWhile_eq_Nil_conv)
  have "no_late_task tr"
    unfolding no_late_task_def Nil by simp
  moreover have "set (dropWhile (\<lambda>e. e \<noteq> StopSet) (tr @ [e])) \<subseteq> {StopSet}"
    using False by (auto simp: dropWhile_append split: if_splits)
  ultimately show ?thesis
    using False by (auto simp: no_late_task_def)
qed

lemma no_late_snoc: "no_late_task (tr @ [e]) \<Longrightarrow> no_late_task tr"
  by (simp add: no_late_append)

lemma no_late_enqueue: "no_late_task (tr @ [Enqueued t]) \<Longrightarrow> StopSet \<notin> set tr"
  by (simp add: no_late_append)

text \<open>The queue: its bound, its order, and where every task is.\<close>

definition queue_inv :: "nat \<Rightarrow> 'a event list \<Rightarrow> 'a pool \<Rightarrow> bool" where
  "queue_inv cap tr p \<longleftrightarrow>
     maxQueueSize p = cap \<and> (0 < cap \<longrightarrow> length (tasks p) \<le> cap)
     \<and> accepted tr = taken tr @ tasks p
     \<and> mset (taken tr) = mset (finished tr) + in_progress p"

lemma in_progress_silent:
  assumes "i < length (workers p)" and "task_of (workers p ! i) = {#}" and "task_of w = {#}"
  shows "in_progress (p\<lparr>workers := (workers p)[i := w]\<rparr>) = in_progress p"
  using in_progress_update [OF assms(1), of w] assms by simp

lemma queue_inv_step:
  assumes "pool_step p e p'" and "queue_inv cap tr p"
  shows "queue_inv cap (tr @ [e]) p'"
  using assms
proof (cases rule: pool_step.cases)
  case (NotifyOne m i)
  with assms(2) in_progress_silent [of i "p\<lparr>notifies_due := m\<rparr>" Checking] show ?thesis
    by (simp add: queue_inv_def wake_def)
next
  case (SpuriousWake i)
  with assms(2) in_progress_silent [of i p Checking] show ?thesis
    by (simp add: queue_inv_def wake_def)
next
  case (Finish i t)
  with assms(2) in_progress_update [of i p Checking] show ?thesis
    by (simp add: queue_inv_def worker_finish_def)
next
  case (Check i got)
  show ?thesis
  proof (cases "tasks p")
    case Nil
    with Check assms(2) in_progress_silent [of i p Asleep] in_progress_silent [of i p Exited] show ?thesis
      by (auto simp: queue_inv_def worker_check_def split: if_splits)
  next
    case (Cons t ts)
    with Check have "got = Some t" and p': "p' = p\<lparr>workers := (workers p)[i := Running t]\<rparr>\<lparr>tasks := ts\<rparr>"
      by (simp_all add: worker_check_def)
    moreover have "in_progress p' = in_progress p + {#t#}"
      using in_progress_update [of i p "Running t"] Check unfolding p' in_progress_fields by simp
    ultimately show ?thesis
      using assms(2) Cons Check(1) by (auto simp: queue_inv_def)
  qed
qed (auto simp: queue_inv_def enqueue_def stop_pool_def split: if_splits)

text \<open>
  Waking: while a worker sleeps, there is no task, or a notification is on its way, or some
  worker is awake; and nobody sleeps once \<^verbatim>\<open>notify_all\<close> has followed the flag.
\<close>

definition awake :: "'a worker \<Rightarrow> bool" where
  "awake w \<longleftrightarrow> w \<noteq> Asleep \<and> w \<noteq> Exited"

definition wake_inv :: "nat \<Rightarrow> 'a event list \<Rightarrow> 'a pool \<Rightarrow> bool" where
  "wake_inv n tr p \<longleftrightarrow>
     length (workers p) = n
     \<and> (Asleep \<in> set (workers p) \<longrightarrow>
          (tasks p = [] \<or> 0 < notifies_due p \<or> (\<exists>w\<in>set (workers p). awake w))
          \<and> (stop_flag p \<longrightarrow> notify_all_due p))
     \<and> (stop_flag p \<longleftrightarrow> StopSet \<in> set tr)
     \<and> (Exited \<in> set (workers p) \<longrightarrow> stop_flag p \<and> (no_late_task tr \<longrightarrow> tasks p = []))"

lemma awake_simps [simp]: "awake Checking" "awake (Running t)" "\<not> awake Asleep" "\<not> awake Exited"
  by (simp_all add: awake_def)

lemma set_update_self: "i < length ws \<Longrightarrow> w \<in> set (ws[i := w])"
  by (simp add: set_update_memI)

lemma set_update_other: "x \<in> set (ws[i := w]) \<Longrightarrow> x \<noteq> w \<Longrightarrow> x \<in> set ws"
  using set_update_subset_insert [of ws i w] by auto

lemma wake_inv_awaken:
  assumes "wake_inv n tr p" and "i < length (workers p)" and "awake w"
    and "stop_flag p' = stop_flag p" "notify_all_due p' = notify_all_due p"
    and "tasks p' = tasks p \<or> (\<exists>t. tasks p = t # tasks p')"
    and "workers p' = (workers p)[i := w]" and "\<forall>t. e \<noteq> Enqueued t" and "e \<noteq> StopSet"
  shows "wake_inv n (tr @ [e]) p'"
proof -
  have w: "w \<in> set (workers p')" "w \<noteq> Asleep" "w \<noteq> Exited"
    using assms(2,3,7) set_update_self by (auto simp: awake_def)
  then have "Asleep \<in> set (workers p') \<Longrightarrow> Asleep \<in> set (workers p)"
      "Exited \<in> set (workers p') \<Longrightarrow> Exited \<in> set (workers p)"
    using assms(7) set_update_other by fastforce+
  moreover have "tasks p = [] \<Longrightarrow> tasks p' = []"
    using assms(6) by auto
  ultimately show ?thesis
    using assms w by (auto simp: wake_inv_def dest: no_late_snoc)
qed

lemma wake_inv_step:
  assumes "pool_step p e p'" and "wake_inv n tr p"
  shows "wake_inv n (tr @ [e]) p'"
  using assms(1)
proof (cases rule: pool_step.cases)
  case (Enqueue t)
  with assms(2) show ?thesis
    by (auto simp: wake_inv_def enqueue_def split: if_splits dest: no_late_enqueue no_late_snoc)
next
  case (NotifyOne m i)
  then show ?thesis
    by (intro wake_inv_awaken [OF assms(2), of i Checking]) (simp_all add: wake_def)
next
  case (NotifyNobody m)
  with assms(2) show ?thesis
    by (auto simp: wake_inv_def dest: no_late_snoc)
next
  case (Check i got)
  show ?thesis
  proof (cases "tasks p")
    case Nil
    have "Exited \<in> set ((workers p)[i := Asleep]) \<Longrightarrow> Exited \<in> set (workers p)"
        "Asleep \<in> set ((workers p)[i := Exited]) \<Longrightarrow> Asleep \<in> set (workers p)"
      using set_update_other by fastforce+
    with Check Nil assms(2) show ?thesis
      by (auto simp: wake_inv_def worker_check_def split: if_splits)
  next
    case (Cons t ts)
    with Check show ?thesis
      by (intro wake_inv_awaken [OF assms(2), of i "Running t"]) (auto simp: worker_check_def)
  qed
next
  case (Finish i t)
  then show ?thesis
    by (intro wake_inv_awaken [OF assms(2), of i Checking]) (simp_all add: worker_finish_def)
next
  case (SpuriousWake i)
  then show ?thesis
    by (intro wake_inv_awaken [OF assms(2), of i Checking]) (simp_all add: wake_def)
next
  case Stop
  with assms(2) show ?thesis
    by (auto simp: wake_inv_def stop_pool_def dest: no_late_snoc)
next
  case NotifyAll
  have *: "Asleep \<notin> set (workers (wake_all p))"
    by (auto simp: wake_all_def split: worker.splits)
  have "Exited \<in> set (workers (wake_all p)) \<longleftrightarrow> Exited \<in> set (workers p)"
  proof -
    have "(case w of Asleep \<Rightarrow> Checking | _ \<Rightarrow> w) = Exited \<longleftrightarrow> w = Exited" for w :: "'a worker"
      by (cases w) simp_all
    then have "(\<exists>w\<in>set (workers p). (case w of Asleep \<Rightarrow> Checking | _ \<Rightarrow> w) = Exited)
        \<longleftrightarrow> Exited \<in> set (workers p)"
      by metis
    then show ?thesis
      by (simp add: wake_all_def image_iff eq_commute [of Exited])
  qed
  with * NotifyAll assms(2) show ?thesis
    by (auto simp: wake_inv_def wake_all_def dest: no_late_snoc)
qed

lemma queue_inv_run:
  assumes "pool_new created cap = Inr p0" and "pool_run p0 tr p"
  shows "queue_inv cap tr p"
  using assms(2)
proof induction
  case Start
  with assms(1) show ?case
    by (auto simp: queue_inv_def pool_new_def in_progress_def split: if_splits)
qed (rule queue_inv_step)

lemma wake_inv_run:
  assumes "pool_new created cap = Inr p0" and "pool_run p0 tr p"
  shows "wake_inv (length created) tr p"
  using assms(2)
proof induction
  case Start
  with assms(1) show ?case
    by (auto simp: wake_inv_def pool_new_def split: if_splits)
qed (rule wake_inv_step)

section \<open>Progress of the workers\<close>

definition worker_event :: "'a event \<Rightarrow> bool" where
  "worker_event e \<longleftrightarrow> (\<exists>got. e = Checked got) \<or> (\<exists>t. e = Finished t)"

fun work_left :: "'a worker \<Rightarrow> nat" where
  "work_left Exited = 0"
| "work_left (Running t) = 2"
| "work_left _ = 1"

definition pool_work :: "'a pool \<Rightarrow> nat" where
  "pool_work p = 2 * length (tasks p) + sum_list (map work_left (workers p))"

lemma pool_work_update:
  assumes "i < length ws"
  shows "sum_list (map work_left (ws[i := w])) + work_left (ws ! i) = sum_list (map work_left ws) + work_left w"
  using assms by (induction ws arbitrary: i) (auto simp: nth_Cons split: nat.splits)

lemma worker_step_decreases:
  assumes "pool_step p e p'" and "worker_event e" and "stop_flag p"
  shows "pool_work p' < pool_work p"
  using assms(1)
proof (cases rule: pool_step.cases)
  case (Check i got)
  then show ?thesis
    using pool_work_update [of i "workers p" Exited] pool_work_update [of i "workers p" "Running (hd (tasks p))"]
      assms(3) by (auto simp: worker_check_def pool_work_def split: list.splits if_splits)
next
  case (Finish i t)
  then show ?thesis
    using pool_work_update [of i "workers p" Checking] by (simp add: worker_finish_def pool_work_def)
qed (use assms(2) in \<open>auto simp: worker_event_def\<close>)

lemma worker_step_possible:
  assumes "w \<in> set (workers p)" and "awake w"
  shows "\<exists>e p'. pool_step p e p' \<and> worker_event e"
proof -
  obtain i where i: "i < length (workers p)" "workers p ! i = w"
    using assms(1) by (auto simp: in_set_conv_nth)
  show ?thesis
  proof (cases w)
    case Checking
    obtain got p' where "worker_check i p = (got, p')"
      by fastforce
    with i Checking have "pool_step p (Checked got) p'"
      by (intro pool_step.Check) auto
    then show ?thesis
      by (auto simp: worker_event_def)
  next
    case (Running t)
    with i have "pool_step p (Finished t) (worker_finish i p)"
      by (intro pool_step.Finish) auto
    then show ?thesis
      by (auto simp: worker_event_def)
  qed (use assms(2) in auto)
qed

lemma left_pool_empty:
  assumes "wake_inv (length created) tr p" and "queue_inv cap tr p" and "created \<noteq> []" and "no_late_task tr"
    and "joined p"
  shows "tasks p = [] \<and> in_progress p = {#} \<and> mset (finished tr) = mset (accepted tr)"
proof -
  have "length (workers p) = length created"
    using assms(1) by (simp add: wake_inv_def)
  with assms(3,5) have ex: "Exited \<in> set (workers p)" and rep: "workers p = replicate (length created) Exited"
    by (auto simp: joined_def replicate_eqI neq_Nil_conv length_Suc_conv)
  have "tasks p = []"
    using assms(1,4) ex by (auto simp: wake_inv_def)
  moreover have "in_progress p = {#}"
    by (simp add: in_progress_def rep)
  ultimately show ?thesis
    using assms(2) by (simp add: queue_inv_def)
qed

lemma in_progress_running: "t \<in># in_progress p \<Longrightarrow> Running t \<in> set (workers p)"
proof -
  have "t \<in># sum_list (map task_of ws) \<Longrightarrow> Running t \<in> set ws" for ws
  proof (induction ws)
    case (Cons w ws)
    then show ?case
      by (cases w) auto
  qed simp
  then show "t \<in># in_progress p \<Longrightarrow> Running t \<in> set (workers p)"
    by (simp add: in_progress_def)
qed

section \<open>Properties\<close>

text \<open>
  C12: no task is lost, repeated or overtaken. In every interleaving of any number of threads
  that call \<^verbatim>\<open>enqueue\<close> with the workers, the accepted tasks are those taken by the workers, in
  the order of acceptance, followed by those in the queue; each task taken is finished or in
  progress exactly as often as it was taken; and a bounded queue never exceeds its bound.
\<close>

theorem pool_conserves_tasks:
  assumes "pool_new created cap = Inr p0" and "pool_run p0 tr p"
  shows "accepted tr = taken tr @ tasks p
    \<and> mset (taken tr) = mset (finished tr) + in_progress p
    \<and> (0 < cap \<longrightarrow> queueSize p \<le> cap)"
  using queue_inv_run [OF assms] by (simp add: queue_inv_def queueSize_def)

text \<open>
  C20: no wake-up is lost. When every \<^verbatim>\<open>enqueue\<close> has sent its notification and a task is still
  queued, then a worker is awake, and so a worker can move; or no worker sleeps at all,
  because all of them have left.
\<close>

theorem pool_no_lost_wakeup:
  assumes "pool_new created cap = Inr p0" and "pool_run p0 tr p"
    and "notifies_due p = 0" and "tasks p \<noteq> []"
  shows "(\<exists>e p'. pool_step p e p' \<and> worker_event e) \<or> joined p"
proof (cases "\<exists>w\<in>set (workers p). awake w")
  case True
  then show ?thesis
    using worker_step_possible by blast
next
  case False
  have "Asleep \<notin> set (workers p)"
    using wake_inv_run [OF assms(1,2)] assms(3,4) False by (auto simp: wake_inv_def)
  with False show ?thesis
    by (auto simp: awake_def joined_def)
qed

text \<open>
  C11: the destructor drains the pool and returns. After \<^verbatim>\<open>notify_all\<close>, if nothing was queued
  behind the stop flag: as long as a worker has not left, a worker can move; every such move
  uses up some of the work that is left, so \<^verbatim>\<open>join\<close> returns after finitely many of them; and
  when all workers have left, the queue is empty and every accepted task has been finished.
\<close>

theorem pool_shutdown_drains:
  assumes "pool_new created cap = Inr p0" and "pool_run p0 tr p" and "created \<noteq> []"
    and "no_late_task tr" and "stop_flag p" and "\<not> notify_all_due p"
  shows "(\<not> joined p \<longrightarrow> (\<exists>e p'. pool_step p e p' \<and> worker_event e))
    \<and> (\<forall>e p'. pool_step p e p' \<and> worker_event e \<longrightarrow> pool_work p' < pool_work p)
    \<and> (joined p \<longrightarrow> tasks p = [] \<and> mset (finished tr) = mset (accepted tr))"
proof -
  note w = wake_inv_run [OF assms(1,2)] and q = queue_inv_run [OF assms(1,2)]
  have 1: "\<exists>e p'. pool_step p e p' \<and> worker_event e" if "w \<in> set (workers p)" "w \<noteq> Exited" for w
  proof -
    have "w \<noteq> Asleep"
      using w that assms(5,6) by (auto simp: wake_inv_def)
    with that show ?thesis
      by (intro worker_step_possible [of w]) (auto simp: awake_def)
  qed
  show ?thesis
    using 1 left_pool_empty [OF w q assms(3,4)] worker_step_decreases [OF _ _ assms(5)] unfolding joined_def by blast
qed

section \<open>Witnesses\<close>

definition demo_pool :: "nat pool" where
  "demo_pool = \<lparr>tasks = [], stop_flag = False, maxQueueSize = 1, workers = [Checking],
     notifies_due = 0, notify_all_due = False\<rparr>"

lemma demo_pool_new: "pool_new [True] 1 = Inr demo_pool"
  by (simp add: pool_new_def demo_pool_def)

definition demo_queued :: "nat pool" where
  "demo_queued = demo_pool\<lparr>tasks := [7], workers := [Checking], notifies_due := 0\<rparr>"

text \<open>One worker, asleep; a task is queued and the notification wakes it.\<close>

lemma demo_queued_run:
  "pool_run demo_pool [Checked None, Enqueued 7, Notified] demo_queued"
proof -
  let ?p1 = "demo_pool\<lparr>workers := [Asleep]\<rparr>"
  let ?p2 = "?p1\<lparr>tasks := [7], notifies_due := 1\<rparr>"
  have "pool_step demo_pool (Checked None) ?p1"
    by (rule pool_step.Check [of 0]) (simp_all add: demo_pool_def worker_check_def)
  then have 1: "pool_run demo_pool ([] @ [Checked None]) ?p1"
    by (intro pool_run.Step [OF pool_run.Start])
  have "pool_step ?p1 (Enqueued 7) ?p2"
    by (rule pool_step.Enqueue) (simp add: demo_pool_def enqueue_def)
  with 1 have 2: "pool_run demo_pool (([] @ [Checked None]) @ [Enqueued 7]) ?p2"
    by (rule pool_run.Step)
  have "pool_step ?p2 Notified (wake 0 (?p2\<lparr>notifies_due := 0\<rparr>))"
    by (rule pool_step.NotifyOne) (simp_all add: demo_pool_def)
  moreover have "wake 0 (?p2\<lparr>notifies_due := 0\<rparr>) = demo_queued"
    by (simp add: demo_queued_def demo_pool_def wake_def)
  ultimately have "pool_step ?p2 Notified demo_queued"
    by simp
  from pool_run.Step [OF 2 this] show ?thesis
    by simp
qed

theorem pool_conserves_tasks_witness:
  "accepted [Checked None, Enqueued 7, Notified] = taken [Checked None, Enqueued 7, Notified] @ tasks demo_queued
   \<and> queueSize demo_queued \<le> 1"
  using pool_conserves_tasks [OF demo_pool_new demo_queued_run] by simp

theorem pool_no_lost_wakeup_witness:
  "\<exists>e p'. pool_step demo_queued e p' \<and> worker_event e"
  using pool_no_lost_wakeup [OF demo_pool_new demo_queued_run]
  by (simp add: demo_queued_def demo_pool_def joined_def)

definition demo_drained :: "nat pool" where
  "demo_drained = demo_pool\<lparr>stop_flag := True, workers := [Exited]\<rparr>"

lemma demo_drained_run:
  "pool_run demo_pool [StopSet, NotifiedAll, Checked None] demo_drained"
proof -
  have 1: "pool_run demo_pool ([] @ [StopSet]) (stop_pool demo_pool)"
    by (intro pool_run.Step [OF pool_run.Start] pool_step.Stop)
  have "pool_step (stop_pool demo_pool) NotifiedAll (wake_all (stop_pool demo_pool))"
    by (rule pool_step.NotifyAll) (simp add: stop_pool_def)
  with 1 have 2: "pool_run demo_pool (([] @ [StopSet]) @ [NotifiedAll]) (wake_all (stop_pool demo_pool))"
    by (rule pool_run.Step)
  have "pool_step (wake_all (stop_pool demo_pool)) (Checked None) demo_drained"
    by (rule pool_step.Check [of 0])
      (simp_all add: demo_pool_def demo_drained_def worker_check_def stop_pool_def wake_all_def)
  from pool_run.Step [OF 2 this] show ?thesis
    by simp
qed

theorem pool_shutdown_drains_witness:
  "tasks demo_drained = [] \<and> mset (finished [StopSet, NotifiedAll, Checked None :: nat event]) = {#}"
proof -
  have "no_late_task [StopSet, NotifiedAll, Checked None :: nat event]"
    by (simp add: no_late_task_def)
  from pool_shutdown_drains [OF demo_pool_new demo_drained_run _ this] show ?thesis
    by (simp add: demo_drained_def demo_pool_def accepted_def joined_def)
qed

end
