(* ===== verification/Logger.thy ===== *)
theory Logger
  imports EzPrelude
begin

text \<open>
  \<^verbatim>\<open>util/Logger.h\<close> and \<^verbatim>\<open>util/Logger.cpp\<close>: the levels with the order of the enumeration, the
  threshold of the singleton, and the line one call writes. The clock (formatted by
  \<^verbatim>\<open>strftime\<close>) and the text of the format with its arguments filled in are inputs; the buffer
  of 4096 bytes cuts this text at 4095, and the line is printed as a C string.
\<close>

datatype log_level = TRACE | DEBUG | INFO | WARN | ERROR | FATAL

fun level_index :: "log_level \<Rightarrow> nat" where
  "level_index TRACE = 0"
| "level_index DEBUG = 1"
| "level_index INFO = 2"
| "level_index WARN = 3"
| "level_index ERROR = 4"
| "level_index FATAL = 5"

lemma level_index_inject [simp]: "level_index a = level_index b \<longleftrightarrow> a = b"
  by (cases a; cases b) simp_all

instantiation log_level :: linorder
begin

definition less_eq_log_level :: "log_level \<Rightarrow> log_level \<Rightarrow> bool" where
  "a \<le> b \<longleftrightarrow> level_index a \<le> level_index b"

definition less_log_level :: "log_level \<Rightarrow> log_level \<Rightarrow> bool" where
  "a < b \<longleftrightarrow> level_index a < level_index b"

instance
  by standard (auto simp: less_eq_log_level_def less_log_level_def)

end

datatype stream = Stdout | Stderr

record logger =
  level :: log_level

definition logger_new :: logger where
  "logger_new = \<lparr>level = INFO\<rparr>"

definition setLevel :: "log_level \<Rightarrow> logger \<Rightarrow> logger" where
  "setLevel l L = L\<lparr>level := l\<rparr>"

definition level_name :: "log_level \<Rightarrow> string" where
  "level_name l =
     (case l of
        TRACE \<Rightarrow> ''TRACE'' | DEBUG \<Rightarrow> ''DEBUG'' | INFO \<Rightarrow> ''INFO''
      | WARN \<Rightarrow> ''WARN'' | ERROR \<Rightarrow> ''ERROR'' | FATAL \<Rightarrow> ''FATAL'')"

definition log_line :: "logger \<Rightarrow> log_level \<Rightarrow> string \<Rightarrow> string \<Rightarrow> int \<Rightarrow> string \<Rightarrow> (stream \<times> string) option" where
  "log_line L l time_str file_name line_no text =
     (if l < level L then None
      else
        let msg = takeWhile (\<lambda>c. c \<noteq> NUL) (take 4095 text)
        in Some (if l \<ge> WARN then Stderr else Stdout,
             ''['' @ time_str @ ''] ['' @ level_name l @ ''] ['' @ file_name @ '':'' @ int_to_string line_no
             @ ''] '' @ msg @ [LF]))"

lemma log_line_shown: "log_line L l t f n s \<noteq> None \<longleftrightarrow> level L \<le> l"
  by (auto simp: log_line_def Let_def not_less)

lemma log_line_threshold_mono:
  "log_line (setLevel b L) l t f n s = Some out \<Longrightarrow> a \<le> b \<Longrightarrow> log_line (setLevel a L) l t f n s = Some out"
  by (auto simp: log_line_def setLevel_def split: if_splits)

end
