(* ===== verification/Config.thy ===== *)
theory Config
  imports EzPrelude
begin

text \<open>
  \<^verbatim>\<open>util/Config.h\<close> and \<^verbatim>\<open>util/Config.cpp\<close>: the settings read from an ini file. A file is its
  contents, or nothing when it cannot be opened. The ports are 16-bit unsigned: what
  \<^verbatim>\<open>std::stoi\<close> returns is reduced to them by a cast.
\<close>

section \<open>The parser\<close>

definition trim :: "string \<Rightarrow> string" where
  "trim s = rev (dropWhile isspace (rev (dropWhile isspace s)))"

definition toLower :: "string \<Rightarrow> string" where
  "toLower s = map tolower s"

text \<open>\<^verbatim>\<open>std::getline\<close>, repeated until it fails.\<close>

function getlines :: "string \<Rightarrow> string list" where
  "getlines s =
     (if s = [] then []
      else case index_of (\<lambda>c. c = LF) s of
        None \<Rightarrow> [s]
      | Some i \<Rightarrow> take i s # getlines (drop (Suc i) s))"
  by pat_completeness auto

termination
  by (relation "measure length") auto

declare getlines.simps [simp del]

definition parse_line :: "string \<Rightarrow> (string \<times> string) option" where
  "parse_line line =
     (let trimmed = trim line in
      if trimmed = [] then None
      else if hd trimmed = CHR ''#'' \<or> hd trimmed = CHR '';'' then None
      else case find_char (CHR ''='') trimmed 0 of
        None \<Rightarrow> None
      | Some eqPos \<Rightarrow>
          let key = trim (substr 0 eqPos trimmed); val = trim (substr_from (eqPos + 1) trimmed)
          in if key = [] then None else Some (toLower key, val))"

record config =
  httpPort :: int
  udpPort :: int
  echoTcpPort :: int
  logLevel :: string
  settings :: "string \<Rightarrow> string option"

definition applyDefaults :: "config \<Rightarrow> config" where
  "applyDefaults c = c\<lparr>httpPort := 8080, udpPort := 8081, echoTcpPort := 8082, logLevel := ''INFO''\<rparr>"

definition config_get :: "string \<Rightarrow> string \<Rightarrow> config \<Rightarrow> string" where
  "config_get key defaultValue c = (case settings c (toLower key) of Some v \<Rightarrow> v | None \<Rightarrow> defaultValue)"

definition getInt :: "string \<Rightarrow> int \<Rightarrow> config \<Rightarrow> int" where
  "getInt key defaultValue c =
     (let val = config_get key [] c in
      if val = [] then defaultValue
      else case stoi val of None \<Rightarrow> defaultValue | Some v \<Rightarrow> v)"

definition add_line :: "string \<Rightarrow> config \<Rightarrow> config" where
  "add_line line c =
     (case parse_line line of None \<Rightarrow> c | Some (k, v) \<Rightarrow> c\<lparr>settings := (settings c)(k \<mapsto> v)\<rparr>)"

definition config_load :: "string option \<Rightarrow> config \<Rightarrow> bool \<times> config" where
  "config_load opened c =
     (case opened of
        None \<Rightarrow> (False, c)
      | Some text \<Rightarrow>
          let c0 = fold add_line (getlines text) c;
              c1 = c0\<lparr>httpPort := to_unsigned 16 (getInt ''httpport'' (httpPort c0) c0)\<rparr>;
              c2 = c1\<lparr>udpPort := to_unsigned 16 (getInt ''udpport'' (udpPort c1) c1)\<rparr>;
              c3 = c2\<lparr>echoTcpPort := to_unsigned 16 (getInt ''echotcpport'' (echoTcpPort c2) c2)\<rparr>
          in (True, c3\<lparr>logLevel := config_get ''loglevel'' (logLevel c3) c3\<rparr>))"

definition config_empty :: config where
  "config_empty = \<lparr>httpPort = 0, udpPort = 0, echoTcpPort = 0, logLevel = [], settings = Map.empty\<rparr>"

text \<open>The two constructors.\<close>

definition config_new :: config where
  "config_new = applyDefaults config_empty"

definition config_from_file :: "string option \<Rightarrow> config" where
  "config_from_file opened = snd (config_load opened (applyDefaults config_empty))"

section \<open>Lines\<close>

lemma getlines_line:
  "LF \<notin> set l \<Longrightarrow> getlines (l @ LF # rest) = l # getlines rest"
  by (subst getlines.simps, subst index_of_append_Cons) auto

lemma fold_add_line_fields [simp]:
  "httpPort (fold add_line ls c) = httpPort c" "udpPort (fold add_line ls c) = udpPort c"
  "echoTcpPort (fold add_line ls c) = echoTcpPort c" "logLevel (fold add_line ls c) = logLevel c"
  by (induction ls arbitrary: c) (auto simp: add_line_def split: option.split)

lemma settings_fold_add_line:
  "settings (fold add_line ls c) = settings c ++ map_of (rev (List.map_filter parse_line ls))"
proof (induction ls arbitrary: c)
  case (Cons l ls)
  show ?case
    by (cases "parse_line l") (auto simp: Cons.IH [unfolded add_line_def] add_line_def map_filter_simps)
qed (simp add: map_filter_simps)

lemma settings_load: "settings (snd (config_load (Some text) c)) = settings (fold add_line (getlines text) c)"
  by (simp add: config_load_def Let_def)

definition trimmed :: "string \<Rightarrow> bool" where
  "trimmed s \<longleftrightarrow> s = [] \<or> \<not> isspace (hd s) \<and> \<not> isspace (last s)"

lemma dropWhile_pad:
  "\<forall>c\<in>set xs. P c \<Longrightarrow> ys = [] \<or> \<not> P (hd ys) \<Longrightarrow> dropWhile P (xs @ ys) = ys"
  by (induction xs) (auto simp: dropWhile_eq_self_iff)

lemma trim_spaces: "\<forall>c\<in>set xs. isspace c \<Longrightarrow> trim xs = []"
  by (simp add: trim_def) (metis dropWhile_eq_Nil_conv set_dropWhileD)

lemma trim_pad:
  assumes "\<forall>c\<in>set xs. isspace c" and "\<forall>c\<in>set ys. isspace c" and "trimmed s"
  shows "trim (xs @ s @ ys) = s"
proof (cases "s = []")
  case True
  with assms show ?thesis
    by (simp, intro trim_spaces) auto
next
  case False
  then have "hd (s @ ys) = hd s" "hd (rev s) = last s"
    by (simp_all add: hd_rev)
  with False assms dropWhile_pad [of xs isspace "s @ ys"] dropWhile_pad [of "rev ys" isspace "rev s"]
  show ?thesis
    by (simp add: trim_def trimmed_def)
qed

lemma trim_pad_left: "\<forall>c\<in>set xs. isspace c \<Longrightarrow> trimmed s \<Longrightarrow> trim (xs @ s) = s"
  using trim_pad [of xs "[]" s] by simp

lemma trim_pad_right: "\<forall>c\<in>set ys. isspace c \<Longrightarrow> trimmed s \<Longrightarrow> trim (s @ ys) = s"
  using trim_pad [of "[]" ys s] by simp

section \<open>Files as they are written\<close>

text \<open>The lines of an ini file: white space, a comment, or a setting with white space anywhere around.\<close>

datatype ini_item = Blank string | Comment string char string
  | Setting string string string string string string

fun ini_line :: "ini_item \<Rightarrow> string" where
  "ini_line (Blank a) = a"
| "ini_line (Comment a c cs) = a @ c # cs"
| "ini_line (Setting a key b d val e) = a @ key @ b @ ''='' @ d @ val @ e"

definition padding :: "string \<Rightarrow> bool" where
  "padding s \<longleftrightarrow> (\<forall>c\<in>set s. isspace c)"

definition key_ok :: "string \<Rightarrow> bool" where
  "key_ok k \<longleftrightarrow> k \<noteq> [] \<and> trimmed k \<and> CHR ''='' \<notin> set k \<and> hd k \<noteq> CHR ''#'' \<and> hd k \<noteq> CHR '';''"

fun ini_ok :: "ini_item \<Rightarrow> bool" where
  "ini_ok (Blank a) \<longleftrightarrow> padding a"
| "ini_ok (Comment a c cs) \<longleftrightarrow> padding a \<and> c \<in> {CHR ''#'', CHR '';''}"
| "ini_ok (Setting a key b d val e) \<longleftrightarrow>
     padding a \<and> padding b \<and> padding d \<and> padding e \<and> key_ok key \<and> trimmed val"

fun ini_setting :: "ini_item \<Rightarrow> (string \<times> string) option" where
  "ini_setting (Setting a key b d val e) = Some (toLower key, val)"
| "ini_setting _ = None"

definition ini_file :: "ini_item list \<Rightarrow> string" where
  "ini_file items = concat (map (\<lambda>i. ini_line i @ [LF]) items)"

lemma hd_trim_comment:
  assumes "padding a" and "\<not> isspace c"
  shows "trim (a @ c # cs) \<noteq> [] \<and> hd (trim (a @ c # cs)) = c"
proof -
  have "dropWhile isspace (a @ c # cs) = c # cs"
    using assms by (intro dropWhile_pad) (auto simp: padding_def)
  moreover have "dropWhile isspace (rev cs @ [c]) = dropWhile isspace (rev cs) @ [c]"
    using assms(2) by (auto simp: dropWhile_append dropWhile_eq_Nil_conv)
  ultimately show ?thesis
    by (simp add: trim_def)
qed

lemma parse_line_setting:
  assumes "ini_ok (Setting a key b d val e)"
  shows "parse_line (ini_line (Setting a key b d val e)) = Some (toLower key, val)"
proof -
  from assms have sp: "\<forall>c\<in>set a. isspace c" "\<forall>c\<in>set b. isspace c" "\<forall>c\<in>set d. isspace c" "\<forall>c\<in>set e. isspace c"
      and k: "key \<noteq> []" "trimmed key" "CHR ''='' \<notin> set key" "hd key \<noteq> CHR ''#''" "hd key \<noteq> CHR '';''"
      and v: "trimmed val"
    by (auto simp: padding_def key_ok_def)
  have eq: "\<not> isspace (CHR ''='')"
    by (simp add: isspace_def code_def)
  define line where "line = key @ b @ ''='' @ (if val = [] then [] else d @ val)"
  define rest where "rest = (if val = [] then [] else d @ val)"
  have last: "\<not> isspace (last line)"
    using v eq by (auto simp: line_def trimmed_def)
  have "trimmed line"
    using k last by (auto simp: trimmed_def line_def)
  moreover have "\<forall>c\<in>set (if val = [] then d @ e else e). isspace c"
    using sp by auto
  moreover have "ini_line (Setting a key b d val e) = a @ line @ (if val = [] then d @ e else e)"
    by (simp add: line_def)
  ultimately have t: "trim (ini_line (Setting a key b d val e)) = line"
    using sp(1) by (simp add: trim_pad)
  have "CHR ''='' \<notin> set (key @ b)"
    using k(3) sp(2) eq by auto
  then have f: "find_char (CHR ''='') line 0 = Some (length (key @ b))"
    using find_char_0_append [of "CHR ''=''" "key @ b" rest] by (simp add: line_def rest_def)
  have 1: "trim (substr 0 (length (key @ b)) line) = key"
    using trim_pad_right [OF sp(2) k(2)] by (simp add: substr_def line_def)
  have "substr_from (length (key @ b) + 1) line = rest"
    by (simp add: substr_from_def line_def rest_def)
  then have 2: "trim (substr_from (length (key @ b) + 1) line) = val"
    using trim_pad_left [OF sp(3) v] by (auto simp: rest_def trim_spaces)
  have "line \<noteq> []" "hd line = hd key"
    using k(1) by (simp_all add: line_def)
  then show ?thesis
    unfolding parse_line_def t Let_def f option.case 1 2 using k by simp
qed

lemma parse_line_ini:
  assumes "ini_ok i"
  shows "parse_line (ini_line i) = ini_setting i"
proof (cases i)
  case (Blank a)
  with assms show ?thesis
    by (simp add: parse_line_def padding_def trim_spaces)
next
  case (Comment a c cs)
  with assms have "\<not> isspace c"
    by (auto simp: isspace_def code_def)
  with Comment assms hd_trim_comment [of a c cs] show ?thesis
    by (auto simp: parse_line_def Let_def)
next
  case (Setting a key b d val e)
  with assms parse_line_setting [of a key b d val e] show ?thesis
    by simp
qed

lemma getlines_ini_file:
  "\<forall>i\<in>set items. LF \<notin> set (ini_line i) \<Longrightarrow> getlines (ini_file items) = map ini_line items"
proof (induction items)
  case Nil
  show ?case by (simp add: ini_file_def getlines.simps)
next
  case (Cons i items)
  then show ?case
    using getlines_line [of "ini_line i" "ini_file items"] by (simp add: ini_file_def)
qed

lemma map_filter_cong_ini:
  "\<forall>i\<in>set items. ini_ok i \<Longrightarrow>
   List.map_filter parse_line (map ini_line items) = List.map_filter ini_setting items"
  by (induction items) (auto simp: map_filter_simps parse_line_ini split: option.split)

text \<open>
  C30: a configuration file reads back. Whatever white space, blank lines and comments surround
  its settings, after loading it \<^verbatim>\<open>get\<close> returns for every key, in any case of letters, the value
  of the last setting with this key, and the default for a key that has none.
\<close>

theorem config_file_reads_back:
  assumes "\<forall>i\<in>set items. ini_ok i \<and> LF \<notin> set (ini_line i)"
  shows "config_get key d (config_from_file (Some (ini_file items))) =
    (case map_of (rev (List.map_filter ini_setting items)) (toLower key) of Some v \<Rightarrow> v | None \<Rightarrow> d)"
proof -
  have "settings (config_from_file (Some (ini_file items))) = map_of (rev (List.map_filter ini_setting items))"
    using assms getlines_ini_file [of items] map_filter_cong_ini [of items]
    by (simp add: config_from_file_def settings_load settings_fold_add_line applyDefaults_def config_empty_def)
  then show ?thesis
    by (simp add: config_get_def)
qed

theorem config_file_reads_back_witness:
  "config_get ''HttpPort'' [] (config_from_file (Some (ini_file
      [Comment '' '' (CHR ''#'') ''ezNet'', Setting [] ''httpPort'' '' '' '' '' ''80'' [CR],
       Setting [] ''HTTPPORT'' [] [] ''9000'' []]))) = ''9000''"
proof -
  let ?items = "[Comment '' '' (CHR ''#'') ''ezNet'', Setting [] ''httpPort'' '' '' '' '' ''80'' [CR],
       Setting [] ''HTTPPORT'' [] [] ''9000'' []]"
  have "\<forall>i\<in>set ?items. ini_ok i \<and> LF \<notin> set (ini_line i)"
    by (simp add: padding_def key_ok_def trimmed_def isspace_def code_def)
  moreover have "toLower ''HttpPort'' = ''httpport''" "toLower ''httpPort'' = ''httpport''"
      "toLower ''HTTPPORT'' = ''httpport''"
    by code_simp+
  ultimately show ?thesis
    using config_file_reads_back [of ?items "''HttpPort''" "[]"] by (simp add: map_filter_simps)
qed

text \<open>
  The ports. Whatever the file contains, a loaded port is what \<^verbatim>\<open>std::stoi\<close> makes of its
  value, reduced modulo 65536, and the default when there is no value or it is not a number:
  always a 16-bit number, but 65536 silently becomes 0 and -1 becomes 65535.
\<close>

theorem config_ports_wrap:
  "let c = config_from_file (Some text);
       port = (\<lambda>key dflt. case stoi (config_get key [] c) of None \<Rightarrow> dflt | Some v \<Rightarrow> v mod 65536)
   in httpPort c = port ''httpport'' 8080 \<and> udpPort c = port ''udpport'' 8081
    \<and> echoTcpPort c = port ''echotcpport'' 8082
    \<and> httpPort c \<in> {0..65535} \<and> udpPort c \<in> {0..65535} \<and> echoTcpPort c \<in> {0..65535}"
proof -
  have empty: "stoi [] = None"
    by (simp add: ston_def strtol_def)
  have key: "to_unsigned 16 (getInt key dflt c) =
      (case stoi (config_get key [] c') of None \<Rightarrow> dflt | Some v \<Rightarrow> v mod 65536)"
    if "settings c = settings c'" and "0 \<le> dflt" "dflt < 65536" for key dflt c c'
    using that empty by (auto simp: getInt_def config_get_def to_unsigned_def split: option.splits)
  have range: "(case stoi s of None \<Rightarrow> dflt | Some v \<Rightarrow> v mod 65536) \<in> {0..65535}"
    if "dflt \<in> {0..65535}" for s dflt
    using that by (auto split: option.split)
  let ?c = "config_from_file (Some text)"
  let ?port = "\<lambda>key dflt. case stoi (config_get key [] ?c) of None \<Rightarrow> dflt | Some v \<Rightarrow> v mod 65536"
  have "httpPort ?c = ?port ''httpport'' 8080" "udpPort ?c = ?port ''udpport'' 8081"
      "echoTcpPort ?c = ?port ''echotcpport'' 8082"
    by (simp_all add: config_from_file_def config_load_def Let_def applyDefaults_def key [OF refl] config_get_def)
  then show ?thesis
    unfolding Let_def by (simp only:) (intro conjI range; simp)
qed

end
