(* ===== verification/FileSystem.thy ===== *)
theory FileSystem
  imports EzPrelude
begin

text \<open>
  What the example programs use of the operating system and of \<^verbatim>\<open>snprintf\<close>. The file system is
  a parameter: a record of functions on a state of any type, with the results of the calls
  (\<^verbatim>\<open>mkdir\<close>, \<^verbatim>\<open>fopen\<close> with \<^verbatim>\<open>fwrite\<close>, \<^verbatim>\<open>opendir\<close> with \<^verbatim>\<open>readdir\<close>, \<^verbatim>\<open>unlink\<close>, \<^verbatim>\<open>rmdir\<close>,
  \<^verbatim>\<open>rename\<close>, the \<^verbatim>\<open>tar\<close> child process, \<^verbatim>\<open>stat\<close>). The programs pass \<^verbatim>\<open>path.c_str()\<close>; that a call
  looks at a path up to its first zero byte only is part of the parameter.
\<close>

record 'f file_sys =
  fs_mkdir :: "string \<Rightarrow> 'f \<Rightarrow> bool \<times> 'f"
  fs_put :: "string \<Rightarrow> string \<Rightarrow> 'f \<Rightarrow> nat option \<times> 'f"
  fs_list :: "string \<Rightarrow> 'f \<Rightarrow> (string \<times> bool) list option"
  fs_unlink :: "string \<Rightarrow> 'f \<Rightarrow> bool \<times> 'f"
  fs_rmdir :: "string \<Rightarrow> 'f \<Rightarrow> 'f"
  fs_rename :: "string \<Rightarrow> string \<Rightarrow> 'f \<Rightarrow> bool \<times> 'f"
  fs_tar :: "string \<Rightarrow> string \<Rightarrow> 'f \<Rightarrow> int option \<times> 'f"
  fs_stat :: "'f \<Rightarrow> string \<Rightarrow> nat option"

text \<open>A C string ends at the first zero byte; \<^verbatim>\<open>snprintf\<close> cuts at the size of its buffer.\<close>

definition c_str :: "string \<Rightarrow> string" where
  "c_str s = takeWhile (\<lambda>c. c \<noteq> NUL) s"

definition snprintf :: "nat \<Rightarrow> string \<Rightarrow> string" where
  "snprintf buf_size text = take (buf_size - 1) text"

definition quoted :: "string \<Rightarrow> string" where
  "quoted s = DQUOTE # s @ [DQUOTE]"

end
