(* ===== verification/EzdropConfig.thy ===== *)
theory EzdropConfig
  imports EzPrelude
begin

text \<open>
  The configuration of the ezdrop example (\<^verbatim>\<open>examples/ezdrop/EzdropServer.cpp\<close>, lines 20 to
  175): the hand-written reader of a flat JSON object. A position in the text is an index;
  \<^verbatim>\<open>int64_t\<close> values are integers, and a digit that takes them out of range is undefined
  behaviour. The loop of \<^verbatim>\<open>parseConfigJson\<close> need not end, so it takes fuel: its number of
  iterations.
\<close>

section \<open>The configuration\<close>

record ezdrop_config =
  ec_port :: int
  ec_storageDir :: string
  ec_maxFileSizeMb :: int
  ec_maxConcurrentDownloads :: int
  ec_defaultExpireMinutes :: int
  ec_maxExpireMinutes :: int

definition ezdrop_defaults :: ezdrop_config where
  "ezdrop_defaults =
     \<lparr>ec_port = 8080, ec_storageDir = ''./data'', ec_maxFileSizeMb = 0, ec_maxConcurrentDownloads = 0,
      ec_defaultExpireMinutes = 10, ec_maxExpireMinutes = 1440\<rparr>"

section \<open>The reader\<close>

definition json_space :: "char \<Rightarrow> bool" where
  "json_space c \<longleftrightarrow> c = CHR '' '' \<or> c = TAB \<or> c = LF \<or> c = CR"

definition skipWhitespace :: "string \<Rightarrow> nat \<Rightarrow> nat" where
  "skipWhitespace s pos = pos + length (takeWhile json_space (drop pos s))"

text \<open>The characters a backslash stands for; \<^verbatim>\<open>\\u\<close> adds nothing and skips four characters.\<close>

definition unescape :: "char \<Rightarrow> string" where
  "unescape c =
     (if c = CHR ''b'' then [CHR 0x08] else if c = CHR ''f'' then [CHR 0x0C]
      else if c = CHR ''n'' then [LF] else if c = CHR ''r'' then [CR]
      else if c = CHR ''t'' then [TAB] else if c = CHR ''u'' then [] else [c])"

function json_string_loop :: "string \<Rightarrow> nat \<Rightarrow> string \<Rightarrow> string \<times> nat" where
  "json_string_loop s pos acc =
     (if \<not> (pos < length s \<and> s ! pos \<noteq> DQUOTE) then (acc, pos)
      else if s ! pos = BSLASH then
        (if pos + 1 \<ge> length s then (acc, pos + 1)
         else
           let c = s ! (pos + 1);
               pos' = (if c = CHR ''u'' \<and> pos + 1 + 4 < length s then pos + 1 + 4 else pos + 1)
           in json_string_loop s (pos' + 1) (acc @ unescape c))
      else json_string_loop s (pos + 1) (acc @ [s ! pos]))"
  by pat_completeness auto

termination
  by (relation "measure (\<lambda>(s, pos, acc). length s - pos)") auto

declare json_string_loop.simps [simp del]

definition parseJsonString :: "string \<Rightarrow> nat \<Rightarrow> string \<times> nat" where
  "parseJsonString s pos =
     (if pos \<ge> length s \<or> s ! pos \<noteq> DQUOTE then ([], pos)
      else
        let (result, p) = json_string_loop s (pos + 1) []
        in (result, if p < length s \<and> s ! p = DQUOTE then p + 1 else p))"

function json_digits :: "string \<Rightarrow> nat \<Rightarrow> int \<Rightarrow> (int \<times> nat) res" where
  "json_digits s pos val =
     (if pos < length s \<and> isdigit (s ! pos) then
        let v = val * 10 + int (digit_val (s ! pos))
        in if in_int 64 v then json_digits s (pos + 1) v else Inl (Undefined ''signed overflow'')
      else Inr (val, pos))"
  by pat_completeness auto

termination
  by (relation "measure (\<lambda>(s, pos, val). length s - pos)") auto

declare json_digits.simps [simp del]

definition parseJsonNumber :: "string \<Rightarrow> nat \<Rightarrow> (int \<times> nat) res" where
  "parseJsonNumber s pos0 =
     (let pos = skipWhitespace s pos0;
          negative = (pos < length s \<and> s ! pos = CHR ''-'')
      in rbind (json_digits s (if negative then pos + 1 else pos) 0) (\<lambda>(v, p).
         Inr (if negative then - v else v, p)))"

definition parseJsonValue :: "string \<Rightarrow> nat \<Rightarrow> string \<Rightarrow> ezdrop_config \<Rightarrow> (nat \<times> ezdrop_config) res" where
  "parseJsonValue s pos0 key cfg =
     (let pos = skipWhitespace s pos0 in
      if pos \<ge> length s then Inr (pos, cfg)
      else if key = ''port'' then
        rbind (parseJsonNumber s pos) (\<lambda>(v, p). Inr (p, cfg\<lparr>ec_port := to_unsigned 16 v\<rparr>))
      else if key = ''storage_dir'' then
        (let (v, p) = parseJsonString s pos in Inr (p, cfg\<lparr>ec_storageDir := v\<rparr>))
      else if key = ''max_file_size_mb'' then
        rbind (parseJsonNumber s pos) (\<lambda>(v, p). Inr (p, cfg\<lparr>ec_maxFileSizeMb := to_unsigned 64 v\<rparr>))
      else if key = ''max_concurrent_downloads'' then
        rbind (parseJsonNumber s pos) (\<lambda>(v, p). Inr (p, cfg\<lparr>ec_maxConcurrentDownloads := to_signed 32 v\<rparr>))
      else if key = ''default_expire_minutes'' then
        rbind (parseJsonNumber s pos) (\<lambda>(v, p). Inr (p, cfg\<lparr>ec_defaultExpireMinutes := to_signed 32 v\<rparr>))
      else if key = ''max_expire_minutes'' then
        rbind (parseJsonNumber s pos) (\<lambda>(v, p). Inr (p, cfg\<lparr>ec_maxExpireMinutes := to_signed 32 v\<rparr>))
      else if s ! pos = DQUOTE then Inr (snd (parseJsonString s pos), cfg)
      else rbind (parseJsonNumber s pos) (\<lambda>(v, p). Inr (p, cfg)))"

fun config_loop :: "nat \<Rightarrow> string \<Rightarrow> nat \<Rightarrow> ezdrop_config \<Rightarrow> ezdrop_config res" where
  "config_loop 0 s pos0 cfg = Inl OutOfFuel"
| "config_loop (Suc n) s pos0 cfg =
     (if \<not> pos0 < length s then Inr cfg
      else
        let pos = skipWhitespace s pos0 in
        if pos \<ge> length s then Inr cfg
        else if s ! pos = CHR ''}'' then Inr cfg
        else if s ! pos = CHR '','' then config_loop n s (pos + 1) cfg
        else
          let (key, p1) = parseJsonString s pos;
              p2 = skipWhitespace s p1;
              p3 = (if p2 < length s \<and> s ! p2 = CHR '':'' then p2 + 1 else p2);
              p4 = skipWhitespace s p3
          in rbind (parseJsonValue s p4 key cfg) (\<lambda>(p5, cfg').
             config_loop n s (skipWhitespace s p5) cfg'))"

definition parseConfigJson :: "nat \<Rightarrow> string \<Rightarrow> ezdrop_config res" where
  "parseConfigJson n json =
     (let pos = skipWhitespace json 0 in
      if pos \<ge> length json \<or> json ! pos \<noteq> CHR ''{'' then Inr ezdrop_defaults
      else config_loop n json (pos + 1) ezdrop_defaults)"

text \<open>\<^verbatim>\<open>loadConfigFile\<close>: the contents of the file, or nothing when it cannot be opened.\<close>

definition loadConfigFile :: "nat \<Rightarrow> string option \<Rightarrow> ezdrop_config res" where
  "loadConfigFile n opened =
     (case opened of None \<Rightarrow> Inr ezdrop_defaults | Some json \<Rightarrow> parseConfigJson n json)"

section \<open>Reading at a position\<close>

text \<open>
  Each lemma says what a function does at the position where the text continues as given:
  the text is \<open>a @ ...\<close> and the position \<open>length a\<close>.
\<close>

lemma skipWhitespace_at:
  assumes "s = a @ w @ rest" and "\<forall>c\<in>set w. json_space c" and "rest = [] \<or> \<not> json_space (hd rest)"
  shows "skipWhitespace s (length a) = length (a @ w)"
proof -
  have "takeWhile json_space (w @ rest) = w"
    using assms(2,3) by (cases rest) (auto simp: takeWhile_append)
  then show ?thesis
    by (simp add: assms(1) skipWhitespace_def)
qed

definition escape :: "char \<Rightarrow> string" where
  "escape c = (if c = DQUOTE \<or> c = BSLASH then [BSLASH, c] else [c])"

definition json_quote :: "string \<Rightarrow> string" where
  "json_quote t = DQUOTE # concat (map escape t) @ [DQUOTE]"

lemma json_string_loop_at:
  "s = a @ concat (map escape t) @ DQUOTE # rest \<Longrightarrow>
   json_string_loop s (length a) acc = (acc @ t, length (a @ concat (map escape t)))"
proof (induction t arbitrary: a acc)
  case Nil
  then show ?case
    by (subst json_string_loop.simps) simp
next
  case (Cons c t)
  let ?a = "a @ escape c"
  have s: "s = ?a @ concat (map escape t) @ DQUOTE # rest"
    using Cons.prems by simp
  note IH = Cons.IH [OF s, of "acc @ [c]"]
  show ?case
  proof (cases "c = DQUOTE \<or> c = BSLASH")
    case True
    have "unescape c = [c]"
      using True by (auto simp: unescape_def)
    moreover have "s ! length a = BSLASH" "s ! Suc (length a) = c" "Suc (length a) < length s" "c \<noteq> CHR ''u''"
      using True by (auto simp: s escape_def nth_append)
    moreover have "escape c = [BSLASH, c]"
      using True by (simp add: escape_def)
    ultimately show ?thesis
      using IH by (subst json_string_loop.simps) (auto simp: Let_def)
  next
    case False
    then have "s ! length a = c" "length a < length s"
      by (auto simp: s escape_def nth_append)
    moreover have "escape c = [c]"
      using False by (simp add: escape_def)
    ultimately show ?thesis
      using IH False by (subst json_string_loop.simps) simp
  qed
qed

lemma parseJsonString_at:
  assumes "s = a @ json_quote t @ rest"
  shows "parseJsonString s (length a) = (t, length (a @ json_quote t))"
proof -
  have s: "s = (a @ [DQUOTE]) @ concat (map escape t) @ DQUOTE # rest"
    using assms by (simp add: json_quote_def)
  have "s ! length (a @ DQUOTE # concat (map escape t)) = DQUOTE"
    unfolding s by (simp add: nth_append)
  moreover have "s ! length a = DQUOTE" "length a < length s"
    by (simp_all add: s)
  ultimately show ?thesis
    using json_string_loop_at [OF s, of "[]"]
    by (simp add: parseJsonString_def) (simp add: s json_quote_def)
qed

lemma dec_value_ge: "acc \<le> dec_value acc ds"
  by (induction ds arbitrary: acc) (simp, metis add_leD1 dec_value.simps(2) le_trans mult_le_mono1 nat_mult_1 one_le_numeral)

lemma json_digits_at:
  "s = a @ ds @ rest \<Longrightarrow> \<forall>c\<in>set ds. isdigit c \<Longrightarrow> rest = [] \<or> \<not> isdigit (hd rest) \<Longrightarrow>
   dec_value m ds < 2 ^ 63 \<Longrightarrow>
   json_digits s (length a) (int m) = Inr (int (dec_value m ds), length (a @ ds))"
proof (induction ds arbitrary: a m)
  case Nil
  then show ?case
    by (subst json_digits.simps) (cases rest; auto)
next
  case (Cons d ds)
  have s: "s = (a @ [d]) @ ds @ rest"
    using Cons.prems(1) by simp
  let ?m = "10 * m + digit_val d"
  have "?m < 2 ^ 63"
    using Cons.prems(4) dec_value_ge [of ?m ds] by simp
  then have "in_int 64 (int m * 10 + int (digit_val d))"
    by (simp add: in_int_def)
  moreover have "int m * 10 + int (digit_val d) = int ?m"
    by simp
  moreover have "s ! length a = d" "length a < length s"
    by (simp_all add: s nth_append)
  ultimately show ?case
    using Cons.IH [OF s, of ?m] Cons.prems(2-4) by (subst json_digits.simps) (simp add: Let_def mult.commute [of "int m" 10])
qed

lemma not_space_digit: "isdigit c \<Longrightarrow> \<not> json_space c"
  by (auto simp: isdigit_def json_space_def code_def)

lemma skipWhitespace_id:
  "s = a @ rest \<Longrightarrow> rest = [] \<or> \<not> json_space (hd rest) \<Longrightarrow> skipWhitespace s (length a) = length a"
  using skipWhitespace_at [of s a "[]" rest] by simp

lemma parseJsonNumber_at:
  assumes s: "s = a @ int_to_string v @ rest" and v: "\<bar>v\<bar> < 2 ^ 63" and rest: "rest = [] \<or> \<not> isdigit (hd rest)"
  shows "parseJsonNumber s (length a) = Inr (v, length (a @ int_to_string v))"
proof (cases "v < 0")
  case True
  define ds where "ds = nat_to_string (nat (- v))"
  have s': "s = (a @ ''-'') @ ds @ rest"
    using s True by (simp add: int_to_string_def ds_def)
  have skip: "skipWhitespace s (length a) = length a"
    by (rule skipWhitespace_id [of s a "''-'' @ ds @ rest"]) (simp_all add: s' json_space_def)
  have "json_digits s (length (a @ ''-'')) (int 0) = Inr (int (dec_value 0 ds), length ((a @ ''-'') @ ds))"
    using v rest True nat_to_string_digits
    by (intro json_digits_at [OF s']) (auto simp: ds_def dec_value_nat_to_string)
  moreover have "s ! length a = CHR ''-''" "length a < length s"
    by (simp_all add: s' nth_append)
  ultimately show ?thesis
    using True by (simp add: parseJsonNumber_def skip ds_def dec_value_nat_to_string int_to_string_def)
next
  case False
  define ds where "ds = nat_to_string (nat v)"
  have s': "s = a @ ds @ rest"
    using s False by (simp add: int_to_string_def ds_def)
  obtain c cs where c: "ds = c # cs" "isdigit c"
    unfolding ds_def by (rule nat_to_string_Cons)
  have skip: "skipWhitespace s (length a) = length a"
    by (rule skipWhitespace_id [of s a "ds @ rest"]) (simp_all add: s' c not_space_digit)
  have "json_digits s (length a) (int 0) = Inr (int (dec_value 0 ds), length (a @ ds))"
    using v rest False nat_to_string_digits
    by (intro json_digits_at [OF s']) (auto simp: ds_def dec_value_nat_to_string)
  moreover have "s ! length a \<noteq> CHR ''-''"
    using c by (auto simp: s' nth_append)
  ultimately show ?thesis
    using False by (simp add: parseJsonNumber_def skip ds_def dec_value_nat_to_string int_to_string_def)
qed

section \<open>Documents\<close>

text \<open>A member of the object with the white space around its parts.\<close>

datatype json_value = JNum int | JStr string

record json_member =
  jm_before :: string
  jm_key :: string
  jm_after_key :: string
  jm_before_value :: string
  jm_value :: json_value
  jm_after :: string

fun value_text :: "json_value \<Rightarrow> string" where
  "value_text (JNum v) = int_to_string v"
| "value_text (JStr t) = json_quote t"

definition member_text :: "json_member \<Rightarrow> string" where
  "member_text m =
     jm_before m @ json_quote (jm_key m) @ jm_after_key m @ '':'' @ jm_before_value m
     @ value_text (jm_value m) @ jm_after m"

fun members_text :: "json_member list \<Rightarrow> string" where
  "members_text [] = []"
| "members_text [m] = member_text m"
| "members_text (m # m' # ms) = member_text m @ '','' @ members_text (m' # ms)"

definition number_keys :: "string set" where
  "number_keys = {''port'', ''max_file_size_mb'', ''max_concurrent_downloads'', ''default_expire_minutes'',
                  ''max_expire_minutes''}"

fun value_ok :: "string \<Rightarrow> json_value \<Rightarrow> bool" where
  "value_ok k (JNum v) \<longleftrightarrow> k \<noteq> ''storage_dir'' \<and> \<bar>v\<bar> < 2 ^ 63"
| "value_ok k (JStr t) \<longleftrightarrow> k \<notin> number_keys"

definition spaces :: "string \<Rightarrow> bool" where
  "spaces w \<longleftrightarrow> (\<forall>c\<in>set w. json_space c)"

definition member_ok :: "json_member \<Rightarrow> bool" where
  "member_ok m \<longleftrightarrow>
     spaces (jm_before m) \<and> spaces (jm_after_key m) \<and> spaces (jm_before_value m) \<and> spaces (jm_after m)
     \<and> value_ok (jm_key m) (jm_value m)"

text \<open>What a member means: a setting of the configuration, or nothing for an unknown key.\<close>

fun assign :: "string \<Rightarrow> json_value \<Rightarrow> ezdrop_config \<Rightarrow> ezdrop_config" where
  "assign k (JStr t) cfg = (if k = ''storage_dir'' then cfg\<lparr>ec_storageDir := t\<rparr> else cfg)"
| "assign k (JNum v) cfg =
     (if k = ''port'' then cfg\<lparr>ec_port := to_unsigned 16 v\<rparr>
      else if k = ''max_file_size_mb'' then cfg\<lparr>ec_maxFileSizeMb := to_unsigned 64 v\<rparr>
      else if k = ''max_concurrent_downloads'' then cfg\<lparr>ec_maxConcurrentDownloads := to_signed 32 v\<rparr>
      else if k = ''default_expire_minutes'' then cfg\<lparr>ec_defaultExpireMinutes := to_signed 32 v\<rparr>
      else if k = ''max_expire_minutes'' then cfg\<lparr>ec_maxExpireMinutes := to_signed 32 v\<rparr>
      else cfg)"

lemma spaces_simps [simp]: "spaces []" "spaces (a @ b) \<longleftrightarrow> spaces a \<and> spaces b"
  by (auto simp: spaces_def)

lemma not_space_punctuation [simp]:
  "\<not> json_space (CHR '':'')" "\<not> json_space (CHR '','')" "\<not> json_space (CHR ''}'')" "\<not> json_space (CHR ''{'')"
  "\<not> json_space DQUOTE" "\<not> json_space (CHR ''-'')"
  by (simp_all add: json_space_def)

lemma not_digit_punctuation [simp]: "\<not> isdigit (CHR '','')" "\<not> isdigit (CHR ''}'')"
  by (simp_all add: isdigit_def code_def)

lemma space_not_digit: "json_space c \<Longrightarrow> \<not> isdigit c"
  using not_space_digit by blast

lemma value_text_start:
  obtains c cs where "value_text v = c # cs" and "\<not> json_space c"
proof (cases v)
  case (JNum i)
  obtain c cs where "nat_to_string (nat \<bar>i\<bar>) = c # cs" "isdigit c"
    by (rule nat_to_string_Cons)
  with JNum that show ?thesis
    by (cases "i < 0") (auto simp: int_to_string_def not_space_digit)
next
  case (JStr t)
  with that show ?thesis
    by (auto simp: json_quote_def)
qed

lemma parseJsonValue_at:
  assumes s: "s = a @ value_text v @ rest" and ok: "value_ok k v" and rest: "rest = [] \<or> \<not> isdigit (hd rest)"
  shows "parseJsonValue s (length a) k cfg = Inr (length (a @ value_text v), assign k v cfg)"
proof -
  obtain c cs where c: "value_text v = c # cs" "\<not> json_space c"
    by (rule value_text_start)
  have skip: "skipWhitespace s (length a) = length a"
    by (rule skipWhitespace_id [of s a "value_text v @ rest"]) (simp_all add: s c)
  have at: "length a < length s" "s ! length a = c"
    by (simp_all add: s c nth_append)
  show ?thesis
  proof (cases v)
    case (JNum i)
    with s ok have n: "parseJsonNumber s (length a) = Inr (i, length (a @ int_to_string i))"
      by (intro parseJsonNumber_at [OF _ _ rest]) simp_all
    have "c \<noteq> DQUOTE"
    proof -
      obtain d ds where "nat_to_string (nat \<bar>i\<bar>) = d # ds" "isdigit d"
        by (rule nat_to_string_Cons)
      then show ?thesis
        using c(1) JNum by (auto simp: int_to_string_def isdigit_def code_def split: if_splits)
    qed
    with JNum ok at n show ?thesis
      by (simp add: parseJsonValue_def skip)
  next
    case (JStr t)
    with s have "parseJsonString s (length a) = (t, length (a @ json_quote t))"
      by (intro parseJsonString_at) simp
    moreover have "c = DQUOTE"
      using c JStr by (simp add: json_quote_def)
    ultimately show ?thesis
      using JStr ok at by (simp add: parseJsonValue_def skip number_keys_def)
  qed
qed

lemma config_loop_member:
  assumes s: "s = a @ member_text m @ x # rest" and ok: "member_ok m" and x: "x = CHR '','' \<or> x = CHR ''}''"
  shows "config_loop (Suc n) s (length a) cfg
    = config_loop n s (length (a @ member_text m)) (assign (jm_key m) (jm_value m) cfg)"
proof -
  obtain w1 k w2 w3 v w4 where m: "m = \<lparr>jm_before = w1, jm_key = k, jm_after_key = w2, jm_before_value = w3,
      jm_value = v, jm_after = w4\<rparr>"
    by (cases m)
  have sp: "\<forall>c\<in>set w1. json_space c" "\<forall>c\<in>set w2. json_space c" "\<forall>c\<in>set w3. json_space c"
      "\<forall>c\<in>set w4. json_space c" and v: "value_ok k v"
    using ok by (simp_all add: m member_ok_def spaces_def)
  let ?p = "a @ w1" and ?q = "a @ w1 @ json_quote k" and ?r = "a @ w1 @ json_quote k @ w2"
  let ?t = "?r @ '':'' @ w3" and ?u = "?r @ '':'' @ w3 @ value_text v"
  have s': "s = a @ w1 @ json_quote k @ w2 @ '':'' @ w3 @ value_text v @ w4 @ x # rest"
    by (simp add: s m member_text_def)
  obtain c cs where c: "value_text v = c # cs" "\<not> json_space c"
    by (rule value_text_start)
  obtain y ys where y: "w4 @ x # rest = y # ys" "\<not> isdigit y"
    using x sp(4) by (cases w4) (auto simp: space_not_digit)
  have 1: "skipWhitespace s (length a) = length ?p"
    by (rule skipWhitespace_at [OF s' sp(1)]) (simp add: json_quote_def)
  have 2: "parseJsonString s (length ?p) = (k, length ?q)"
    using parseJsonString_at [of s ?p k] s' by simp
  have 3: "skipWhitespace s (length ?q) = length ?r"
    using skipWhitespace_at [of s ?q w2 "'':'' @ w3 @ value_text v @ w4 @ x # rest"] s' sp(2) by simp
  have 4: "skipWhitespace s (length (?r @ '':'')) = length ?t"
    using skipWhitespace_at [of s "?r @ '':''" w3 "value_text v @ w4 @ x # rest"] s' sp(3) c by simp
  have 5: "parseJsonValue s (length ?t) k cfg = Inr (length ?u, assign k v cfg)"
    using parseJsonValue_at [of s ?t v "w4 @ x # rest" k cfg] s' v y by simp
  have 6: "skipWhitespace s (length ?u) = length (?u @ w4)"
    using skipWhitespace_at [of s ?u w4 "x # rest"] s' sp(4) x by auto
  have at: "length a < length s" "length ?p < length s" "s ! length ?p = DQUOTE" "length ?r < length s"
      "s ! length ?r = CHR '':''"
    by (simp_all add: s' nth_append json_quote_def)
  have r1: "length ?r + 1 = length (?r @ '':'')"
    by simp
  show ?thesis
    using at(1-3) unfolding config_loop.simps Let_def 1 2 prod.case 3 if_P [OF conjI [OF at(4,5)]] r1 4 5 rbind_simps 6
    by (simp add: m member_text_def)
qed

lemma config_loop_comma:
  assumes "s = a @ '','' @ rest"
  shows "config_loop (Suc n) s (length a) cfg = config_loop n s (length (a @ '','')) cfg"
proof -
  have "skipWhitespace s (length a) = length a" "s ! length a = CHR '',''" "length a < length s"
    using skipWhitespace_id [OF assms] by (simp_all add: assms nth_append)
  then show ?thesis
    by simp
qed

lemma config_loop_end:
  assumes "s = a @ ''}'' @ rest"
  shows "config_loop (Suc n) s (length a) cfg = Inr cfg"
proof -
  have "skipWhitespace s (length a) = length a" "s ! length a = CHR ''}''" "length a < length s"
    using skipWhitespace_id [OF assms] by (simp_all add: assms nth_append)
  then show ?thesis
    by simp
qed

definition assign_all :: "json_member list \<Rightarrow> ezdrop_config \<Rightarrow> ezdrop_config" where
  "assign_all ms cfg = fold (\<lambda>m. assign (jm_key m) (jm_value m)) ms cfg"

lemma config_loop_members:
  "s = a @ members_text ms @ ''}'' @ rest \<Longrightarrow> \<forall>m\<in>set ms. member_ok m \<Longrightarrow> 2 * length ms < n \<Longrightarrow>
   config_loop n s (length a) cfg = Inr (assign_all ms cfg)"
proof (induction ms arbitrary: a n cfg rule: members_text.induct)
  case 1
  then obtain k where "n = Suc k" by (cases n) auto
  with 1 config_loop_end [of s a] show ?case
    by (simp add: assign_all_def)
next
  case (2 m)
  then obtain k where k: "n = Suc (Suc k)"
    by (metis Suc_less_eq2 length_Cons list.size(3) mult_2 add_Suc_right add.right_neutral less_Suc_eq_0_disj)
  have "s = a @ member_text m @ CHR ''}'' # rest" "s = (a @ member_text m) @ ''}'' @ rest"
    using 2 by simp_all
  then show ?case
    using 2 config_loop_member [of s a m "CHR ''}''" rest] config_loop_end [of s "a @ member_text m"]
    unfolding k by (simp add: assign_all_def)
next
  case (3 m m' ms)
  then obtain k where k: "n = Suc (Suc k)" and "2 * length (m' # ms) < k"
    by (cases n; cases "n - 1") auto
  let ?t = "members_text (m' # ms)" and ?b = "(a @ member_text m) @ '',''"
  have s: "s = a @ member_text m @ CHR '','' # (?t @ ''}'' @ rest)" "s = (a @ member_text m) @ '','' @ (?t @ ''}'' @ rest)"
      "s = ?b @ ?t @ ''}'' @ rest"
    using 3 by simp_all
  have "config_loop n s (length a) cfg = config_loop k s (length ?b) (assign (jm_key m) (jm_value m) cfg)"
    using 3 config_loop_member [OF s(1)] config_loop_comma [OF s(2)] by (simp add: k del: config_loop.simps)
  also have "\<dots> = Inr (assign_all (m' # ms) (assign (jm_key m) (jm_value m) cfg))"
    using 3 \<open>2 * length (m' # ms) < k\<close> by (intro "3.IH" [OF s(3)]) auto
  finally show ?case
    by (simp add: assign_all_def)
qed

definition json_document :: "string \<Rightarrow> json_member list \<Rightarrow> string \<Rightarrow> string" where
  "json_document w ms rest = w @ ''{'' @ members_text ms @ ''}'' @ rest"



section \<open>Values the reader does not know\<close>

definition stuck_char :: "char \<Rightarrow> bool" where
  "stuck_char c \<longleftrightarrow>
     \<not> json_space c \<and> \<not> isdigit c
     \<and> c \<noteq> CHR ''}'' \<and> c \<noteq> CHR '','' \<and> c \<noteq> CHR '':'' \<and> c \<noteq> CHR ''-'' \<and> c \<noteq> DQUOTE"

lemma stuck_value:
  assumes s: "s = a @ c # rest" and c: "stuck_char c"
  shows "\<exists>cfg'. parseJsonValue s (length a) k cfg = Inr (length a, cfg')"
proof -
  have at: "length a < length s" "s ! length a = c"
    by (simp_all add: s)
  have skip: "skipWhitespace s (length a) = length a"
    by (rule skipWhitespace_id [OF s]) (use c in \<open>simp add: stuck_char_def\<close>)
  have "json_digits s (length a) 0 = Inr (0, length a)"
    by (subst json_digits.simps) (use at c in \<open>simp add: stuck_char_def\<close>)
  then have "parseJsonNumber s (length a) = Inr (0, length a)"
    using at c by (simp add: parseJsonNumber_def skip stuck_char_def)
  moreover have "parseJsonString s (length a) = ([], length a)"
    using at c by (simp add: parseJsonString_def stuck_char_def)
  ultimately show ?thesis
    using at c by (auto simp: parseJsonValue_def Let_def skip stuck_char_def)
qed

lemma config_loop_stuck:
  assumes s: "s = a @ c # rest" and c: "stuck_char c"
  shows "config_loop n s (length a) cfg = Inl OutOfFuel"
proof (induction n arbitrary: cfg)
  case (Suc n)
  have at: "length a < length s" "s ! length a = c"
    by (simp_all add: s)
  have skip: "skipWhitespace s (length a) = length a"
    by (rule skipWhitespace_id [OF s]) (use c in \<open>simp add: stuck_char_def\<close>)
  have "parseJsonString s (length a) = ([], length a)"
    using at c by (simp add: parseJsonString_def stuck_char_def)
  moreover obtain cfg' where "parseJsonValue s (length a) [] cfg = Inr (length a, cfg')"
    using stuck_value [OF s c] by blast
  ultimately show ?case
    using at c by (simp add: skip Let_def stuck_char_def Suc.IH)
qed simp

text \<open>
  A value the reader does not know makes it loop for ever. If the value of the first
  member, whatever its key, starts with a character that starts neither a number nor a
  string (as in \<^verbatim>\<open>true\<close>, \<^verbatim>\<open>null\<close> or an array), the position stops moving there: no number of
  iterations is enough, so \<^verbatim>\<open>loadConfigFile\<close> does not return.
\<close>

theorem config_json_hangs:
  assumes "stuck_char c" and "spaces w"
  shows "parseConfigJson n (''{'' @ json_quote k @ '':'' @ w @ c # rest) = Inl OutOfFuel"
proof -
  let ?s = "''{'' @ json_quote k @ '':'' @ w @ c # rest"
  let ?q = "''{'' @ json_quote k"
  have s: "?s = (?q @ '':'' @ w) @ c # rest"
    by simp
  have 0: "skipWhitespace ?s 0 = 0"
    using skipWhitespace_id [of ?s "[]" ?s] by simp
  have 1: "skipWhitespace ?s (length ''{'') = length ''{''"
    by (rule skipWhitespace_id [of ?s "''{''" "json_quote k @ '':'' @ w @ c # rest"]) (simp_all add: json_quote_def)
  have 2: "parseJsonString ?s (length ''{'') = (k, length ?q)"
    by (rule parseJsonString_at) simp
  have 3: "skipWhitespace ?s (length ?q) = length ?q"
    by (rule skipWhitespace_id [of ?s ?q "'':'' @ w @ c # rest"]) simp_all
  have 4: "skipWhitespace ?s (length (?q @ '':'')) = length (?q @ '':'' @ w)"
    using skipWhitespace_at [of ?s "?q @ '':''" w "c # rest"] assms by (simp add: stuck_char_def spaces_def)
  obtain cfg' where 5: "parseJsonValue ?s (length (?q @ '':'' @ w)) k ezdrop_defaults = Inr (length (?q @ '':'' @ w), cfg')"
    using stuck_value [OF s assms(1)] by blast
  have 6: "skipWhitespace ?s (length (?q @ '':'' @ w)) = length (?q @ '':'' @ w)"
    by (rule skipWhitespace_id [OF s]) (use assms in \<open>simp add: stuck_char_def\<close>)
  have at: "length ''{'' < length ?s" "?s ! length ''{'' = DQUOTE" "length ?q < length ?s" "?s ! length ?q = CHR '':''"
    by (simp_all add: json_quote_def nth_append)
  have q1: "length ?q + 1 = length (?q @ '':'')"
    by simp
  have "config_loop n ?s (length ''{'') ezdrop_defaults = Inl OutOfFuel"
  proof (cases n)
    case (Suc m)
    show ?thesis
      using at(1,2) config_loop_stuck [OF s assms(1), of m cfg']
      unfolding Suc config_loop.simps Let_def 1 2 prod.case 3 if_P [OF conjI [OF at(3,4)]] q1 4 5 rbind_simps 6
      by simp
  qed simp
  moreover have "parseConfigJson n ?s = config_loop n ?s (length ''{'') ezdrop_defaults"
    unfolding parseConfigJson_def 0 Let_def by simp
  ultimately show ?thesis
    by simp
qed

theorem config_json_hangs_witness:
  "\<forall>n. parseConfigJson n (''{'' @ json_quote ''debug'' @ '':'' @ '' '' @ CHR ''t'' # ''rue}'') = Inl OutOfFuel"
proof
  fix n
  have "stuck_char (CHR ''t'')" "spaces '' ''"
    by (simp_all add: stuck_char_def spaces_def json_space_def isdigit_def code_def)
  then show "parseConfigJson n (''{'' @ json_quote ''debug'' @ '':'' @ '' '' @ CHR ''t'' # ''rue}'') = Inl OutOfFuel"
    by (rule config_json_hangs)
qed

end
