(* ===== verification/Multipart.thy ===== *)
theory Multipart
  imports EzPrelude
begin

text \<open>
  The body of an upload and the names in it (\<^verbatim>\<open>examples/ezdrop/EzdropServer.cpp\<close>, lines 177 to
  319): the boundary of a multipart body, its parts, and the file names that are made safe.
  \<^verbatim>\<open>dataEnd - dataStart\<close> is a difference of \<^verbatim>\<open>size_t\<close> values and wraps when it is negative.
\<close>

section \<open>Parsing\<close>

record multipart_part =
  mp_name :: string
  mp_filename :: string
  mp_contentType :: string
  mp_data :: string

definition boundary_prefix :: string where "boundary_prefix = ''boundary=''"

definition extractBoundary :: "string \<Rightarrow> string" where
  "extractBoundary contentType =
     (case find_str boundary_prefix contentType 0 of
        None \<Rightarrow> []
      | Some pos \<Rightarrow>
          let boundary = substr_from (pos + length boundary_prefix) contentType
          in if boundary \<noteq> [] \<and> hd boundary = DQUOTE then
               (let b = tl boundary in
                case find_char DQUOTE b 0 of None \<Rightarrow> b | Some endQ \<Rightarrow> take endQ b)
             else boundary)"

definition extractHeaderValue :: "string \<Rightarrow> string \<Rightarrow> string" where
  "extractHeaderValue headers key =
     (case find_str (key @ [CHR ''='', DQUOTE]) headers 0 of
        None \<Rightarrow> []
      | Some keyPos \<Rightarrow>
          let valStart = keyPos + length key + 2
          in case find_char DQUOTE headers valStart of
               None \<Rightarrow> []
             | Some valEnd \<Rightarrow> substr valStart (valEnd - valStart) headers)"

definition blank :: "char \<Rightarrow> bool" where
  "blank c \<longleftrightarrow> c = CHR '' '' \<or> c = TAB"

definition extractContentType :: "string \<Rightarrow> string" where
  "extractContentType headersBlock =
     (case find_str ''Content-Type:'' headersBlock 0 of
        None \<Rightarrow> []
      | Some ctPos \<Rightarrow>
          let ctValStart = ctPos + 13 + length (takeWhile blank (drop (ctPos + 13) headersBlock));
              ctValEnd =
                (case find_char CR headersBlock ctValStart of
                   Some e \<Rightarrow> e
                 | None \<Rightarrow>
                     (case find_char LF headersBlock ctValStart of
                        Some e \<Rightarrow> e
                      | None \<Rightarrow> length headersBlock))
          in substr ctValStart (ctValEnd - ctValStart) headersBlock)"

definition skip_char :: "char \<Rightarrow> string \<Rightarrow> nat \<Rightarrow> nat" where
  "skip_char c body p = (if p < length body \<and> body ! p = c then p + 1 else p)"

text \<open>The position where the data of a part ends, and the part itself.\<close>

definition data_end :: "string \<Rightarrow> string \<Rightarrow> nat \<Rightarrow> nat" where
  "data_end body delimiter dataStart =
     (let e = (case find_str delimiter body dataStart of Some i \<Rightarrow> i | None \<Rightarrow> length body)
      in if e \<ge> 2 \<and> body ! (e - 2) = CR \<and> body ! (e - 1) = LF then e - 2 else e)"

definition make_part :: "string \<Rightarrow> string \<Rightarrow> nat \<Rightarrow> nat \<Rightarrow> multipart_part" where
  "make_part body headersBlock dataStart dataEnd =
     \<lparr>mp_name = extractHeaderValue headersBlock ''name'',
      mp_filename = extractHeaderValue headersBlock ''filename'',
      mp_contentType = extractContentType headersBlock,
      mp_data = substr dataStart (nat (to_unsigned 64 (int dataEnd - int dataStart))) body\<rparr>"

text \<open>One turn of the loop: the next part and the position behind it; \<open>None\<close> is \<^verbatim>\<open>break\<close>.\<close>

definition next_part :: "string \<Rightarrow> string \<Rightarrow> nat \<Rightarrow> (multipart_part \<times> nat) option" where
  "next_part body boundary pos =
     (let delimiter = ''--'' @ boundary; endDelimiter = delimiter @ ''--'' in
      case find_str delimiter body pos of
        None \<Rightarrow> None
      | Some delimStart \<Rightarrow>
          if substr delimStart (length endDelimiter) body = endDelimiter then None
          else
            let partStart = skip_char LF body (skip_char CR body (delimStart + length delimiter))
            in case find_str (crlf @ crlf) body partStart of
                 None \<Rightarrow> None
               | Some headerEnd \<Rightarrow>
                   let headersBlock = substr partStart (headerEnd - partStart) body;
                       dataStart = headerEnd + 4;
                       dataEnd = data_end body delimiter dataStart
                   in Some (make_part body headersBlock dataStart dataEnd, dataEnd))"

lemma skip_char_bounds: "p \<le> skip_char c body p"
  by (simp add: skip_char_def)

lemma data_end_bound:
  assumes "dataStart \<le> length body"
  shows "dataStart \<le> data_end body delimiter dataStart + 2"
  using assms find_str_SomeD(1) [of delimiter body dataStart]
  by (auto simp: data_end_def Let_def split: option.split)

lemma next_part_advances:
  assumes "next_part body boundary pos = Some (part, pos')"
  shows "pos < pos'"
proof -
  let ?d = "''--'' @ boundary"
  from assms obtain ds he where ds: "find_str ?d body pos = Some ds"
      and he: "find_str (crlf @ crlf) body
          (skip_char LF body (skip_char CR body (ds + length ?d))) = Some he"
      and pos': "pos' = data_end body ?d (he + 4)"
    by (auto simp: next_part_def Let_def split: option.splits if_splits)
  have "pos \<le> ds"
    using find_str_SomeD(1) [OF ds] .
  moreover have "ds + length ?d \<le> skip_char LF body (skip_char CR body (ds + length ?d))"
    using skip_char_bounds le_trans by blast
  moreover have "skip_char LF body (skip_char CR body (ds + length ?d)) \<le> he" "he + 4 \<le> length body"
    using find_str_SomeD(1,2) [OF he] by simp_all
  moreover note data_end_bound [of "he + 4" body ?d]
  ultimately show ?thesis
    unfolding pos' by simp
qed

function parts_from :: "string \<Rightarrow> string \<Rightarrow> nat \<Rightarrow> multipart_part list" where
  "parts_from body boundary pos =
     (if pos < length body then
        case next_part body boundary pos of
          None \<Rightarrow> []
        | Some (part, pos') \<Rightarrow> part # parts_from body boundary pos'
      else [])"
  by pat_completeness auto

termination
  by (relation "measure (\<lambda>(body, boundary, pos). length body - pos)")
    (auto dest: next_part_advances)

declare parts_from.simps [simp del]

definition parseMultipart :: "string \<Rightarrow> string \<Rightarrow> multipart_part list" where
  "parseMultipart body boundary = parts_from body boundary 0"

section \<open>File names\<close>

definition slashes :: "string \<Rightarrow> string" where
  "slashes name = map (\<lambda>c. if c = BSLASH then CHR ''/'' else c) name"

function path_segments :: "string \<Rightarrow> nat \<Rightarrow> string list" where
  "path_segments name start =
     (if start < length name then
        case find_char (CHR ''/'') name start of
          None \<Rightarrow> [substr_from start name]
        | Some slash \<Rightarrow> substr start (slash - start) name # path_segments name (slash + 1)
      else [])"
  by pat_completeness auto

termination
  by (relation "measure (\<lambda>(name, start). length name - start)") (auto dest: find_char_SomeD)

declare path_segments.simps [simp del]

definition add_segment :: "string \<Rightarrow> string \<Rightarrow> string" where
  "add_segment result segment =
     (if segment = [] \<or> segment = ''.'' then result
      else (if result \<noteq> [] then result @ ''/'' else result) @ segment)"

definition sanitizeFilename :: "string \<Rightarrow> bool \<Rightarrow> string" where
  "sanitizeFilename filename keepStructure =
     (let name0 = slashes filename in
      if find_str ''..'' name0 0 \<noteq> None then []
      else
        let name = dropWhile (\<lambda>c. c = CHR ''/'') name0 in
        if keepStructure then foldl add_segment [] (path_segments name 0)
        else
          let base = (case rfind_char (CHR ''/'') name of None \<Rightarrow> name | Some i \<Rightarrow> substr_from (i + 1) name)
          in if base = [] \<or> base = ''.'' then [] else base)"

section \<open>Searching at a position\<close>

lemma find_str_at: "find_str pat (a @ rest) (length a) = map_option ((+) (length a)) (index_sub pat rest)"
  by (simp add: find_str_def)

lemma substr_at: "substr (length a) (length (a @ x) - length a) (a @ x @ rest) = x"
  by (simp add: substr_def)

lemma drop_at: "drop (length a) (a @ x) = x"
  by simp

lemma find_char_at: "c \<notin> set v \<Longrightarrow> find_char c (a @ v @ c # rest) (length a) = Some (length a + length v)"
  using index_of_append_Cons [of v "\<lambda>d. d = c" c rest] by (auto simp: find_char_def)

lemma index_sub_intro:
  "prefix pat (drop i s) \<Longrightarrow> i \<le> length s \<Longrightarrow> \<forall>j<i. \<not> prefix pat (drop j s) \<Longrightarrow> index_sub pat s = Some i"
proof (induction pat s arbitrary: i rule: index_sub.induct)
  case (2 pat x xs)
  show ?case
  proof (cases i)
    case 0
    with 2 show ?thesis by simp
  next
    case (Suc k)
    have "\<not> prefix pat (x # xs)"
      using 2(4) Suc by (metis drop_0 zero_less_Suc)
    moreover have "\<forall>j<k. \<not> prefix pat (drop j xs)"
      using 2(4) Suc by (metis Suc_mono drop_Suc_Cons)
    ultimately show ?thesis
      using 2 Suc by simp
  qed
qed simp

text \<open>The pattern comes for the first time right after the given text.\<close>

definition occurs_first :: "string \<Rightarrow> string \<Rightarrow> bool" where
  "occurs_first pat xs \<longleftrightarrow> index_sub pat (xs @ pat) = Some (length xs)"

lemma occurs_first_append:
  assumes "occurs_first pat xs"
  shows "index_sub pat (xs @ pat @ ys) = Some (length xs)"
proof (rule index_sub_intro)
  show "\<forall>j<length xs. \<not> prefix pat (drop j (xs @ pat @ ys))"
  proof (intro allI impI notI)
    fix j
    assume j: "j < length xs" and "prefix pat (drop j (xs @ pat @ ys))"
    then have "prefix pat (drop j (xs @ pat) @ ys)"
      by simp
    then have "prefix pat (drop j (xs @ pat))"
      using j by (simp add: prefix_append) (metis append_take_drop_id append.assoc length_append
          le_add2 prefix_def prefix_length_prefix same_prefix_prefix)
    with j index_sub_leastD [of pat "xs @ pat" "length xs" j] assms show False
      by (simp add: occurs_first_def)
  qed
qed simp_all

lemma extractHeaderValue_at:
  assumes "occurs_first (key @ [CHR ''='', DQUOTE]) a" and "DQUOTE \<notin> set v"
  shows "extractHeaderValue (a @ key @ CHR ''='' # DQUOTE # v @ DQUOTE # rest) key = v"
proof -
  let ?pat = "key @ [CHR ''='', DQUOTE]"
  let ?s = "a @ ?pat @ v @ DQUOTE # rest"
  have "find_str ?pat ?s 0 = Some (length a)"
    using occurs_first_append [OF assms(1), of "v @ DQUOTE # rest"] by (simp add: find_str_def)
  moreover have "find_char DQUOTE ?s (length (a @ ?pat)) = Some (length (a @ ?pat) + length v)"
    using find_char_at [OF assms(2), of "a @ ?pat" rest] by simp
  ultimately have "extractHeaderValue ?s key = v"
    by (simp add: extractHeaderValue_def substr_def Let_def)
  then show ?thesis
    by simp
qed

lemma extractHeaderValue_none:
  "index_sub (key @ [CHR ''='', DQUOTE]) s = None \<Longrightarrow> extractHeaderValue s key = []"
  by (simp add: extractHeaderValue_def find_str_def)

section \<open>Bodies as clients write them\<close>

definition header_block :: "multipart_part \<Rightarrow> string" where
  "header_block p =
     ''Content-Disposition: form-data; name='' @ DQUOTE # mp_name p @ [DQUOTE]
     @ (if mp_filename p = [] then [] else ''; filename='' @ DQUOTE # mp_filename p @ [DQUOTE])
     @ (if mp_contentType p = [] then [] else crlf @ ''Content-Type: '' @ mp_contentType p)"

definition part_text :: "string \<Rightarrow> multipart_part \<Rightarrow> string" where
  "part_text b p = ''--'' @ b @ crlf @ header_block p @ crlf @ crlf @ mp_data p @ crlf"

definition multipart_body :: "string \<Rightarrow> multipart_part list \<Rightarrow> string \<Rightarrow> string" where
  "multipart_body b ps epilogue = concat (map (part_text b) ps) @ ''--'' @ b @ ''--'' @ epilogue"

text \<open>
  The texts of a part do not contain what ends them, and the words that introduce the fields
  come first where they are meant.
\<close>

definition before_filename :: "multipart_part \<Rightarrow> string" where
  "before_filename p = ''Content-Disposition: form-data; name='' @ DQUOTE # mp_name p @ DQUOTE # ''; ''"

definition before_type :: "multipart_part \<Rightarrow> string" where
  "before_type p =
     ''Content-Disposition: form-data; name='' @ DQUOTE # mp_name p @ [DQUOTE]
     @ (if mp_filename p = [] then [] else ''; filename='' @ DQUOTE # mp_filename p @ [DQUOTE]) @ crlf"

definition part_ok :: "string \<Rightarrow> multipart_part \<Rightarrow> bool" where
  "part_ok b p \<longleftrightarrow>
     occurs_first (''--'' @ b) (mp_data p @ crlf)
     \<and> occurs_first (crlf @ crlf) (header_block p)
     \<and> DQUOTE \<notin> set (mp_name p) \<and> DQUOTE \<notin> set (mp_filename p)
     \<and> (if mp_filename p = [] then index_sub (''filename='' @ [DQUOTE]) (header_block p) = None
        else occurs_first (''filename='' @ [DQUOTE]) (before_filename p))
     \<and> (if mp_contentType p = [] then index_sub ''Content-Type:'' (header_block p) = None
        else occurs_first ''Content-Type:'' (before_type p)
          \<and> CR \<notin> set (mp_contentType p) \<and> LF \<notin> set (mp_contentType p) \<and> \<not> blank (hd (mp_contentType p)))"

lemma header_block_name:
  assumes "part_ok b p"
  shows "extractHeaderValue (header_block p) ''name'' = mp_name p"
proof -
  let ?a = "''Content-Disposition: form-data; ''"
  have "occurs_first (''name'' @ [CHR ''='', DQUOTE]) ?a"
    by (simp add: occurs_first_def)
  moreover have "DQUOTE \<notin> set (mp_name p)"
    using assms by (simp add: part_ok_def)
  moreover obtain rest where "header_block p = ?a @ ''name'' @ CHR ''='' # DQUOTE # mp_name p @ DQUOTE # rest"
    by (simp add: header_block_def)
  ultimately show ?thesis
    using extractHeaderValue_at by metis
qed

lemma header_block_filename:
  assumes "part_ok b p"
  shows "extractHeaderValue (header_block p) ''filename'' = mp_filename p"
proof (cases "mp_filename p = []")
  case True
  with assms show ?thesis
    by (simp add: part_ok_def extractHeaderValue_none)
next
  case False
  then have *: "occurs_first (''filename'' @ [CHR ''='', DQUOTE]) (before_filename p)" "DQUOTE \<notin> set (mp_filename p)"
    using assms by (simp_all add: part_ok_def)
  obtain rest where "header_block p
      = before_filename p @ ''filename'' @ CHR ''='' # DQUOTE # mp_filename p @ DQUOTE # rest"
    using False by (simp add: header_block_def before_filename_def)
  with extractHeaderValue_at [OF *] show ?thesis
    by metis
qed

lemma header_block_type:
  assumes "part_ok b p"
  shows "extractContentType (header_block p) = mp_contentType p"
proof (cases "mp_contentType p = []")
  case True
  with assms show ?thesis
    by (simp add: part_ok_def extractContentType_def find_str_def)
next
  case False
  let ?t = "mp_contentType p" and ?a = "before_type p"
  have *: "occurs_first ''Content-Type:'' ?a" "CR \<notin> set ?t" "LF \<notin> set ?t" "\<not> blank (hd ?t)"
    using assms False by (simp_all add: part_ok_def)
  have h: "header_block p = ?a @ ''Content-Type:'' @ '' '' @ ?t"
    using False by (simp add: header_block_def before_type_def)
  have pos: "find_str ''Content-Type:'' (header_block p) 0 = Some (length ?a)"
    using occurs_first_append [OF *(1), of "'' '' @ ?t"] by (simp add: h find_str_def)
  have d: "drop (length ?a + 13) (header_block p) = '' '' @ ?t"
    by (simp add: h)
  have d': "drop (14 + length ?a) (header_block p) = ?t" "length (header_block p) = 14 + length ?a + length ?t"
    by (simp_all add: h)
  have "takeWhile blank (drop (length ?a + 13) (header_block p)) = '' ''"
    using *(4) False by (cases ?t) (simp_all add: d blank_def)
  moreover have "find_char c (header_block p) (14 + length ?a) = None" if "c \<notin> set ?t" for c
    using that by (simp add: find_char_None d')
  ultimately show ?thesis
    using *(2,3) by (simp add: extractContentType_def pos substr_def Let_def d')
qed

text \<open>Before a delimiter there is nothing, or the line end that belongs to it.\<close>

lemma find_delimiter:
  assumes "pre = [] \<or> pre = crlf"
  shows "find_str (''--'' @ b) (a @ pre @ ''--'' @ b @ rest) (length a) = Some (length (a @ pre))"
proof -
  have "index_sub (''--'' @ b) (pre @ ''--'' @ b @ rest) = Some (length pre)"
    using assms by auto
  then show ?thesis
    by (simp add: find_str_at)
qed

lemma data_end_at:
  assumes "occurs_first d (data @ crlf)"
  shows "data_end (a @ data @ crlf @ d @ rest) d (length a) = length (a @ data)"
proof -
  let ?s = "a @ data @ crlf @ d @ rest"
  have "find_str d ?s (length a) = Some (length a + length data + 2)"
    using occurs_first_append [OF assms, of rest] by (simp add: find_str_at)
  moreover have "?s ! (length a + length data) = CR" "?s ! (length a + length data + 1) = LF"
    by (simp_all add: nth_append)
  ultimately show ?thesis
    by (simp add: data_end_def Let_def)
qed

lemma next_part_at:
  assumes ok: "part_ok b p" and pre: "pre = [] \<or> pre = crlf" and size: "length s < 2 ^ 64"
    and s: "s = a @ pre @ part_text b p @ ''--'' @ b @ rest"
  shows "next_part s b (length a) = Some (p, length (a @ pre @ ''--'' @ b @ crlf @ header_block p @ crlf @ crlf @ mp_data p))"
proof -
  let ?d = "''--'' @ b"
  let ?h = "header_block p" and ?data = "mp_data p"
  let ?p1 = "a @ pre @ ?d @ crlf" and ?p2 = "a @ pre @ ?d @ crlf @ ?h @ crlf @ crlf"
  have s': "s = a @ pre @ ?d @ crlf @ ?h @ crlf @ crlf @ ?data @ crlf @ ?d @ rest"
    by (simp add: s part_text_def)
  have ds: "find_str ?d s (length a) = Some (length (a @ pre))"
    using find_delimiter [OF pre, of b a "crlf @ ?h @ crlf @ crlf @ ?data @ crlf @ ?d @ rest"] by (simp add: s')
  have no_end: "substr (length (a @ pre)) (length (?d @ ''--'')) s \<noteq> ?d @ ''--''"
    by (simp add: s' substr_def)
  have cr: "skip_char CR s (length (a @ pre) + length ?d) = length (a @ pre @ ?d @ [CR])"
    by (simp add: s' skip_char_def nth_append)
  have lf: "skip_char LF s (length (a @ pre @ ?d @ [CR])) = length ?p1"
    by (simp add: s' skip_char_def nth_append)
  have he: "find_str (crlf @ crlf) s (length ?p1) = Some (length (?p1 @ ?h))"
  proof -
    have "occurs_first (crlf @ crlf) ?h"
      using ok by (simp add: part_ok_def)
    from occurs_first_append [OF this, of "?data @ crlf @ ?d @ rest"]
      find_str_at [of "crlf @ crlf" ?p1 "?h @ crlf @ crlf @ ?data @ crlf @ ?d @ rest"]
    show ?thesis
      by (simp add: s')
  qed
  have hb: "substr (length ?p1) (length (?p1 @ ?h) - length ?p1) s = ?h"
    using substr_at [of ?p1 ?h "crlf @ crlf @ ?data @ crlf @ ?d @ rest"] by (simp add: s')
  have start: "length (?p1 @ ?h) + 4 = length ?p2"
    by simp
  have de: "data_end s ?d (length ?p2) = length (?p2 @ ?data)"
    using data_end_at [of ?d ?data ?p2 rest] ok by (simp add: part_ok_def s')
  have "length ?data < 2 ^ 64"
    using size by (simp add: s')
  then have "nat (to_unsigned 64 (int (length (?p2 @ ?data)) - int (length ?p2))) = length ?data"
    by (simp add: to_unsigned_id)
  moreover have "substr (length ?p2) (length ?data) s = ?data"
  proof -
    have "s = ?p2 @ ?data @ crlf @ ?d @ rest"
      by (simp add: s')
    then show ?thesis
      using substr_at [of ?p2 ?data "crlf @ ?d @ rest"] by (simp only: length_append diff_add_inverse)
  qed
  ultimately have "make_part s ?h (length ?p2) (length (?p2 @ ?data)) = p"
    unfolding make_part_def header_block_name [OF ok] header_block_filename [OF ok] header_block_type [OF ok]
    by simp
  then show ?thesis
    using no_end unfolding next_part_def Let_def ds option.case cr lf he hb start de by simp
qed

lemma next_part_end:
  assumes "pre = [] \<or> pre = crlf"
  shows "next_part (a @ pre @ ''--'' @ b @ ''--'' @ rest) b (length a) = None"
  using find_delimiter [OF assms, of b a "''--'' @ rest"]
  by (simp add: next_part_def Let_def substr_def)

lemma parts_from_at:
  "length s < 2 ^ 64 \<Longrightarrow> pre = [] \<or> pre = crlf \<Longrightarrow> \<forall>p\<in>set ps. part_ok b p \<Longrightarrow>
   s = a @ pre @ multipart_body b ps epilogue \<Longrightarrow> parts_from s b (length a) = ps"
proof (induction ps arbitrary: a pre)
  case Nil
  then show ?case
    using next_part_end [of pre a b epilogue] by (subst parts_from.simps) (simp add: multipart_body_def)
next
  case (Cons p ps)
  let ?a = "a @ pre @ ''--'' @ b @ crlf @ header_block p @ crlf @ crlf @ mp_data p"
  obtain rest where r: "multipart_body b ps epilogue = ''--'' @ b @ rest"
  proof (cases ps)
    case Nil
    with that show ?thesis by (simp add: multipart_body_def)
  next
    case (Cons q qs)
    with that show ?thesis by (simp add: multipart_body_def part_text_def)
  qed
  have b: "multipart_body b (p # ps) epilogue = part_text b p @ multipart_body b ps epilogue"
    by (simp add: multipart_body_def)
  have np: "next_part s b (length a) = Some (p, length ?a)"
    using Cons.prems by (intro next_part_at [of b p pre s a rest]) (simp_all add: b r)
  have "s = ?a @ crlf @ multipart_body b ps epilogue"
    using Cons.prems(4) by (simp add: b part_text_def)
  then have "parts_from s b (length ?a) = ps"
    using Cons.prems by (intro Cons.IH [of crlf]) simp_all
  moreover have "length a < length s"
    using Cons.prems(4) by (simp add: b part_text_def)
  ultimately show ?case
    using np by (subst parts_from.simps) simp
qed



text \<open>
  An empty part that is not ended by a line break swallows the rest of the body. When
  the delimiter follows the header block immediately, the parser steps back over the line
  break of the header block, the length \<^verbatim>\<open>dataEnd - dataStart\<close> wraps around, and the data of
  the part is the closing delimiter and everything after it.
\<close>

theorem multipart_empty_part_swallows:
  assumes "part_ok b p"
    and "length (''--'' @ b @ crlf @ header_block p @ crlf @ crlf @ ''--'' @ b @ ''--'' @ epilogue) < 2 ^ 64 - 2"
  shows "parseMultipart (''--'' @ b @ crlf @ header_block p @ crlf @ crlf @ ''--'' @ b @ ''--'' @ epilogue) b
    = [p\<lparr>mp_data := ''--'' @ b @ ''--'' @ epilogue\<rparr>]"
proof -
  let ?d = "''--'' @ b" and ?h = "header_block p"
  let ?tail = "?d @ ''--'' @ epilogue"
  let ?p1 = "?d @ crlf" and ?p2 = "?d @ crlf @ ?h @ crlf @ crlf"
  let ?s = "?d @ crlf @ ?h @ crlf @ crlf @ ?tail"
  have ds: "find_str ?d ?s 0 = Some 0"
    using find_delimiter [of "[]" b "[]" "crlf @ ?h @ crlf @ crlf @ ?tail"] by simp
  have no_end: "substr 0 (length (?d @ ''--'')) ?s \<noteq> ?d @ ''--''"
    by (simp add: substr_def)
  have cr: "skip_char LF ?s (skip_char CR ?s (0 + length ?d)) = length ?p1"
    by (simp add: skip_char_def nth_append)
  have he: "find_str (crlf @ crlf) ?s (length ?p1) = Some (length (?p1 @ ?h))"
  proof -
    have "occurs_first (crlf @ crlf) ?h"
      using assms(1) by (simp add: part_ok_def)
    from occurs_first_append [OF this, of ?tail] find_str_at [of "crlf @ crlf" ?p1 "?h @ crlf @ crlf @ ?tail"]
    show ?thesis
      by simp
  qed
  have hb: "substr (length ?p1) (length (?p1 @ ?h) - length ?p1) ?s = ?h"
    using substr_at [of ?p1 ?h "crlf @ crlf @ ?tail"] by simp
  have start: "length (?p1 @ ?h) + 4 = length ?p2"
    by simp
  have "find_str ?d ?s (length ?p2) = Some (length ?p2)"
    using find_delimiter [of "[]" b ?p2 "''--'' @ epilogue"] by simp
  moreover have "?s ! (length ?p2 - 2) = CR" "?s ! (length ?p2 - 1) = LF"
    by (simp_all add: nth_append)
  ultimately have de: "data_end ?s ?d (length ?p2) = length ?p2 - 2"
    by (simp add: data_end_def Let_def)
  have two: "2 \<le> length ?p2"
    by simp
  then have "nat (to_unsigned 64 (int (length ?p2 - 2) - int (length ?p2))) = 2 ^ 64 - 2"
    by (simp add: to_unsigned_def)
  moreover have "substr (length ?p2) (2 ^ 64 - 2) ?s = ?tail"
  proof -
    have "?s = ?p2 @ ?tail"
      by simp
    then have "drop (length ?p2) ?s = drop (length ?p2) (?p2 @ ?tail)"
      by (rule arg_cong)
    then have "drop (length ?p2) ?s = ?tail"
      unfolding drop_at .
    moreover have "length ?tail \<le> 2 ^ 64 - 2"
      using assms(2) by simp
    ultimately show ?thesis
      unfolding substr_def by (simp only: take_all)
  qed
  ultimately have "make_part ?s ?h (length ?p2) (length ?p2 - 2) = p\<lparr>mp_data := ?tail\<rparr>"
    unfolding make_part_def header_block_name [OF assms(1)] header_block_filename [OF assms(1)]
      header_block_type [OF assms(1)] by simp
  then have 1: "next_part ?s b 0 = Some (p\<lparr>mp_data := ?tail\<rparr>, length ?p2 - 2)"
    using no_end unfolding next_part_def Let_def ds option.case cr he hb start de by simp
  let ?a = "?d @ crlf @ ?h @ crlf"
  have "next_part (?a @ crlf @ ''--'' @ b @ ''--'' @ epilogue) b (length ?a) = None"
    by (rule next_part_end) simp
  moreover have "length ?p2 - 2 = length ?a"
    by simp
  ultimately have 2: "next_part ?s b (length ?p2 - 2) = None"
    by simp
  have "parts_from ?s b (length ?p2 - 2) = []"
    by (subst parts_from.simps) (simp only: 2 option.case if_cancel)
  then have "parts_from ?s b 0 = [p\<lparr>mp_data := ?tail\<rparr>]"
    by (subst parts_from.simps) (simp only: 1 option.case prod.case, simp)
  then show ?thesis
    by (simp add: parseMultipart_def)
qed

theorem multipart_empty_part_swallows_witness:
  "parseMultipart (''--X'' @ crlf @ header_block \<lparr>mp_name = ''f'', mp_filename = [], mp_contentType = [], mp_data = []\<rparr>
      @ crlf @ crlf @ ''--X--'' @ crlf) ''X''
   = [\<lparr>mp_name = ''f'', mp_filename = [], mp_contentType = [], mp_data = ''--X--'' @ crlf\<rparr>]"
proof -
  let ?p = "\<lparr>mp_name = ''f'', mp_filename = [], mp_contentType = [], mp_data = []\<rparr>"
  have "part_ok ''X'' ?p"
    by (simp add: part_ok_def occurs_first_def header_block_def)
  from multipart_empty_part_swallows [OF this, of crlf] show ?thesis
    by (simp add: header_block_def)
qed

section \<open>Safe file names\<close>

lemma sublist_pair_other:
  "sublist [c, c] (xs @ d # ys) \<Longrightarrow> d \<noteq> c \<Longrightarrow> sublist [c, c] xs \<or> sublist [c, c] ys"
proof (induction xs)
  case Nil
  then show ?case by (auto simp: sublist_Cons_right)
next
  case (Cons x xs)
  then show ?case by (cases xs) (auto simp: sublist_Cons_right)
qed

lemma sublist_pair_same:
  "sublist [c, c] (xs @ c # ys) \<Longrightarrow> xs \<noteq> [] \<Longrightarrow> last xs \<noteq> c \<Longrightarrow> ys = [] \<or> hd ys \<noteq> c \<Longrightarrow>
   sublist [c, c] xs \<or> sublist [c, c] ys"
proof (induction xs)
  case (Cons x xs)
  show ?case
  proof (cases xs)
    case Nil
    with Cons show ?thesis
      by (cases ys) (auto simp: sublist_Cons_right)
  next
    case (Cons x' xs')
    with Cons.prems Cons.IH show ?thesis
      by (auto simp: sublist_Cons_right)
  qed
qed simp

lemma path_segments_inside:
  "seg \<in> set (path_segments name start) \<Longrightarrow> CHR ''/'' \<notin> set seg \<and> sublist seg name"
proof (induction name start rule: path_segments.induct)
  case (1 name start)
  have inside: "sublist (take n (drop m name)) name" for n m
    by (metis append_take_drop_id sublist_appendI)
  show ?case
  proof (cases "start < length name")
    case True
    show ?thesis
    proof (cases "find_char (CHR ''/'') name start")
      case None
      with 1(2) True inside [of "length name" start] show ?thesis
        by (subst (asm) path_segments.simps) (auto simp: substr_from_def find_char_None)
    next
      case (Some slash)
      from 1(2) True Some consider "seg = substr start (slash - start) name"
        | "seg \<in> set (path_segments name (slash + 1))"
        by (subst (asm) path_segments.simps) auto
      then show ?thesis
      proof cases
        case 1
        with find_char_SomeD(4) [OF Some] inside show ?thesis
          by (simp add: substr_def)
      next
        case 2
        with 1(1) [OF True Some] show ?thesis
          by simp
      qed
    qed
  next
    case False
    with 1(2) show ?thesis
      by (subst (asm) path_segments.simps) simp
  qed
qed

text \<open>A relative path that goes down only.\<close>

definition safe_path :: "string \<Rightarrow> bool" where
  "safe_path r \<longleftrightarrow>
     \<not> sublist ''..'' r \<and> BSLASH \<notin> set r \<and> \<not> sublist ''//'' r
     \<and> (r = [] \<or> hd r \<noteq> CHR ''/'' \<and> last r \<noteq> CHR ''/'')"

lemma ends_not: "c \<notin> set s \<Longrightarrow> s \<noteq> [] \<Longrightarrow> hd s \<noteq> c \<and> last s \<noteq> c"
  by auto

lemma safe_path_add_segment:
  assumes "safe_path r" and "CHR ''/'' \<notin> set seg" "\<not> sublist ''..'' seg" "BSLASH \<notin> set seg"
  shows "safe_path (add_segment r seg)"
proof -
  have no_pair: "\<not> sublist ''//'' seg"
    using assms(2) set_mono_sublist [of "''//''" seg] by auto
  show ?thesis
  proof (cases "seg = [] \<or> r = []")
    case True
    then show ?thesis
      using assms no_pair ends_not [OF assms(2)] by (auto simp: add_segment_def safe_path_def)
  next
    case False
    moreover have "\<not> sublist ''..'' (r @ CHR ''/'' # seg)"
      using sublist_pair_other [of "CHR ''.''" r "CHR ''/''" seg] assms by (auto simp: safe_path_def)
    moreover have "\<not> sublist ''//'' (r @ CHR ''/'' # seg)"
      using sublist_pair_same [of "CHR ''/''" r seg] assms(1) no_pair False ends_not [OF assms(2)]
      by (auto simp: safe_path_def)
    moreover have "last seg \<noteq> CHR ''/''"
      using assms(2) False last_in_set by metis
    ultimately show ?thesis
      using assms by (auto simp: add_segment_def safe_path_def)
  qed
qed

lemma safe_path_foldl:
  "safe_path r \<Longrightarrow>
   \<forall>seg\<in>set segs. CHR ''/'' \<notin> set seg \<and> \<not> sublist ''..'' seg \<and> BSLASH \<notin> set seg \<Longrightarrow>
   safe_path (foldl add_segment r segs)"
  by (induction segs arbitrary: r) (simp_all add: safe_path_add_segment)

lemma slashes_no_backslash: "BSLASH \<notin> set (slashes f)"
  by (auto simp: slashes_def)

text \<open>
  C19: a sanitised name stays inside the directory it is joined to. Whatever the client sends
  as a file name, the result has no \<^verbatim>\<open>..\<close> and no backslash anywhere, is not absolute, has no
  empty segment, and in the file mode no slash at all; a name that contains \<^verbatim>\<open>..\<close>, with either
  kind of slash, is refused.
\<close>

theorem sanitize_contained:
  "safe_path (sanitizeFilename f keep)
   \<and> (\<not> keep \<longrightarrow> CHR ''/'' \<notin> set (sanitizeFilename f keep))
   \<and> (sublist ''..'' (slashes f) \<longrightarrow> sanitizeFilename f keep = [])"
proof (cases "sublist ''..'' (slashes f)")
  case True
  then have "find_str ''..'' (slashes f) 0 \<noteq> None"
    using index_sub_None [of "''..''" "slashes f"] by (simp add: find_str_def)
  then show ?thesis
    by (simp add: sanitizeFilename_def safe_path_def)
next
  case False
  then have none: "find_str ''..'' (slashes f) 0 = None"
    using index_sub_None [of "''..''" "slashes f"] by (simp add: find_str_def)
  let ?name = "dropWhile (\<lambda>c. c = CHR ''/'') (slashes f)"
  have "sublist ?name (slashes f)"
    by (metis suffix_dropWhile suffix_imp_sublist)
  then have part: "\<not> sublist ''..'' x \<and> BSLASH \<notin> set x" if "sublist x ?name" for x
    using that False slashes_no_backslash set_mono_sublist sublist_order.order.trans by (metis subsetD)
  show ?thesis
  proof (cases keep)
    case True
    have "safe_path (foldl add_segment [] (path_segments ?name 0))"
      using path_segments_inside part by (intro safe_path_foldl) (auto simp: safe_path_def)
    with True none False show ?thesis
      by (simp add: sanitizeFilename_def)
  next
    case keep: False
    define base where "base = (case rfind_char (CHR ''/'') ?name of None \<Rightarrow> ?name | Some i \<Rightarrow> substr_from (i + 1) ?name)"
    have no_slash: "CHR ''/'' \<notin> set base"
      by (auto simp: base_def rfind_char_None substr_from_def dest: rfind_char_SomeD(3) split: option.split)
    have "sublist base ?name"
      by (auto simp: base_def substr_from_def split: option.split)
    from part [OF this] no_slash have "safe_path base"
      using set_mono_sublist [of "''//''" base] by (auto simp: safe_path_def dest: hd_in_set last_in_set)
    with no_slash keep none False show ?thesis
      by (auto simp: sanitizeFilename_def base_def [symmetric] safe_path_def Let_def)
  qed
qed

theorem sanitize_contained_witness:
  "CHR ''/'' \<notin> set (sanitizeFilename ''a/b.txt'' False) \<and> sanitizeFilename (''dir'' @ [BSLASH] @ ''../x'') True = []"
  using sanitize_contained [of "''a/b.txt''" False] sanitize_contained [of "''dir'' @ [BSLASH] @ ''../x''" True]
  by (simp add: slashes_def sublist_Cons_right)

end
