(* ===== verification/EzdropServer.thy ===== *)
theory EzdropServer
  imports FileSystem EzdropConfig Multipart HttpRequest HttpResponse "HOL-Library.AList"
begin

text \<open>
  The ezdrop service (\<^verbatim>\<open>examples/ezdrop/EzdropServer.h\<close>, \<^verbatim>\<open>EzdropServer.cpp\<close> from line 321): a
  table of pick-up codes, uploads that are stored on disk, downloads with a limit, statistics
  and the removal of expired files.

  The file system is the parameter \<open>FS\<close> of type \<open>file_sys\<close>. The clock (\<^verbatim>\<open>system_clock\<close>, in
  milliseconds) and the numbers drawn from the random generators are inputs. Every handler is one step: the handlers run on the loop's
  thread, the sweeper on its own, and both take \<^verbatim>\<open>metaMutex_\<close> around the table. The table is an
  association list, because \<^verbatim>\<open>sweepExpired\<close> and the destructor walk it; its order stands for the
  order of the hash table.
\<close>

section \<open>Directories and files\<close>

text \<open>The loop that makes every directory on the way to \<open>parent\<close>.\<close>

definition mkdir_parents :: "'f file_sys \<Rightarrow> string \<Rightarrow> 'f \<Rightarrow> 'f" where
  "mkdir_parents FS parent f =
     fold (\<lambda>i f. if parent ! i = CHR ''/'' \<or> i = length parent - 1
                 then snd (fs_mkdir FS (take (i + 1) parent) f) else f)
       [0..<length parent] f"

text \<open>\<^verbatim>\<open>fopen\<close> fails (\<open>None\<close>), or \<^verbatim>\<open>fwrite\<close> writes some number of bytes.\<close>

definition writeToFile :: "'f file_sys \<Rightarrow> string \<Rightarrow> string \<Rightarrow> 'f \<Rightarrow> bool \<times> 'f" where
  "writeToFile FS path data f =
     (let f1 = (case rfind_char (CHR ''/'') path of
                  None \<Rightarrow> f | Some lastSlash \<Rightarrow> mkdir_parents FS (substr 0 lastSlash path) f)
      in case fs_put FS path data f1 of
           (None, f2) \<Rightarrow> (False, f2)
         | (Some written, f2) \<Rightarrow> (written = length data, f2))"

text \<open>
  \<^verbatim>\<open>removeDir\<close>; the fuel bounds the depth of the tree. The entries are those of the directory
  when it is opened, without \<^verbatim>\<open>.\<close> and \<^verbatim>\<open>..\<close>.
\<close>

fun removeDir :: "nat \<Rightarrow> 'f file_sys \<Rightarrow> string \<Rightarrow> 'f \<Rightarrow> (bool \<times> 'f) res" where
  "removeDir 0 FS path f = Inl OutOfFuel"
| "removeDir (Suc n) FS path f =
     (case fs_list FS path f of
        None \<Rightarrow> Inr (fs_unlink FS path f)
      | Some entries \<Rightarrow>
          rbind (fold (\<lambda>(name, is_dir) acc. rbind acc (\<lambda>f.
                   let fullPath = path @ ''/'' @ name
                   in if is_dir then rbind (removeDir n FS fullPath f) (\<lambda>(b, f). Inr f)
                      else Inr (snd (fs_unlink FS fullPath f))))
                 (filter (\<lambda>(name, d). name \<noteq> ''.'' \<and> name \<noteq> ''..'') entries) (Inr f))
            (\<lambda>f. Inr (True, fs_rmdir FS path f)))"

text \<open>\<^verbatim>\<open>fork\<close> fails (\<open>None\<close>), or the child ends with an exit status.\<close>

definition createTarGz :: "'f file_sys \<Rightarrow> string \<Rightarrow> string \<Rightarrow> 'f \<Rightarrow> bool \<times> 'f" where
  "createTarGz FS outputPath sourceDir f =
     (case fs_tar FS outputPath sourceDir f of (status, f1) \<Rightarrow> (status = Some 0, f1))"

section \<open>State\<close>

record file_meta =
  fm_code :: string
  fm_storagePath :: string
  fm_originalName :: string
  fm_fileSize :: nat
  fm_expireAt :: int
  fm_downloadCount :: int

record ezdrop =
  ez_storageDir :: string
  ez_staticDir :: string
  ez_port :: int
  codes :: "(string \<times> file_meta) list"
  maxFileSize :: nat
  maxConcurrentDownloads :: int
  activeDownloads :: int
  activeDownloadSizes :: "int \<Rightarrow> nat option"
  totalBytesUploaded :: int
  totalBytesDownloaded :: int
  totalFilesUploaded :: int
  totalFilesDownloaded :: int

definition ezdrop_new :: "'f file_sys \<Rightarrow> string \<Rightarrow> int \<Rightarrow> string \<Rightarrow> 'f \<Rightarrow> ezdrop \<times> 'f" where
  "ezdrop_new FS storage p static f =
     (\<lparr>ez_storageDir = storage, ez_staticDir = (if static = [] then ''examples/ezdrop/static'' else static),
       ez_port = p, codes = [], maxFileSize = 0, maxConcurrentDownloads = 0, activeDownloads = 0,
       activeDownloadSizes = Map.empty, totalBytesUploaded = 0, totalBytesDownloaded = 0,
       totalFilesUploaded = 0, totalFilesDownloaded = 0\<rparr>,
      snd (fs_mkdir FS storage f))"

text \<open>\<^verbatim>\<open>loadConfig\<close>; the product is computed in \<^verbatim>\<open>size_t\<close>.\<close>

definition loadConfig :: "nat \<Rightarrow> string option \<Rightarrow> ezdrop \<Rightarrow> ezdrop res" where
  "loadConfig n opened S =
     rbind (loadConfigFile n opened) (\<lambda>cfg.
     let S1 = (if ec_maxFileSizeMb cfg > 0
               then S\<lparr>maxFileSize := nat (to_unsigned 64 (ec_maxFileSizeMb cfg * 1024 * 1024))\<rparr> else S)
     in Inr (if ec_maxConcurrentDownloads cfg > 0
             then S1\<lparr>maxConcurrentDownloads := ec_maxConcurrentDownloads cfg\<rparr> else S1))"

text \<open>The error bodies are all of the form \<^verbatim>\<open>{"error":"..."}\<close>.\<close>

definition error_body :: "string \<Rightarrow> string" where
  "error_body msg = ''{'' @ quoted ''error'' @ '':'' @ quoted msg @ ''}''"

definition json_error :: "int \<Rightarrow> string \<Rightarrow> http_response \<Rightarrow> http_response" where
  "json_error status msg resp =
     setBody (error_body msg) (setContentType ''application/json'' (setStatusCode status resp))"

definition setMaxFileSize :: "nat \<Rightarrow> ezdrop \<Rightarrow> ezdrop" where
  "setMaxFileSize maxBytes S = S\<lparr>maxFileSize := maxBytes\<rparr>"

definition setMaxConcurrentDownloads :: "int \<Rightarrow> ezdrop \<Rightarrow> ezdrop" where
  "setMaxConcurrentDownloads limit S = S\<lparr>maxConcurrentDownloads := limit\<rparr>"

section \<open>Pick-up codes\<close>

definition alphanum :: string where
  "alphanum = ''0123456789abcdefghijklmnopqrstuvwxyz''"

definition randomSuffix :: "nat list \<Rightarrow> string" where
  "randomSuffix draws = map (\<lambda>i. alphanum ! i) (take 8 draws)"

text \<open>\<^verbatim>\<open>%06d\<close> of a number in \<open>0..999999\<close>, in a buffer of 8 bytes.\<close>

definition code_of_draw :: "nat \<Rightarrow> string" where
  "code_of_draw d = snprintf 8 (replicate (6 - length (nat_to_string d)) (CHR ''0'') @ nat_to_string d)"

fun generateCode :: "nat list \<Rightarrow> (string \<times> file_meta) list \<Rightarrow> string res" where
  "generateCode [] table = Inl OutOfFuel"
| "generateCode (d # draws) table =
     (if map_of table (code_of_draw d) \<noteq> None then generateCode draws table else Inr (code_of_draw d))"

section \<open>Index, query and statistics\<close>

definition handleIndex :: "(string \<Rightarrow> nat option) \<Rightarrow> ezdrop \<Rightarrow> http_response \<Rightarrow> http_response" where
  "handleIndex stat S resp =
     (case setFile stat (ez_staticDir S @ ''/index.html'') resp of
        (ok, r) \<Rightarrow>
          if \<not> ok then
            setContentType ''text/html; charset=utf-8''
              (setBody ''Internal Server Error: index.html not found''
                (setStatusMessage ''Internal Server Error'' (setStatusCode 500 r)))
          else setContentType ''text/html; charset=utf-8'' r)"

definition query_text :: "file_meta \<Rightarrow> string" where
  "query_text m =
     ''{'' @ quoted ''code'' @ '':'' @ quoted (c_str (fm_code m)) @ '','' @ quoted ''name'' @ '':''
     @ quoted (c_str (fm_originalName m)) @ '','' @ quoted ''size'' @ '':'' @ nat_to_string (fm_fileSize m) @ ''}''"

definition handleQuery :: "int \<Rightarrow> http_request \<Rightarrow> http_response \<Rightarrow> ezdrop \<Rightarrow> http_response" where
  "handleQuery now req resp S =
     (let code = pathParam ''code'' req in
      if code = [] \<or> length code \<noteq> 6 then json_error 400 ''invalid code'' resp
      else case map_of (codes S) code of
        None \<Rightarrow> json_error 404 ''not found or expired'' resp
      | Some m \<Rightarrow>
          if fm_expireAt m < now then json_error 404 ''not found or expired'' resp
          else setBody (snprintf 256 (query_text m)) (setContentType ''application/json'' resp))"

definition stats_text :: "ezdrop \<Rightarrow> string" where
  "stats_text S =
     ''{'' @ quoted ''totalBytesUploaded'' @ '':'' @ int_to_string (totalBytesUploaded S)
     @ '','' @ quoted ''totalBytesDownloaded'' @ '':'' @ int_to_string (totalBytesDownloaded S)
     @ '','' @ quoted ''totalFilesUploaded'' @ '':'' @ int_to_string (totalFilesUploaded S)
     @ '','' @ quoted ''totalFilesDownloaded'' @ '':'' @ int_to_string (totalFilesDownloaded S)
     @ '','' @ quoted ''activeDownloads'' @ '':'' @ int_to_string (activeDownloads S) @ ''}''"

definition handleStats :: "http_response \<Rightarrow> ezdrop \<Rightarrow> http_response" where
  "handleStats resp S =
     setBody (snprintf 512 (stats_text S)) (setContentType ''application/json'' resp)"

section \<open>Upload\<close>

record upload_form =
  uf_expire :: int
  uf_mode :: string
  uf_files :: "multipart_part list"
  uf_total :: nat

definition clamp_expire :: "string \<Rightarrow> int" where
  "clamp_expire data =
     (case stoi data of
        None \<Rightarrow> 10
      | Some m \<Rightarrow> (let e = (if m < 1 then 1 else m) in if e > 1440 then 1440 else e))"

definition scan_part :: "multipart_part \<Rightarrow> upload_form \<Rightarrow> upload_form" where
  "scan_part part u =
     (if mp_name part = ''expire'' then u\<lparr>uf_expire := clamp_expire (mp_data part)\<rparr>
      else if mp_name part = ''mode'' then u\<lparr>uf_mode := mp_data part\<rparr>
      else if mp_name part = ''files'' \<and> mp_filename part \<noteq> []
        then u\<lparr>uf_files := uf_files u @ [part], uf_total := uf_total u + length (mp_data part)\<rparr>
      else u)"

definition scan_parts :: "multipart_part list \<Rightarrow> upload_form" where
  "scan_parts parts = fold scan_part parts \<lparr>uf_expire = 10, uf_mode = ''files'', uf_files = [], uf_total = 0\<rparr>"

definition upload_mode :: "upload_form \<Rightarrow> string" where
  "upload_mode u =
     (if uf_mode u = ''files''
         \<and> (\<exists>part\<in>set (uf_files u). CHR ''/'' \<in> set (mp_filename part) \<or> BSLASH \<in> set (mp_filename part))
      then ''directory'' else uf_mode u)"

definition after_last :: "char \<Rightarrow> string \<Rightarrow> string" where
  "after_last c s = (case rfind_char c s of None \<Rightarrow> s | Some i \<Rightarrow> substr_from (i + 1) s)"

definition display_name :: "string \<Rightarrow> multipart_part list \<Rightarrow> string" where
  "display_name mode files =
     (if mode = ''directory'' then
        (let firstPath = mp_filename (hd files) in
         (case find_char (CHR ''/'') firstPath 0 of Some i \<Rightarrow> substr 0 i firstPath | None \<Rightarrow> firstPath)
         @ ''.tar.gz'')
      else if length files = 1 then after_last BSLASH (after_last (CHR ''/'') (mp_filename (hd files)))
      else ''files.tar.gz'')"

text \<open>Writing the files of an upload: the status and message of the error, or success.\<close>

fun write_files ::
    "nat \<Rightarrow> 'f file_sys \<Rightarrow> string \<Rightarrow> bool \<Rightarrow> multipart_part list \<Rightarrow> 'f \<Rightarrow> ((int \<times> string) option \<times> 'f) res" where
  "write_files n FS tmpDir dir_mode [] f = Inr (None, f)"
| "write_files n FS tmpDir dir_mode (part # parts) f =
     (let safeFilename = sanitizeFilename (mp_filename part) dir_mode in
      if safeFilename = [] then
        rbind (removeDir n FS tmpDir f) (\<lambda>(b, f).
        Inr (Some (400, ''invalid filename (path traversal detected)''), f))
      else
        let f1 = (if dir_mode then
                    (case rfind_char (CHR ''/'') safeFilename of
                       None \<Rightarrow> f
                     | Some i \<Rightarrow> mkdir_parents FS (tmpDir @ ''/'' @ substr 0 i safeFilename) f)
                  else f);
            (ok, f2) = writeToFile FS (tmpDir @ ''/'' @ safeFilename) (mp_data part) f1
        in if \<not> ok then
             rbind (removeDir n FS tmpDir f2) (\<lambda>(b, f).
             Inr (Some (500, ''failed to write uploaded file''), f))
           else write_files n FS tmpDir dir_mode parts f2)"

text \<open>Moving or packing the payload: the path and size of what is stored, or the error.\<close>

definition store_payload ::
    "nat \<Rightarrow> 'f file_sys \<Rightarrow> string \<Rightarrow> string \<Rightarrow> string \<Rightarrow> upload_form \<Rightarrow> 'f
     \<Rightarrow> (((int \<times> string) + (string \<times> nat)) \<times> 'f) res" where
  "store_payload n FS tmpDir codeDir mode u f =
     (if mode = ''files'' \<and> length (uf_files u) = 1 then
        let storagePath = codeDir @ ''/payload'';
            (ok, f1) = fs_rename FS (tmpDir @ ''/'' @ sanitizeFilename (mp_filename (hd (uf_files u))) False)
                         storagePath f
        in if \<not> ok then
             rbind (removeDir n FS tmpDir f1) (\<lambda>(b, f2).
             rbind (removeDir n FS codeDir f2) (\<lambda>(b, f3).
             Inr (Inl (500, ''failed to move uploaded file''), f3)))
           else Inr (Inr (storagePath, uf_total u), f1)
      else
        let tarPath = codeDir @ ''/payload.tar.gz''; (ok, f1) = createTarGz FS tarPath tmpDir f
        in if \<not> ok then
             rbind (removeDir n FS tmpDir f1) (\<lambda>(b, f2).
             rbind (removeDir n FS codeDir f2) (\<lambda>(b, f3).
             Inr (Inl (500, ''failed to create archive''), f3)))
           else Inr (Inr (tarPath, case fs_stat FS f1 tarPath of Some sz \<Rightarrow> sz | None \<Rightarrow> uf_total u), f1))"

definition meta_text :: "string \<Rightarrow> string \<Rightarrow> nat \<Rightarrow> int \<Rightarrow> string" where
  "meta_text cd name size_of_file expireAt =
     ''{'' @ [LF] @ ''  '' @ quoted ''code'' @ '': '' @ quoted cd @ '','' @ [LF]
     @ ''  '' @ quoted ''originalName'' @ '': '' @ quoted name @ '','' @ [LF]
     @ ''  '' @ quoted ''fileSize'' @ '': '' @ nat_to_string size_of_file @ '','' @ [LF]
     @ ''  '' @ quoted ''expireAt'' @ '': '' @ int_to_string expireAt @ [LF] @ ''}'' @ [LF]"

definition upload_text :: "string \<Rightarrow> string \<Rightarrow> nat \<Rightarrow> int \<Rightarrow> string" where
  "upload_text cd name size_of_file expire =
     ''{'' @ quoted ''code'' @ '':'' @ quoted (c_str cd) @ '','' @ quoted ''name'' @ '':'' @ quoted (c_str name)
     @ '','' @ quoted ''size'' @ '':'' @ nat_to_string size_of_file
     @ '','' @ quoted ''expiresIn'' @ '':'' @ int_to_string expire @ ''}''"

record upload_input =
  ui_now :: int
  ui_suffix :: "nat list"
  ui_draws :: "nat list"

text \<open>From the temporary directory on (steps 5 to 13).\<close>

definition store_upload ::
    "nat \<Rightarrow> 'f file_sys \<Rightarrow> upload_input \<Rightarrow> string \<Rightarrow> upload_form \<Rightarrow> http_response \<Rightarrow> ezdrop \<times> 'f
     \<Rightarrow> (http_response \<times> ezdrop \<times> 'f) res" where
  "store_upload n FS I tmpDir u resp w =
     (let (S, f) = w;
          mode = upload_mode u;
          originalName = display_name mode (uf_files u);
          fail = (\<lambda>(e :: int \<times> string) f. Inr (setBody (error_body (snd e)) (setStatusCode (fst e) resp), S, f))
      in
      rbind (write_files n FS tmpDir (mode = ''directory'') (uf_files u) f) (\<lambda>(err, f1).
      case err of
        Some e \<Rightarrow> fail e f1
      | None \<Rightarrow>
          rbind (generateCode (ui_draws I) (codes S)) (\<lambda>code.
          let codeDir = ez_storageDir S @ ''/'' @ code; (ok, f2) = fs_mkdir FS codeDir f1
          in if \<not> ok then
               rbind (removeDir n FS tmpDir f2) (\<lambda>(b, f3).
               fail (500, ''failed to create code directory'') f3)
             else
               rbind (store_payload n FS tmpDir codeDir mode u f2) (\<lambda>(stored, f3).
               case stored of
                 Inl e \<Rightarrow> fail e f3
               | Inr (storagePath, archiveSize) \<Rightarrow>
                   let expireAt = ui_now I + uf_expire u * 60 * 1000;
                       f4 = snd (fs_put FS (codeDir @ ''/meta.json'')
                                  (meta_text code originalName archiveSize expireAt) f3);
                       meta = \<lparr>fm_code = code, fm_storagePath = storagePath, fm_originalName = originalName,
                               fm_fileSize = archiveSize, fm_expireAt = expireAt, fm_downloadCount = 0\<rparr>;
                       S1 = S\<lparr>codes := AList.update code meta (codes S)\<rparr>
                   in rbind (removeDir n FS tmpDir f4) (\<lambda>(b, f5).
                      let S2 = S1\<lparr>totalFilesUploaded := to_unsigned 64 (totalFilesUploaded S1 + 1),
                                  totalBytesUploaded :=
                                    to_unsigned 64 (totalBytesUploaded S1 + int archiveSize)\<rparr>
                      in Inr (setBody (snprintf 384 (upload_text code originalName archiveSize (uf_expire u)))
                                resp, S2, f5))))))"

definition handleUpload ::
    "nat \<Rightarrow> 'f file_sys \<Rightarrow> upload_input \<Rightarrow> http_request \<Rightarrow> http_response \<Rightarrow> ezdrop \<times> 'f
     \<Rightarrow> (http_response \<times> ezdrop \<times> 'f) res" where
  "handleUpload n FS I req resp0 w =
     (let (S, f) = w;
          resp = setContentType ''application/json'' resp0;
          boundary = extractBoundary (req_header ''content-type'' req);
          body = rq_body req;
          fail = (\<lambda>status msg f. Inr (setBody (error_body msg) (setStatusCode status resp), S, f))
      in
      if boundary = [] then fail 400 ''invalid Content-Type, expected multipart/form-data'' f
      else if body = [] then fail 400 ''empty request body'' f
      else if maxFileSize S > 0 \<and> length body > maxFileSize S then
        Inr (setBody (snprintf 128 (error_body (''payload too large ('' @ nat_to_string (length body)
               @ '' bytes), max allowed: '' @ nat_to_string (maxFileSize S) @ '' bytes'')))
               (addHeader ''Connection'' ''close'' (setStatusCode 413 resp)), S, f)
      else
        let parts = parseMultipart body boundary in
        if parts = [] then fail 400 ''no parts found in multipart body'' f
        else
          let u = scan_parts parts in
          if uf_files u = [] then fail 400 ''no files uploaded'' f
          else
            let tmpDir = ez_storageDir S @ ''/tmp_'' @ randomSuffix (ui_suffix I);
                (ok, f1) = fs_mkdir FS tmpDir f
            in if \<not> ok then fail 500 ''failed to create temp directory'' f1
               else store_upload n FS I tmpDir u resp (S, f1))"

section \<open>Download\<close>

text \<open>Removing a stored file with its directory, as the download, the sweeper and the destructor do.\<close>

definition drop_stored :: "nat \<Rightarrow> 'f file_sys \<Rightarrow> string \<Rightarrow> 'f \<Rightarrow> 'f res" where
  "drop_stored n FS path f =
     (let f1 = snd (fs_unlink FS path f) in
      case rfind_char (CHR ''/'') path of
        None \<Rightarrow> Inr f1
      | Some lastSlash \<Rightarrow> rbind (removeDir n FS (substr 0 lastSlash path) f1) (\<lambda>(b, f2). Inr f2))"

definition start_download :: "int option \<Rightarrow> file_meta \<Rightarrow> ezdrop \<Rightarrow> ezdrop" where
  "start_download conn_fd m S =
     (case conn_fd of
        None \<Rightarrow> S
      | Some fd \<Rightarrow> S\<lparr>activeDownloadSizes := (activeDownloadSizes S)(fd \<mapsto> fm_fileSize m),
                    activeDownloads := activeDownloads S + 1\<rparr>)"

definition handleDownload ::
    "nat \<Rightarrow> 'f file_sys \<Rightarrow> int \<Rightarrow> http_request \<Rightarrow> http_response \<Rightarrow> int option \<Rightarrow> ezdrop \<times> 'f
     \<Rightarrow> (http_response \<times> ezdrop \<times> 'f) res" where
  "handleDownload n FS now req resp conn_fd w =
     (let (S, f) = w; code = pathParam ''code'' req in
      if code = [] \<or> length code \<noteq> 6 then Inr (json_error 400 ''invalid code'' resp, S, f)
      else if maxConcurrentDownloads S > 0 \<and> activeDownloads S \<ge> maxConcurrentDownloads S then
        Inr (setBody (error_body ''too many concurrent downloads, try again later'')
              (setContentType ''application/json'' (addHeader ''Retry-After'' ''5'' (setStatusCode 503 resp))), S, f)
      else case map_of (codes S) code of
        None \<Rightarrow> Inr (json_error 404 ''code not found'' resp, S, f)
      | Some m \<Rightarrow>
          if fm_expireAt m < now then
            rbind (drop_stored n FS (fm_storagePath m) f) (\<lambda>f1.
            Inr (json_error 410 ''file expired'' resp, S\<lparr>codes := AList.delete code (codes S)\<rparr>, f1))
          else if fs_stat FS f (fm_storagePath m) = None then
            Inr (json_error 404 ''file missing from disk'' resp, S\<lparr>codes := AList.delete code (codes S)\<rparr>, f)
          else
            let S1 = start_download conn_fd m S;
                resp1 = addHeader ''Content-Disposition'' (''attachment; filename='' @ quoted (fm_originalName m)) resp;
                resp2 = snd (setFile (fs_stat FS f) (fm_storagePath m) resp1)
            in Inr (resp2,
                 S1\<lparr>codes := AList.update code (m\<lparr>fm_downloadCount := fm_downloadCount m + 1\<rparr>) (codes S1)\<rparr>, f))"

definition onWriteComplete :: "int option \<Rightarrow> ezdrop \<Rightarrow> ezdrop" where
  "onWriteComplete conn_fd S =
     (case conn_fd of
        None \<Rightarrow> S
      | Some fd \<Rightarrow>
          (case activeDownloadSizes S fd of
             None \<Rightarrow> S
           | Some size_of_file \<Rightarrow>
               S\<lparr>totalBytesDownloaded := to_unsigned 64 (totalBytesDownloaded S + int size_of_file),
                 totalFilesDownloaded := to_unsigned 64 (totalFilesDownloaded S + 1),
                 activeDownloadSizes := (activeDownloadSizes S)(fd := None),
                 activeDownloads := activeDownloads S - 1\<rparr>))"

section \<open>Expiry\<close>

fun drop_all :: "nat \<Rightarrow> 'f file_sys \<Rightarrow> string list \<Rightarrow> 'f \<Rightarrow> 'f res" where
  "drop_all n FS [] f = Inr f"
| "drop_all n FS (path # paths) f = rbind (drop_stored n FS path f) (drop_all n FS paths)"

definition sweepExpired :: "nat \<Rightarrow> 'f file_sys \<Rightarrow> int \<Rightarrow> ezdrop \<times> 'f \<Rightarrow> (ezdrop \<times> 'f) res" where
  "sweepExpired n FS now w =
     (let (S, f) = w;
          expiredPaths = map (\<lambda>(c, m). fm_storagePath m) (filter (\<lambda>(c, m). fm_expireAt m < now) (codes S));
          S1 = S\<lparr>codes := filter (\<lambda>(c, m). \<not> fm_expireAt m < now) (codes S)\<rparr>
      in rbind (drop_all n FS expiredPaths f) (\<lambda>f1. Inr (S1, f1)))"

text \<open>
  The thread of \<^verbatim>\<open>startExpirySweeper\<close>: for every round, what \<^verbatim>\<open>running_\<close> is before and after the
  sleep and the time after it. At the end of the list the thread sleeps.
\<close>

fun sweeper_loop ::
    "nat \<Rightarrow> 'f file_sys \<Rightarrow> (bool \<times> bool \<times> int) list \<Rightarrow> ezdrop \<times> 'f \<Rightarrow> (ezdrop \<times> 'f) res" where
  "sweeper_loop n FS [] w = Inr w"
| "sweeper_loop n FS ((running, running_after, now) # rounds) w =
     (if \<not> running then Inr w
      else if \<not> running_after then Inr w
      else rbind (sweepExpired n FS now w) (sweeper_loop n FS rounds))"

text \<open>The destructor, after the sweeper has been joined.\<close>

definition ezdrop_destroy :: "nat \<Rightarrow> 'f file_sys \<Rightarrow> ezdrop \<times> 'f \<Rightarrow> (ezdrop \<times> 'f) res" where
  "ezdrop_destroy n FS w =
     (let (S, f) = w in
      rbind (drop_all n FS (map (\<lambda>(c, m). fm_storagePath m) (codes S)) f) (\<lambda>f1.
      Inr (S\<lparr>codes := []\<rparr>, f1)))"

section \<open>Codes\<close>

lemma nat_to_string_length: "0 < k \<Longrightarrow> n < 10 ^ k \<Longrightarrow> length (nat_to_string n) \<le> k"
proof (induction n arbitrary: k rule: nat_to_string.induct)
  case (1 n)
  show ?case
  proof (cases "n < 10")
    case True
    then show ?thesis
      using 1(2) by (subst nat_to_string.simps) simp
  next
    case False
    then obtain j where k: "k = Suc j" "0 < j"
      using 1(2,3) by (cases k; cases "k - 1") auto
    then have "n div 10 < 10 ^ j"
      using 1(3) by (simp add: less_mult_imp_div_less)
    from 1(1) [OF False k(2) this] show ?thesis
      using False k by (subst nat_to_string.simps) simp
  qed
qed

definition six_digits :: "string \<Rightarrow> bool" where
  "six_digits s \<longleftrightarrow> length s = 6 \<and> (\<forall>c\<in>set s. isdigit c)"

lemma code_of_draw_digits:
  assumes "d < 1000000"
  shows "six_digits (code_of_draw d)"
proof -
  have l: "length (nat_to_string d) \<le> 6"
    using nat_to_string_length [of 6 d] assms by simp
  let ?s = "replicate (6 - length (nat_to_string d)) (CHR ''0'') @ nat_to_string d"
  have "length ?s = 6"
    using l by simp
  then have "code_of_draw d = ?s"
    unfolding code_of_draw_def snprintf_def by (intro take_all) simp
  moreover have "isdigit (CHR ''0'')"
    by (simp add: isdigit_def code_def)
  ultimately show ?thesis
    using l nat_to_string_digits [of d] by (auto simp: six_digits_def)
qed

lemma generateCode_fresh:
  assumes "generateCode draws table = Inr cd" and "\<forall>d\<in>set draws. d < 1000000"
  shows "map_of table cd = None \<and> six_digits cd"
  using assms by (induction draws table rule: generateCode.induct) (auto simp: code_of_draw_digits split: if_splits)

lemma clamp_expire_bounds: "1 \<le> clamp_expire s \<and> clamp_expire s \<le> 1440"
  by (auto simp: clamp_expire_def Let_def split: option.split)

lemma scan_parts_expire: "1 \<le> uf_expire (scan_parts ps) \<and> uf_expire (scan_parts ps) \<le> 1440"
proof -
  have "1 \<le> uf_expire (fold scan_part ps u) \<and> uf_expire (fold scan_part ps u) \<le> 1440"
    if "1 \<le> uf_expire u \<and> uf_expire u \<le> 1440" for u
    using that by (induction ps arbitrary: u) (auto simp: scan_part_def clamp_expire_bounds)
  then show ?thesis
    by (simp add: scan_parts_def)
qed

section \<open>What an upload does to the table\<close>

definition stored_meta :: "upload_input \<Rightarrow> ezdrop \<Rightarrow> string \<Rightarrow> file_meta \<Rightarrow> bool" where
  "stored_meta I S cd m \<longleftrightarrow>
     fm_code m = cd \<and> map_of (codes S) cd = None \<and> six_digits cd
     \<and> ui_now I + 60000 \<le> fm_expireAt m \<and> fm_expireAt m \<le> ui_now I + 86400000"

definition with_upload :: "string \<Rightarrow> file_meta \<Rightarrow> ezdrop \<Rightarrow> ezdrop" where
  "with_upload cd m S =
     S\<lparr>codes := AList.update cd m (codes S),
       totalFilesUploaded := to_unsigned 64 (totalFilesUploaded S + 1),
       totalBytesUploaded := to_unsigned 64 (totalBytesUploaded S + int (fm_fileSize m))\<rparr>"

lemma setBody_status [simp]: "rs_statusCode (setBody b r) = rs_statusCode r"
  by (simp add: setBody_def setContentLength_def addHeader_def)

lemma setContentType_status [simp]: "rs_statusCode (setContentType t r) = rs_statusCode r"
  by (simp add: setContentType_def addHeader_def)

lemma addHeader_status [simp]: "rs_statusCode (addHeader a b r) = rs_statusCode r"
  by (simp add: addHeader_def)

lemma setStatusCode_status [simp]: "rs_statusCode (setStatusCode s r) = s"
  by (simp add: setStatusCode_def)

lemma write_files_error:
  "write_files n FS tmpDir dm parts f = Inr (Some e, f') \<Longrightarrow> fst e \<noteq> 200"
proof (induction parts arbitrary: f)
  case (Cons part parts)
  then show ?case
    by (auto simp: Let_def rbind_Inr_iff split: if_splits prod.splits)
qed simp

lemma store_payload_error:
  "store_payload n FS tmpDir codeDir mode u f = Inr (Inl e, f') \<Longrightarrow> fst e \<noteq> 200"
  by (auto simp: store_payload_def Let_def rbind_Inr_iff split: if_splits prod.splits)

lemma store_upload_cases:
  assumes up: "store_upload n FS I tmpDir u resp (S, f) = Inr (resp', S', f')"
    and draws: "\<forall>d\<in>set (ui_draws I). d < 1000000" and u: "1 \<le> uf_expire u" "uf_expire u \<le> 1440"
  shows "rs_statusCode resp' \<noteq> 200 \<and> S' = S
    \<or> (\<exists>cd m. S' = with_upload cd m S \<and> stored_meta I S cd m
         \<and> resp' = setBody (snprintf 384 (upload_text cd (fm_originalName m) (fm_fileSize m) (uf_expire u))) resp)"
proof -
  let ?mode = "upload_mode u"
  let ?name = "display_name ?mode (uf_files u)"
  from up obtain err f1 where w: "write_files n FS tmpDir (?mode = ''directory'') (uf_files u) f = Inr (err, f1)"
    by (auto simp: store_upload_def Let_def rbind_Inr_iff)
  show ?thesis
  proof (cases err)
    case (Some e)
    with w have "fst e \<noteq> 200"
      using write_files_error by fastforce
    with up w Some show ?thesis
      by (auto simp: store_upload_def Let_def)
  next
    case None
    from up w None obtain cd where g: "generateCode (ui_draws I) (codes S) = Inr cd"
      by (auto simp: store_upload_def Let_def rbind_Inr_iff)
    let ?dir = "ez_storageDir S @ ''/'' @ cd"
    obtain ok f2 where mk: "fs_mkdir FS ?dir f1 = (ok, f2)"
      by fastforce
    note cd = generateCode_fresh [OF g draws]
    show ?thesis
    proof (cases ok)
      case False
      with up w None g mk show ?thesis
        by (auto simp: store_upload_def Let_def rbind_Inr_iff)
    next
      case True
      with up w None g mk obtain stored f3 where st: "store_payload n FS tmpDir ?dir ?mode u f2 = Inr (stored, f3)"
        by (auto simp: store_upload_def Let_def rbind_Inr_iff)
      show ?thesis
      proof (cases stored)
        case (Inl e)
        with st have "fst e \<noteq> 200"
          using store_payload_error by fastforce
        with up w None g mk True st Inl show ?thesis
          by (auto simp: store_upload_def Let_def)
      next
        case (Inr sp)
        obtain path sz where sp: "sp = (path, sz)" by (cases sp)
        define m where "m = \<lparr>fm_code = cd, fm_storagePath = path, fm_originalName = ?name, fm_fileSize = sz,
            fm_expireAt = ui_now I + uf_expire u * 60 * 1000, fm_downloadCount = 0\<rparr>"
        have "S' = with_upload cd m S"
            "resp' = setBody (snprintf 384 (upload_text cd (fm_originalName m) (fm_fileSize m) (uf_expire u))) resp"
          using up w None g mk True st Inr
          by (auto simp: store_upload_def Let_def rbind_Inr_iff sp m_def with_upload_def)
        moreover have "stored_meta I S cd m"
          using cd u by (simp add: stored_meta_def m_def)
        ultimately show ?thesis
          by blast
      qed
    qed
  qed
qed

lemma handleUpload_cases:
  assumes up: "handleUpload n FS I req resp (S, f) = Inr (resp', S', f')"
    and draws: "\<forall>d\<in>set (ui_draws I). d < 1000000"
  shows "rs_statusCode resp' \<noteq> 200 \<and> S' = S
    \<or> (\<exists>cd m e. S' = with_upload cd m S \<and> stored_meta I S cd m
         \<and> resp' = setBody (snprintf 384 (upload_text cd (fm_originalName m) (fm_fileSize m) e))
                    (setContentType ''application/json'' resp))"
proof -
  let ?u = "scan_parts (parseMultipart (rq_body req) (extractBoundary (req_header ''content-type'' req)))"
  let ?resp = "setContentType ''application/json'' resp"
  let ?tmp = "ez_storageDir S @ ''/tmp_'' @ randomSuffix (ui_suffix I)"
  from up consider "rs_statusCode resp' \<noteq> 200 \<and> S' = S"
    | f1 where "store_upload n FS I ?tmp ?u ?resp (S, f1) = Inr (resp', S', f')"
    by (auto simp: handleUpload_def Let_def split: if_splits prod.splits)
  then show ?thesis
  proof cases
    case (2 f1)
    with store_upload_cases [OF this draws] scan_parts_expire show ?thesis
      by blast
  qed simp
qed

end
