(* ===== verification/EzdropProperties.thy ===== *)
theory EzdropProperties
  imports EzdropServer
begin

text \<open>
  What the ezdrop service promises: an uploaded file can be fetched with its code until it
  expires, the sweeper removes what is expired and nothing else, and the number of active
  downloads is the number of descriptors that have one, as long as no descriptor starts a
  second download before its first has been completed.
\<close>

section \<open>Downloads\<close>

text \<open>A download that may start: the code is known, not expired, its file is there, and a slot is free.\<close>

definition downloadable :: "'f file_sys \<Rightarrow> int \<Rightarrow> http_request \<Rightarrow> ezdrop \<times> 'f \<Rightarrow> file_meta \<Rightarrow> nat \<Rightarrow> bool" where
  "downloadable FS now req w m sz \<longleftrightarrow>
     length (pathParam ''code'' req) = 6
     \<and> map_of (codes (fst w)) (pathParam ''code'' req) = Some m \<and> \<not> fm_expireAt m < now
     \<and> fs_stat FS (snd w) (fm_storagePath m) = Some sz
     \<and> (maxConcurrentDownloads (fst w) \<le> 0 \<or> activeDownloads (fst w) < maxConcurrentDownloads (fst w))"

definition count_download :: "string \<Rightarrow> file_meta \<Rightarrow> ezdrop \<Rightarrow> ezdrop" where
  "count_download cd m S = S\<lparr>codes := AList.update cd (m\<lparr>fm_downloadCount := fm_downloadCount m + 1\<rparr>) (codes S)\<rparr>"

definition file_answer :: "file_meta \<Rightarrow> nat \<Rightarrow> http_response \<Rightarrow> bool" where
  "file_answer m sz r \<longleftrightarrow>
     rs_isFile r \<and> rs_filePath r = fm_storagePath m \<and> rs_fileSize r = sz \<and> rs_statusCode r = 200"

lemma handleDownload_starts:
  assumes "downloadable FS now req (S, f) m sz"
  shows "\<exists>r. handleDownload n FS now req response_new conn (S, f)
      = Inr (r, count_download (pathParam ''code'' req) m (start_download conn m S), f) \<and> file_answer m sz r"
proof -
  let ?r = "snd (setFile (fs_stat FS f) (fm_storagePath m) (addHeader ''Content-Disposition''
              (''attachment; filename='' @ quoted (fm_originalName m)) response_new))"
  have "file_answer m sz ?r"
    using assms by (auto simp: downloadable_def file_answer_def setFile_def setContentLength_def setContentType_def
        addHeader_def response_new_def Let_def split: option.split)
  with assms show ?thesis
    by (auto simp: handleDownload_def downloadable_def count_download_def start_download_def Let_def
        split: option.split)
qed

lemma AList_update_lookup: "map_of (AList.update k v xs) k' = (if k' = k then Some v else map_of xs k')"
  by (simp add: update_conv')

lemma AList_update_set: "set (AList.update k v xs) \<subseteq> insert (k, v) (set xs)"
  by (induction xs) auto

text \<open>
  An uploaded file is served. If an upload succeeds, its code is fresh (six digits, not in
  the table before), nothing else in the table changes, the file expires between one minute
  and one day later, the answer carries the code; and until then, while the stored file is on
  disk and a download slot is free, a download with this code answers with exactly this file.
\<close>

theorem uploaded_file_is_served:
  assumes "handleUpload n FS I req response_new (S, f) = Inr (resp, S', f')" and "rs_statusCode resp = 200"
    and "\<forall>d\<in>set (ui_draws I). d < 1000000"
  shows "\<exists>cd m e. six_digits cd \<and> map_of (codes S) cd = None
    \<and> map_of (codes S') = (map_of (codes S))(cd \<mapsto> m)
    \<and> ui_now I + 60000 \<le> fm_expireAt m \<and> fm_expireAt m \<le> ui_now I + 86400000
    \<and> rs_body resp = snprintf 384 (upload_text cd (fm_originalName m) (fm_fileSize m) e)
    \<and> (\<forall>now req' sz conn. pathParam ''code'' req' = cd \<and> now \<le> fm_expireAt m
         \<and> fs_stat FS f' (fm_storagePath m) = Some sz
         \<and> (maxConcurrentDownloads S' \<le> 0 \<or> activeDownloads S' < maxConcurrentDownloads S')
         \<longrightarrow> (\<exists>r S''. handleDownload n FS now req' response_new conn (S', f') = Inr (r, S'', f')
              \<and> file_answer m sz r))"
proof -
  obtain cd m e where S': "S' = with_upload cd m S" and m: "stored_meta I S cd m"
    and r: "resp = setBody (snprintf 384 (upload_text cd (fm_originalName m) (fm_fileSize m) e))
              (setContentType ''application/json'' response_new)"
    using handleUpload_cases [OF assms(1,3)] assms(2) by blast
  have cd: "six_digits cd" "map_of (codes S) cd = None" "length cd = 6"
    using m by (simp_all add: stored_meta_def six_digits_def)
  have table: "map_of (codes S') = (map_of (codes S))(cd \<mapsto> m)"
    by (auto simp: S' with_upload_def AList_update_lookup)
  have body: "rs_body resp = snprintf 384 (upload_text cd (fm_originalName m) (fm_fileSize m) e)"
    by (simp add: r setBody_def setContentLength_def addHeader_def)
  have download: "\<exists>r S''. handleDownload n FS now req' response_new conn (S', f') = Inr (r, S'', f')
      \<and> file_answer m sz r"
    if "pathParam ''code'' req' = cd" "now \<le> fm_expireAt m" "fs_stat FS f' (fm_storagePath m) = Some sz"
      "maxConcurrentDownloads S' \<le> 0 \<or> activeDownloads S' < maxConcurrentDownloads S'" for now req' sz conn
  proof -
    have "downloadable FS now req' (S', f') m sz"
      using that cd table by (simp add: downloadable_def)
    from handleDownload_starts [OF this] show ?thesis
      by blast
  qed
  show ?thesis
    using cd table m body download unfolding stored_meta_def by blast
qed

section \<open>Expiry\<close>

lemma map_of_filter_value:
  "distinct (map fst xs) \<Longrightarrow>
   map_of (filter (\<lambda>(c, m). P m) xs) k = (case map_of xs k of Some m \<Rightarrow> if P m then Some m else None | None \<Rightarrow> None)"
  by (induction xs) (auto simp: map_of_eq_None_iff image_iff split: option.split)

text \<open>
  The sweeper removes exactly the expired entries: every other code keeps its file, and
  no query notices the sweep, because a query does not find expired codes anyway.
\<close>

theorem sweep_removes_expired:
  assumes "sweepExpired n FS now (S, f) = Inr (S', f')" and "distinct (map fst (codes S))"
  shows "map_of (codes S') cd =
      (case map_of (codes S) cd of Some m \<Rightarrow> if now \<le> fm_expireAt m then Some m else None | None \<Rightarrow> None)
    \<and> S' = S\<lparr>codes := codes S'\<rparr>
    \<and> handleQuery now req resp S' = handleQuery now req resp S"
proof -
  have S': "S' = S\<lparr>codes := filter (\<lambda>(c, m). \<not> fm_expireAt m < now) (codes S)\<rparr>"
    using assms(1) by (auto simp: sweepExpired_def Let_def rbind_Inr_iff)
  have look: "map_of (codes S') c =
      (case map_of (codes S) c of Some m \<Rightarrow> if now \<le> fm_expireAt m then Some m else None | None \<Rightarrow> None)" for c
    using map_of_filter_value [OF assms(2), of "\<lambda>m. now \<le> fm_expireAt m" c] by (simp add: S' not_less)
  have "handleQuery now req resp S' = handleQuery now req resp S"
    by (auto simp: handleQuery_def Let_def look split: option.split)
  then show ?thesis
    using look by (simp add: S')
qed

section \<open>Download slots\<close>

definition slots_ok :: "ezdrop \<Rightarrow> bool" where
  "slots_ok S \<longleftrightarrow>
     finite (dom (activeDownloadSizes S)) \<and> activeDownloads S = int (card (dom (activeDownloadSizes S)))
     \<and> (maxConcurrentDownloads S > 0 \<longrightarrow> activeDownloads S \<le> maxConcurrentDownloads S)
     \<and> distinct (map fst (codes S))"

text \<open>
  The steps of the service. A download is started for a connection that has none in progress;
  how uploads, downloads, completions and sweeps follow each other is free.
\<close>

inductive ez_step :: "nat \<Rightarrow> 'f file_sys \<Rightarrow> ezdrop \<times> 'f \<Rightarrow> ezdrop \<times> 'f \<Rightarrow> bool" for n FS where
  Upload: "handleUpload n FS I req resp (S, f) = Inr (resp', S', f') \<Longrightarrow>
    \<forall>d\<in>set (ui_draws I). d < 1000000 \<Longrightarrow> ez_step n FS (S, f) (S', f')"
| Download: "activeDownloadSizes S fd = None \<Longrightarrow>
    handleDownload n FS now req resp (Some fd) (S, f) = Inr (resp', S', f') \<Longrightarrow> ez_step n FS (S, f) (S', f')"
| Complete: "ez_step n FS (S, f) (onWriteComplete (Some fd) S, f)"
| Sweep: "sweepExpired n FS now (S, f) = Inr (S', f') \<Longrightarrow> ez_step n FS (S, f) (S', f')"

lemma slots_ok_upload:
  assumes "handleUpload n FS I req resp (S, f) = Inr (resp', S', f')"
    and "\<forall>d\<in>set (ui_draws I). d < 1000000" and "slots_ok S"
  shows "slots_ok S'"
proof -
  from handleUpload_cases [OF assms(1,2)] consider "S' = S" | cd m where "S' = with_upload cd m S"
    by blast
  then show ?thesis
    using assms(3) by cases (auto simp: slots_ok_def with_upload_def distinct_update)
qed

text \<open>What a download can do to the service.\<close>

lemma handleDownload_steps:
  assumes "handleDownload n FS now req resp (Some fd) (S, f) = Inr (resp', S', f')"
  obtains "S' = S" | cd where "S' = S\<lparr>codes := AList.delete cd (codes S)\<rparr>"
    | cd m where "S' = count_download cd m (start_download (Some fd) m S)" "map_of (codes S) cd = Some m"
        "maxConcurrentDownloads S \<le> 0 \<or> activeDownloads S < maxConcurrentDownloads S"
  using assms
  by (auto simp: handleDownload_def Let_def rbind_Inr_iff count_download_def start_download_def
      split: if_splits option.splits)

lemma slots_ok_download:
  assumes "handleDownload n FS now req resp (Some fd) (S, f) = Inr (resp', S', f')"
    and "activeDownloadSizes S fd = None" and "slots_ok S"
  shows "slots_ok S'"
proof -
  from assms(1) show ?thesis
  proof (cases rule: handleDownload_steps)
    case (3 cd m)
    have "card (insert fd (dom (activeDownloadSizes S))) = Suc (card (dom (activeDownloadSizes S)))"
      using assms(2,3) by (intro card_insert_disjoint) (auto simp: slots_ok_def)
    with 3 assms(3) show ?thesis
      by (auto simp: slots_ok_def count_download_def start_download_def distinct_update)
  qed (use assms(3) in \<open>auto simp: slots_ok_def distinct_delete\<close>)
qed

lemma slots_ok_complete:
  assumes "slots_ok S"
  shows "slots_ok (onWriteComplete (Some fd) S)"
proof (cases "activeDownloadSizes S fd")
  case None
  with assms show ?thesis
    by (simp add: onWriteComplete_def)
next
  case (Some sz)
  then have fd: "fd \<in> dom (activeDownloadSizes S)"
    by auto
  then have "card (dom (activeDownloadSizes S) - {fd}) = card (dom (activeDownloadSizes S)) - 1"
    by (rule card_Diff_singleton)
  moreover have "0 < card (dom (activeDownloadSizes S))"
    using fd assms by (auto simp: slots_ok_def card_gt_0_iff)
  moreover note Some assms
  ultimately show ?thesis
    by (auto simp: slots_ok_def onWriteComplete_def of_nat_diff)
qed

lemma slots_ok_step:
  assumes "ez_step n FS w w'" and "slots_ok (fst w)"
  shows "slots_ok (fst w')"
  using assms
proof cases
  case (Sweep now S f S' f')
  then have "S' = S\<lparr>codes := filter (\<lambda>(c, m). \<not> fm_expireAt m < now) (codes S)\<rparr>"
    by (auto simp: sweepExpired_def Let_def rbind_Inr_iff)
  with Sweep assms(2) show ?thesis
    by (auto simp: slots_ok_def distinct_map_filter)
qed (auto simp: slots_ok_upload slots_ok_download slots_ok_complete)


text \<open>
  C38: a download that is never completed costs a slot for ever. A range request that is
  refused, or a file that vanishes between the two \<^verbatim>\<open>stat\<close> calls, leaves the entry of the
  descriptor behind; the next download on the same descriptor overwrites it and counts again.
  However often the completion callback runs after that, one active download remains that no
  descriptor has, and the limit is reached one download earlier.
\<close>

theorem unfinished_download_leaks_slot:
  assumes "downloadable FS now req (S, f) m sz" and "slots_ok S"
    and "activeDownloadSizes S fd = None"
    and "maxConcurrentDownloads S = activeDownloads S + 2" and "0 \<le> activeDownloads S"
  shows "\<exists>r1 S1 r2 S2. handleDownload n FS now req response_new (Some fd) (S, f) = Inr (r1, S1, f)
    \<and> handleDownload n FS now req response_new (Some fd) (S1, f) = Inr (r2, S2, f)
    \<and> (\<forall>k. let S3 = ((onWriteComplete (Some fd)) ^^ Suc k) S2
           in activeDownloadSizes S3 = activeDownloadSizes S
            \<and> activeDownloads S3 = int (card (dom (activeDownloadSizes S3))) + 1)"
proof -
  let ?cd = "pathParam ''code'' req"
  let ?S1 = "count_download ?cd m (start_download (Some fd) m S)"
  obtain r1 where r1: "handleDownload n FS now req response_new (Some fd) (S, f) = Inr (r1, ?S1, f)"
    using handleDownload_starts [OF assms(1)] by blast
  let ?m1 = "m\<lparr>fm_downloadCount := fm_downloadCount m + 1\<rparr>"
  have "downloadable FS now req (?S1, f) ?m1 sz"
    using assms(1,4,5) by (simp add: downloadable_def count_download_def start_download_def AList_update_lookup)
  from handleDownload_starts [OF this] obtain r2 where r2:
      "handleDownload n FS now req response_new (Some fd) (?S1, f)
         = Inr (r2, count_download ?cd ?m1 (start_download (Some fd) ?m1 ?S1), f)"
    by blast
  let ?S2 = "count_download ?cd ?m1 (start_download (Some fd) ?m1 ?S1)"
  have once: "activeDownloadSizes (onWriteComplete (Some fd) ?S2) = activeDownloadSizes S"
      "activeDownloads (onWriteComplete (Some fd) ?S2) = activeDownloads S + 1"
    using assms(3) by (auto simp: onWriteComplete_def count_download_def start_download_def)
  have idle: "((onWriteComplete (Some fd)) ^^ k) T = T" if "activeDownloadSizes T fd = None" for k T
    using that by (induction k) (simp_all add: onWriteComplete_def)
  have "((onWriteComplete (Some fd)) ^^ Suc k) ?S2 = onWriteComplete (Some fd) ?S2" for k
    using idle [of "onWriteComplete (Some fd) ?S2" k] once(1) assms(3) by (simp only: funpow_Suc_right o_apply)
  with once assms(2) have "\<forall>k. let S3 = ((onWriteComplete (Some fd)) ^^ Suc k) ?S2
           in activeDownloadSizes S3 = activeDownloadSizes S
            \<and> activeDownloads S3 = int (card (dom (activeDownloadSizes S3))) + 1"
    by (simp add: Let_def slots_ok_def del: funpow.simps)
  with r1 r2 show ?thesis
    by blast
qed

section \<open>Witnesses\<close>

text \<open>
  A file system in which every call succeeds and every file has two bytes, and an upload of one
  file to it.
\<close>

definition demo_fs :: "unit file_sys" where
  "demo_fs =
     \<lparr>fs_mkdir = (\<lambda>p f. (True, f)), fs_put = (\<lambda>p d f. (Some (length d), f)),
      fs_list = (\<lambda>p f. Some []), fs_unlink = (\<lambda>p f. (True, f)), fs_rmdir = (\<lambda>p f. f),
      fs_rename = (\<lambda>a b f. (True, f)), fs_tar = (\<lambda>out src f. (Some 0, f)),
      fs_stat = (\<lambda>f p. Some 2)\<rparr>"

definition demo_ez :: ezdrop where
  "demo_ez = fst (ezdrop_new demo_fs ''data'' 8080 [] ())"

definition demo_input :: upload_input where
  "demo_input = \<lparr>ui_now = 1000, ui_suffix = [1, 2, 3, 4, 5, 6, 7, 8], ui_draws = [7]\<rparr>"

definition demo_part :: multipart_part where
  "demo_part = \<lparr>mp_name = ''files'', mp_filename = ''a.txt'', mp_contentType = [], mp_data = ''hi''\<rparr>"

definition demo_form :: upload_form where
  "demo_form = \<lparr>uf_expire = 10, uf_mode = ''files'', uf_files = [demo_part], uf_total = 2\<rparr>"

definition demo_upload_req :: http_request where
  "demo_upload_req = setHeader ''Content-Type'' ''multipart/form-data; boundary=X''
     (setBody_req (multipart_body ''X'' [demo_part] []) request_new)"

lemma demo_scan:
  "scan_parts (parseMultipart (rq_body demo_upload_req)
     (extractBoundary (req_header ''content-type'' demo_upload_req))) = demo_form"
  by code_simp

lemma demo_form_present:
  "rq_body demo_upload_req \<noteq> [] \<and> extractBoundary (req_header ''content-type'' demo_upload_req) \<noteq> []
   \<and> parseMultipart (rq_body demo_upload_req)
       (extractBoundary (req_header ''content-type'' demo_upload_req)) \<noteq> []"
  by code_simp

lemma demo_stages:
  "randomSuffix [1, 2, 3, 4, 5, 6, 7, 8] = ''12345678''"
  "code_of_draw 7 = ''000007''"
  "upload_mode demo_form = ''files''" "uf_files demo_form = [demo_part]"
  "write_files 2 demo_fs ''data/tmp_12345678'' False [demo_part] () = Inr (None, ())"
  "store_payload 2 demo_fs ''data/tmp_12345678'' ''data/000007'' ''files'' demo_form ()
     = Inr (Inr (''data/000007/payload'', 2), ())"
  by code_simp+

lemma demo_calls:
  "ui_draws demo_input = [7]" "ui_suffix demo_input = [1, 2, 3, 4, 5, 6, 7, 8]" "codes demo_ez = []"
  "ez_storageDir demo_ez = ''data''" "maxFileSize demo_ez = 0" "fs_mkdir demo_fs p () = (True, ())"
  "fs_put demo_fs p d () = (Some (length d), ())" "removeDir 2 demo_fs p () = Inr (True, ())"
  by (simp_all add: demo_input_def demo_ez_def ezdrop_new_def demo_fs_def numeral_2_eq_2)

lemma demo_upload:
  "\<exists>r S f. handleUpload 2 demo_fs demo_input demo_upload_req response_new (demo_ez, ()) = Inr (r, S, f)
     \<and> rs_statusCode r = 200"
proof -
  have "\<exists>r S f. store_upload 2 demo_fs demo_input ''data/tmp_12345678'' demo_form
          (setContentType ''application/json'' response_new) (demo_ez, ()) = Inr (r, S, f)
        \<and> rs_statusCode r = 200"
    using demo_stages(5,6)
    by (simp add: store_upload_def demo_stages(2-4) demo_calls Let_def response_new_def
        del: removeDir.simps write_files.simps)
  then show ?thesis
    using demo_form_present
    by (simp add: handleUpload_def Let_def demo_scan demo_stages(1,4) demo_calls del: One_nat_def)
qed

theorem uploaded_file_is_served_witness:
  "\<exists>r S f cd m. handleUpload 2 demo_fs demo_input demo_upload_req response_new (demo_ez, ()) = Inr (r, S, f)
     \<and> six_digits cd \<and> map_of (codes S) cd = Some m \<and> 61000 \<le> fm_expireAt m"
proof -
  obtain r S f where up: "handleUpload 2 demo_fs demo_input demo_upload_req response_new (demo_ez, ())
      = Inr (r, S, f)" and ok: "rs_statusCode r = 200"
    using demo_upload by blast
  have "\<forall>d\<in>set (ui_draws demo_input). d < 1000000"
    by (simp add: demo_input_def)
  from uploaded_file_is_served [OF up ok this] obtain cd m where
      "six_digits cd" "map_of (codes S) = (map_of (codes demo_ez))(cd \<mapsto> m)" "ui_now demo_input + 60000 \<le> fm_expireAt m"
    by blast
  then have "six_digits cd \<and> map_of (codes S) cd = Some m \<and> 61000 \<le> fm_expireAt m"
    by (simp add: demo_input_def)
  with up show ?thesis
    by blast
qed

definition demo_meta :: file_meta where
  "demo_meta = \<lparr>fm_code = ''004711'', fm_storagePath = ''data/004711/payload'', fm_originalName = ''a.txt'',
     fm_fileSize = 2, fm_expireAt = 5000, fm_downloadCount = 0\<rparr>"

theorem sweep_removes_expired_witness:
  "map_of (codes (demo_ez\<lparr>codes := [(''000001'', demo_meta\<lparr>fm_expireAt := 9000\<rparr>)]\<rparr>)) ''004711'' = None
   \<and> (\<exists>S' f'. sweepExpired 2 demo_fs 6000
        (demo_ez\<lparr>codes := [(''004711'', demo_meta), (''000001'', demo_meta\<lparr>fm_expireAt := 9000\<rparr>)]\<rparr>, ())
        = Inr (S', f') \<and> map_of (codes S') ''004711'' = None \<and> map_of (codes S') ''000001'' \<noteq> None)"
proof -
  let ?S = "demo_ez\<lparr>codes := [(''004711'', demo_meta), (''000001'', demo_meta\<lparr>fm_expireAt := 9000\<rparr>)]\<rparr>"
  obtain S' f' where s: "sweepExpired 2 demo_fs 6000 (?S, ()) = Inr (S', f')"
    by (auto simp: sweepExpired_def Let_def drop_stored_def demo_meta_def demo_fs_def rfind_char_def
        numeral_2_eq_2)
  have "distinct (map fst (codes ?S))"
    by simp
  from sweep_removes_expired [OF s this, of "''004711''"] sweep_removes_expired [OF s this, of "''000001''"] s
  show ?thesis
    by (auto simp: demo_meta_def)
qed


theorem unfinished_download_leaks_slot_witness:
  "\<exists>S1 S2 r1 r2 f. handleDownload 2 demo_fs 1000 (setPathParam ''code'' ''004711'' request_new) response_new (Some 7)
        (demo_ez\<lparr>codes := [(''004711'', demo_meta)], maxConcurrentDownloads := 2\<rparr>, f) = Inr (r1, S1, f)
     \<and> handleDownload 2 demo_fs 1000 (setPathParam ''code'' ''004711'' request_new) response_new (Some 7) (S1, f)
        = Inr (r2, S2, f)
     \<and> activeDownloads (onWriteComplete (Some 7) S2) = 1"
proof -
  let ?f = "()"
  let ?S = "demo_ez\<lparr>codes := [(''004711'', demo_meta)], maxConcurrentDownloads := 2\<rparr>"
  let ?req = "setPathParam ''code'' ''004711'' request_new"
  have "downloadable demo_fs 1000 ?req (?S, ?f) demo_meta 2"
    by (simp add: downloadable_def pathParam_def setPathParam_def demo_meta_def demo_fs_def demo_ez_def ezdrop_new_def)
  moreover have "slots_ok ?S" "activeDownloadSizes ?S 7 = None" "maxConcurrentDownloads ?S = activeDownloads ?S + 2"
      "0 \<le> activeDownloads ?S"
    by (simp_all add: slots_ok_def demo_ez_def ezdrop_new_def)
  ultimately obtain r1 S1 r2 S2 where
      r: "handleDownload 2 demo_fs 1000 ?req response_new (Some 7) (?S, ?f) = Inr (r1, S1, ?f)"
        "handleDownload 2 demo_fs 1000 ?req response_new (Some 7) (S1, ?f) = Inr (r2, S2, ?f)"
      and k: "\<forall>k. let S3 = ((onWriteComplete (Some 7)) ^^ Suc k) S2
           in activeDownloadSizes S3 = activeDownloadSizes ?S
            \<and> activeDownloads S3 = int (card (dom (activeDownloadSizes S3))) + 1"
    using unfinished_download_leaks_slot [of demo_fs 1000 ?req ?S ?f demo_meta 2 7] by blast
  from k [THEN spec, of 0] have "activeDownloads (onWriteComplete (Some 7) S2) = 1"
    by (simp add: Let_def demo_ez_def ezdrop_new_def)
  with r show ?thesis
    by blast
qed

end
