(* ===== verification/EzdropStorage.thy ===== *)
theory EzdropStorage
  imports EzdropProperties Router
begin

text \<open>
  What happens on disk when a single file is uploaded: the bytes of the form part end up under
  the path that the table names, and nothing else below the storage directory changes.

  What the service relies on is stated for the paths it uses: relative paths below the storage
  directory without empty, \<^verbatim>\<open>.\<close> and \<^verbatim>\<open>..\<close> segments. The directory holds regular files and
  directories only, so different such paths name different files.
\<close>

section \<open>The files below a directory\<close>

definition rel_ok :: "string \<Rightarrow> bool" where
  "rel_ok r \<longleftrightarrow> (\<forall>s\<in>set (pieces [] r). s \<noteq> [] \<and> s \<noteq> ''.'' \<and> s \<noteq> ''..'')"

definition path_under :: "string \<Rightarrow> string \<Rightarrow> string" where
  "path_under D r = D @ ''/'' @ r"

text \<open>
  The documented behaviour of the calls: directories come and go without touching files, a
  write that reports every byte has stored them, writing and unlinking touch one path,
  renaming moves a file, the names in a directory have no slash.
\<close>

definition store_ok :: "'f file_sys \<Rightarrow> string \<Rightarrow> ('f \<Rightarrow> string \<Rightarrow> string option) \<Rightarrow> bool" where
  "store_ok FS D content \<longleftrightarrow>
     (\<forall>p f. content (snd (fs_mkdir FS p f)) = content f)
     \<and> (\<forall>p f. content (fs_rmdir FS p f) = content f)
     \<and> (\<forall>r d f. rel_ok r \<longrightarrow> fst (fs_put FS (path_under D r) d f) = Some (length d) \<longrightarrow>
          content (snd (fs_put FS (path_under D r) d f)) r = Some d)
     \<and> (\<forall>r d f q. rel_ok r \<longrightarrow> rel_ok q \<longrightarrow> q \<noteq> r \<longrightarrow> content (snd (fs_put FS (path_under D r) d f)) q = content f q)
     \<and> (\<forall>r f q. rel_ok r \<longrightarrow> rel_ok q \<longrightarrow> q \<noteq> r \<longrightarrow> content (snd (fs_unlink FS (path_under D r) f)) q = content f q)
     \<and> (\<forall>a b f. rel_ok a \<longrightarrow> rel_ok b \<longrightarrow> fst (fs_rename FS (path_under D a) (path_under D b) f) \<longrightarrow>
          content (snd (fs_rename FS (path_under D a) (path_under D b) f)) b = content f a)
     \<and> (\<forall>a b f q. rel_ok a \<longrightarrow> rel_ok b \<longrightarrow> rel_ok q \<longrightarrow> q \<noteq> a \<longrightarrow> q \<noteq> b \<longrightarrow>
          content (snd (fs_rename FS (path_under D a) (path_under D b) f)) q = content f q)
     \<and> (\<forall>r f es. rel_ok r \<longrightarrow> fs_list FS (path_under D r) f = Some es \<longrightarrow>
          (\<forall>name d. (name, d) \<in> set es \<longrightarrow> name \<noteq> [] \<and> CHR ''/'' \<notin> set name))"

lemma store_okD:
  assumes "store_ok FS D content"
  shows "content (snd (fs_mkdir FS p f)) = content f"
    and "content (fs_rmdir FS p f) = content f"
    and "rel_ok r \<Longrightarrow> fst (fs_put FS (path_under D r) d f) = Some (length d) \<Longrightarrow>
      content (snd (fs_put FS (path_under D r) d f)) r = Some d"
    and "rel_ok r \<Longrightarrow> rel_ok q \<Longrightarrow> q \<noteq> r \<Longrightarrow> content (snd (fs_put FS (path_under D r) d f)) q = content f q"
    and "rel_ok r \<Longrightarrow> rel_ok q \<Longrightarrow> q \<noteq> r \<Longrightarrow> content (snd (fs_unlink FS (path_under D r) f)) q = content f q"
    and "rel_ok a \<Longrightarrow> rel_ok b \<Longrightarrow> fst (fs_rename FS (path_under D a) (path_under D b) f) \<Longrightarrow>
      content (snd (fs_rename FS (path_under D a) (path_under D b) f)) b = content f a"
    and "rel_ok a \<Longrightarrow> rel_ok b \<Longrightarrow> rel_ok q \<Longrightarrow> q \<noteq> a \<Longrightarrow> q \<noteq> b \<Longrightarrow>
      content (snd (fs_rename FS (path_under D a) (path_under D b) f)) q = content f q"
    and "rel_ok r \<Longrightarrow> fs_list FS (path_under D r) f = Some es \<Longrightarrow> (name, isdir) \<in> set es \<Longrightarrow>
      name \<noteq> [] \<and> CHR ''/'' \<notin> set name"
  using assms unfolding store_ok_def by (simp_all, blast)

lemma pieces_at_slash: "pieces acc (xs @ CHR ''/'' # ys) = pieces acc xs @ pieces [] ys"
  by (induction xs arbitrary: acc) auto

lemma rel_ok_name: "s \<noteq> [] \<Longrightarrow> CHR ''/'' \<notin> set s \<Longrightarrow> s \<noteq> ''.'' \<Longrightarrow> s \<noteq> ''..'' \<Longrightarrow> rel_ok s"
  by (simp add: rel_ok_def pieces_no_slash)

lemma rel_ok_join: "rel_ok (r @ CHR ''/'' # s) \<longleftrightarrow> rel_ok r \<and> rel_ok s"
  by (auto simp: rel_ok_def pieces_at_slash)

lemma path_under_join: "path_under D r @ CHR ''/'' # s = path_under D (r @ CHR ''/'' # s)"
  by (simp add: path_under_def)

text \<open>The paths at or below \<open>r\<close>.\<close>

definition inside :: "string \<Rightarrow> string \<Rightarrow> bool" where
  "inside r q \<longleftrightarrow> q = r \<or> prefix (r @ ''/'') q"

lemma inside_child: "inside (r @ ''/'' @ s) q \<Longrightarrow> inside r q"
  unfolding inside_def by (auto simp: prefix_def)

lemma mkdir_parents_content:
  assumes "store_ok FS D content"
  shows "content (mkdir_parents FS p f) = content f"
proof -
  have "content (fold (\<lambda>i f. if P i then snd (fs_mkdir FS (g i) f) else f) is f) = content f" for P g "is" f
    by (induction "is" arbitrary: f) (simp_all add: store_okD(1) [OF assms])
  then show ?thesis
    by (simp add: mkdir_parents_def)
qed

lemma fold_rbind_Inl: "fold (\<lambda>x acc. rbind acc (g x)) xs (Inl e) = Inl e"
  by (induction xs) simp_all

lemma fold_rbind_preserves:
  assumes "fold (\<lambda>x acc. rbind acc (g x)) xs (Inr f) = Inr f'" and "P f"
    and "\<And>x f1 f2. x \<in> set xs \<Longrightarrow> g x f1 = Inr f2 \<Longrightarrow> P f1 \<Longrightarrow> P f2"
  shows "P f'"
  using assms
proof (induction xs arbitrary: f)
  case (Cons x xs)
  show ?case
  proof (cases "g x f")
    case (Inl e)
    with Cons.prems(1) show ?thesis
      by (simp add: fold_rbind_Inl)
  next
    case (Inr f1)
    with Cons.prems(1) have "fold (\<lambda>x acc. rbind acc (g x)) xs (Inr f1) = Inr f'"
      by simp
    then show ?thesis
      by (rule Cons.IH) (use Cons.prems Inr in auto)
  qed
qed simp

lemma inside_trans: "inside a b \<Longrightarrow> inside b c \<Longrightarrow> inside a c"
  unfolding inside_def by (auto simp: prefix_def)

lemma inside_below: "inside r (r @ CHR ''/'' # s)"
  by (simp add: inside_def)

text \<open>Removing a directory is a sequence of calls to unlink and rmdir, the former at or below it.\<close>

lemma removeDir_preserves:
  assumes st: "store_ok FS D content"
    and unlink: "\<And>s f. rel_ok s \<Longrightarrow> inside base s \<Longrightarrow> P f \<Longrightarrow> P (snd (fs_unlink FS (path_under D s) f))"
    and rmdir: "\<And>p f. P f \<Longrightarrow> P (fs_rmdir FS p f)"
  shows "removeDir n FS (path_under D r) f = Inr (b, f') \<Longrightarrow> rel_ok r \<Longrightarrow> inside base r \<Longrightarrow> P f \<Longrightarrow> P f'"
proof (induction n arbitrary: r f b f')
  case (Suc n)
  show ?case
  proof (cases "fs_list FS (path_under D r) f")
    case None
    with Suc.prems have "f' = snd (fs_unlink FS (path_under D r) f)"
      by (auto dest: arg_cong [where f = snd])
    with unlink [OF Suc.prems(2-4)] show ?thesis
      by simp
  next
    case (Some entries)
    let ?g = "\<lambda>(name, is_dir) f.
        let fullPath = path_under D r @ ''/'' @ name
        in if is_dir then rbind (removeDir n FS fullPath f) (\<lambda>(b, f). Inr f)
           else Inr (snd (fs_unlink FS fullPath f))"
    let ?es = "filter (\<lambda>(name, d). name \<noteq> ''.'' \<and> name \<noteq> ''..'') entries"
    have split: "(\<lambda>(name, is_dir) acc. rbind acc (\<lambda>f.
          let fullPath = path_under D r @ ''/'' @ name
          in if is_dir then rbind (removeDir n FS fullPath f) (\<lambda>(b, f). Inr f)
             else Inr (snd (fs_unlink FS fullPath f)))) = (\<lambda>x acc. rbind acc (?g x))"
      by (intro ext) (simp split: prod.split)
    from Suc.prems(1) Some obtain f1 where run: "fold (\<lambda>x acc. rbind acc (?g x)) ?es (Inr f) = Inr f1"
      and f': "f' = fs_rmdir FS (path_under D r) f1"
      unfolding removeDir.simps split by (auto simp: rbind_Inr_iff)
    have "P f1"
      using run Suc.prems(4)
    proof (rule fold_rbind_preserves)
      fix x f2 f3
      assume x: "x \<in> set ?es" and g: "?g x f2 = Inr f3" and P: "P f2"
      obtain name d where nd: "x = (name, d)"
        by (cases x)
      let ?child = "r @ ''/'' @ name"
      have "name \<noteq> []" "CHR ''/'' \<notin> set name" "name \<noteq> ''.''" "name \<noteq> ''..''"
        using x store_okD(8) [OF st Suc.prems(2) Some, of name d] by (auto simp: nd)
      then have child: "rel_ok ?child" "inside base ?child"
        using Suc.prems(2,3) rel_ok_name inside_trans inside_below by (auto simp: rel_ok_join)
      show "P f3"
      proof (cases d)
        case True
        with g obtain b where "removeDir n FS (path_under D ?child) f2 = Inr (b, f3)"
          by (auto simp: nd path_under_join rbind_Inr_iff Let_def)
        from Suc.IH [OF this child P] show ?thesis .
      next
        case False
        with g unlink [OF child P] show ?thesis
          by (auto simp: nd path_under_join Let_def)
      qed
    qed
    then show ?thesis
      by (simp add: f' rmdir)
  qed
qed simp

lemma removeDir_frame:
  assumes "store_ok FS D content" and "rel_ok q"
    and "removeDir n FS (path_under D r) f = Inr (b, f')" and "rel_ok r" and "\<not> inside r q"
  shows "content f' q = content f q"
proof (rule removeDir_preserves [OF assms(1) _ _ assms(3,4), where base = r and P = "\<lambda>g. content g q = content f q"])
  show "content (snd (fs_unlink FS (path_under D s) g)) q = content f q"
    if "rel_ok s" "inside r s" "content g q = content f q" for s g
  proof -
    have "q \<noteq> s"
      using that(2) assms(5) by auto
    then show ?thesis
      using store_okD(5) [OF assms(1) that(1) assms(2)] that(3) by simp
  qed
qed (simp_all add: store_okD(2) [OF assms(1)] inside_def)

section \<open>Uploading one file\<close>

lemma sanitize_basename:
  assumes "sanitizeFilename name False = safe" and "safe \<noteq> []"
  shows "rel_ok safe" and "CHR ''/'' \<notin> set safe"
proof -
  let ?name = "dropWhile (\<lambda>c. c = CHR ''/'') (slashes name)"
  let ?base = "case rfind_char (CHR ''/'') ?name of None \<Rightarrow> ?name | Some i \<Rightarrow> substr_from (i + 1) ?name"
  have base: "safe = ?base" "safe \<noteq> ''.''" and dots: "find_str ''..'' (slashes name) 0 = None"
    using assms by (auto simp: sanitizeFilename_def Let_def split: if_splits)
  show slash: "CHR ''/'' \<notin> set safe"
    by (auto simp: base(1) rfind_char_None substr_from_def dest: rfind_char_SomeD(3) split: option.split)
  have "sublist safe ?name"
    by (auto simp: base(1) substr_from_def split: option.split)
  then have "sublist safe (slashes name)"
    by (metis suffix_dropWhile suffix_imp_sublist sublist_order.order.trans)
  then have "safe \<noteq> ''..''"
    using dots index_sub_None [of "''..''" "slashes name"] by (auto simp: find_str_def)
  with slash base(2) assms(2) show "rel_ok safe"
    by (intro rel_ok_name) simp_all
qed

lemma writeToFile_content:
  assumes st: "store_ok FS D content" and r: "rel_ok r" and "writeToFile FS (path_under D r) d f = (True, f')"
  shows "content f' r = Some d" and "rel_ok q \<Longrightarrow> q \<noteq> r \<Longrightarrow> content f' q = content f q"
proof -
  let ?parent = "\<lambda>i. substr 0 i (path_under D r)"
  define f1 where "f1 = (case rfind_char (CHR ''/'') (path_under D r) of
      None \<Rightarrow> f | Some i \<Rightarrow> mkdir_parents FS (?parent i) f)"
  have f1: "content f1 = content f"
    by (simp add: f1_def mkdir_parents_content [OF st] split: option.split)
  have put: "fs_put FS (path_under D r) d f1 = (Some (length d), f')"
    using assms(3) by (auto simp: writeToFile_def f1_def [symmetric] Let_def split: prod.splits option.splits)
  show "content f' r = Some d"
    using store_okD(3) [OF st r, of d f1] put by simp
  show "content f' q = content f q" if "rel_ok q" "q \<noteq> r"
    using store_okD(4) [OF st r that, of d f1] put f1 by simp
qed

text \<open>The steps of a successful upload of one file, from the temporary directory on.\<close>

lemma store_upload_single:
  assumes "store_upload n FS I tmpDir u resp (S, f) = Inr (resp', S', f')" and "rs_statusCode resp' = 200"
    and "upload_mode u = ''files''" and "uf_files u = [part]"
  obtains safe f1 cd f2 f3 json b m where "sanitizeFilename (mp_filename part) False = safe" "safe \<noteq> []"
    and "writeToFile FS (tmpDir @ ''/'' @ safe) (mp_data part) f = (True, f1)"
    and "generateCode (ui_draws I) (codes S) = Inr cd"
    and "fs_mkdir FS (ez_storageDir S @ ''/'' @ cd) f1 = (True, f2)"
    and "fs_rename FS (tmpDir @ ''/'' @ safe) (ez_storageDir S @ ''/'' @ cd @ ''/payload'') f2 = (True, f3)"
    and "removeDir n FS tmpDir (snd (fs_put FS (ez_storageDir S @ ''/'' @ cd @ ''/meta.json'') json f3)) = Inr (b, f')"
    and "S' = with_upload cd m S" and "fm_storagePath m = ez_storageDir S @ ''/'' @ cd @ ''/payload''"
    and "fm_fileSize m = uf_total u"
proof -
  let ?safe = "sanitizeFilename (mp_filename part) False"
  show thesis
  proof (cases "?safe = []")
    case True
    with assms show thesis
      by (auto simp: store_upload_def Let_def rbind_Inr_iff)
  next
    case False
    obtain ok f1 where w: "writeToFile FS (tmpDir @ ''/'' @ ?safe) (mp_data part) f = (ok, f1)"
      by fastforce
    have ok: "ok"
    proof (rule ccontr)
      assume "\<not> ok"
      with assms False w show False
        by (auto simp: store_upload_def Let_def rbind_Inr_iff)
    qed
    with assms False w obtain cd where g: "generateCode (ui_draws I) (codes S) = Inr cd"
      by (auto simp: store_upload_def Let_def rbind_Inr_iff)
    obtain ok2 f2 where mk: "fs_mkdir FS (ez_storageDir S @ ''/'' @ cd) f1 = (ok2, f2)"
      by fastforce
    have ok2: "ok2"
    proof (rule ccontr)
      assume "\<not> ok2"
      with assms False w ok g mk show False
        by (auto simp: store_upload_def Let_def rbind_Inr_iff)
    qed
    obtain ok3 f3 where mv: "fs_rename FS (tmpDir @ ''/'' @ ?safe)
        (ez_storageDir S @ ''/'' @ cd @ ''/payload'') f2 = (ok3, f3)"
      by fastforce
    have ok3: "ok3"
    proof (rule ccontr)
      assume "\<not> ok3"
      with assms False w ok g mk ok2 mv show False
        by (auto simp: store_upload_def store_payload_def Let_def rbind_Inr_iff)
    qed
    let ?name = "display_name ''files'' [part]" and ?at = "ui_now I + uf_expire u * 60 * 1000"
    define m where "m = \<lparr>fm_code = cd, fm_storagePath = ez_storageDir S @ ''/'' @ cd @ ''/payload'',
        fm_originalName = ?name, fm_fileSize = uf_total u, fm_expireAt = ?at, fm_downloadCount = 0\<rparr>"
    obtain b where rm: "removeDir n FS tmpDir (snd (fs_put FS (ez_storageDir S @ ''/'' @ cd @ ''/meta.json'')
          (meta_text cd ?name (uf_total u) ?at) f3)) = Inr (b, f')"
      and S': "S' = with_upload cd m S"
      using assms False w ok g mk ok2 mv ok3
      by (auto simp: store_upload_def store_payload_def Let_def rbind_Inr_iff with_upload_def m_def)
    have m: "fm_storagePath m = ez_storageDir S @ ''/'' @ cd @ ''/payload''" "fm_fileSize m = uf_total u"
      by (simp_all add: m_def)
    show thesis
      by (rule that [OF refl False w [unfolded eqTrueI [OF ok]] g mk [unfolded eqTrueI [OF ok2]]
            mv [unfolded eqTrueI [OF ok3]] rm S' m])
  qed
qed

lemma uf_total_sum: "uf_total (scan_parts ps) = sum_list (map (\<lambda>p. length (mp_data p)) (uf_files (scan_parts ps)))"
proof -
  have "uf_total (fold scan_part ps u) = sum_list (map (\<lambda>p. length (mp_data p)) (uf_files (fold scan_part ps u)))"
    if "uf_total u = sum_list (map (\<lambda>p. length (mp_data p)) (uf_files u))" for u
    using that by (induction ps arbitrary: u) (auto simp: scan_part_def)
  then show ?thesis
    by (simp add: scan_parts_def)
qed

lemma alphanum_length: "length alphanum = 36"
  by (simp add: alphanum_def)

lemma randomSuffix_chars: "\<forall>i\<in>set draws. i < 36 \<Longrightarrow> set (randomSuffix draws) \<subseteq> set alphanum"
  using alphanum_length by (auto simp: randomSuffix_def intro!: nth_mem dest: in_set_takeD)

definition temp_name :: "upload_input \<Rightarrow> string" where
  "temp_name I = ''tmp_'' @ randomSuffix (ui_suffix I)"

lemma temp_name_ok:
  assumes "\<forall>i\<in>set (ui_suffix I). i < 36"
  shows "rel_ok (temp_name I)" and "CHR ''/'' \<notin> set (temp_name I)"
proof -
  have "CHR ''/'' \<notin> set alphanum"
    by (simp add: alphanum_def)
  then show "CHR ''/'' \<notin> set (temp_name I)"
    using randomSuffix_chars [OF assms] by (auto simp: temp_name_def)
  then show "rel_ok (temp_name I)"
    by (intro rel_ok_name) (simp_all add: temp_name_def)
qed

lemma code_path_ok:
  assumes "six_digits cd"
  shows "rel_ok (cd @ CHR ''/'' # ''payload'')" "rel_ok (cd @ CHR ''/'' # ''meta.json'')"
    and "\<not> inside (temp_name I) (cd @ CHR ''/'' # s)"
proof -
  have cd: "cd \<noteq> []" "\<forall>c\<in>set cd. isdigit c" "length cd = 6"
    using assms by (auto simp: six_digits_def)
  have nd: "\<not> isdigit (CHR ''/'')" "\<not> isdigit (CHR ''.'')" "\<not> isdigit (CHR ''t'')"
    by (simp_all add: isdigit_def code_def)
  have "rel_ok cd"
    using cd nd by (intro rel_ok_name) auto
  moreover have "rel_ok ''payload''" "rel_ok ''meta.json''"
    by (intro rel_ok_name; simp)+
  ultimately show "rel_ok (cd @ CHR ''/'' # ''payload'')" "rel_ok (cd @ CHR ''/'' # ''meta.json'')"
    by (simp_all add: rel_ok_join)
  have "hd (cd @ CHR ''/'' # s) \<noteq> CHR ''t''"
    using cd nd by (cases cd) auto
  then show "\<not> inside (temp_name I) (cd @ CHR ''/'' # s)"
    by (auto simp: inside_def temp_name_def prefix_def)
qed

lemma handleUpload_stores:
  assumes "handleUpload n FS I req resp0 (S, f) = Inr (resp, S', f')" and "rs_statusCode resp = 200"
  shows "\<exists>f0. fs_mkdir FS (ez_storageDir S @ ''/tmp_'' @ randomSuffix (ui_suffix I)) f = (True, f0)
    \<and> store_upload n FS I (ez_storageDir S @ ''/tmp_'' @ randomSuffix (ui_suffix I))
        (scan_parts (parseMultipart (rq_body req) (extractBoundary (req_header ''content-type'' req))))
        (setContentType ''application/json'' resp0) (S, f0) = Inr (resp, S', f')"
  using assms by (auto simp: handleUpload_def Let_def split: if_splits prod.splits)

lemma upload_stores:
  assumes "store_ok FS (ez_storageDir S) content"
    and "handleUpload n FS I req response_new (S, f) = Inr (resp, S', f')" and "rs_statusCode resp = 200"
    and "\<forall>d\<in>set (ui_draws I). d < 1000000" and "\<forall>i\<in>set (ui_suffix I). i < 36"
    and "scan_parts (parseMultipart (rq_body req) (extractBoundary (req_header ''content-type'' req))) = u"
    and "upload_mode u = ''files''" and "uf_files u = [part]"
  shows "\<exists>cd m. map_of (codes S) cd = None \<and> map_of (codes S') cd = Some m
    \<and> fm_storagePath m = path_under (ez_storageDir S) (cd @ ''/payload'')
    \<and> content f' (cd @ ''/payload'') = Some (mp_data part) \<and> fm_fileSize m = length (mp_data part)
    \<and> (\<forall>q. rel_ok q \<and> \<not> inside cd q \<and> \<not> inside (temp_name I) q \<longrightarrow> content f' q = content f q)"
proof -
  let ?D = "ez_storageDir S" and ?T = "temp_name I"
  note st = assms(1)
  have tmp: "?D @ ''/tmp_'' @ randomSuffix (ui_suffix I) = path_under ?D ?T"
    by (simp add: path_under_def temp_name_def)
  obtain f0 where mk0: "fs_mkdir FS (path_under ?D ?T) f = (True, f0)"
    and up: "store_upload n FS I (path_under ?D ?T) u (setContentType ''application/json'' response_new) (S, f0)
      = Inr (resp, S', f')"
    using handleUpload_stores [OF assms(2,3)] unfolding tmp assms(6) by blast
  have f0: "content f0 = content f"
    using store_okD(1) [OF st, of "path_under ?D ?T" f] mk0 by simp
  obtain safe f1 cd f2 f3 json b m where steps: "sanitizeFilename (mp_filename part) False = safe" "safe \<noteq> []"
      "writeToFile FS (path_under ?D ?T @ ''/'' @ safe) (mp_data part) f0 = (True, f1)"
      "generateCode (ui_draws I) (codes S) = Inr cd" "fs_mkdir FS (?D @ ''/'' @ cd) f1 = (True, f2)"
      "fs_rename FS (path_under ?D ?T @ ''/'' @ safe) (?D @ ''/'' @ cd @ ''/payload'') f2 = (True, f3)"
      "removeDir n FS (path_under ?D ?T) (snd (fs_put FS (?D @ ''/'' @ cd @ ''/meta.json'') json f3)) = Inr (b, f')"
      "S' = with_upload cd m S" "fm_storagePath m = ?D @ ''/'' @ cd @ ''/payload''" "fm_fileSize m = uf_total u"
    using store_upload_single [OF up assms(3,7,8)] .
  let ?file = "?T @ CHR ''/'' # safe" and ?payload = "cd @ CHR ''/'' # ''payload''"
    and ?meta = "cd @ CHR ''/'' # ''meta.json''"
  let ?f4 = "snd (fs_put FS (path_under ?D ?meta) json f3)"
  have cd: "map_of (codes S) cd = None" "six_digits cd"
    using generateCode_fresh [OF steps(4) assms(4)] by simp_all
  note T = temp_name_ok [OF assms(5)] and safe = sanitize_basename [OF steps(1,2)] and paths = code_path_ok [OF cd(2)]
  have there: "rel_ok ?file" "inside ?T ?file"
    using T safe by (simp_all add: rel_ok_join inside_def)
  have wrote: "writeToFile FS (path_under ?D ?file) (mp_data part) f0 = (True, f1)"
    using steps(3) by (simp add: path_under_join)
  have mk: "content f2 = content f1"
    using store_okD(1) [OF st, of "?D @ ''/'' @ cd" f1] steps(5) by simp
  have move: "fs_rename FS (path_under ?D ?file) (path_under ?D ?payload) f2 = (True, f3)"
    using steps(6) by (simp add: path_under_join) (simp add: path_under_def)
  have rm: "removeDir n FS (path_under ?D ?T) ?f4 = Inr (b, f')"
    using steps(7) by (simp add: path_under_def)
  have payload_apart: "?payload \<noteq> ?file" "?payload \<noteq> ?meta"
    using there(2) paths(3) [of I "''payload''"] by auto
  have stored: "content f' ?payload = Some (mp_data part)"
  proof -
    have "content f' ?payload = content ?f4 ?payload"
      by (rule removeDir_frame [OF st paths(1) rm T(1) paths(3)])
    also have "\<dots> = content f3 ?payload"
      by (rule store_okD(4) [OF st paths(2,1) payload_apart(2)])
    also have "\<dots> = content f2 ?file"
      using store_okD(6) [OF st there(1) paths(1), of f2] move by simp
    also have "\<dots> = Some (mp_data part)"
      using writeToFile_content(1) [OF st there(1) wrote] mk by simp
    finally show ?thesis .
  qed
  have others: "content f' q = content f q" if q: "rel_ok q" "\<not> inside cd q" "\<not> inside ?T q" for q
  proof -
    have "q \<noteq> ?payload" "q \<noteq> ?meta" "q \<noteq> ?file"
      using q(2,3) there(2) by (auto simp: inside_def)
    then have "content f' q = content f3 q" "content f3 q = content f2 q" "content f1 q = content f0 q"
      using removeDir_frame [OF st q(1) rm T(1) q(3)] store_okD(4) [OF st paths(2) q(1), of json f3]
        store_okD(7) [OF st there(1) paths(1) q(1), of f2] move writeToFile_content(2) [OF st there(1) wrote q(1)]
      by simp_all
    then show ?thesis
      using mk f0 by simp
  qed
  have "map_of (codes S') cd = Some m" "fm_fileSize m = length (mp_data part)"
      "fm_storagePath m = path_under ?D (cd @ ''/payload'')"
    using steps(8-10) assms(6,8) uf_total_sum
    by (auto simp: with_upload_def AList_update_lookup path_under_def)
  then show ?thesis
    using cd(1) stored others by (intro exI [of _ cd] exI [of _ m]) simp
qed

text \<open>
  The bytes of an upload are the bytes that are stored. If an upload of one file in the
  file mode succeeds, the file that the table names for the new code has exactly the data of
  the form part, and its recorded size is that of the data; every other file below the storage
  directory, outside the new directory and the temporary one, is as it was.
\<close>

theorem uploaded_bytes_stored:
  assumes "store_ok FS (ez_storageDir S) content"
    and "handleUpload n FS I req response_new (S, f) = Inr (resp, S', f')" and "rs_statusCode resp = 200"
    and "\<forall>d\<in>set (ui_draws I). d < 1000000" and "\<forall>i\<in>set (ui_suffix I). i < 36"
    and "scan_parts (parseMultipart (rq_body req) (extractBoundary (req_header ''content-type'' req))) = u"
    and "upload_mode u = ''files''" and "uf_files u = [part]"
  shows "\<exists>cd m. map_of (codes S) cd = None \<and> map_of (codes S') cd = Some m
    \<and> fm_storagePath m = path_under (ez_storageDir S) (cd @ ''/payload'')
    \<and> content f' (cd @ ''/payload'') = Some (mp_data part) \<and> fm_fileSize m = length (mp_data part)
    \<and> (\<forall>q. rel_ok q \<and> \<not> inside cd q \<and> \<not> inside (temp_name I) q \<longrightarrow> content f' q = content f q)"
  using upload_stores [OF assms] .

section \<open>Witness\<close>

text \<open>Files as a map from paths to contents.\<close>

definition map_fs :: "(string \<Rightarrow> string option) file_sys" where
  "map_fs =
     \<lparr>fs_mkdir = (\<lambda>p f. (True, f)), fs_put = (\<lambda>p d f. (Some (length d), f(p \<mapsto> d))),
      fs_list = (\<lambda>p f. Some []), fs_unlink = (\<lambda>p f. (True, f(p := None))), fs_rmdir = (\<lambda>p f. f),
      fs_rename = (\<lambda>a b f. (True, (f(a := None))(b := f a))), fs_tar = (\<lambda>out src f. (None, f)),
      fs_stat = (\<lambda>f p. map_option length (f p))\<rparr>"

lemma map_fs_ok: "store_ok map_fs D (\<lambda>f r. f (path_under D r))"
  by (simp add: store_ok_def map_fs_def path_under_def)

lemma map_fs_calls:
  "fs_mkdir map_fs p f = (True, f)" "\<exists>f'. writeToFile map_fs p d f = (True, f')"
  "removeDir 2 map_fs p f = Inr (True, f)" "\<exists>f'. fs_rename map_fs p q f = (True, f')"
  by (simp_all add: map_fs_def writeToFile_def Let_def numeral_2_eq_2)

lemma demo_map_upload:
  "\<exists>r S f. handleUpload 2 map_fs demo_input demo_upload_req response_new (demo_ez, Map.empty) = Inr (r, S, f)
     \<and> rs_statusCode r = 200"
proof -
  let ?tmp = "''data/tmp_12345678''"
  have safe: "sanitizeFilename (mp_filename demo_part) False = ''a.txt''"
    by code_simp
  obtain f1 where w: "writeToFile map_fs (?tmp @ ''/'' @ ''a.txt'') (mp_data demo_part) Map.empty = (True, f1)"
    using map_fs_calls(2) by blast
  have files: "write_files 2 map_fs ?tmp False [demo_part] Map.empty = Inr (None, f1)"
    using w by (simp add: safe)
  obtain f2 where mv: "fs_rename map_fs (?tmp @ ''/'' @ ''a.txt'') ''data/000007/payload'' f1 = (True, f2)"
    using map_fs_calls(4) by blast
  have payload: "store_payload 2 map_fs ?tmp ''data/000007'' ''files'' demo_form f1
      = Inr (Inr (''data/000007/payload'', 2), f2)"
    using mv by (simp add: store_payload_def demo_stages(4) safe) (simp add: demo_form_def)
  have "\<exists>r S f. store_upload 2 map_fs demo_input ?tmp demo_form (setContentType ''application/json'' response_new)
          (demo_ez, Map.empty) = Inr (r, S, f) \<and> rs_statusCode r = 200"
    using files payload
    by (simp add: store_upload_def demo_stages(2-4) demo_calls(1-5) map_fs_calls(1,3) Let_def response_new_def
        del: removeDir.simps write_files.simps)
  then show ?thesis
    using demo_form_present
    by (simp add: handleUpload_def Let_def demo_scan demo_stages(1,4) demo_calls(1-5) map_fs_calls(1)
        del: One_nat_def)
qed

theorem uploaded_bytes_stored_witness:
  "\<exists>r S f cd. handleUpload 2 map_fs demo_input demo_upload_req response_new (demo_ez, Map.empty) = Inr (r, S, f)
     \<and> f (path_under ''data'' (cd @ ''/payload'')) = Some ''hi''"
proof -
  obtain r S f where up: "handleUpload 2 map_fs demo_input demo_upload_req response_new (demo_ez, Map.empty)
      = Inr (r, S, f)" and ok: "rs_statusCode r = 200"
    using demo_map_upload by blast
  have inputs: "\<forall>d\<in>set (ui_draws demo_input). d < 1000000" "\<forall>i\<in>set (ui_suffix demo_input). i < 36"
    by (simp_all add: demo_input_def)
  obtain cd where "f (path_under (ez_storageDir demo_ez) (cd @ ''/payload'')) = Some (mp_data demo_part)"
    using uploaded_bytes_stored [OF map_fs_ok up ok inputs demo_scan demo_stages(3,4)] by blast
  then have "f (path_under ''data'' (cd @ ''/payload'')) = Some ''hi''"
    by (simp add: demo_calls(4) demo_part_def)
  with up show ?thesis
    by blast
qed

end
