(* ===== verification/ImageHosting.thy ===== *)
theory ImageHosting
  imports FileSystem Router HttpResponse ThreadPool
begin

text \<open>
  The image hosting example (\<^verbatim>\<open>examples/image_hosting/ImageHosting.h\<close>, \<^verbatim>\<open>ImageHosting.cpp\<close> and
  the routes of its \<^verbatim>\<open>main.cpp\<close>): an upload queues a task that writes the image and answers with
  its URL, a request for that URL serves the file.

  A task of the pool is the pair of path and data that its closure captures. The numbers
  drawn from the generator are an argument, and so is the text of the index page.
\<close>

section \<open>State and operations\<close>

record image_host =
  ih_storageDir :: string
  uploadPool :: "(string \<times> string) pool"

text \<open>The constructor, given which of the two threads of the pool can be created.\<close>

definition image_host_new ::
    "'f file_sys \<Rightarrow> bool \<Rightarrow> bool \<Rightarrow> string \<Rightarrow> 'f \<Rightarrow> (image_host \<times> 'f) res" where
  "image_host_new FS created1 created2 storage f =
     rbind (pool_new [created1, created2] 200) (\<lambda>p.
     Inr (\<lparr>ih_storageDir = storage, uploadPool = p\<rparr>, snd (fs_mkdir FS storage f)))"

definition hex_digits :: string where
  "hex_digits = ''0123456789abcdef''"

definition generateUUID :: "(nat \<Rightarrow> nat) \<Rightarrow> string" where
  "generateUUID draws = map (\<lambda>i. hex_digits ! draws i) [0..<32]"

definition getExt :: "string \<Rightarrow> string" where
  "getExt contentType =
     (if contentType = ''image/jpeg'' then ''.jpg''
      else if contentType = ''image/png'' then ''.png''
      else if contentType = ''image/gif'' then ''.gif''
      else if contentType = ''image/webp'' then ''.webp''
      else if contentType = ''image/bmp'' then ''.bmp''
      else ''.bin'')"

definition image_path :: "string \<Rightarrow> string \<Rightarrow> string" where
  "image_path storage filename = storage @ ''/'' @ substr 0 2 filename @ ''/'' @ filename"

definition url_text :: "string \<Rightarrow> string" where
  "url_text filename =
     ''{'' @ quoted ''url'' @ '':'' @ quoted (''/img/'' @ filename) @ '',''
     @ quoted ''filename'' @ '':'' @ quoted filename @ ''}''"

definition image_error :: "int \<Rightarrow> string \<Rightarrow> http_response \<Rightarrow> http_response" where
  "image_error status msg resp =
     setBody (''{'' @ quoted ''error'' @ '':'' @ quoted msg @ ''}'') (setStatusCode status resp)"

text \<open>
  \<^verbatim>\<open>handleUpload\<close>. The body is moved out of the request before anything is decided; a full
  queue throws out of the handler.
\<close>

definition image_upload ::
    "'f file_sys \<Rightarrow> (nat \<Rightarrow> nat) \<Rightarrow> http_request \<Rightarrow> http_response \<Rightarrow> image_host \<times> 'f
     \<Rightarrow> (http_response \<times> http_request \<times> image_host \<times> 'f) res" where
  "image_upload FS draws req resp w =
     (let (H, f) = w; (body, req1) = consumeBody req in
      if body = [] then Inr (image_error 400 ''empty body'' resp, req1, H, f)
      else
        let ext = getExt (req_header ''Content-Type'' req1);
            uuid = generateUUID draws;
            dir = ih_storageDir H @ ''/'' @ substr 0 2 uuid;
            filename = uuid @ ext;
            filepath = dir @ ''/'' @ filename;
            f1 = snd (fs_mkdir FS dir f)
        in rbind (enqueue (filepath, body) (uploadPool H)) (\<lambda>p.
           Inr (setBody (url_text filename) resp, req1, H\<lparr>uploadPool := p\<rparr>, f1)))"

text \<open>The task: a file that cannot be opened is given up silently.\<close>

definition write_image :: "'f file_sys \<Rightarrow> string \<times> string \<Rightarrow> 'f \<Rightarrow> 'f" where
  "write_image FS t f = snd (fs_put FS (fst t) (snd t) f)"

section \<open>The routes of the program\<close>

datatype image_handler = UploadImage | ShowImage | ImagePage

definition image_routes :: "image_handler router" where
  "image_routes =
     addRoute ''GET'' ''/'' ImagePage
       (addRoute ''GET'' ''/img/:filename'' ShowImage
         (addRoute ''POST'' ''/upload'' UploadImage router_new))"

definition image_name_ok :: "string \<Rightarrow> bool" where
  "image_name_ok filename \<longleftrightarrow>
     filename \<noteq> [] \<and> find_str ''..'' filename 0 = None \<and> find_char (CHR ''/'') filename 0 = None
     \<and> find_char BSLASH filename 0 = None"

definition show_image :: "(string \<Rightarrow> nat option) \<Rightarrow> string \<Rightarrow> http_request \<Rightarrow> http_response \<Rightarrow> http_response" where
  "show_image stat storage req resp =
     (let filename = pathParam ''filename'' req in
      if \<not> image_name_ok filename then image_error 400 ''invalid filename'' resp
      else
        let filepath = image_path storage filename in
        if stat filepath = None then image_error 404 ''not found'' resp
        else snd (setFile stat filepath resp))"

definition image_handle ::
    "'f file_sys \<Rightarrow> (nat \<Rightarrow> nat) \<Rightarrow> string \<Rightarrow> image_handler \<Rightarrow> http_request \<Rightarrow> http_response \<Rightarrow> image_host \<times> 'f
     \<Rightarrow> (http_response \<times> http_request \<times> image_host \<times> 'f) res" where
  "image_handle FS draws page h req resp w =
     (case h of
        UploadImage \<Rightarrow> image_upload FS draws req resp w
      | ShowImage \<Rightarrow> Inr (show_image (fs_stat FS (snd w)) (ih_storageDir (fst w)) req resp, req, w)
      | ImagePage \<Rightarrow> Inr (setBody page (setContentType ''text/html; charset=utf-8'' resp), req, w))"

section \<open>Names of images\<close>

lemma urlDecode_id: "\<forall>c\<in>set s. c \<noteq> CHR ''%'' \<and> c \<noteq> CHR ''+'' \<Longrightarrow> urlDecode s = s"
  by (induction s) (simp_all add: urlDecode_plain)

lemma no_two_dots:
  assumes "count_list s (CHR ''.'') \<le> 1"
  shows "\<not> sublist ''..'' s"
proof
  assume "sublist ''..'' s"
  then obtain ps ss where "s = ps @ ''..'' @ ss"
    by (auto simp: sublist_def)
  with assms show False
    by simp
qed

definition image_name :: "string \<Rightarrow> bool" where
  "image_name s \<longleftrightarrow> (\<exists>uuid ext. s = uuid @ ext \<and> length uuid = 32 \<and> set uuid \<subseteq> set hex_digits
     \<and> ext \<in> {''.jpg'', ''.png'', ''.gif'', ''.webp'', ''.bmp'', ''.bin''})"

lemma hex_digits_length: "length hex_digits = 16"
  by (simp add: hex_digits_def)

lemma image_name_uploaded:
  assumes "\<forall>i<32. draws i < 16"
  shows "image_name (generateUUID draws @ getExt t)"
proof -
  have "set (generateUUID draws) \<subseteq> set hex_digits"
    using assms hex_digits_length by (auto simp: generateUUID_def intro!: nth_mem)
  moreover have "length (generateUUID draws) = 32"
    by (simp add: generateUUID_def)
  ultimately show ?thesis
    unfolding image_name_def by (intro exI [of _ "generateUUID draws"] exI [of _ "getExt t"]) (simp add: getExt_def)
qed

lemma image_name_chars:
  assumes "image_name s"
  shows "s \<noteq> []" and "\<forall>c\<in>set s. c \<notin> {CHR ''/'', BSLASH, CHR ''%'', CHR ''+''}"
    and "count_list s (CHR ''.'') \<le> 1"
proof -
  obtain uuid ext where s: "s = uuid @ ext" "length uuid = 32" "set uuid \<subseteq> set hex_digits"
      "ext \<in> {''.jpg'', ''.png'', ''.gif'', ''.webp'', ''.bmp'', ''.bin''}"
    using assms unfolding image_name_def by blast
  show "s \<noteq> []"
    using s by auto
  have "\<forall>c\<in>set hex_digits. c \<notin> {CHR ''/'', BSLASH, CHR ''%'', CHR ''+'', CHR ''.''}"
    by (simp add: hex_digits_def)
  then have uuid: "\<forall>c\<in>set uuid. c \<notin> {CHR ''/'', BSLASH, CHR ''%'', CHR ''+'', CHR ''.''}"
    using s(3) by blast
  have ext: "\<forall>c\<in>set ext. c \<notin> {CHR ''/'', BSLASH, CHR ''%'', CHR ''+''}" "count_list ext (CHR ''.'') = 1"
    using s(4) by auto
  show "\<forall>c\<in>set s. c \<notin> {CHR ''/'', BSLASH, CHR ''%'', CHR ''+''}"
    using uuid ext(1) by (auto simp: s(1))
  have "count_list uuid (CHR ''.'') = 0"
    using uuid by (intro count_notin) blast
  then show "count_list s (CHR ''.'') \<le> 1"
    using ext(2) by (simp add: s(1))
qed

lemma image_name_accepted: "image_name s \<Longrightarrow> image_name_ok s"
  using image_name_chars [of s] no_two_dots [of s] index_sub_None [of "''..''" s]
  by (auto simp: image_name_ok_def find_char_None find_str_def)

lemma image_name_decoded: "image_name s \<Longrightarrow> urlDecode s = s"
  using image_name_chars [of s] by (intro urlDecode_id) blast

lemma image_roots:
  "methodRoots image_routes ''GET'' = Some (RadixNode [] [''img'' \<mapsto>
     RadixNode ''img'' Map.empty (Some (RadixNode ''filename'' Map.empty None (Some ShowImage))) None] None (Some ImagePage))"
  "methodRoots image_routes ''POST'' = Some (RadixNode [] [''upload'' \<mapsto>
     RadixNode ''upload'' Map.empty None (Some UploadImage)] None None)"
proof -
  have "splitPath ''/img/:filename'' = [''img'', '':filename'']" "splitPath ''/upload'' = [''upload'']" "splitPath ''/'' = []"
    by code_simp+
  then show "methodRoots image_routes ''GET'' = Some (RadixNode [] [''img'' \<mapsto>
     RadixNode ''img'' Map.empty (Some (RadixNode ''filename'' Map.empty None (Some ShowImage))) None] None (Some ImagePage))"
    "methodRoots image_routes ''POST'' = Some (RadixNode [] [''upload'' \<mapsto>
     RadixNode ''upload'' Map.empty None (Some UploadImage)] None None)"
    by (simp_all add: image_routes_def addRoute_def router_new_def node_new_def)
qed

lemma route_image:
  assumes "image_name s" and "rq_method q = ''GET''" and "rq_path q = ''/img/'' @ s"
  shows "\<exists>q'. route image_routes q = (q', Some ShowImage) \<and> pathParam ''filename'' q' = s"
proof -
  have "\<forall>seg\<in>set [''img'', s]. seg \<noteq> [] \<and> CHR ''/'' \<notin> set seg"
    using image_name_chars [OF assms(1)] by auto
  from splitPath_join [OF this] have "splitPath (rq_path q) = [''img'', s]"
    by (simp add: assms(3) join_path_def)
  then show ?thesis
    using assms(2) image_name_decoded [OF assms(1)]
    by (simp add: route_def image_roots pathParam_def setPathParam_def)
qed

lemma image_shown:
  assumes "image_name s" and "rq_method q = ''GET''" and "rq_path q = ''/img/'' @ s"
  shows "\<exists>q'. route image_routes q = (q', Some ShowImage)
    \<and> (\<forall>H f. image_handle FS draws page ShowImage q' response_new (H, f)
         = Inr (case fs_stat FS f (image_path (ih_storageDir H) s) of
                  None \<Rightarrow> image_error 404 ''not found'' response_new
                | Some sz \<Rightarrow> snd (setFile (fs_stat FS f) (image_path (ih_storageDir H) s) response_new), q', H, f))"
proof -
  obtain q' where "route image_routes q = (q', Some ShowImage)" "pathParam ''filename'' q' = s"
    using route_image [OF assms] by blast
  then show ?thesis
    using image_name_accepted [OF assms(1)]
    by (auto simp: image_handle_def show_image_def Let_def split: option.split)
qed

text \<open>
  An uploaded image is served at the URL of the answer. An upload with a body queues
  exactly one task behind what was queued, and its answer names a URL. A request for that URL
  is routed to the handler of images, passes its check of the file name, and is answered with
  the very file that the task writes, with 404 as long as it is not there.
\<close>

theorem uploaded_image_is_served:
  assumes "image_upload FS draws req resp (H, f) = Inr (r, req1, H', f')" and "rq_body req \<noteq> []"
    and "\<forall>i<32. draws i < 16"
  shows "\<exists>name path. rs_body r = url_text name
    \<and> tasks (uploadPool H') = tasks (uploadPool H) @ [(path, rq_body req)]
    \<and> (\<forall>q. rq_method q = ''GET'' \<and> rq_path q = ''/img/'' @ name \<longrightarrow>
        (\<exists>q'. route image_routes q = (q', Some ShowImage)
         \<and> (\<forall>f2. image_handle FS draws page ShowImage q' response_new (H', f2)
              = Inr (case fs_stat FS f2 path of
                       None \<Rightarrow> image_error 404 ''not found'' response_new
                     | Some sz \<Rightarrow> snd (setFile (fs_stat FS f2) path response_new), q', H', f2))))"
proof -
  let ?name = "generateUUID draws @ getExt (req_header ''Content-Type'' req)"
  let ?path = "image_path (ih_storageDir H) ?name"
  have name: "image_name ?name"
    using image_name_uploaded [OF assms(3)] .
  have pre: "substr 0 2 (generateUUID draws @ e) = substr 0 2 (generateUUID draws)" for e
    by (simp add: substr_def generateUUID_def)
  have up: "rs_body r = url_text ?name" "tasks (uploadPool H') = tasks (uploadPool H) @ [(?path, rq_body req)]"
      "ih_storageDir H' = ih_storageDir H"
    using assms(1,2)
    by (auto simp: image_upload_def Let_def consumeBody_def rbind_Inr_iff enqueue_def image_path_def pre req_header_def
        setBody_def setContentLength_def addHeader_def split: if_splits)
  have serve: "\<exists>q'. route image_routes q = (q', Some ShowImage)
      \<and> (\<forall>f2. image_handle FS draws page ShowImage q' response_new (H', f2)
              = Inr (case fs_stat FS f2 ?path of
                       None \<Rightarrow> image_error 404 ''not found'' response_new
                     | Some sz \<Rightarrow> snd (setFile (fs_stat FS f2) ?path response_new), q', H', f2))"
    if "rq_method q = ''GET''" "rq_path q = ''/img/'' @ ?name" for q
    using image_shown [OF name that, of FS draws page] up(3) by metis
  show ?thesis
    using up(1,2) serve by blast
qed

definition unit_fs :: "unit file_sys" where
  "unit_fs =
     \<lparr>fs_mkdir = (\<lambda>p f. (True, f)), fs_put = (\<lambda>p d f. (Some (length d), f)),
      fs_list = (\<lambda>p f. None), fs_unlink = (\<lambda>p f. (True, f)), fs_rmdir = (\<lambda>p f. f),
      fs_rename = (\<lambda>a b f. (True, f)), fs_tar = (\<lambda>out src f. (Some 0, f)),
      fs_stat = (\<lambda>f p. Some 3)\<rparr>"

definition empty_host :: image_host where
  "empty_host = \<lparr>ih_storageDir = ''images'', uploadPool = \<lparr>tasks = [], stop_flag = False, maxQueueSize = 200,
     workers = [Checking, Checking], notifies_due = 0, notify_all_due = False\<rparr>\<rparr>"

theorem uploaded_image_is_served_witness:
  "\<exists>r q1 H' path. image_upload unit_fs (\<lambda>i. 10) (setBody_req ''png'' request_new) response_new (empty_host, ())
       = Inr (r, q1, H', ()) \<and> tasks (uploadPool H') = [(path, ''png'')]"
proof -
  let ?q = "setBody_req ''png'' request_new"
  obtain r q1 H' where up: "image_upload unit_fs (\<lambda>i. 10) ?q response_new (empty_host, ()) = Inr (r, q1, H', ())"
    by (auto simp: image_upload_def Let_def consumeBody_def enqueue_def empty_host_def setBody_req_def request_new_def)
  have body: "rq_body ?q \<noteq> []" "\<forall>i<32. (10::nat) < 16"
    by (simp_all add: setBody_req_def)
  obtain path where "tasks (uploadPool H') = tasks (uploadPool empty_host) @ [(path, rq_body ?q)]"
    using uploaded_image_is_served [OF up body] by blast
  with up show ?thesis
    by (auto simp: setBody_req_def empty_host_def)
qed



section \<open>A burst of uploads\<close>

text \<open>Uploads one after the other, while no worker takes a task from the queue.\<close>

fun image_uploads ::
    "'f file_sys \<Rightarrow> ((nat \<Rightarrow> nat) \<times> http_request) list \<Rightarrow> image_host \<times> 'f \<Rightarrow> (image_host \<times> 'f) res" where
  "image_uploads FS [] w = Inr w"
| "image_uploads FS ((draws, req) # us) w =
     rbind (image_upload FS draws req response_new w) (\<lambda>(r, req1, w1). image_uploads FS us w1)"

definition upload_task :: "string \<Rightarrow> (nat \<Rightarrow> nat) \<times> http_request \<Rightarrow> string \<times> string" where
  "upload_task storage u =
     (let uuid = generateUUID (fst u) in
      (storage @ ''/'' @ substr 0 2 uuid @ ''/'' @ uuid @ getExt (req_header ''Content-Type'' (snd u)), rq_body (snd u)))"

lemma image_upload_enqueues:
  assumes "rq_body req \<noteq> []"
  shows "\<exists>f1. rbind (image_upload FS draws req response_new (H, f)) (\<lambda>(r, req1, w1). g w1)
    = rbind (enqueue (upload_task (ih_storageDir H) (draws, req)) (uploadPool H))
        (\<lambda>p. g (H\<lparr>uploadPool := p\<rparr>, f1))"
proof -
  let ?dir = "ih_storageDir H @ ''/'' @ substr 0 2 (generateUUID draws)"
  have "req_header k (req\<lparr>rq_body := []\<rparr>) = req_header k req" for k
    by (simp add: req_header_def)
  with assms show ?thesis
    by (intro exI [of _ "snd (fs_mkdir FS ?dir f)"])
      (simp add: image_upload_def upload_task_def consumeBody_def Let_def rbind_assoc)
qed

lemma image_uploads_submit:
  assumes "\<forall>u\<in>set us. rq_body (snd u) \<noteq> []"
  shows "\<exists>f'. image_uploads FS us (H, f)
    = rbind (pq.submit_all (map (upload_task (ih_storageDir H)) us) (uploadPool H))
        (\<lambda>p. Inr (H\<lparr>uploadPool := p\<rparr>, f'))"
  using assms
proof (induction us arbitrary: H f)
  case Nil
  then show ?case
    by simp
next
  case (Cons u us)
  obtain draws req where u: "u = (draws, req)"
    by (cases u)
  obtain f1 where f1: "rbind (image_upload FS draws req response_new (H, f)) (\<lambda>(r, req1, w1). image_uploads FS us w1)
      = rbind (enqueue (upload_task (ih_storageDir H) (draws, req)) (uploadPool H))
          (\<lambda>p. image_uploads FS us (H\<lparr>uploadPool := p\<rparr>, f1))"
    using image_upload_enqueues [of req FS draws H f] Cons.prems u by auto
  show ?case
  proof (cases "enqueue (upload_task (ih_storageDir H) (draws, req)) (uploadPool H)")
    case (Inl e)
    with f1 show ?thesis
      by (simp add: u)
  next
    case (Inr p)
    from Cons.IH [of "H\<lparr>uploadPool := p\<rparr>" f1] Cons.prems obtain f' where
      "image_uploads FS us (H\<lparr>uploadPool := p\<rparr>, f1)
        = rbind (pq.submit_all (map (upload_task (ih_storageDir H)) us) p)
            (\<lambda>p'. Inr (H\<lparr>uploadPool := p'\<rparr>, f'))"
      by auto
    with f1 Inr show ?thesis
      by (auto simp: u)
  qed
qed

text \<open>
  What a burst of uploads does. As long as the workers take nothing, uploads are accepted
  up to the limit of the queue, their tasks in the order of the requests; the first one beyond
  it makes the handler throw, which nothing on the way to the event loop catches.
\<close>

theorem upload_burst_limit:
  assumes "\<forall>u\<in>set us. rq_body (snd u) \<noteq> []" and "0 < maxQueueSize (uploadPool H)"
    and "length (tasks (uploadPool H)) \<le> maxQueueSize (uploadPool H)"
  shows "if length (tasks (uploadPool H)) + length us \<le> maxQueueSize (uploadPool H)
    then \<exists>H' f'. image_uploads FS us (H, f) = Inr (H', f')
      \<and> tasks (uploadPool H') = tasks (uploadPool H) @ map (upload_task (ih_storageDir H)) us
    else image_uploads FS us (H, f) = Inl (Thrown ''ThreadPool queue full'')"
proof -
  let ?ts = "map (upload_task (ih_storageDir H)) us"
  obtain f' where run: "image_uploads FS us (H, f)
      = rbind (pq.submit_all ?ts (uploadPool H)) (\<lambda>p. Inr (H\<lparr>uploadPool := p\<rparr>, f'))"
    using image_uploads_submit [OF assms(1), of FS H f] by blast
  show ?thesis
    using pq.submit_all_room [of "uploadPool H" ?ts] pq.submit_all_full [of "uploadPool H" ?ts] assms(2,3)
    by (auto simp: run)
qed

theorem upload_burst_limit_witness:
  "image_uploads unit_fs (replicate 3 (\<lambda>i. 10, setBody_req ''png'' request_new))
     (empty_host\<lparr>uploadPool := (uploadPool empty_host)\<lparr>maxQueueSize := 2\<rparr>\<rparr>, ())
   = Inl (Thrown ''ThreadPool queue full'')"
proof -
  let ?H = "empty_host\<lparr>uploadPool := (uploadPool empty_host)\<lparr>maxQueueSize := 2\<rparr>\<rparr>"
  let ?us = "replicate 3 (\<lambda>i. 10 :: nat, setBody_req ''png'' request_new)"
  have "\<forall>u\<in>set ?us. rq_body (snd u) \<noteq> []" "0 < maxQueueSize (uploadPool ?H)"
      "length (tasks (uploadPool ?H)) \<le> maxQueueSize (uploadPool ?H)"
    by (simp_all add: setBody_req_def empty_host_def)
  from upload_burst_limit [OF this, of unit_fs "()"] show ?thesis
    by (simp add: empty_host_def del: image_uploads.simps replicate.simps)
qed

end
