(* ===== verification/Programs.thy ===== *)
theory Programs
  imports EzdropServer Router Config
begin

text \<open>
  The programs: \<^verbatim>\<open>src/main.cpp\<close> (its routes) and \<^verbatim>\<open>examples/ezdrop/main.cpp\<close> (the command line,
  the order in which it and the configuration file decide the settings, the routes and their
  handlers). \<^verbatim>\<open>realpath\<close> and the contents of the files are arguments. The servers the programs
  build and their loop are the subject of the theories \<open>TcpServer\<close>, \<open>HttpServer\<close> and \<open>UdpServer\<close>.
\<close>

section \<open>The main program\<close>

datatype hello_handler = Hello | Status

definition hello_routes :: "hello_handler router" where
  "hello_routes = addRoute ''GET'' ''/status'' Status (addRoute ''GET'' ''/hello'' Hello router_new)"

definition hello_handle :: "hello_handler \<Rightarrow> http_response \<Rightarrow> http_response" where
  "hello_handle h resp =
     (case h of
        Hello \<Rightarrow> setBody ''Hello, ezNet!'' (setContentType ''text/plain'' resp)
      | Status \<Rightarrow> setBody (''{'' @ quoted ''status'' @ '':'' @ quoted ''ok'' @ ''}'')
                   (setContentType ''application/json'' resp))"

section \<open>The command line of ezdrop\<close>

record cli =
  cl_port :: int
  cl_storageDir :: string
  cl_staticDir :: string
  cl_configPath :: string
  cliPort :: bool
  cliStorageDir :: bool

definition cli_defaults :: cli where
  "cli_defaults = \<lparr>cl_port = 8080, cl_storageDir = ''./data'', cl_staticDir = [], cl_configPath = [],
     cliPort = False, cliStorageDir = False\<rparr>"

datatype 'a outcome = Exit int | Go 'a

text \<open>The first pass over the arguments; \<^verbatim>\<open>std::stoi\<close> may throw.\<close>

fun parse_args :: "string list \<Rightarrow> cli \<Rightarrow> cli outcome res" where
  "parse_args [] c = Inr (Go c)"
| "parse_args (a # args) c =
     (if a = ''-p'' \<and> args \<noteq> [] then
        (case stoi (hd args) of
           None \<Rightarrow> Inl (Thrown ''stoi'')
         | Some v \<Rightarrow> parse_args (tl args) (c\<lparr>cl_port := to_unsigned 16 v, cliPort := True\<rparr>))
      else if a = ''-d'' \<and> args \<noteq> [] then
        parse_args (tl args) (c\<lparr>cl_storageDir := hd args, cliStorageDir := True\<rparr>)
      else if a = ''-s'' \<and> args \<noteq> [] then parse_args (tl args) (c\<lparr>cl_staticDir := hd args\<rparr>)
      else if a = ''-c'' \<and> args \<noteq> [] then parse_args (tl args) (c\<lparr>cl_configPath := hd args\<rparr>)
      else if a = ''-h'' \<or> a = ''--help'' then Inr (Exit 0)
      else Inr (Exit 1))"

definition getExeDir :: "(string \<Rightarrow> string option) \<Rightarrow> string \<Rightarrow> string" where
  "getExeDir realpath argv0 =
     (let path = (case realpath argv0 of Some p \<Rightarrow> p | None \<Rightarrow> argv0)
      in case index_of (\<lambda>c. c = CHR ''/'' \<or> c = BSLASH) (rev path) of
           Some i \<Rightarrow> substr 0 (length path - Suc i) path
         | None \<Rightarrow> ''.'')"

text \<open>
  From the arguments to the settings: the static directory and the second pass with the
  configuration file. Then the constructor and \<^verbatim>\<open>loadConfig\<close>, which reads the file again.
\<close>

record ezdrop_settings =
  es_port :: int
  es_storageDir :: string
  es_staticDir :: string
  es_configPath :: string

definition read_settings ::
    "nat \<Rightarrow> (string \<Rightarrow> string option) \<Rightarrow> (string \<Rightarrow> string option) \<Rightarrow> string \<Rightarrow> string list
     \<Rightarrow> ezdrop_settings outcome res" where
  "read_settings n realpath read argv0 args =
     rbind (parse_args args cli_defaults) (\<lambda>r.
     case r of
       Exit status \<Rightarrow> Inr (Exit status)
     | Go c \<Rightarrow>
         let static = (if cl_staticDir c = [] then getExeDir realpath argv0 @ ''/static'' else cl_staticDir c);
             s = \<lparr>es_port = cl_port c, es_storageDir = cl_storageDir c, es_staticDir = static,
                  es_configPath = cl_configPath c\<rparr>
         in if cl_configPath c = [] then Inr (Go s)
            else
              rbind (loadConfigFile n (read (cl_configPath c))) (\<lambda>cfg.
              let s1 = (if cliPort c then s else s\<lparr>es_port := ec_port cfg\<rparr>)
              in Inr (Go (if cliStorageDir c then s1 else s1\<lparr>es_storageDir := ec_storageDir cfg\<rparr>))))"

definition ezdrop_create ::
    "nat \<Rightarrow> 'f file_sys \<Rightarrow> (string \<Rightarrow> string option) \<Rightarrow> ezdrop_settings \<Rightarrow> 'f \<Rightarrow> (ezdrop \<times> 'f) res" where
  "ezdrop_create n FS read s f =
     (let (S, f1) = ezdrop_new FS (es_storageDir s) (es_port s) (es_staticDir s) f
      in if es_configPath s = [] then Inr (S, f1)
         else rbind (loadConfig n (read (es_configPath s)) S) (\<lambda>S1. Inr (S1, f1)))"

definition ezdrop_boot ::
    "nat \<Rightarrow> 'f file_sys \<Rightarrow> (string \<Rightarrow> string option) \<Rightarrow> (string \<Rightarrow> string option) \<Rightarrow> string \<Rightarrow> string list \<Rightarrow> 'f
     \<Rightarrow> (ezdrop \<times> 'f) outcome res" where
  "ezdrop_boot n FS realpath read argv0 args f =
     rbind (read_settings n realpath read argv0 args) (\<lambda>r.
     case r of
       Exit status \<Rightarrow> Inr (Exit status)
     | Go s \<Rightarrow> rbind (ezdrop_create n FS read s f) (\<lambda>y. Inr (Go y)))"

definition usage_text :: "string \<Rightarrow> string" where
  "usage_text prog =
     ''Usage: '' @ prog @ '' [-p port] [-d storage_dir] [-s static_dir] [-c config.json]'' @ [LF]
     @ ''  -p   listen port (default 8080)'' @ [LF]
     @ ''  -d   storage directory (default ./data)'' @ [LF]
     @ ''  -s   static files directory (default: derived from executable path)'' @ [LF]
     @ ''  -c   JSON configuration file (CLI args override JSON values)'' @ [LF]"

text \<open>The address the program logs: the first IPv4 interface that is not the loopback.\<close>

record net_interface =
  if_inet :: bool
  if_loopback :: bool
  if_text :: string

fun first_address :: "string \<Rightarrow> net_interface list \<Rightarrow> string" where
  "first_address ip [] = ip"
| "first_address ip (i # rest) =
     (if \<not> if_inet i then first_address ip rest
      else if if_loopback i then first_address ip rest
      else if_text i)"

definition getLocalIP :: "net_interface list option \<Rightarrow> string" where
  "getLocalIP interfaces =
     (case interfaces of None \<Rightarrow> ''127.0.0.1'' | Some found \<Rightarrow> first_address ''127.0.0.1'' found)"

section \<open>The routes of ezdrop\<close>

datatype ez_handler = IndexPage | Upload | Query | Stats | Download

definition ezdrop_routes :: "ez_handler router" where
  "ezdrop_routes =
     addRoute ''GET'' ''/d/:code'' Download
       (addRoute ''GET'' ''/api/stats'' Stats
         (addRoute ''GET'' ''/api/meta/:code'' Query
           (addRoute ''POST'' ''/upload'' Upload
             (addRoute ''GET'' ''/'' IndexPage router_new))))"

definition ezdrop_handle ::
    "nat \<Rightarrow> 'f file_sys \<Rightarrow> upload_input \<Rightarrow> int \<Rightarrow> ez_handler \<Rightarrow> http_request \<Rightarrow> http_response \<Rightarrow> int option
     \<Rightarrow> ezdrop \<times> 'f \<Rightarrow> (http_response \<times> ezdrop \<times> 'f) res" where
  "ezdrop_handle n FS I now h req resp conn_fd w =
     (case h of
        IndexPage \<Rightarrow> Inr (handleIndex (fs_stat FS (snd w)) (fst w) resp, w)
      | Upload \<Rightarrow> handleUpload n FS I req resp w
      | Query \<Rightarrow> Inr (handleQuery now req resp (fst w), w)
      | Stats \<Rightarrow> Inr (handleStats resp (fst w), w)
      | Download \<Rightarrow> handleDownload n FS now req resp conn_fd w)"

section \<open>What the command line decides\<close>

datatype cli_opt = OptPort string | OptStorage string | OptStatic string | OptConfig string

fun opt_args :: "cli_opt \<Rightarrow> string list" where
  "opt_args (OptPort v) = [''-p'', v]"
| "opt_args (OptStorage v) = [''-d'', v]"
| "opt_args (OptStatic v) = [''-s'', v]"
| "opt_args (OptConfig v) = [''-c'', v]"

fun port_of :: "cli_opt \<Rightarrow> string option" where
  "port_of (OptPort v) = Some v" | "port_of _ = None"

fun storage_of :: "cli_opt \<Rightarrow> string option" where
  "storage_of (OptStorage v) = Some v" | "storage_of _ = None"

fun config_of :: "cli_opt \<Rightarrow> string option" where
  "config_of (OptConfig v) = Some v" | "config_of _ = None"

text \<open>The value of the last option of a kind.\<close>

definition last_opt :: "(cli_opt \<Rightarrow> string option) \<Rightarrow> cli_opt list \<Rightarrow> string option" where
  "last_opt g opts = fold (\<lambda>x acc. case g x of None \<Rightarrow> acc | Some v \<Rightarrow> Some v) opts None"

lemma last_opt_snoc:
  "last_opt g [] = None"
  "last_opt g (opts @ [x]) = (case g x of None \<Rightarrow> last_opt g opts | Some v \<Rightarrow> Some v)"
  by (simp_all add: last_opt_def split: option.split)

fun apply_opt :: "cli_opt \<Rightarrow> cli \<Rightarrow> cli" where
  "apply_opt (OptPort v) c = c\<lparr>cl_port := to_unsigned 16 (the (stoi v)), cliPort := True\<rparr>"
| "apply_opt (OptStorage v) c = c\<lparr>cl_storageDir := v, cliStorageDir := True\<rparr>"
| "apply_opt (OptStatic v) c = c\<lparr>cl_staticDir := v\<rparr>"
| "apply_opt (OptConfig v) c = c\<lparr>cl_configPath := v\<rparr>"

lemma parse_args_opts:
  "(\<forall>v. OptPort v \<in> set opts \<longrightarrow> stoi v \<noteq> None) \<Longrightarrow>
   parse_args (concat (map opt_args opts)) c = Inr (Go (fold apply_opt opts c))"
proof (induction opts arbitrary: c)
  case (Cons x opts)
  then show ?case
    by (cases x) auto
qed simp

lemma fold_apply_opt:
  "cliPort (fold apply_opt opts cli_defaults) = (last_opt port_of opts \<noteq> None)
   \<and> cl_port (fold apply_opt opts cli_defaults)
       = (case last_opt port_of opts of None \<Rightarrow> 8080 | Some v \<Rightarrow> to_unsigned 16 (the (stoi v)))
   \<and> cliStorageDir (fold apply_opt opts cli_defaults) = (last_opt storage_of opts \<noteq> None)
   \<and> cl_storageDir (fold apply_opt opts cli_defaults)
       = (case last_opt storage_of opts of None \<Rightarrow> ''./data'' | Some v \<Rightarrow> v)
   \<and> cl_configPath (fold apply_opt opts cli_defaults) = (case last_opt config_of opts of None \<Rightarrow> [] | Some v \<Rightarrow> v)"
proof (induction opts rule: rev_induct)
  case (snoc x opts)
  then show ?case
    by (cases x) (simp_all add: last_opt_snoc)
qed (simp add: last_opt_snoc cli_defaults_def)

lemma loadConfig_fields:
  assumes "loadConfig n opened S = Inr S1" and "loadConfigFile n opened = Inr cfg"
    and "maxFileSize S = 0" and "maxConcurrentDownloads S = 0"
  shows "ez_port S1 = ez_port S" and "ez_storageDir S1 = ez_storageDir S"
    and "maxFileSize S1
      = (if ec_maxFileSizeMb cfg > 0 then nat (to_unsigned 64 (ec_maxFileSizeMb cfg * 1024 * 1024)) else 0)"
    and "maxConcurrentDownloads S1 = (if ec_maxConcurrentDownloads cfg > 0 then ec_maxConcurrentDownloads cfg else 0)"
  using assms by (auto simp: loadConfig_def Let_def)

lemma read_settings_opts:
  assumes "\<forall>v. OptPort v \<in> set opts \<longrightarrow> stoi v \<noteq> None"
    and "read_settings n realpath read argv0 (concat (map opt_args opts)) = Inr (Go s)"
  shows "\<exists>cfg. (case last_opt config_of opts of
        None \<Rightarrow> es_configPath s = [] \<and> cfg = ezdrop_defaults
      | Some path \<Rightarrow> es_configPath s = path
          \<and> (if path = [] then cfg = ezdrop_defaults else loadConfigFile n (read path) = Inr cfg))
    \<and> es_port s = (case last_opt port_of opts of None \<Rightarrow> ec_port cfg | Some v \<Rightarrow> to_unsigned 16 (the (stoi v)))
    \<and> es_storageDir s = (case last_opt storage_of opts of None \<Rightarrow> ec_storageDir cfg | Some v \<Rightarrow> v)"
proof -
  let ?c = "fold apply_opt opts cli_defaults"
  note c = fold_apply_opt [of opts]
  note settings = assms(2) [unfolded read_settings_def parse_args_opts [OF assms(1)] rbind_simps outcome.case]
  show ?thesis
  proof (cases "cl_configPath ?c = []")
    case True
    with settings c show ?thesis
      by (intro exI [of _ ezdrop_defaults]) (auto simp: Let_def ezdrop_defaults_def split: option.splits)
  next
    case False
    then obtain path where path: "last_opt config_of opts = Some path" "path \<noteq> []" "cl_configPath ?c = path"
      using c by (auto split: option.splits)
    from settings False path(3) obtain cfg where "loadConfigFile n (read path) = Inr cfg"
      by (auto simp: Let_def rbind_Inr_iff)
    with settings False path c show ?thesis
      by (intro exI [of _ cfg]) (auto simp: Let_def split: option.splits)
  qed
qed

lemma ezdrop_create_fields:
  assumes "ezdrop_create n FS read s f = Inr (S, f')"
  shows "ez_port S = es_port s" and "ez_storageDir S = es_storageDir s"
    and "\<exists>cfg. (if es_configPath s = [] then cfg = ezdrop_defaults else loadConfigFile n (read (es_configPath s)) = Inr cfg)
      \<and> maxFileSize S = (if ec_maxFileSizeMb cfg > 0 then nat (to_unsigned 64 (ec_maxFileSizeMb cfg * 1024 * 1024)) else 0)
      \<and> maxConcurrentDownloads S = (if ec_maxConcurrentDownloads cfg > 0 then ec_maxConcurrentDownloads cfg else 0)"
proof -
  obtain S0 where S0: "S0 = fst (ezdrop_new FS (es_storageDir s) (es_port s) (es_staticDir s) f)"
    by blast
  have new: "ez_port S0 = es_port s" "ez_storageDir S0 = es_storageDir s" "maxFileSize S0 = 0"
      "maxConcurrentDownloads S0 = 0"
    by (simp_all add: S0 ezdrop_new_def)
  have load: "if es_configPath s = [] then S = S0 else loadConfig n (read (es_configPath s)) S0 = Inr S"
    using assms by (auto simp: S0 ezdrop_create_def rbind_Inr_iff Let_def split: prod.splits if_splits)
  then obtain cfg where cfg: "if es_configPath s = [] then cfg = ezdrop_defaults
      else loadConfigFile n (read (es_configPath s)) = Inr cfg"
    by (auto simp: loadConfig_def rbind_Inr_iff split: if_splits)
  show "ez_port S = es_port s" "ez_storageDir S = es_storageDir s"
    using load new loadConfig_fields [of n "read (es_configPath s)" S0 S cfg] cfg by (auto split: if_splits)
  show "\<exists>cfg. (if es_configPath s = [] then cfg = ezdrop_defaults else loadConfigFile n (read (es_configPath s)) = Inr cfg)
      \<and> maxFileSize S = (if ec_maxFileSizeMb cfg > 0 then nat (to_unsigned 64 (ec_maxFileSizeMb cfg * 1024 * 1024)) else 0)
      \<and> maxConcurrentDownloads S = (if ec_maxConcurrentDownloads cfg > 0 then ec_maxConcurrentDownloads cfg else 0)"
    using load new loadConfig_fields [of n "read (es_configPath s)" S0 S cfg] cfg
    by (intro exI [of _ cfg]) (auto simp: ezdrop_defaults_def split: if_splits)
qed

text \<open>
  C32: the command line overrides the configuration file, and the file the defaults. For every
  list of options with numbers as ports: the last \<^verbatim>\<open>-p\<close> and \<^verbatim>\<open>-d\<close> decide port and storage
  directory, without one the file of the last \<^verbatim>\<open>-c\<close> decides, without a file the defaults; the
  two limits come from the file alone, and the port is the number modulo 65536.
\<close>

theorem cli_overrides_config:
  assumes "\<forall>v. OptPort v \<in> set opts \<longrightarrow> stoi v \<noteq> None"
    and "ezdrop_boot n FS realpath read argv0 (concat (map opt_args opts)) f = Inr (Go (S, f'))"
  shows "\<exists>cfg. (case last_opt config_of opts of
        None \<Rightarrow> cfg = ezdrop_defaults
      | Some path \<Rightarrow> if path = [] then cfg = ezdrop_defaults else loadConfigFile n (read path) = Inr cfg)
    \<and> ez_port S = (case last_opt port_of opts of None \<Rightarrow> ec_port cfg | Some v \<Rightarrow> to_unsigned 16 (the (stoi v)))
    \<and> ez_storageDir S = (case last_opt storage_of opts of None \<Rightarrow> ec_storageDir cfg | Some v \<Rightarrow> v)
    \<and> maxFileSize S
        = (if ec_maxFileSizeMb cfg > 0 then nat (to_unsigned 64 (ec_maxFileSizeMb cfg * 1024 * 1024)) else 0)
    \<and> maxConcurrentDownloads S = (if ec_maxConcurrentDownloads cfg > 0 then ec_maxConcurrentDownloads cfg else 0)"
proof -
  obtain s where s: "read_settings n realpath read argv0 (concat (map opt_args opts)) = Inr (Go s)"
    and create: "ezdrop_create n FS read s f = Inr (S, f')"
  proof -
    from assms(2) [unfolded ezdrop_boot_def] obtain r where
        r: "read_settings n realpath read argv0 (concat (map opt_args opts)) = Inr r"
          "(case r of Exit status \<Rightarrow> Inr (Exit status)
            | Go s \<Rightarrow> rbind (ezdrop_create n FS read s f) (\<lambda>y. Inr (Go y))) = Inr (Go (S, f'))"
      by (rule rbind_InrE)
    then show thesis
      using that by (cases r) (auto simp: rbind_Inr_iff)
  qed
  show ?thesis
    using read_settings_opts [OF assms(1) s] ezdrop_create_fields [OF create]
    by (fastforce split: option.splits if_splits)
qed

text \<open>A file system in which nothing exists and every call succeeds.\<close>

definition blank_fs :: "unit file_sys" where
  "blank_fs =
     \<lparr>fs_mkdir = (\<lambda>p f. (True, f)), fs_put = (\<lambda>p d f. (Some (length d), f)),
      fs_list = (\<lambda>p f. None), fs_unlink = (\<lambda>p f. (True, f)), fs_rmdir = (\<lambda>p f. f),
      fs_rename = (\<lambda>a b f. (True, f)), fs_tar = (\<lambda>out src f. (Some 0, f)),
      fs_stat = (\<lambda>f p. None)\<rparr>"

theorem cli_overrides_config_witness:
  "\<exists>S. ezdrop_boot 9 blank_fs (\<lambda>p. None) (\<lambda>p. None) ''bin/ezdrop''
       (concat (map opt_args [OptPort ''80'', OptConfig ''c.json'', OptPort ''-9''])) () = Inr (Go (S, ()))
     \<and> ez_port S = 65527 \<and> ez_storageDir S = ''./data''"
proof -
  let ?opts = "[OptPort ''80'', OptConfig ''c.json'', OptPort ''-9'']"
  have port: "stoi ''80'' = Some 80" "stoi ''-9'' = Some (- 9)"
    by code_simp+
  have cfg: "loadConfigFile 9 None = Inr ezdrop_defaults"
    by (simp add: loadConfigFile_def)
  have parse: "parse_args (concat (map opt_args ?opts)) cli_defaults
      = Inr (Go \<lparr>cl_port = 65527, cl_storageDir = ''./data'', cl_staticDir = [], cl_configPath = ''c.json'',
          cliPort = True, cliStorageDir = False\<rparr>)"
    by (simp add: port cli_defaults_def to_unsigned_def)
  obtain S where boot: "ezdrop_boot 9 blank_fs (\<lambda>p. None) (\<lambda>p. None) ''bin/ezdrop''
      (concat (map opt_args ?opts)) () = Inr (Go (S, ()))"
    unfolding ezdrop_boot_def read_settings_def ezdrop_create_def parse
    by (simp add: cfg Let_def ezdrop_new_def loadConfig_def ezdrop_defaults_def)
  have "\<forall>v. OptPort v \<in> set ?opts \<longrightarrow> stoi v \<noteq> None"
    using port by auto
  from cli_overrides_config [OF this boot] have "ez_port S = 65527 \<and> ez_storageDir S = ''./data''"
    using port cfg by (auto simp: last_opt_def ezdrop_defaults_def to_unsigned_def)
  with boot show ?thesis
    by blast
qed

section \<open>What the routes of ezdrop decide\<close>

lemma ezdrop_roots:
  "methodRoots ezdrop_routes ''GET'' = Some (RadixNode []
     [''api'' \<mapsto> RadixNode ''api''
        [''meta'' \<mapsto> RadixNode ''meta'' Map.empty (Some (RadixNode ''code'' Map.empty None (Some Query))) None,
         ''stats'' \<mapsto> RadixNode ''stats'' Map.empty None (Some Stats)] None None,
      ''d'' \<mapsto> RadixNode ''d'' Map.empty (Some (RadixNode ''code'' Map.empty None (Some Download))) None]
     None (Some IndexPage))"
  "methodRoots ezdrop_routes ''POST'' = Some (RadixNode []
     [''upload'' \<mapsto> RadixNode ''upload'' Map.empty None (Some Upload)] None None)"
  "m \<notin> {''GET'', ''POST''} \<Longrightarrow> methodRoots ezdrop_routes m = None"
  "defaultHandler ezdrop_routes = None"
proof -
  have "splitPath ''/d/:code'' = [''d'', '':code'']" "splitPath ''/upload'' = [''upload'']" "splitPath ''/'' = []"
      "splitPath ''/api/stats'' = [''api'', ''stats'']" "splitPath ''/api/meta/:code'' = [''api'', ''meta'', '':code'']"
    by code_simp+
  note routes = this ezdrop_routes_def addRoute_def router_new_def node_new_def
  show "methodRoots ezdrop_routes ''POST'' = Some (RadixNode []
     [''upload'' \<mapsto> RadixNode ''upload'' Map.empty None (Some Upload)] None None)"
    "m \<notin> {''GET'', ''POST''} \<Longrightarrow> methodRoots ezdrop_routes m = None"
    "defaultHandler ezdrop_routes = None"
    by (simp_all add: routes)
  show "methodRoots ezdrop_routes ''GET'' = Some (RadixNode []
     [''api'' \<mapsto> RadixNode ''api''
        [''meta'' \<mapsto> RadixNode ''meta'' Map.empty (Some (RadixNode ''code'' Map.empty None (Some Query))) None,
         ''stats'' \<mapsto> RadixNode ''stats'' Map.empty None (Some Stats)] None None,
      ''d'' \<mapsto> RadixNode ''d'' Map.empty (Some (RadixNode ''code'' Map.empty None (Some Download))) None]
     None (Some IndexPage))"
    by (simp add: routes fun_upd_twist)
qed

lemma six_digits_segment:
  assumes "six_digits cd"
  shows "cd \<noteq> [] \<and> CHR ''/'' \<notin> set cd" and "urlDecode cd = cd"
proof -
  have digits: "\<forall>c\<in>set cd. isdigit c" "cd \<noteq> []"
    using assms by (auto simp: six_digits_def)
  moreover have "\<not> isdigit (CHR ''/'')" "\<not> isdigit (CHR ''%'')" "\<not> isdigit (CHR ''+'')"
    by (simp_all add: isdigit_def code_def)
  ultimately show "cd \<noteq> [] \<and> CHR ''/'' \<notin> set cd"
    by auto
  have "\<forall>c\<in>set cd. c \<noteq> CHR ''%'' \<and> c \<noteq> CHR ''+''"
    using digits \<open>\<not> isdigit (CHR ''%'')\<close> \<open>\<not> isdigit (CHR ''+'')\<close> by auto
  then show "urlDecode cd = cd"
    by (induction cd) (simp_all add: urlDecode_plain)
qed

text \<open>
  Every URL of the service reaches its handler. For every pick-up code of six digits,
  \<^verbatim>\<open>/d/\<close> and \<^verbatim>\<open>/api/meta/\<close> followed by it reach the download and the query with exactly this
  code as the parameter; the other URLs reach their handlers; the same paths with other
  methods reach none.
\<close>

theorem ezdrop_urls_dispatch:
  assumes "six_digits cd" and "rq_method q = ''GET''"
  shows "(rq_path q = ''/d/'' @ cd \<longrightarrow> (\<exists>q'. route ezdrop_routes q = (q', Some Download)
        \<and> (\<forall>n FS I now resp conn w. ezdrop_handle n FS I now Download q' resp conn w
             = handleDownload n FS now (setPathParam ''code'' cd (q\<lparr>rq_pathParams := Map.empty\<rparr>)) resp conn w)))
    \<and> (rq_path q = ''/api/meta/'' @ cd \<longrightarrow>
        (\<exists>q'. route ezdrop_routes q = (q', Some Query) \<and> pathParam ''code'' q' = cd))
    \<and> (rq_path q = ''/api/stats'' \<longrightarrow> snd (route ezdrop_routes q) = Some Stats)
    \<and> (rq_path q = ''/'' \<longrightarrow> snd (route ezdrop_routes q) = Some IndexPage)
    \<and> snd (route ezdrop_routes (setPath ''/upload'' (setMethod ''POST'' q))) = Some Upload
    \<and> (m \<notin> {''GET'', ''POST''} \<longrightarrow> snd (route ezdrop_routes (setMethod m q)) = None)"
proof -
  note seg = six_digits_segment [OF assms(1)]
  have code_paths: "splitPath (''/d/'' @ cd) = [''d'', cd]" "splitPath (''/api/meta/'' @ cd) = [''api'', ''meta'', cd]"
    using splitPath_join [of "[''d'', cd]"] splitPath_join [of "[''api'', ''meta'', cd]"] seg
    by (simp_all add: join_path_def)
  have paths: "splitPath ''/api/stats'' = [''api'', ''stats'']" "splitPath ''/'' = []"
      "splitPath ''/upload'' = [''upload'']"
    by code_simp+
  show ?thesis
    using assms(2) seg code_paths paths
    by (simp add: route_def ezdrop_roots ezdrop_handle_def pathParam_def setPathParam_def setPath_def setMethod_def)
qed

theorem ezdrop_urls_dispatch_witness:
  "snd (route ezdrop_routes (request_new\<lparr>rq_method := ''GET'', rq_path := ''/d/004711''\<rparr>)) = Some Download"
proof -
  let ?q = "request_new\<lparr>rq_method := ''GET'', rq_path := ''/d/004711''\<rparr>"
  have "six_digits ''004711''" "rq_method ?q = ''GET''"
    by (simp_all add: six_digits_def isdigit_def code_def)
  from ezdrop_urls_dispatch [OF this, THEN conjunct1] obtain q' where "route ezdrop_routes ?q = (q', Some Download)"
    by (elim impE exE conjE) simp
  then show ?thesis
    by simp
qed

end
