(* ===== verification/Services.thy ===== *)
theory Services
  imports HttpServer EzdropProperties Programs
begin

text \<open>
  The ezdrop service behind the HTTP server, as \<^verbatim>\<open>examples/ezdrop/main.cpp\<close> wires them: the
  handlers run on the state of the service, which is the user part of the world of the HTTP
  server, and the hook of completed writes releases download slots.
\<close>

section \<open>The wiring\<close>

definition service_of :: "('p, 'k, 'h, 'q, 'y) http_world \<Rightarrow> 'y" where
  "service_of w = user (http_of w)"

definition set_service :: "'y \<Rightarrow> ('p, 'k, 'h, 'q, 'y) http_world \<Rightarrow> ('p, 'k, 'h, 'q, 'y) http_world" where
  "set_service y = upd_http (user_update (\<lambda>_. y))"

text \<open>
  \<open>I\<close> and \<open>now\<close> are the random numbers and the clock of the request; the parser is passed on.
\<close>

definition ezdrop_param ::
    "nat \<Rightarrow> 'f file_sys \<Rightarrow> upload_input \<Rightarrow> int \<Rightarrow> 'q \<Rightarrow> ('q \<Rightarrow> string \<Rightarrow> parse_event list \<times> nat \<times> bool \<times> 'q)
     \<Rightarrow> ('p, 'k, ez_handler, 'q, ezdrop \<times> 'f) http_param" where
  "ezdrop_param n FS I now init execute =
     setWriteCompleteHook
      (\<lambda>c w.
        rbind (conn c w) (\<lambda>C.
        let (S, f) = service_of w in Inr (set_service (onWriteComplete (Some (fd C)) S, f) w)))
      \<lparr>parser_init = init, parser_execute = execute,
      handle = (\<lambda>h req c resp w.
        rbind (conn c w) (\<lambda>C.
        rbind (ezdrop_handle n FS I now h req resp (Some (fd C)) (service_of w)) (\<lambda>(r, y).
        Inr (r, set_service y w)))),
      connectionHook = (\<lambda>c w. Inr w),
      writeCompleteHook = (\<lambda>c w. Inr w)\<rparr>"

lemma service_simps [simp]:
  "service_of (set_service y w) = y" "service_of (upd_ctx p g w) = service_of w"
  "conns (set_service y w) = conns w" "kern (set_service y w) = kern w" "evloop (set_service y w) = evloop w"
  "ctxs (http_of (set_service y w)) = ctxs (http_of w)" "promised wire file c (set_service y w) = promised wire file c w"
  by (simp_all add: service_of_def set_service_def upd_ctx_def)

lemma service_of_app: "app w' = app w \<Longrightarrow> service_of w' = service_of w"
  by (simp add: service_of_def http_of_def)

lemma serving_service:
  "serving K interest wire file c C p x w \<Longrightarrow> serving K interest wire file c C p x (set_service y w)"
  by (simp add: set_service_def serving_user)

section \<open>A download, from the request to the wire\<close>

lemma route_download:
  assumes "six_digits cd" and "rq_method q = ''GET''" and "rq_path q = ''/d/'' @ cd"
  shows "route ezdrop_routes q = (setPathParam ''code'' cd (q\<lparr>rq_pathParams := Map.empty\<rparr>), Some Download)"
proof -
  note seg = six_digits_segment [OF assms(1)]
  have "splitPath (''/d/'' @ cd) = [''d'', cd]"
    using splitPath_join [of "[''d'', cd]"] seg by (simp add: join_path_def)
  then show ?thesis
    using assms(2,3) seg by (simp add: route_def ezdrop_roots)
qed

text \<open>
  C4: a download over HTTP. On a connection that is ready for it, a request for \<^verbatim>\<open>/d/\<close> and a
  known, unexpired code promises the client exactly a 200 header with the name of the file,
  followed by the stored file; the service has counted the download and one slot is in use.
  When the connection reports that everything is written, the slot is free again and the
  statistics have grown by one file of the recorded size.
\<close>

theorem download_over_http:
  assumes "serving K interest wire file c C p x w" and "router (http_of w) = ezdrop_routes"
    and "service_of w = (S, f)" and "map_of (codes S) (fm_code m) = Some m" and "six_digits (fm_code m)"
    and "rq_method (pc_request x) = ''GET''" and "rq_path (pc_request x) = ''/d/'' @ fm_code m"
    and "\<not> rq_hasRange (pc_request x)" and "now \<le> fm_expireAt m"
    and "fs_stat FS f (fm_storagePath m) = Some sz" and "sz < 2 ^ 64"
    and "maxConcurrentDownloads S \<le> 0 \<or> activeDownloads S < maxConcurrentDownloads S"
    and "activeDownloadSizes S (fd C) = None"
    and "\<And>g d k. fst (sys_write K g d k) \<notin> {Inl EINTR, Inl EFAIL}"
    and "\<And>off k. fst (sys_lseek K ffd off k)"
    and "fst (sys_open K (fm_storagePath m) (kern w)) = Some ffd" and "0 \<le> ffd"
    and "registered (evloop w) ffd = None"
  shows "\<exists>w' C' resp S'. processRequest (ezdrop_param n FS I now init execute) K l c w = Inr w'
    \<and> conns w' c = Some C' \<and> state C' = SendingResponse \<and> file_answer m sz resp
    \<and> promised wire file c w' = promised wire file c w @ build resp @ take sz (file ffd)
    \<and> service_of w' = (S', f) \<and> activeDownloads S' = activeDownloads S + 1
    \<and> (\<forall>w3 C3. conns w3 c = Some C3 \<and> fd C3 = fd C \<and> service_of w3 = (S', f) \<longrightarrow>
        (\<exists>w4 S4. writeCompleteHook (ezdrop_param n FS I now init execute) c w3 = Inr w4
          \<and> service_of w4 = (S4, f) \<and> activeDownloads S4 = activeDownloads S
          \<and> activeDownloadSizes S4 = activeDownloadSizes S
          \<and> totalFilesDownloaded S4 = to_unsigned 64 (totalFilesDownloaded S + 1)
          \<and> totalBytesDownloaded S4 = to_unsigned 64 (totalBytesDownloaded S + int (fm_fileSize m))))"
proof -
  let ?P = "ezdrop_param n FS I now init execute"
  let ?q = "setPathParam ''code'' (fm_code m) ((pc_request x)\<lparr>rq_pathParams := Map.empty\<rparr>)"
  let ?S' = "count_download (fm_code m) m (start_download (Some (fd C)) m S)"
  let ?x = "pc_request_update (\<lambda>_. ?q) x"
  let ?w1 = "upd_ctx p (pc_request_update (\<lambda>_. ?q)) w"
  let ?w2 = "set_service (?S', f) ?w1"
  note s = assms(1)
  have C: "conns ?w1 c = Some C" "ctxs (http_of ?w2) p = Some ?x"
    using s by (simp_all add: serving_def)
  have r: "route (router (http_of w)) (pc_request x) = (?q, Some Download)"
    using route_download [OF assms(5-7)] assms(2) by simp
  have code: "pathParam ''code'' ?q = fm_code m"
    by (simp add: pathParam_def setPathParam_def)
  have "downloadable FS now ?q (S, f) m sz"
    using assms(4,5,9,10,12) by (simp add: downloadable_def code six_digits_def)
  from handleDownload_starts [OF this, of n "Some (fd C)"] obtain resp where
      d: "handleDownload n FS now ?q response_new (Some (fd C)) (S, f) = Inr (resp, ?S', f)"
    and a: "file_answer m sz resp"
    unfolding code by blast
  have "handle ?P Download ?q c response_new ?w1 = Inr (resp, ?w2)"
    using C(1) d assms(3) by (simp add: ezdrop_param_def conn_Some ezdrop_handle_def)
  from processRequest_handles [OF s r this C(2), of l]
  have run: "processRequest ?P K l c w = file_response ?P K l p c ?q (setKeepAlive (rq_keepAlive ?q) resp) ?w2"
    using a by (simp add: Let_def file_answer_def)
  let ?resp = "setKeepAlive (rq_keepAlive ?q) resp"
  have fields: "rs_filePath (setKeepAlive ka resp) = fm_storagePath m" "rs_fileSize (setKeepAlive ka resp) = sz"
      "file_answer m sz (setKeepAlive ka resp)" for ka
    using a by (simp_all add: file_answer_def setKeepAlive_def)
  have s2: "serving K interest wire file c C p ?x ?w2"
    using serving_service [OF serving_ctx [OF s]] .
  have pre: "fst (sys_open K (rs_filePath ?resp) (kern ?w2)) = Some ffd" "registered (evloop ?w2) ffd = None"
      "rs_fileSize ?resp < 2 ^ 64" "\<not> rq_hasRange ?q"
    using assms(8,11,16,18) by (simp_all add: fields setPathParam_def)
  from file_response_promised [OF s2 assms(14,15) pre(1) assms(17) pre(2,3), of ?q 0 0 ?P l] pre(4)
  obtain w' C' where w': "processRequest ?P K l c w = Inr w'" "conns w' c = Some C'" "state C' = SendingResponse"
      "app w' = app ?w2" "promised wire file c w' = promised wire file c w @ build ?resp @ take sz (file ffd)"
    unfolding run by (auto simp: fields)
  have svc: "service_of w' = (?S', f)"
    using service_of_app [OF w'(4)] by simp
  have completed: "\<exists>w4 S4. writeCompleteHook ?P c w3 = Inr w4
      \<and> service_of w4 = (S4, f) \<and> activeDownloads S4 = activeDownloads S
      \<and> activeDownloadSizes S4 = activeDownloadSizes S
      \<and> totalFilesDownloaded S4 = to_unsigned 64 (totalFilesDownloaded S + 1)
      \<and> totalBytesDownloaded S4 = to_unsigned 64 (totalBytesDownloaded S + int (fm_fileSize m))"
    if "conns w3 c = Some C3 \<and> fd C3 = fd C \<and> service_of w3 = (?S', f)" for w3 C3
    using that assms(13)
    by (auto simp: ezdrop_param_def conn_Some onWriteComplete_def count_download_def start_download_def)
  have "activeDownloads ?S' = activeDownloads S + 1"
    by (simp add: count_download_def start_download_def)
  with w' svc fields(3) completed show ?thesis
    by blast
qed

section \<open>Witness\<close>

definition demo_download_req :: http_request where
  "demo_download_req = request_new\<lparr>rq_method := ''GET'', rq_path := ''/d/004711''\<rparr>"

definition demo_stored :: ezdrop where
  "demo_stored = demo_ez\<lparr>codes := [(''004711'', demo_meta)]\<rparr>"

definition demo_service_world :: "(unit, demo_state, ez_handler, unit, ezdrop \<times> unit) http_world" where
  "demo_service_world =
     \<lparr>evloop = evloop (demo_http demo_http_conn demo_download_req router_new), kern = demo_open,
      conns = [1 \<mapsto> demo_http_conn],
      app = \<lparr>listenFd = 3, port = 8080, srv_running = True, connections = [(7, 1)], next_conn = 5,
             connectionCallback = None, srv_dataCallback = Some HttpOnData,
             rest = \<lparr>router = ezdrop_routes, ctxs = [0 \<mapsto> demo_ctx demo_download_req], next_ctx = 1,
                     user = (demo_stored, ())\<rparr>\<rparr>\<rparr>"

lemma demo_service_world_fields:
  "router (http_of demo_service_world) = ezdrop_routes" "service_of demo_service_world = (demo_stored, ())"
  "kern demo_service_world = demo_open" "registered (evloop demo_service_world) 9 = None"
  by (simp_all add: demo_service_world_def http_of_def service_of_def registered_def demo_http_def demo_world_def
      demo_http_conn_state)

lemma demo_service_serving:
  "serving demoK ds_interest ds_wire demo_file 1 demo_http_conn 0 (demo_ctx demo_download_req) demo_service_world"
proof -
  let ?w = "demo_http demo_http_conn demo_download_req router_new"
  have ok: "conn_ok demoK ds_interest 1 ?w"
    using demo_http_conn_ok(1) by blast
  have C: "conns ?w 1 = Some demo_http_conn"
    by simp
  have "conn_ok demoK ds_interest 1 demo_service_world"
    using conn_okD [OF ok C] by (intro conn_okI [where C = demo_http_conn]) (simp_all add: demo_service_world_def)
  then show ?thesis
    using demo_http_conn_state by (simp add: serving_def demo_service_world_def http_of_def)
qed

theorem download_over_http_witness:
  "\<exists>w' resp. processRequest (ezdrop_param 2 demo_fs demo_input 1000 () (\<lambda>q d. ([], length d, True, ()))) demoK 3 1
       demo_service_world = Inr w'
     \<and> file_answer demo_meta 2 resp \<and> promised ds_wire demo_file 1 w' = build resp @ ''01''
     \<and> activeDownloads (fst (service_of w')) = 1"
proof -
  have req: "rq_method (pc_request (demo_ctx demo_download_req)) = ''GET''"
      "rq_path (pc_request (demo_ctx demo_download_req)) = ''/d/'' @ fm_code demo_meta"
      "\<not> rq_hasRange (pc_request (demo_ctx demo_download_req))"
    by (simp_all add: demo_ctx_def demo_download_req_def demo_meta_def request_new_def)
  have svc: "map_of (codes demo_stored) (fm_code demo_meta) = Some demo_meta" "six_digits (fm_code demo_meta)"
      "1000 \<le> fm_expireAt demo_meta" "fs_stat demo_fs () (fm_storagePath demo_meta) = Some 2" "(2::nat) < 2 ^ 64"
      "maxConcurrentDownloads demo_stored \<le> 0 \<or> activeDownloads demo_stored < maxConcurrentDownloads demo_stored"
      "activeDownloadSizes demo_stored (fd demo_http_conn) = None"
    by (simp_all add: demo_stored_def demo_meta_def demo_fs_def demo_ez_def ezdrop_new_def six_digits_def
        isdigit_def code_def)
  have sys: "fst (sys_lseek demoK 9 off k)" "fst (sys_open demoK (fm_storagePath demo_meta) (kern demo_service_world)) = Some 9"
      for off k
    by (simp_all add: demo_kernel_def)
  have start: "promised ds_wire demo_file 1 demo_service_world = []" "activeDownloads demo_stored = 0"
    using demo_http_conn_state
    by (simp_all add: promised_def file_rest_def demo_service_world_def demo_open_def demo_state_new_def
        demo_stored_def demo_ez_def ezdrop_new_def)
  obtain w' C' resp S' where "processRequest (ezdrop_param 2 demo_fs demo_input 1000 ()
        (\<lambda>q d. ([], length d, True, ()))) demoK 3 1 demo_service_world = Inr w'"
      "file_answer demo_meta 2 resp"
      "promised ds_wire demo_file 1 w' = promised ds_wire demo_file 1 demo_service_world @ build resp @ take 2 (demo_file 9)"
      "service_of w' = (S', ())" "activeDownloads S' = activeDownloads demo_stored + 1"
    using download_over_http [OF demo_service_serving demo_service_world_fields(1,2) svc(1,2) req svc(3-7) demo_soft
        sys zero_le_numeral demo_service_world_fields(4), where n = 2 and l = 3 and I = demo_input and init = "()"
          and execute = "\<lambda>q d. ([], length d, True, ())"] by blast
  with start show ?thesis
    by (intro exI [of _ w'] exI [of _ resp]) (simp add: demo_file_def)
qed

end
