(* ===== verification/HttpSession.thy ===== *)
theory HttpSession
  imports HttpServer
begin

text \<open>
  A connection of the HTTP server through a read event: \<^verbatim>\<open>handleRead\<close> drains the socket, the
  parser reports a request, \<^verbatim>\<open>onData\<close> answers it, and the connection is ready for the next
  one. The theory holds the state between requests (\<open>ready\<close>) and the lemma that a read event
  with one complete keep-alive request leads from it to itself.
\<close>

section \<open>What arrives\<close>

text \<open>
  The documented behaviour of reading a non-blocking stream socket: \<open>inbox k fd\<close> are the bytes
  that have arrived and are not read yet. \<^verbatim>\<open>readv\<close> takes as many as there are, up to the
  space it is given, and fails with \<^verbatim>\<open>EAGAIN\<close> when there are none; reading writes nothing, and
  \<^verbatim>\<open>write\<close>, \<^verbatim>\<open>epoll_ctl\<close>, \<^verbatim>\<open>open\<close> and \<^verbatim>\<open>lseek\<close> do not touch what has arrived.
\<close>

definition stream_ok :: "'k kernel \<Rightarrow> ('k \<Rightarrow> int \<Rightarrow> string) \<Rightarrow> ('k \<Rightarrow> int \<Rightarrow> string) \<Rightarrow> bool" where
  "stream_ok K wire inbox \<longleftrightarrow>
     (\<forall>fd n k. inbox k fd = [] \<longrightarrow> fst (sys_readv K fd n k) = Inl EAGAIN \<and> inbox (snd (sys_readv K fd n k)) = inbox k)
     \<and> (\<forall>fd n k. inbox k fd \<noteq> [] \<longrightarrow> fst (sys_readv K fd n k) = Inr (take n (inbox k fd))
          \<and> inbox (snd (sys_readv K fd n k)) = (inbox k)(fd := drop n (inbox k fd)))
     \<and> (\<forall>fd n k. wire (snd (sys_readv K fd n k)) = wire k)
     \<and> (\<forall>fd d k. inbox (snd (sys_write K fd d k)) = inbox k)
     \<and> (\<forall>fd ev k. inbox (snd (sys_epoll_mod K fd ev k)) = inbox k)
     \<and> (\<forall>path k. inbox (snd (sys_open K path k)) = inbox k)
     \<and> (\<forall>fd off k. inbox (snd (sys_lseek K fd off k)) = inbox k)"

lemma stream_okD:
  assumes "stream_ok K wire inbox"
  shows "inbox k f = [] \<Longrightarrow> fst (sys_readv K f n k) = Inl EAGAIN \<and> inbox (snd (sys_readv K f n k)) = inbox k"
    and "inbox k f \<noteq> [] \<Longrightarrow> fst (sys_readv K f n k) = Inr (take n (inbox k f))
      \<and> inbox (snd (sys_readv K f n k)) = (inbox k)(f := drop n (inbox k f))"
    and "wire (snd (sys_readv K f n k)) = wire k"
    and "inbox (snd (sys_write K f d k)) = inbox k"
    and "inbox (snd (sys_epoll_mod K f ev k)) = inbox k"
    and "inbox (snd (sys_open K path k)) = inbox k"
    and "inbox (snd (sys_lseek K f off k)) = inbox k"
  using assms unfolding stream_ok_def by blast+

text \<open>Bytes arrive at a descriptor, and nothing else happens.\<close>

definition arrives ::
    "(int \<Rightarrow> string \<Rightarrow> 'k \<Rightarrow> 'k) \<Rightarrow> ('k \<Rightarrow> int set) \<Rightarrow> ('k \<Rightarrow> int \<Rightarrow> string) \<Rightarrow> ('k \<Rightarrow> int \<Rightarrow> string) \<Rightarrow> bool" where
  "arrives arrive interest wire inbox \<longleftrightarrow>
     (\<forall>f d k. interest (arrive f d k) = interest k \<and> wire (arrive f d k) = wire k
        \<and> inbox (arrive f d k) = (inbox k)(f := inbox k f @ d))"

text \<open>What the parser reports for one complete request; the body may come in pieces.\<close>

definition request_events :: "string \<Rightarrow> string \<Rightarrow> (string \<times> string) list \<Rightarrow> string list \<Rightarrow> parse_event list" where
  "request_events m u hs bs =
     MessageBegin # Url u # concat (map (\<lambda>(f, v). [HeaderField f, HeaderValue v]) hs)
     @ [HeadersComplete m 1 1 True] @ map Body bs @ [MessageComplete]"

text \<open>The request object these reports build.\<close>

definition built_request :: "string \<Rightarrow> string \<Rightarrow> (string \<times> string) list \<Rightarrow> string \<Rightarrow> http_request" where
  "built_request m u hs body =
     appendBody body (parseRange (setKeepAlive_req True (setHttpVersion 1 1 (setMethod m
       (fold (\<lambda>(f, v). setHeader f v) hs (setUrl u request_new))))))"

lemma fold_headers:
  "pc_request (fold on_event (concat (map (\<lambda>(f, v). [HeaderField f, HeaderValue v]) hs)) x)
   = fold (\<lambda>(f, v). setHeader f v) hs (pc_request x)"
  by (induction hs arbitrary: x) auto

lemma fold_bodies: "pc_request (fold on_event (map Body bs) x) = appendBody (concat bs) (pc_request x)"
proof (induction bs arbitrary: x)
  case Nil
  show ?case
    by (cases "pc_request x") (simp add: appendBody_def)
next
  case (Cons b bs)
  show ?case
    by (simp add: Cons.IH) (simp add: appendBody_def)
qed

lemma request_events_read:
  "pc_messageComplete (fold on_event (request_events m u hs bs) x)"
  "pc_request (fold on_event (request_events m u hs bs) x) = built_request m u hs (concat bs)"
  by (simp_all add: request_events_def fold_headers fold_bodies built_request_def)

lemma parseRange_sets: "\<exists>a b h. parseRange r = set_range a b h r"
proof -
  have again: "set_range a b h (set_range a' b' h' r) = set_range a b h r" for a b h a' b' h'
    by (simp add: set_range_def)
  have "\<exists>a b h. parse_range_spec s e (set_range 0 (- 1) False r) = set_range a b h r" for s e
    by (simp add: parse_range_spec_def again split: option.split) blast
  then show ?thesis
    unfolding parseRange_def Let_def by (simp split: option.split) blast
qed

lemma parseRange_keeps:
  "rq_method (parseRange r) = rq_method r" "rq_path (parseRange r) = rq_path r"
  "rq_keepAlive (parseRange r) = rq_keepAlive r" "rq_body (parseRange r) = rq_body r"
  "rq_headers (parseRange r) = rq_headers r"
  using parseRange_sets [of r] by (auto simp: set_range_def)

lemma fold_setHeader:
  "rq_path (fold (\<lambda>(f, v). setHeader f v) hs r) = rq_path r" "rq_body (fold (\<lambda>(f, v). setHeader f v) hs r) = rq_body r"
  by (induction hs arbitrary: r) (auto simp: setHeader_def)

lemma built_request_fields [simp]:
  "rq_method (built_request m u hs body) = m" "rq_path (built_request m u hs body) = rq_path (setUrl u request_new)"
  "rq_keepAlive (built_request m u hs body)" "rq_body (built_request m u hs body) = body"
proof -
  have "rq_body (setUrl u request_new) = []"
    by (simp add: setUrl_def request_new_def split: option.split)
  then show "rq_method (built_request m u hs body) = m"
    "rq_path (built_request m u hs body) = rq_path (setUrl u request_new)"
    "rq_keepAlive (built_request m u hs body)" "rq_body (built_request m u hs body) = body"
    by (simp_all add: built_request_def appendBody_def parseRange_keeps setKeepAlive_req_def setHttpVersion_def
        setMethod_def fold_setHeader)
qed

section \<open>A request in pieces\<close>

text \<open>
  The parser fed with the pieces the reads deliver, one after the other; \<open>None\<close> when it finds
  an error or stops inside a piece. A message ends in the last piece only.
\<close>

fun feed :: "('q \<Rightarrow> string \<Rightarrow> parse_event list \<times> nat \<times> bool \<times> 'q) \<Rightarrow> 'q \<Rightarrow> string list \<Rightarrow> parse_event list list option" where
  "feed execute q [] = Some []"
| "feed execute q (d # ds) =
     (case execute q d of (evs, np, ok, q') \<Rightarrow>
        if ok \<and> np = length d then map_option ((#) evs) (feed execute q' ds) else None)"

lemma feed_length: "feed execute q ds = Some evss \<Longrightarrow> length evss = length ds"
  by (induction ds arbitrary: q evss) (auto split: prod.splits if_splits)

text \<open>The pieces of \<open>d\<close>: not empty, and the first one as long as a read of a fresh buffer delivers at least.\<close>

definition pieces_of :: "string \<Rightarrow> string list \<Rightarrow> bool" where
  "pieces_of d ds \<longleftrightarrow> concat ds = d \<and> [] \<notin> set ds \<and> ds \<noteq> [] \<and> min extrabuf_size (length d) \<le> length (hd ds)"

lemma pieces_of_short:
  assumes "pieces_of d ds" and "length d \<le> extrabuf_size"
  shows "ds = [d]"
proof -
  obtain a es where ds: "ds = a # es"
    using assms(1) by (cases ds) (auto simp: pieces_of_def)
  then have "length (concat es) = 0"
    using assms by (auto simp: pieces_of_def)
  then show ?thesis
    using assms(1) ds by (cases es) (auto simp: pieces_of_def)
qed

text \<open>However \<open>d\<close> arrives, the parser reports the request \<open>r\<close> from its state \<open>q\<close> and the context \<open>x\<close>.\<close>

definition delivers ::
    "('q \<Rightarrow> string \<Rightarrow> parse_event list \<times> nat \<times> bool \<times> 'q) \<Rightarrow> 'q parser_context \<Rightarrow> string \<Rightarrow> http_request \<Rightarrow> bool" where
  "delivers execute x d r \<longleftrightarrow>
     (\<forall>ds. pieces_of d ds \<longrightarrow> (\<exists>evss. feed execute (pc_parser x) ds = Some evss
        \<and> (\<forall>evs\<in>set (butlast evss). MessageComplete \<notin> set evs)
        \<and> pc_messageComplete (fold on_event (concat evss) x) \<and> pc_request (fold on_event (concat evss) x) = r))"

lemma fold_on_event_parsed:
  "pc_request (fold on_event es (x\<lparr>pc_parser := q, pc_ok := b\<rparr>)) = pc_request (fold on_event es x)
   \<and> pc_messageComplete (fold on_event es (x\<lparr>pc_parser := q, pc_ok := b\<rparr>)) = pc_messageComplete (fold on_event es x)"
proof (induction es arbitrary: x)
  case (Cons e es)
  have "on_event e (x\<lparr>pc_parser := q, pc_ok := b\<rparr>) = (on_event e x)\<lparr>pc_parser := q, pc_ok := b\<rparr>"
    by (cases x; cases e) simp_all
  then show ?case
    by (simp add: Cons.IH)
qed simp

lemma fold_incomplete:
  "MessageComplete \<notin> set es \<Longrightarrow> pc_messageComplete (fold on_event es x) = pc_messageComplete x"
proof (induction es arbitrary: x)
  case (Cons e es)
  have "pc_messageComplete (on_event e x) = pc_messageComplete x"
    using Cons.prems by (cases e) simp_all
  then show ?case
    using Cons by simp
qed simp

text \<open>The last piece, and one that is not the last.\<close>

lemma delivers_last:
  assumes "delivers execute x d r" and "d \<noteq> []"
  shows "\<exists>evs q. execute (pc_parser x) d = (evs, length d, True, q)
    \<and> pc_messageComplete (fold on_event evs x) \<and> pc_request (fold on_event evs x) = r"
proof -
  have "pieces_of d [d]"
    using assms(2) by (simp add: pieces_of_def)
  with assms(1) show ?thesis
    by (fastforce simp: delivers_def split: prod.splits if_splits)
qed

lemma delivers_first:
  assumes d: "delivers execute x (a @ b) r" and "a \<noteq> []" "b \<noteq> []"
    and long: "min extrabuf_size (length (a @ b)) \<le> length a" and open_msg: "\<not> pc_messageComplete x"
  shows "\<exists>evs q. execute (pc_parser x) a = (evs, length a, True, q)
    \<and> \<not> pc_messageComplete (fold on_event evs x) \<and> delivers execute (parsed evs q x) b r"
proof -
  have cut: "pieces_of (a @ b) (a # ds)" if "pieces_of b ds" for ds
    using that assms(2) long by (auto simp: pieces_of_def)
  have fed: "\<exists>evss. feed execute (pc_parser x) (a # ds) = Some evss
        \<and> (\<forall>evs\<in>set (butlast evss). MessageComplete \<notin> set evs)
        \<and> pc_messageComplete (fold on_event (concat evss) x) \<and> pc_request (fold on_event (concat evss) x) = r"
    if "pieces_of b ds" for ds
    using d cut [OF that] unfolding delivers_def by blast
  have "pieces_of b [b]"
    using assms(3) by (simp add: pieces_of_def)
  from fed [OF this] obtain evs q evss where
    run: "execute (pc_parser x) a = (evs, length a, True, q)" "MessageComplete \<notin> set evs"
    by (cases "execute (pc_parser x) a"; cases "execute (snd (snd (snd (execute (pc_parser x) a)))) b")
       (auto split: if_splits)
  have "delivers execute (parsed evs q x) b r"
    unfolding delivers_def
  proof (intro allI impI)
    fix ds
    assume ds: "pieces_of b ds"
    from fed [OF ds] run(1) obtain rest where f: "feed execute q ds = Some rest"
        "\<forall>es\<in>set (butlast (evs # rest)). MessageComplete \<notin> set es"
        "pc_messageComplete (fold on_event (concat rest) (fold on_event evs x))"
        "pc_request (fold on_event (concat rest) (fold on_event evs x)) = r"
      by auto
    have "\<forall>es\<in>set (butlast rest). MessageComplete \<notin> set es"
      using f(2) by (auto split: if_splits)
    then show "\<exists>evss. feed execute (pc_parser (parsed evs q x)) ds = Some evss
        \<and> (\<forall>es\<in>set (butlast evss). MessageComplete \<notin> set es)
        \<and> pc_messageComplete (fold on_event (concat evss) (parsed evs q x))
        \<and> pc_request (fold on_event (concat evss) (parsed evs q x)) = r"
      using f(1,3,4) by (intro exI [of _ rest]) (simp add: parsed_def fold_on_event_parsed)
  qed
  with run fold_incomplete [OF run(2), of x] open_msg show ?thesis
    by blast
qed

section \<open>Sending and reading\<close>

text \<open>The loop calls the connection for events of the descriptor, with or without the write branch.\<close>

definition calls_conn :: "'p event_loop \<Rightarrow> int \<Rightarrow> nat \<Rightarrow> bool" where
  "calls_conn L f c \<longleftrightarrow> dispatch_target L f \<in> {Some (ConnReadWriteCb c), Some (ConnReadCb c)}"

lemma calls_conn_wheel [simp]: "calls_conn (evloop (set_wheel wh w)) f c = calls_conn (evloop w) f c"
  by (simp add: calls_conn_def dispatch_target_def set_wheel_def)

lemma modFd_keeps:
  assumes "modFd K f ev cb (L, k) = Inr (L', k')"
  shows "timeWheel L' = timeWheel L" and "k' = snd (sys_epoll_mod K f (with_mode L ev) k)"
    and "dispatch_target L' g = (if g = f then Some cb else dispatch_target L g)"
  using assms by (auto simp: modFd_def dispatch_target_def Let_def nth_list_update split: prod.splits if_splits)

lemma want_write_keeps:
  assumes "stream_ok K wire inbox" and "want_write K c w = Inr w'"
  shows "timeWheel (evloop w') = timeWheel (evloop w) \<and> inbox (kern w') = inbox (kern w)
    \<and> (calls_conn (evloop w) f c \<longrightarrow> calls_conn (evloop w') f c)
    \<and> (epoll_ok K interest \<and> interest_ok K interest \<longrightarrow> interest (kern w') = interest (kern w))"
proof -
  obtain C1 :: connection where "on_loop (modFd K (fd C1) (EPOLLIN OR EPOLLOUT) (ConnReadWriteCb c)) w = Inr w'"
    using assms(2) unfolding want_write_def by (rule rbind_InrE)
  then obtain L k where "modFd K (fd C1) (EPOLLIN OR EPOLLOUT) (ConnReadWriteCb c) (evloop w, kern w) = Inr (L, k)"
      "w' = w\<lparr>evloop := L, kern := k\<rparr>"
    by (auto simp: on_loop_Inr)
  with modFd_keeps [OF this(1)] show ?thesis
    using stream_okD(5) [OF assms(1)] epoll_okD(3) [of K interest] by (simp add: calls_conn_def)
qed

lemma queue_rest_keeps:
  assumes "stream_ok K wire inbox" and "queue_rest K d c C w = Inr w'"
  shows "timeWheel (evloop w') = timeWheel (evloop w) \<and> inbox (kern w') = inbox (kern w)
    \<and> (calls_conn (evloop w) f c \<longrightarrow> calls_conn (evloop w') f c)
    \<and> (epoll_ok K interest \<and> interest_ok K interest \<longrightarrow> interest (kern w') = interest (kern w))"
proof (cases "0 < readableBytes (buffer_append d (outputBuffer C))")
  case True
  let ?w = "upd c (outputBuffer_update (buffer_append d)) w"
  have "want_write K c ?w = Inr w'"
    using assms(2) True by (simp add: queue_rest_def Let_def)
  from want_write_keeps [OF assms(1) this, of f interest] show ?thesis
    by simp
qed (use assms(2) in \<open>auto simp: queue_rest_def\<close>)

lemma send_keeps:
  assumes st: "stream_ok K wire inbox" and C: "conns w c = Some C" and open_conn: "state C \<noteq> Closing"
    and soft: "fst (sys_write K (fd C) d (kern w)) \<notin> {Inl EINTR, Inl EFAIL}"
    and run: "send env K n d c w = Inr w'"
  shows "timeWheel (evloop w') = timeWheel (evloop w) \<and> inbox (kern w') = inbox (kern w)
    \<and> (calls_conn (evloop w) f c \<longrightarrow> calls_conn (evloop w') f c)
    \<and> (epoll_ok K interest \<and> interest_ok K interest \<longrightarrow> interest (kern w') = interest (kern w))"
proof (cases "readableBytes (outputBuffer C) = 0")
  case False
  then show ?thesis
    using queue_rest_keeps [OF st, of _ c C w w' f interest] run by (simp add: send_queue_rest [OF C open_conn])
next
  case True
  obtain r k where wr: "sys_write K (fd C) d (kern w) = (r, k)"
    by fastforce
  have k: "inbox k = inbox (kern w)" "interest_ok K interest \<longrightarrow> interest k = interest (kern w)"
    using stream_okD(4) [OF st, of "fd C" d "kern w"] interest_okD(1) [of K interest "fd C" d "kern w"] wr by simp_all
  have "\<exists>data. queue_rest K data c C (w\<lparr>kern := k\<rparr>) = Inr w'"
  proof (cases r)
    case (Inl e)
    then have "e = EAGAIN"
      using soft wr by (cases e) auto
    then show ?thesis
      using run wr Inl True by (auto simp: send_queue_rest [OF C open_conn])
  next
    case (Inr m)
    then show ?thesis
      using run wr True by (auto simp: send_queue_rest [OF C open_conn])
  qed
  then obtain data where "queue_rest K data c C (w\<lparr>kern := k\<rparr>) = Inr w'"
    by blast
  from queue_rest_keeps [OF st this, of f interest] k show ?thesis
    by simp
qed

lemma length_blit_le: "length l \<le> length (blit p d l)"
  by (simp add: blit_def)

lemma length_append_le: "buffer_wf b \<Longrightarrow> length (buf_data b) \<le> length (buf_data (buffer_append d b))"
proof -
  assume wf: "buffer_wf b"
  have "length (buf_data b) \<le> length (buf_data (ensureWritableBytes n b))" for n
    using wf length_blit_le by (auto simp: ensureWritableBytes_def buffer_defs Let_def)
  from this [of "length d"] show ?thesis
    using length_blit_le by (force simp: buffer_append_def Let_def intro: order_trans)
qed

lemma length_readFromFd_le:
  assumes "buffer_wf b"
  shows "length (buf_data b) \<le> length (buf_data (snd (readFromFd r b)))"
proof (cases r)
  case (Inr bytes)
  let ?b = "b\<lparr>buf_data := blit (writerIndex b) (take (writableBytes b) bytes) (buf_data b),
      writerIndex := writerIndex b + writableBytes b\<rparr>"
  have "buffer_wf ?b"
    using assms by (auto simp: buffer_defs blit_def)
  from length_append_le [OF this] have "length (buf_data b) \<le> length (buf_data (buffer_append d ?b))" for d
    using length_blit_le [of "buf_data b" "writerIndex b" "take (writableBytes b) bytes"] by (force intro: order_trans)
  then show ?thesis
    using Inr length_blit_le by (auto simp: readFromFd_def Let_def)
qed simp

lemma file_response_keeps:
  assumes st: "stream_ok K wire inbox" and s: "serving K interest wire file c C p x w"
    and soft: "\<And>f d k. fst (sys_write K f d k) \<notin> {Inl EINTR, Inl EFAIL}"
    and op: "fst (sys_open K (rs_filePath resp) (kern w)) = Some ffd" and full: "\<not> rq_hasRange req"
    and run: "file_response P K n p c req resp w = Inr w'"
  shows "inbox (kern w') = inbox (kern w)"
proof -
  obtain k where k: "sys_open K (rs_filePath resp) (kern w) = (Some ffd, k)"
    using op by (cases "sys_open K (rs_filePath resp) (kern w)") simp
  let ?w1 = "w\<lparr>kern := k\<rparr>"
  have C: "conns ?w1 c = Some C" "state C \<noteq> Closing" "\<not> sendingFile C"
    using s by (simp_all add: serving_def)
  have "send_head_and_file P K n c resp ffd (rs_fileSize resp) 0 0 ?w1 = Inr w'"
    using run k full by (simp add: file_response_def)
  then obtain w2 w3 where 2: "send (base_env P) K n (build resp) c ?w1 = Inr w2"
      and 3: "sendFile_fd K ffd (rs_fileSize resp) 0 0 c w2 = Inr w3" and w': "w' = setState SendingResponse c w3"
    by (auto simp: send_head_and_file_def rbind_Inr_iff)
  have in2: "inbox (kern w2) = inbox k"
    using send_keeps [OF st C(1,2) soft 2] by simp
  obtain C2 where "conns w2 c = Some C2" "\<not> sendingFile C2"
  proof -
    have "serving K interest wire file c C p x ?w1"
    proof (rule serving_kern [OF s])
      show "interest k = interest (kern w)"
        using interest_okD(4) [OF conn_okD(1), of K interest c w C "rs_filePath resp" "kern w"] s k
        by (simp add: serving_def)
    qed
    from serving_send [OF this soft, of "base_env P" n "build resp"] 2 that C(3) show thesis
      by auto
  qed
  then have "\<exists>v. want_write K c v = Inr w3 \<and> kern v = kern w2"
    using 3 by (auto simp: sendFile_fd_def conn_Some Let_def)
  then have "inbox (kern w3) = inbox (kern w2)"
    using want_write_keeps [OF st] by metis
  then show ?thesis
    using in2 stream_okD(6) [OF st, of "rs_filePath resp" "kern w"] k w' by (simp add: setState_def)
qed

section \<open>Between two requests\<close>

text \<open>
  A connection that can take data: open, its deadline live, registered, with its parser
  context; and one that waits for a request: its input is empty and the parser is at its start.
\<close>

definition reading ::
    "'k kernel \<Rightarrow> ('k \<Rightarrow> int set) \<Rightarrow> ('k \<Rightarrow> int \<Rightarrow> string) \<Rightarrow> (int \<Rightarrow> string) \<Rightarrow> nat \<Rightarrow> connection \<Rightarrow> nat
     \<Rightarrow> 'q parser_context \<Rightarrow> ('p, 'k, 'h, 'q, 'y) http_world \<Rightarrow> bool" where
  "reading K interest wire file c C p x w \<longleftrightarrow>
     serving K interest wire file c C p x w \<and> wheel_live C w
     \<and> kPrependSize \<le> length (buf_data (inputBuffer C))
     \<and> dataCallback C = Some HttpOnData \<and> calls_conn (evloop w) (fd C) c"

definition ready ::
    "'q \<Rightarrow> 'k kernel \<Rightarrow> ('k \<Rightarrow> int set) \<Rightarrow> ('k \<Rightarrow> int \<Rightarrow> string) \<Rightarrow> (int \<Rightarrow> string) \<Rightarrow> nat \<Rightarrow> connection \<Rightarrow> nat
     \<Rightarrow> 'q parser_context \<Rightarrow> ('p, 'k, 'h, 'q, 'y) http_world \<Rightarrow> bool" where
  "ready init K interest wire file c C p x w \<longleftrightarrow>
     reading K interest wire file c C p x w \<and> state C = ReadingRequest
     \<and> contents (inputBuffer C) = [] \<and> pc_parser x = init \<and> \<not> pc_messageComplete x"

lemma serving_input:
  assumes "serving K interest wire file c C p x w" and "interest k = interest (kern w)" and "buffer_wf b"
  shows "serving K interest wire file c (C\<lparr>inputBuffer := b\<rparr>) p x (upd c (inputBuffer_update (\<lambda>_. b)) (w\<lparr>kern := k\<rparr>))"
proof -
  have ok: "conn_ok K interest c w" and C: "conns w c = Some C"
    using assms(1) by (simp_all add: serving_def)
  note okD = conn_okD [OF ok C]
  let ?w = "upd c (inputBuffer_update (\<lambda>_. b)) (w\<lparr>kern := k\<rparr>)"
  have C1: "conns ?w c = Some (C\<lparr>inputBuffer := b\<rparr>)"
    using C by simp
  have "loop_ok K interest (evloop ?w, kern ?w)"
    using loop_ok_kern [OF okD(2) assms(2)] by simp
  then have "conn_ok K interest c ?w"
    using okD assms(3) by (intro conn_okI [OF okD(1) _ C1]) simp_all
  then show ?thesis
    using assms(1) C1 by (simp add: serving_def)
qed

text \<open>Data that do not complete a request go to the parser and nothing else happens.\<close>

lemma onData_more:
  assumes rd: "reading K interest wire file c C p x w" and d: "contents (inputBuffer C) = d"
    and parse: "parser_execute P (pc_parser x) d = (evs, length d, True, q)"
    and more: "\<not> pc_messageComplete (fold on_event evs x)"
  shows "\<exists>w' C'. onData P K n c w = Inr w' \<and> reading K interest wire file c C' p (parsed evs q x) w'
    \<and> contents (inputBuffer C') = [] \<and> fd C' = fd C \<and> kern w' = kern w
    \<and> router (http_of w') = router (http_of w) \<and> user (http_of w') = user (http_of w)
    \<and> registered (evloop w') = registered (evloop w) \<and> promised wire file c w' = promised wire file c w"
proof -
  have s: "serving K interest wire file c C p x w" and live: "wheel_live C w"
    and room: "kPrependSize \<le> length (buf_data (inputBuffer C))" and cb: "dataCallback C = Some HttpOnData"
    and called: "calls_conn (evloop w) (fd C) c"
    using rd by (simp_all add: reading_def)
  have C: "conns w c = Some C" and ok: "conn_ok K interest c w"
    using s by (simp_all add: serving_def)
  let ?C3 = "inputBuffer_update (retrieve (length d)) C"
  obtain wh where on: "onData P K n c w
        = Inr (upd c (inputBuffer_update (retrieve (length d))) (upd_ctx p (parsed evs q) (set_wheel wh w)))"
    and s3: "serving K interest wire file c ?C3 p (parsed evs q x)
        (upd c (inputBuffer_update (retrieve (length d))) (upd_ctx p (parsed evs q) (set_wheel wh w)))"
    and live3: "wheel_live ?C3 (upd c (inputBuffer_update (retrieve (length d))) (upd_ctx p (parsed evs q) (set_wheel wh w)))"
    using onData_parses [OF s live, of P evs "length d" q n] parse d more by (auto simp: Let_def)
  let ?w3 = "upd c (inputBuffer_update (retrieve (length d))) (upd_ctx p (parsed evs q) (set_wheel wh w))"
  have "length d \<le> readableBytes (inputBuffer C)"
    using length_contents [OF conn_okD(3) [OF ok C]] d by simp
  then have "contents (inputBuffer ?C3) = []"
    using contents_retrieve [OF conn_okD(3) [OF ok C]] d by simp
  moreover have "reading K interest wire file c ?C3 p (parsed evs q x) ?w3"
    using s3 live3 room cb called by (simp add: reading_def retrieve_def)
  moreover have "promised wire file c ?w3 = promised wire file c w"
    using C by (simp add: promised_def file_rest_def)
  ultimately show ?thesis
    using on by (intro exI [of _ ?w3] exI [of _ ?C3]) simp
qed

text \<open>A request that is complete in the input is answered, and the connection is ready again.\<close>

lemma onData_answers:
  assumes rd: "reading K interest wire file c C p x w"
    and st: "stream_ok K wire inbox" and soft: "\<And>f d k. fst (sys_write K f d k) \<notin> {Inl EINTR, Inl EFAIL}"
    and parse: "parser_execute P (pc_parser x) (contents (inputBuffer C)) = (evs, np, True, q)"
    and complete: "pc_messageComplete (fold on_event evs x)"
    and a: "handles P c (fd C) (router (http_of w)) (pc_request (fold on_event evs x)) (user (http_of w)) req resp y'"
    and nf: "\<not> rs_isFile resp" and ka: "rq_keepAlive req"
  shows "\<exists>w' C' x'. onData P K n c w = Inr w' \<and> ready (parser_init P) K interest wire file c C' p x' w'
    \<and> fd C' = fd C \<and> inbox (kern w') = inbox (kern w) \<and> router (http_of w') = router (http_of w)
    \<and> interest (kern w') = interest (kern w)
    \<and> user (http_of w') = y' \<and> promised wire file c w' = promised wire file c w @ build (setKeepAlive True resp)"
proof -
  have s: "serving K interest wire file c C p x w" and live: "wheel_live C w"
    and room: "kPrependSize \<le> length (buf_data (inputBuffer C))" and cb: "dataCallback C = Some HttpOnData"
    and called: "calls_conn (evloop w) (fd C) c"
    using rd by (simp_all add: reading_def)
  let ?C3 = "inputBuffer_update (retrieve np) C"
  let ?done = "\<lambda>x. x\<lparr>pc_messageComplete := False, pc_request := request_reset (pc_request x),
      pc_parser := parser_init P, pc_ok := True\<rparr>"
  obtain wh where on: "onData P K n c w =
      rbind (processRequest P K n c (upd c (inputBuffer_update (retrieve np)) (upd_ctx p (parsed evs q) (set_wheel wh w))))
        (\<lambda>w4. rbind (get_ctx p w4) (\<lambda>x4. Inr (upd_ctx p ?done w4)))"
    and s3: "serving K interest wire file c ?C3 p (parsed evs q x)
        (upd c (inputBuffer_update (retrieve np)) (upd_ctx p (parsed evs q) (set_wheel wh w)))"
    and live3: "wheel_live ?C3 (upd c (inputBuffer_update (retrieve np)) (upd_ctx p (parsed evs q) (set_wheel wh w)))"
    using onData_parses [OF s live parse, of n] complete by (auto simp: Let_def)
  let ?w3 = "upd c (inputBuffer_update (retrieve np)) (upd_ctx p (parsed evs q) (set_wheel wh w))"
  let ?w3' = "upd_http (user_update (\<lambda>_. y')) (upd_ctx p (pc_request_update (\<lambda>_. req)) ?w3)"
  have a3: "handles P c (fd ?C3) (router (http_of ?w3)) (pc_request (parsed evs q x)) (user (http_of ?w3)) req resp y'"
    using a by simp
  obtain w4 b w1 where pr: "processRequest P K n c ?w3 = Inr w4"
      and C4: "conns w4 = (conns ?w3)(c \<mapsto> ?C3\<lparr>outputBuffer := b, inputBuffer := retrieveAll (inputBuffer ?C3),
        state := ReadingRequest\<rparr>)"
      and x4: "ctxs (http_of w4) p = Some (pc_request_update (\<lambda>_. req) (parsed evs q x))"
      and p4: "promised wire file c w4 = promised wire file c ?w3 @ build (setKeepAlive True resp)"
      and send: "send (base_env P) K n (build (setKeepAlive True resp)) c ?w3' = Inr w1"
      and ok1: "conn_ok K interest c w1" and app1: "app w1 = app ?w3'"
      and w4: "w4 = resetForNextRequest c w1"
    using plain_answer [OF s3 a3 nf soft ka, of n] by blast
  let ?C4 = "?C3\<lparr>outputBuffer := b, inputBuffer := retrieveAll (inputBuffer ?C3), state := ReadingRequest\<rparr>"
  let ?w5 = "upd_ctx p ?done w4" and ?x5 = "?done (pc_request_update (\<lambda>_. req) (parsed evs q x))"
  have C3: "conns ?w3' c = Some ?C3" "state ?C3 \<noteq> Closing"
    using s3 by (simp_all add: serving_def)
  have ep: "epoll_ok K interest" "interest_ok K interest"
    using s conn_okD(1,2) [of K interest c w C] by (simp_all add: serving_def loop_ok_def)
  have keeps: "timeWheel (evloop w1) = timeWheel (evloop ?w3)" "inbox (kern w1) = inbox (kern w)"
      "calls_conn (evloop w1) (fd C) c" "interest (kern w1) = interest (kern w)"
    using send_keeps [OF st C3 soft send, of "fd C" interest] called ep by simp_all
  have w4_fields: "evloop w4 = evloop w1" "kern w4 = kern w1" "app w4 = app w1"
    by (simp_all add: w4 resetForNextRequest_def setState_def)
  have run: "onData P K n c w = Inr ?w5"
    using on pr x4 by (simp add: get_ctx_Some)
  have C5: "conns ?w5 c = Some ?C4" and x5: "ctxs (http_of ?w5) p = Some ?x5"
    using C4 x4 by simp_all
  obtain C1 where C1: "conns w1 c = Some C1"
    using ok1 unfolding conn_ok_def by blast
  note okD = conn_okD [OF ok1 C1]
  have eq: "?C4 = C1\<lparr>inputBuffer := retrieveAll (inputBuffer C1), state := ReadingRequest\<rparr>"
    using fun_cong [OF C4, of c] C1 by (cases C1) (simp add: w4 resetForNextRequest_def setState_def)
  have long: "kPrependSize \<le> length (buf_data (inputBuffer ?C4))"
    using room by (simp add: retrieveAll_def retrieve_def)
  then have wf: "buffer_wf (inputBuffer ?C4)"
    by (simp add: retrieveAll_def buffer_wf_def)
  have "loop_ok K interest (evloop ?w5, kern ?w5)"
    using okD(2) w4_fields by simp
  then have "conn_ok K interest c ?w5"
    using okD wf C5 w4_fields unfolding eq by (intro conn_okI [OF okD(1) _ C5 [unfolded eq]]) simp_all
  then have s5: "serving K interest wire file c ?C4 p ?x5 ?w5"
    using s3 C5 x5 by (simp add: serving_def)
  have live5: "wheel_live ?C4 ?w5"
    using live3 keeps(1) w4_fields app1 by (simp add: wheel_live_def)
  have "ready (parser_init P) K interest wire file c ?C4 p ?x5 ?w5"
    using s5 live5 long cb keeps(3) w4_fields by (simp add: ready_def reading_def)
  moreover have "router (http_of ?w5) = router (http_of w)" "user (http_of ?w5) = y'"
    using w4_fields(3) app1 by (simp_all add: http_of_def upd_ctx_def upd_http_def)
  moreover have "promised wire file c ?w3 = promised wire file c w"
    using s by (simp add: serving_def promised_def file_rest_def)
  ultimately show ?thesis
    using run p4 keeps(2,4) w4_fields(2)
    by (intro exI [of _ ?w5] exI [of _ ?C4] exI [of _ ?x5]) simp
qed

text \<open>A request for a whole file: the header and the file are promised.\<close>

lemma onData_sends_file:
  assumes rd: "reading K interest wire file c C p x w"
    and st: "stream_ok K wire inbox" and soft: "\<And>f d k. fst (sys_write K f d k) \<notin> {Inl EINTR, Inl EFAIL}"
    and parse: "parser_execute P (pc_parser x) (contents (inputBuffer C)) = (evs, np, True, q)"
    and complete: "pc_messageComplete (fold on_event evs x)"
    and a: "handles P c (fd C) (router (http_of w)) (pc_request (fold on_event evs x)) (user (http_of w)) req resp y'"
    and isf: "rs_isFile resp" and full: "\<not> rq_hasRange req"
    and seek: "\<And>off k. fst (sys_lseek K ffd off k)"
    and op: "fst (sys_open K (rs_filePath resp) (kern w)) = Some ffd" "0 \<le> ffd" "ffd \<notin> interest (kern w)"
    and size: "rs_fileSize resp < 2 ^ 64"
  shows "\<exists>w' C'. onData P K n c w = Inr w' \<and> conn_ok K interest c w' \<and> conns w' c = Some C'
    \<and> state C' = SendingResponse \<and> sendingFile C' \<and> fd C' = fd C \<and> inbox (kern w') = inbox (kern w)
    \<and> user (http_of w') = y'
    \<and> promised wire file c w' = promised wire file c w
        @ build (setKeepAlive (rq_keepAlive req) resp) @ take (rs_fileSize resp) (file ffd)"
proof -
  have s: "serving K interest wire file c C p x w" and live: "wheel_live C w"
    using rd by (simp_all add: reading_def)
  let ?C3 = "inputBuffer_update (retrieve np) C"
  let ?done = "\<lambda>x. x\<lparr>pc_messageComplete := False, pc_request := request_reset (pc_request x),
      pc_parser := parser_init P, pc_ok := True\<rparr>"
  obtain wh where on: "onData P K n c w =
      rbind (processRequest P K n c (upd c (inputBuffer_update (retrieve np)) (upd_ctx p (parsed evs q) (set_wheel wh w))))
        (\<lambda>w4. rbind (get_ctx p w4) (\<lambda>x4. Inr (upd_ctx p ?done w4)))"
    and s3: "serving K interest wire file c ?C3 p (parsed evs q x)
        (upd c (inputBuffer_update (retrieve np)) (upd_ctx p (parsed evs q) (set_wheel wh w)))"
    using onData_parses [OF s live parse, of n] complete by (auto simp: Let_def)
  let ?w3 = "upd c (inputBuffer_update (retrieve np)) (upd_ctx p (parsed evs q) (set_wheel wh w))"
  let ?w4 = "upd_http (user_update (\<lambda>_. y')) (upd_ctx p (pc_request_update (\<lambda>_. req)) ?w3)"
    and ?x4 = "pc_request_update (\<lambda>_. req) (parsed evs q x)"
    and ?resp = "setKeepAlive (rq_keepAlive req) resp"
  have a3: "handles P c (fd ?C3) (router (http_of ?w3)) (pc_request (parsed evs q x)) (user (http_of ?w3)) req resp y'"
    using a by simp
  have pr: "processRequest P K n c ?w3 = file_response P K n p c req ?resp ?w4"
    using processRequest_serves [OF s3 a3] isf by (simp add: Let_def)
  have s4: "serving K interest wire file c ?C3 p ?x4 ?w4"
    by (intro serving_user serving_ctx s3)
  have same: "rs_filePath ?resp = rs_filePath resp" "rs_fileSize ?resp = rs_fileSize resp"
    by (simp_all add: setKeepAlive_def)
  have "loop_ok K interest (evloop w, kern w)"
    using s conn_okD(2) [of K interest c w C] by (simp add: serving_def)
  then have "registered (evloop w) ffd = None"
    using op(3) by (auto simp: loop_ok_def)
  then have reg: "registered (evloop ?w4) ffd = None"
    by simp
  have op4: "fst (sys_open K (rs_filePath ?resp) (kern ?w4)) = Some ffd"
    using op(1) same by simp
  have sz: "rs_fileSize ?resp < 2 ^ 64"
    using size same by simp
  obtain w5 C5 where 5: "file_response P K n p c req ?resp ?w4 = Inr w5" "conn_ok K interest c w5"
      "conns w5 c = Some C5" "state C5 = SendingResponse" "sendingFile C5" "fd C5 = fd C" "app w5 = app ?w4"
      "promised wire file c w5 = promised wire file c ?w4 @ build ?resp @ take (rs_fileSize resp) (file ffd)"
    using file_response_promised [OF s4 soft seek op4 op(2) reg sz, of req 0 0 P n] full same by auto
  have "inbox (kern w5) = inbox (kern w)"
    using file_response_keeps [OF st s4 soft op4 full 5(1)] by simp
  moreover have "ctxs (http_of w5) p = Some ?x4" "user (http_of w5) = y'"
    using s4 5(7) by (simp_all add: serving_def http_of_def upd_http_def)
  moreover have "promised wire file c ?w4 = promised wire file c w"
    using s by (simp add: serving_def promised_def file_rest_def)
  moreover have "conn_ok K interest c (upd_ctx p ?done w5)"
    using 5(2) by (rule conn_ok_cong) simp_all
  ultimately show ?thesis
    using on pr 5 by (intro exI [of _ "upd_ctx p ?done w5"] exI [of _ C5]) (simp add: get_ctx_Some)
qed

section \<open>The read event\<close>

text \<open>
  One read: as much as the buffer takes, at least \<open>extrabuf_size\<close> bytes, goes from the inbox into
  the input buffer.
\<close>

lemma handleRead_piece:
  assumes rd: "reading K interest wire file c C p x w" and st: "stream_ok K wire inbox"
    and empty: "contents (inputBuffer C) = []" and d: "inbox (kern w) (fd C) = d" "d \<noteq> []"
  obtains a b C1 w1 where "d = a @ b" "a \<noteq> []" "min extrabuf_size (length d) \<le> length a"
    and "handleRead (http_env P K l) K (Suc n) c w = rbind (onData P K l c w1) (handleRead (http_env P K l) K n c)"
    and "reading K interest wire file c C1 p x w1" "contents (inputBuffer C1) = a" "fd C1 = fd C"
    and "inbox (kern w1) (fd C) = b" "app w1 = app w" "promised wire file c w1 = promised wire file c w"
    "interest (kern w1) = interest (kern w)"
proof -
  have s: "serving K interest wire file c C p x w" and room: "kPrependSize \<le> length (buf_data (inputBuffer C))"
    and cb: "dataCallback C = Some HttpOnData"
    using rd by (simp_all add: reading_def)
  have C: "conns w c = Some C" and ok: "conn_ok K interest c w"
    using s by (simp_all add: serving_def)
  note okD = conn_okD [OF ok C]
  let ?m = "readv_capacity (inputBuffer C)"
  let ?r1 = "sys_readv K (fd C) ?m (kern w)"
  have m: "extrabuf_size \<le> ?m" "0 < ?m"
    by (simp_all add: readv_capacity_def extrabuf_size_def)
  then have a: "take ?m d \<noteq> []"
    using d(2) by simp
  obtain j b1 where rf: "readFromFd (Inr (take ?m d)) (inputBuffer C) = (Inr (Suc j), b1)"
    and b1: "contents b1 = take ?m d" "buffer_wf b1" "kPrependSize \<le> length (buf_data b1)"
  proof -
    obtain j where "length (take ?m d) = Suc j"
      using a by (cases "take ?m d") simp_all
    then have "readFromFd (Inr (take ?m d)) (inputBuffer C) = (Inr (Suc j), snd (readFromFd (Inr (take ?m d)) (inputBuffer C)))"
      using contents_readFromFd(1) [OF okD(3), of "take ?m d"] by argo
    from that [OF this] show thesis
      using contents_readFromFd(2) [OF okD(3), of "take ?m d"] empty okD(3) room
        length_readFromFd_le [OF okD(3), of "Inr (take ?m d)"]
      by simp
  qed
  let ?w1 = "upd c (inputBuffer_update (\<lambda>_. b1)) (w\<lparr>kern := snd ?r1\<rparr>)" and ?C1 = "C\<lparr>inputBuffer := b1\<rparr>"
  have r1: "fst ?r1 = Inr (take ?m d)" "inbox (snd ?r1) (fd C) = drop ?m d" "wire (snd ?r1) = wire (kern w)"
      "interest (snd ?r1) = interest (kern w)"
    using stream_okD(2) [OF st, of "kern w" "fd C" ?m] stream_okD(3) [OF st] d interest_okD(2) [OF okD(1)] by simp_all
  then obtain k1 where k1: "?r1 = (Inr (take ?m d), k1)"
    by (cases ?r1) simp
  have run: "handleRead (http_env P K l) K (Suc n) c w = rbind (onData P K l c ?w1) (handleRead (http_env P K l) K n c)"
    using k1 C cb unfolding handleRead.simps(2)
    by (simp add: conn_Some rf http_env_def del: handleRead.simps)
  have "reading K interest wire file c ?C1 p x ?w1"
    using serving_input [OF s r1(4) b1(2)] rd b1(3) by (simp add: reading_def wheel_live_def)
  moreover have "promised wire file c ?w1 = promised wire file c w"
    using C r1(3) by (simp add: promised_def file_rest_def)
  ultimately show thesis
    using that [of "take ?m d" "drop ?m d" ?w1 ?C1] run a m b1(1) r1(2,4) by auto
qed

text \<open>
  A whole request, read in pieces: what the last call of \<^verbatim>\<open>onData\<close> promises (\<open>final\<close>) holds of
  the event, because the pieces before it only feed the parser and the read after it finds
  nothing. The fuel of one step per byte is more than the reads need.
\<close>

lemma handleRead_request:
  assumes st: "stream_ok K wire inbox"
    and final: "\<And>x C w evs q. reading K interest wire file c C p x w \<Longrightarrow> fd C = f \<Longrightarrow> inbox (kern w) f = [] \<Longrightarrow>
      parser_execute P (pc_parser x) (contents (inputBuffer C)) = (evs, length (contents (inputBuffer C)), True, q) \<Longrightarrow>
      pc_messageComplete (fold on_event evs x) \<Longrightarrow> pc_request (fold on_event evs x) = r \<Longrightarrow>
      router (http_of w) = R \<Longrightarrow> user (http_of w) = y \<Longrightarrow> promised wire file c w = s \<Longrightarrow> interest (kern w) = i \<Longrightarrow>
      \<exists>w' C'. onData P K l c w = Inr w' \<and> conn_ok K interest c w' \<and> conns w' c = Some C' \<and> fd C' = f
        \<and> inbox (kern w') f = [] \<and> Q w' C'"
    and Q: "\<And>w C k. Q w C \<Longrightarrow> conns w c = Some C \<Longrightarrow> interest k = interest (kern w) \<Longrightarrow> wire k = wire (kern w) \<Longrightarrow>
      Q (w\<lparr>kern := k\<rparr>) C"
    and rd: "reading K interest wire file c C p x w" "contents (inputBuffer C) = []" "\<not> pc_messageComplete x"
    and given: "fd C = f" "router (http_of w) = R" "user (http_of w) = y" "promised wire file c w = s" "interest (kern w) = i"
    and d: "inbox (kern w) f \<noteq> []" "length (inbox (kern w) f) \<le> n"
    and del: "delivers (parser_execute P) x (inbox (kern w) f) r"
  shows "\<exists>w' C'. handleRead (http_env P K l) K (Suc n) c w = Inr w' \<and> conns w' c = Some C' \<and> fd C' = f
    \<and> inbox (kern w') f = [] \<and> Q w' C'"
  using rd given d del
proof (induction n arbitrary: w C x)
  case 0
  then show ?case
    by simp
next
  case (Suc n)
  obtain a b C1 w1 where cut: "inbox (kern w) f = a @ b" "a \<noteq> []" "min extrabuf_size (length (a @ b)) \<le> length a"
    and run: "handleRead (http_env P K l) K (Suc (Suc n)) c w = rbind (onData P K l c w1) (handleRead (http_env P K l) K (Suc n) c)"
    and rd1: "reading K interest wire file c C1 p x w1" "contents (inputBuffer C1) = a" "fd C1 = f"
    and 1: "inbox (kern w1) f = b" "app w1 = app w" "promised wire file c w1 = s" "interest (kern w1) = i"
    using handleRead_piece [OF Suc.prems(1) st Suc.prems(2) refl, of P l "Suc n"] Suc.prems(4,7,8,9) by metis
  have same: "router (http_of w1) = R" "user (http_of w1) = y"
    using 1(2) Suc.prems(5,6) by (simp_all add: http_of_def)
  show ?case
  proof (cases "b = []")
    case True
    have a: "delivers (parser_execute P) x a r"
      using Suc.prems(11) True cut(1) by simp
    obtain evs q where parse: "parser_execute P (pc_parser x) a = (evs, length a, True, q)"
        "pc_messageComplete (fold on_event evs x)" "pc_request (fold on_event evs x) = r"
      using delivers_last [OF a cut(2)] by blast
    from final [OF rd1(1,3), of evs q] parse rd1(2) 1 same True obtain w2 C2 where
      2: "onData P K l c w1 = Inr w2" "conn_ok K interest c w2" "conns w2 c = Some C2" "fd C2 = f" "inbox (kern w2) f = []" "Q w2 C2"
      by auto
    let ?r = "sys_readv K f (readv_capacity (inputBuffer C2)) (kern w2)"
    let ?w3 = "w2\<lparr>kern := snd ?r\<rparr>"
    have r: "fst ?r = Inl EAGAIN" "inbox (snd ?r) = inbox (kern w2)" "wire (snd ?r) = wire (kern w2)"
        "interest (snd ?r) = interest (kern w2)"
      using stream_okD(1,3) [OF st] 2(5) interest_okD(2) [OF conn_okD(1) [OF 2(2,3)]] by simp_all
    have "upd c (inputBuffer_update (\<lambda>_. inputBuffer C2)) ?w3 = ?w3"
      using 2(3) by (simp add: upd_def fun_upd_idem)
    moreover obtain k where "?r = (Inl EAGAIN, k)"
      using r(1) by (cases ?r) simp
    ultimately have "handleRead (http_env P K l) K (Suc n) c w2 = Inr ?w3"
      using 2(3,4) by (simp add: conn_Some)
    then show ?thesis
      using run 2 r Q [OF 2(6,3) r(4,3)] by (intro exI [of _ ?w3] exI [of _ C2]) simp
  next
    case False
    obtain evs q where parse: "parser_execute P (pc_parser x) a = (evs, length a, True, q)"
        "\<not> pc_messageComplete (fold on_event evs x)" "delivers (parser_execute P) (parsed evs q x) b r"
      using delivers_first [of "parser_execute P" x a b r] Suc.prems(3,11) cut False by auto
    from onData_more [OF rd1(1,2) parse(1,2), of l] obtain w2 C2 where
      2: "onData P K l c w1 = Inr w2" "reading K interest wire file c C2 p (parsed evs q x) w2"
        "contents (inputBuffer C2) = []" "fd C2 = f" "kern w2 = kern w1" "router (http_of w2) = R"
        "user (http_of w2) = y" "promised wire file c w2 = s"
      using rd1(3) same 1(3) by auto
    have "inbox (kern w2) f = b" "length b \<le> n"
      using 2(5) 1(1) Suc.prems(10) cut(1,2) by (cases a; simp)+
    then show ?thesis
      using Suc.IH [OF 2(2,3) _ 2(4,6,7,8)] parse(2,3) False run 2(1,5) 1(4) by auto
  qed
qed

lemma ready_kern:
  assumes "ready init K interest wire file c C p x w" and "interest k = interest (kern w)"
  shows "ready init K interest wire file c C p x (w\<lparr>kern := k\<rparr>)"
  using assms serving_kern [OF _ assms(2)] by (simp add: ready_def reading_def wheel_live_def)

lemma read_event_answers:
  fixes w :: "('p, 'k, 'h, 'q, 'y) http_world"
  assumes rd: "ready (parser_init P) K interest wire file c C p x w"
    and st: "stream_ok K wire inbox" and soft: "\<And>f d k. fst (sys_write K f d k) \<notin> {Inl EINTR, Inl EFAIL}"
    and d: "inbox (kern w) (fd C) \<noteq> []" "length (inbox (kern w) (fd C)) \<le> n"
    and del: "delivers (parser_execute P) x (inbox (kern w) (fd C)) r"
    and a: "handles P c (fd C) (router (http_of w)) r (user (http_of w)) req resp y'"
    and nf: "\<not> rs_isFile resp" and ka: "rq_keepAlive req"
  shows "\<exists>w' C' x'. onEvents (http_env P K l) K (Suc n) wr c EPOLLIN w = Inr w'
    \<and> ready (parser_init P) K interest wire file c C' p x' w' \<and> fd C' = fd C
    \<and> inbox (kern w') (fd C) = [] \<and> router (http_of w') = router (http_of w) \<and> user (http_of w') = y'
    \<and> interest (kern w') = interest (kern w)
    \<and> promised wire file c w' = promised wire file c w @ build (setKeepAlive True resp)"
proof -
  define Q where "Q w' C' \<longleftrightarrow> (\<exists>x'. ready (parser_init P) K interest wire file c C' p x' w'
    \<and> router (http_of w') = router (http_of w) \<and> user (http_of w') = y' \<and> interest (kern w') = interest (kern w)
    \<and> promised wire file c w' = promised wire file c w @ build (setKeepAlive True resp))"
    for w' :: "('p, 'k, 'h, 'q, 'y) http_world" and C' :: connection
  have keep: "Q (v\<lparr>kern := k\<rparr>) D" if "Q v D" "interest k = interest (kern v)" "wire k = wire (kern v)" for v D k
    using that ready_kern [OF _ that(2)] wire_same_promised [OF that(3)] by (fastforce simp: Q_def)
  have "\<exists>v' C'. onData P K l c v = Inr v' \<and> conn_ok K interest c v' \<and> conns v' c = Some C' \<and> fd C' = fd C
      \<and> inbox (kern v') (fd C) = [] \<and> Q v' C'"
    if "reading K interest wire file c D p z v" "fd D = fd C" "inbox (kern v) (fd C) = []"
      "parser_execute P (pc_parser z) (contents (inputBuffer D)) = (evs, length (contents (inputBuffer D)), True, q)"
      "pc_messageComplete (fold on_event evs z)" "pc_request (fold on_event evs z) = r"
      "router (http_of v) = router (http_of w)" "user (http_of v) = user (http_of w)"
      "promised wire file c v = promised wire file c w" "interest (kern v) = interest (kern w)" for z D v evs q
  proof -
    have "handles P c (fd D) (router (http_of v)) (pc_request (fold on_event evs z)) (user (http_of v)) req resp y'"
      using a that by simp
    from onData_answers [OF that(1) st soft that(4,5) this nf ka, of l] that show ?thesis
      by (fastforce simp: Q_def ready_def reading_def serving_def)
  qed
  note fin = this
  have ready: "reading K interest wire file c C p x w" "contents (inputBuffer C) = []" "\<not> pc_messageComplete x"
    using rd by (simp_all add: ready_def)
  have run: "\<exists>w' C'. handleRead (http_env P K l) K (Suc n) c w = Inr w' \<and> conns w' c = Some C' \<and> fd C' = fd C
      \<and> inbox (kern w') (fd C) = [] \<and> Q w' C'"
    by (rule handleRead_request [OF st _ _ ready refl refl refl refl refl d del]) ((rule fin; assumption), (rule keep; assumption))
  obtain w' C' where "handleRead (http_env P K l) K (Suc n) c w = Inr w'" "fd C' = fd C"
      "inbox (kern w') (fd C) = []" "Q w' C'"
    using run by blast
  then show ?thesis
    by (auto simp: onEvents_def Q_def simp del: handleRead.simps)
qed

lemma read_event_sends_file:
  fixes w :: "('p, 'k, 'h, 'q, 'y) http_world"
  assumes rd: "ready (parser_init P) K interest wire file c C p x w"
    and st: "stream_ok K wire inbox" and soft: "\<And>f d k. fst (sys_write K f d k) \<notin> {Inl EINTR, Inl EFAIL}"
    and d: "inbox (kern w) (fd C) \<noteq> []" "length (inbox (kern w) (fd C)) \<le> n"
    and del: "delivers (parser_execute P) x (inbox (kern w) (fd C)) r"
    and a: "handles P c (fd C) (router (http_of w)) r (user (http_of w)) req resp y'"
    and isf: "rs_isFile resp" and full: "\<not> rq_hasRange req"
    and seek: "\<And>off k. fst (sys_lseek K ffd off k)"
    and op: "\<And>k. interest k = interest (kern w) \<Longrightarrow> fst (sys_open K (rs_filePath resp) k) = Some ffd" "0 \<le> ffd"
      "ffd \<notin> interest (kern w)"
    and size: "rs_fileSize resp < 2 ^ 64"
  shows "\<exists>w' C'. onEvents (http_env P K l) K (Suc n) wr c EPOLLIN w = Inr w'
    \<and> conns w' c = Some C' \<and> state C' = SendingResponse \<and> sendingFile C' \<and> fd C' = fd C
    \<and> inbox (kern w') (fd C) = [] \<and> user (http_of w') = y'
    \<and> promised wire file c w' = promised wire file c w
        @ build (setKeepAlive (rq_keepAlive req) resp) @ take (rs_fileSize resp) (file ffd)"
proof -
  define Q where "Q w' C' \<longleftrightarrow> state C' = SendingResponse \<and> sendingFile C' \<and> user (http_of w') = y'
    \<and> promised wire file c w' = promised wire file c w
        @ build (setKeepAlive (rq_keepAlive req) resp) @ take (rs_fileSize resp) (file ffd)"
    for w' :: "('p, 'k, 'h, 'q, 'y) http_world" and C' :: connection
  have keep: "Q (v\<lparr>kern := k\<rparr>) D" if "Q v D" "interest k = interest (kern v)" "wire k = wire (kern v)" for v D k
    using that wire_same_promised [where k = k and w = v] by (auto simp: Q_def)
  have "\<exists>v' C'. onData P K l c v = Inr v' \<and> conn_ok K interest c v' \<and> conns v' c = Some C' \<and> fd C' = fd C
      \<and> inbox (kern v') (fd C) = [] \<and> Q v' C'"
    if "reading K interest wire file c D p z v" "fd D = fd C" "inbox (kern v) (fd C) = []"
      "parser_execute P (pc_parser z) (contents (inputBuffer D)) = (evs, length (contents (inputBuffer D)), True, q)"
      "pc_messageComplete (fold on_event evs z)" "pc_request (fold on_event evs z) = r"
      "router (http_of v) = router (http_of w)" "user (http_of v) = user (http_of w)"
      "promised wire file c v = promised wire file c w" "interest (kern v) = interest (kern w)" for z D v evs q
  proof -
    have "handles P c (fd D) (router (http_of v)) (pc_request (fold on_event evs z)) (user (http_of v)) req resp y'"
      using a that by simp
    from onData_sends_file [OF that(1) st soft that(4,5) this isf full seek op(1) [OF that(10)] op(2) _ size, of l]
      op(3) that show ?thesis
      by (fastforce simp: Q_def)
  qed
  note fin = this
  have ready: "reading K interest wire file c C p x w" "contents (inputBuffer C) = []" "\<not> pc_messageComplete x"
    using rd by (simp_all add: ready_def)
  have run: "\<exists>w' C'. handleRead (http_env P K l) K (Suc n) c w = Inr w' \<and> conns w' c = Some C' \<and> fd C' = fd C
      \<and> inbox (kern w') (fd C) = [] \<and> Q w' C'"
    by (rule handleRead_request [OF st _ _ ready refl refl refl refl refl d del]) ((rule fin; assumption), (rule keep; assumption))
  obtain w' C' where "handleRead (http_env P K l) K (Suc n) c w = Inr w'" "fd C' = fd C"
      "conns w' c = Some C'" "inbox (kern w') (fd C) = []" "Q w' C'"
    using run by blast
  then show ?thesis
    by (auto simp: onEvents_def Q_def simp del: handleRead.simps)
qed

text \<open>
  A request the parser reports from its initial state, however its bytes arrive.
\<close>

definition parses_to ::
    "('q \<Rightarrow> string \<Rightarrow> parse_event list \<times> nat \<times> bool \<times> 'q) \<Rightarrow> 'q \<Rightarrow> string
     \<Rightarrow> string \<Rightarrow> string \<Rightarrow> (string \<times> string) list \<Rightarrow> string \<Rightarrow> bool" where
  "parses_to execute init d m u hs body \<longleftrightarrow>
     d \<noteq> [] \<and> (\<forall>ds. pieces_of d ds \<longrightarrow> (\<exists>evss bs. feed execute init ds = Some evss
        \<and> (\<forall>evs\<in>set (butlast evss). MessageComplete \<notin> set evs)
        \<and> concat evss = request_events m u hs bs \<and> concat bs = body))"

lemma parses_delivers:
  assumes "parses_to execute (pc_parser x) d m u hs body"
  shows "delivers execute x d (built_request m u hs body)"
  unfolding delivers_def
proof (intro allI impI)
  fix ds
  assume "pieces_of d ds"
  with assms obtain evss bs where "feed execute (pc_parser x) ds = Some evss"
      "\<forall>evs\<in>set (butlast evss). MessageComplete \<notin> set evs" "concat evss = request_events m u hs bs" "concat bs = body"
    unfolding parses_to_def by blast
  then show "\<exists>evss. feed execute (pc_parser x) ds = Some evss \<and> (\<forall>evs\<in>set (butlast evss). MessageComplete \<notin> set evs)
      \<and> pc_messageComplete (fold on_event (concat evss) x)
      \<and> pc_request (fold on_event (concat evss) x) = built_request m u hs body"
    using request_events_read [of m u hs bs x] by (intro exI [of _ evss]) simp
qed

section \<open>A new connection\<close>

lemma registered_target: "registered L f = Some (ev, cb) \<Longrightarrow> dispatch_target L f = Some cb"
  by (auto simp: registered_def dispatch_target_def Let_def split: if_splits option.splits)

lemma set_AList_update: "set (AList.update a b xs) \<subseteq> insert (a, b) (set xs)"
  by (induction xs) auto

lemma accept_one_ready:
  assumes ok: "loop_ok K interest (evloop w, kern w)" "interest_ok K interest" "wheel_60 w" "0 \<le> cf"
      "fst (sys_epoll_add K cf (with_mode (evloop w) EPOLLIN) (kern w))"
    and net: "net_ok K wire file" and hook: "\<And>c w. connectionHook P c w = Inr w"
    and cbs: "connectionCallback (app w) = Some HttpOnConnection" "srv_dataCallback (app w) = Some HttpOnData"
    and keys: "\<forall>(f, d)\<in>set (connections (app w)). 0 \<le> f"
  shows "\<exists>w' C p x. accept_one K (\<lambda>cb. onConnection P) cf w = Inr w'
    \<and> ready (parser_init P) K interest wire file (next_conn (app w)) C p x w' \<and> fd C = cf
    \<and> kern w' = snd (sys_epoll_add K cf (with_mode (evloop w) EPOLLIN) (kern w))
    \<and> router (http_of w') = router (http_of w) \<and> user (http_of w') = user (http_of w)
    \<and> listenFd (app w') = listenFd (app w) \<and> contents (outputBuffer C) = []
    \<and> (\<exists>e. wheelEntry C = Some e \<and> view (timeWheel (evloop w)) e = None \<and> view (timeWheel (evloop w'))
        = (view (timeWheel (evloop w)))(e \<mapsto> (60, 60, CloseIdle (next_conn (app w)), next_conn (app w))))
    \<and> conns w' = (conns w)(next_conn (app w) \<mapsto> C) \<and> closeCallback C = Some (HttpOnClose p (Some TcpOnClose))
    \<and> userData C = Some p \<and> fileFd C = - 1 \<and> fileOffset C = 0
    \<and> p = next_ctx (http_of w) \<and> ctxs (http_of w') = (ctxs (http_of w))(p \<mapsto> x) \<and> next_ctx (http_of w') = Suc p
    \<and> next_conn (app w') = Suc (next_conn (app w))
    \<and> connections (app w') = AList.update cf (next_conn (app w)) (connections (app w))
    \<and> connectionCallback (app w') = Some HttpOnConnection \<and> srv_dataCallback (app w') = Some HttpOnData
    \<and> registered (evloop w') = (registered (evloop w))(cf \<mapsto> (EPOLLIN, ConnReadWriteCb (next_conn (app w))))
    \<and> wheel_60 w' \<and> triggerMode (evloop w') = triggerMode (evloop w)"
proof -
  let ?c = "next_conn (app w)"
  let ?new = "\<lambda>e. (connection_new cf)\<lparr>dataCallback := srv_dataCallback (app w),
        closeCallback := Some TcpOnClose, wheelEntry := Some e\<rparr>"
  obtain w1 e where run: "accept_one K (\<lambda>cb. onConnection P) cf w = onConnection P ?c w1"
    and ok1: "conn_ok K interest ?c w1" and C1: "conns w1 = (conns w)(?c \<mapsto> ?new e)"
    and fresh_entry: "view (timeWheel (evloop w)) e = None"
    and shape: "wheel_60 w1" "triggerMode (evloop w1) = triggerMode (evloop w)"
    and view1: "view (timeWheel (evloop w1)) = (view (timeWheel (evloop w)))(e \<mapsto> (60, 60, CloseIdle ?c, ?c))"
    and wf1: "wheel_wf (timeWheel (evloop w1))"
    and reg1: "registered (evloop w1) = (registered (evloop w))(cf \<mapsto> (EPOLLIN, ConnReadWriteCb ?c))"
    and app1: "app w1 = (app w)\<lparr>next_conn := Suc ?c, connections := AList.update cf ?c (connections (app w))\<rparr>"
    and kern1: "kern w1 = snd (sys_epoll_add K cf (with_mode (evloop w) EPOLLIN) (kern w))"
    using accept_one_prepares [OF ok, of "\<lambda>cb. onConnection P"] cbs(1) by auto
  let ?p = "next_ctx (http_of w1)"
  let ?x = "\<lparr>pc_parser = parser_init P, pc_ok = True, pc_request = request_new,
      pc_currentHeaderField = [], pc_headersComplete = False, pc_messageComplete = False\<rparr>"
  let ?w2 = "upd_http (\<lambda>s. s\<lparr>next_ctx := Suc ?p, ctxs := (ctxs s)(?p \<mapsto> ?x)\<rparr>) w1"
  let ?f = "\<lambda>C. C\<lparr>userData := Some ?p, closeCallback := Some (HttpOnClose ?p (closeCallback (?new e))),
      writeCompleteCallback := Some HttpOnWriteComplete\<rparr>"
  let ?w3 = "upd ?c ?f ?w2" and ?C = "?f (?new e)"
  have C2: "conns ?w2 ?c = Some (?new e)"
    using C1 by simp
  have run3: "accept_one K (\<lambda>cb. onConnection P) cf w = Inr ?w3"
    unfolding run using C2 hook by (simp add: onConnection_def conn_Some Let_def upd_def)
  have C3: "conns ?w3 ?c = Some ?C"
    using C2 by simp
  note okD = conn_okD [OF ok1, of "?new e"]
  have C1': "conns w1 ?c = Some (?new e)"
    using C1 by simp
  have "loop_ok K interest (evloop ?w3, kern ?w3)"
    using okD(2) [OF C1'] by simp
  then have ok3: "conn_ok K interest ?c ?w3"
    using okD [OF C1'] by (intro conn_okI [OF okD(1) [OF C1'] _ C3]) simp_all
  have "serving K interest wire file ?c ?C ?p ?x ?w3"
    using ok3 net C3 by (simp add: serving_def connection_new_def)
  moreover have "wheel_live ?C ?w3"
  proof -
    have "\<forall>(f, d)\<in>set (AList.update cf ?c (connections (app w))). 0 \<le> f"
      using keys ok(4) set_AList_update [of cf ?c "connections (app w)"] by auto
    then show ?thesis
      using wf1 view1 app1 by (simp add: wheel_live_def)
  qed
  moreover have "calls_conn (evloop ?w3) cf ?c"
    using registered_target [of "evloop w1" cf] reg1 by (simp add: calls_conn_def)
  ultimately have "ready (parser_init P) K interest wire file ?c ?C ?p ?x ?w3"
    using cbs(2) by (simp add: ready_def reading_def connection_new_def buffer_default_def buffer_new_def contents_def readableBytes_def)
  moreover have "router (http_of ?w3) = router (http_of w)" "user (http_of ?w3) = user (http_of w)" "listenFd (app ?w3) = listenFd (app w)"
    using app1 by (simp_all add: http_of_def upd_http_def)
  moreover have "conns ?w3 = (conns w)(?c \<mapsto> ?C)" "userData ?C = Some ?p" "fileFd ?C = - 1" "fileOffset ?C = 0"
      "?p = next_ctx (http_of w)" "ctxs (http_of ?w3) = (ctxs (http_of w))(?p \<mapsto> ?x)" "next_ctx (http_of ?w3) = Suc ?p"
      "next_conn (app ?w3) = Suc ?c" "connections (app ?w3) = AList.update cf ?c (connections (app w))"
      "connectionCallback (app ?w3) = Some HttpOnConnection"
      "srv_dataCallback (app ?w3) = Some HttpOnData"
    using C1 app1 cbs by (simp_all add: upd_def http_of_def upd_http_def connection_new_def fun_eq_iff)
  moreover have "wheel_60 ?w3"
    using shape(1) by (simp add: wheel_60_def)
  ultimately show ?thesis
    using run3 kern1 view1 fresh_entry shape(2) reg1
    by (intro exI [of _ ?w3] exI [of _ ?C] exI [of _ ?p] exI [of _ ?x])
      (simp add: connection_new_def buffer_default_def buffer_new_def contents_def readableBytes_def)
qed

section \<open>A kernel for the witnesses\<close>

text \<open>One waiting client; the sockets take 16 bytes per call.\<close>

definition client_kernel :: "(int \<Rightarrow> string) \<Rightarrow> (string \<Rightarrow> int option) \<Rightarrow> demo_state kernel" where
  "client_kernel fc open_file = (demo_kernel 16 fc open_file)
     \<lparr>sys_readv := (\<lambda>fd n k. let d = concat (ds_input k fd) in
        if d = [] then (Inl EAGAIN, k) else (Inr (take n d), k\<lparr>ds_input := (ds_input k)(fd := [drop n d])\<rparr>)),
      sys_accept := (\<lambda>fd k. (if 12 \<in> ds_interest k then None else Some 12, k))\<rparr>"

definition client_sends :: "int \<Rightarrow> string \<Rightarrow> demo_state \<Rightarrow> demo_state" where
  "client_sends f d k = k\<lparr>ds_input := (ds_input k)(f := ds_input k f @ [d])\<rparr>"

lemma client_kernel_ok:
  "epoll_ok (client_kernel fc open_file) ds_interest" "interest_ok (client_kernel fc open_file) ds_interest" "net_ok (client_kernel fc open_file) ds_wire fc"
  "stream_ok (client_kernel fc open_file) ds_wire (\<lambda>k f. concat (ds_input k f))"
  "arrives client_sends ds_interest ds_wire (\<lambda>k f. concat (ds_input k f))"
proof -
  let ?K = "demo_kernel 16 fc open_file"
  have same: "epoll_ok (K\<lparr>sys_readv := r, sys_accept := a\<rparr>) i = epoll_ok K i"
      "write_ok (K\<lparr>sys_readv := r, sys_accept := a\<rparr>) v = write_ok K v"
      "sendfile_ok (K\<lparr>sys_readv := r, sys_accept := a\<rparr>) v g = sendfile_ok K v g"
      "quiet_ok (K\<lparr>sys_readv := r, sys_accept := a\<rparr>) v = quiet_ok K v" for K :: "demo_state kernel" and r a i v g
    by (simp_all add: epoll_ok_def write_ok_def sendfile_ok_def quiet_ok_def del: quiet_okD)
  show "epoll_ok (client_kernel fc open_file) ds_interest" "net_ok (client_kernel fc open_file) ds_wire fc"
    by (simp_all add: client_kernel_def same net_ok_def)
  show "interest_ok (client_kernel fc open_file) ds_interest"
    using demo_kernel_ok(2) [of 16 _ open_file] by (simp add: interest_ok_def client_kernel_def Let_def)
  show "stream_ok (client_kernel fc open_file) ds_wire (\<lambda>k f. concat (ds_input k f))"
    by (auto simp: stream_ok_def client_kernel_def demo_kernel_def demo_send_def Let_def fun_eq_iff)
  show "arrives client_sends ds_interest ds_wire (\<lambda>k f. concat (ds_input k f))"
    by (auto simp: arrives_def client_sends_def fun_eq_iff)
qed

lemma client_soft: "fst (sys_write (client_kernel fc open_file) f d k) \<notin> {Inl EINTR, Inl EFAIL}"
  by (simp add: client_kernel_def demo_kernel_def demo_send_def Let_def)

end
