(* ===== verification/Startup.thy ===== *)
theory Startup
  imports HttpSession UdpServer Programs
begin

text \<open>
  \<^verbatim>\<open>src/main.cpp\<close> as a whole: the construction of the loop, the HTTP server and the UDP server
  from the configuration file, the callbacks the loop runs, and what a client of the program
  sees. The results of \<^verbatim>\<open>socket\<close>, \<^verbatim>\<open>bind\<close>, \<^verbatim>\<open>listen\<close> and \<^verbatim>\<open>timerfd_create\<close> and the contents of
  \<^verbatim>\<open>config.ini\<close> are inputs.
\<close>

section \<open>Construction\<close>

text \<open>The constructor of \<^verbatim>\<open>HttpServer\<close>: its two callbacks become those of the TCP server.\<close>

definition http_server_new :: "('p, 'k, 'h, 'q, 'y) http_world \<Rightarrow> ('p, 'k, 'h, 'q, 'y) http_world" where
  "http_server_new w = setDataCallback HttpOnData (setConnectionCallback HttpOnConnection w)"

record server_input =
  bi_timerFd :: int
  bi_httpFd :: "int option"
  bi_httpBound :: bool
  bi_httpListening :: bool

record boot_input = server_input +
  bi_udpFd :: "int option"
  bi_udpBound :: bool
  bi_config :: "string option"

text \<open>
  What the programs have in common: the TCP server and the HTTP server on a loop, the routes,
  and \<^verbatim>\<open>start()\<close>; \<open>y\<close> is the state of the service.
\<close>

definition http_boot ::
    "'k kernel \<Rightarrow> 'z server_input_scheme \<Rightarrow> nat \<Rightarrow> 'y
     \<Rightarrow> (('p, 'k, 'h, 'q, 'y) http_world \<Rightarrow> ('p, 'k, 'h, 'q, 'y) http_world) \<Rightarrow> 'p event_loop \<times> 'k
     \<Rightarrow> ('p, 'k, 'h, 'q, 'y) http_world res" where
  "http_boot K I p y install Lk =
     (let (L, k) = Lk; http = \<lparr>router = router_new, ctxs = Map.empty, next_ctx = 0, user = y\<rparr>
      in rbind (tcp_server_new (bi_httpFd I) p http) (\<lambda>T.
         http_start K (bi_httpBound I) (bi_httpListening I)
           (install (http_server_new \<lparr>evloop = L, kern = k, conns = Map.empty, app = T\<rparr>))))"

text \<open>\<^verbatim>\<open>main\<close> up to the call of \<^verbatim>\<open>loop.loop()\<close>.\<close>

definition hello_boot ::
    "'k kernel \<Rightarrow> boot_input \<Rightarrow> 'k
     \<Rightarrow> (udp_server \<times> ('p, 'k, hello_handler, 'q, unit) http_world) res" where
  "hello_boot K I k =
     rbind (event_loop_new K ET (bi_timerFd I) k) (\<lambda>Lk.
     let config = config_from_file (bi_config I);
         install = (\<lambda>w. http_addRoute ''GET'' ''/status'' Status (http_addRoute ''GET'' ''/hello'' Hello w))
     in rbind (http_boot K I (nat (httpPort config)) () install Lk) (\<lambda>w.
        rbind (udp_server_new (bi_udpFd I) (nat (udpPort config))) (\<lambda>U.
        rbind (udp_start K (bi_udpBound I) 0 (setMessageCallback EchoMessages U, evloop w, kern w))
          (\<lambda>(U1, L1, k1). Inr (U1, w\<lparr>evloop := L1, kern := k1\<rparr>)))))"

text \<open>The handlers of the program; it sets no hooks.\<close>

definition hello_param ::
    "'q \<Rightarrow> ('q \<Rightarrow> string \<Rightarrow> parse_event list \<times> nat \<times> bool \<times> 'q) \<Rightarrow> ('p, 'k, hello_handler, 'q, unit) http_param" where
  "hello_param init execute =
     \<lparr>parser_init = init, parser_execute = execute, handle = (\<lambda>h req c resp w. Inr (hello_handle h resp, w)),
      connectionHook = (\<lambda>c w. Inr w), writeCompleteHook = (\<lambda>c w. Inr w)\<rparr>"

section \<open>The callbacks of the loop\<close>

text \<open>
  The state of the program is the UDP server and the world of the HTTP server, which has the
  loop in it; the loop hands its own state to a callback and takes it back.
\<close>

type_synonym ('p, 'k, 'h, 'q, 'y) program =
  "'p event_loop \<times> udp_server \<times> ('p, 'k, 'h, 'q, 'y) http_world"

definition on_world ::
    "(('p, 'k, 'h, 'q, 'y) http_world \<Rightarrow> ('p, 'k, 'h, 'q, 'y) http_world res)
     \<Rightarrow> ('p, 'k, 'h, 'q, 'y) program \<Rightarrow> ('p, 'k, 'h, 'q, 'y) program res" where
  "on_world f s = (let (L, U, w) = s in rbind (f (w\<lparr>evloop := L\<rparr>)) (\<lambda>w1. Inr (evloop w1, U, w1)))"

definition run_loop_cb ::
    "('p, 'k, 'h, 'q, 'y) http_param \<Rightarrow> 'k kernel \<Rightarrow> ('a, 'k) udp_sys
     \<Rightarrow> ('p \<Rightarrow> ('p, 'k, 'h, 'q, 'y) program \<Rightarrow> ('p, 'k, 'h, 'q, 'y) program res) \<Rightarrow> nat
     \<Rightarrow> loop_cb \<Rightarrow> events \<Rightarrow> ('p, 'k, 'h, 'q, 'y) program \<Rightarrow> ('p, 'k, 'h, 'q, 'y) program res" where
  "run_loop_cb P K Y runp n cb ev s =
     (case cb of
        WheelTimerCb \<Rightarrow> onWheelTimer runp (on_world (wheel_tick (http_env P K n) K n)) s
      | AcceptCb \<Rightarrow> on_world (handleAccept K (\<lambda>cb. onConnection P) n) s
      | ConnReadWriteCb c \<Rightarrow> on_world (onEvents (http_env P K n) K n True c ev) s
      | ConnReadCb c \<Rightarrow> on_world (onEvents (http_env P K n) K n False c ev) s
      | UdpCb i \<Rightarrow>
          (let (L, U, w) = s in rbind (udp_handleRead Y U n (kern w)) (\<lambda>k. Inr (L, U, w\<lparr>kern := k\<rparr>)))
      | TimerCb i \<Rightarrow> Inl (Undefined ''no timer object''))"

text \<open>The whole program, over the answers of \<^verbatim>\<open>epoll_wait\<close>.\<close>

definition hello_main ::
    "'k kernel \<Rightarrow> ('a, 'k) udp_sys \<Rightarrow> (unit, 'k, hello_handler, 'q, unit) http_param \<Rightarrow> nat \<Rightarrow> boot_input
     \<Rightarrow> (errno + (int \<times> events) list) list \<Rightarrow> 'k
     \<Rightarrow> (unit, 'k, hello_handler, 'q, unit) program res" where
  "hello_main K Y P n I waits k =
     rbind (hello_boot K I k) (\<lambda>(U, w).
     loop_start (run_loop_cb P K Y (\<lambda>cb. Inr) n) (\<lambda>cb. Inr) waits (evloop w, U, w))"

section \<open>After the construction\<close>

lemma addFd_throws:
  assumes "epoll_ok K interest" and "addFd K f ev cb (L, k) = Inl e"
  shows "\<exists>why. e = Thrown why"
  using assms(2) epoll_okD(1) [OF assms(1), of f "with_mode L ev" k]
  by (auto simp: addFd_def Let_def split: prod.splits if_splits)

text \<open>The parts of a program after a successful construction of its servers.\<close>

lemma http_boot_steps:
  assumes "http_boot K I p y install (L, k) = Inr w"
    and "\<And>v. install v = upd_http (router_update g) v"
  obtains f where "bi_httpFd I = Some f" and "addFd K f EPOLLIN AcceptCb (L, k) = Inr (evloop w, kern w)"
    and "conns w = Map.empty"
    and "app w = \<lparr>listenFd = f, port = p, srv_running = True, connections = [], next_conn = 0,
        connectionCallback = Some HttpOnConnection, srv_dataCallback = Some HttpOnData,
        rest = \<lparr>router = g router_new, ctxs = Map.empty, next_ctx = 0, user = y\<rparr>\<rparr>"
  using assms(1)
  by (auto simp: http_boot_def assms(2) Let_def rbind_Inr_iff tcp_server_new_def tcp_start_def on_loop_def
      http_server_new_def setConnectionCallback_def setDataCallback_def upd_http_def upd_app_def
      split: option.splits if_splits)

lemma http_boot_throws:
  assumes "epoll_ok K interest" and "http_boot K I p y install Lk = Inl e"
  shows "\<exists>why. e = Thrown why"
  using assms(2) addFd_throws [OF assms(1)]
  by (cases Lk)
     (auto simp: http_boot_def Let_def rbind_Inl_iff tcp_server_new_def tcp_start_def on_loop_def
      split: option.splits if_splits)

lemma event_loop_new_throws:
  assumes "epoll_ok K interest" and "event_loop_new K m f k = Inl e"
  shows "\<exists>why. e = Thrown why"
  using assms(2) addFd_throws [OF assms(1)]
  by (auto simp: event_loop_new_def rbind_Inl_iff split: if_splits prod.splits)

lemma http_boot_built:
  assumes "epoll_ok K interest" and "interest k = {}" and "event_loop_new K ET (bi_timerFd I) k = Inr (L, k1)"
    and "addFd K f EPOLLIN AcceptCb (L, k1) = Inr (L2, k2)"
  shows "loop_ok K interest (L2, k2) \<and> bi_timerFd I \<noteq> f \<and> timeWheel L2 = wheel_new 60 1 \<and> triggerMode L2 = ET
    \<and> registered L2 = [bi_timerFd I \<mapsto> (EPOLLIN, WheelTimerCb), f \<mapsto> (EPOLLIN, AcceptCb)]"
proof -
  have reg0: "loop_ok K interest (L, k1)" "registered L = [bi_timerFd I \<mapsto> (EPOLLIN, WheelTimerCb)]"
    using event_loop_new_ok [OF assms(1-3)] by simp_all
  have "timeWheel L = wheel_new 60 1" "triggerMode L = ET"
    using assms(3) by (auto simp: event_loop_new_def dest: addFd_timeWheel addFd_mode)
  then show ?thesis
    using addFd_registers [OF reg0(1) assms(4)] reg0(2) addFd_timeWheel [OF assms(4)] addFd_mode [OF assms(4)]
    by (auto split: if_splits)
qed

lemma wheel_60_new: "timeWheel (evloop w) = wheel_new 60 1 \<Longrightarrow> wheel_60 w"
  by (simp add: wheel_60_def wheel_new_wf) (simp add: wheel_new_def)

lemma hello_boot_steps:
  fixes w :: "('p, 'k, hello_handler, 'q, unit) http_world"
  assumes "hello_boot K I k = Inr (U, w)"
  obtains L k1 L2 k2 f g where "event_loop_new K ET (bi_timerFd I) k = Inr (L, k1)"
    and "bi_httpFd I = Some f" and "addFd K f EPOLLIN AcceptCb (L, k1) = Inr (L2, k2)"
    and "bi_udpFd I = Some g" and "addFd K g EPOLLIN (UdpCb 0) (L2, k2) = Inr (evloop w, kern w)"
    and "U = \<lparr>us_port = nat (udpPort (config_from_file (bi_config I))), sockFd = g, us_running = True,
        messageCallback = Some EchoMessages\<rparr>"
    and "conns w = Map.empty"
    and "app w = \<lparr>listenFd = f, port = nat (httpPort (config_from_file (bi_config I))), srv_running = True,
        connections = [], next_conn = 0, connectionCallback = Some HttpOnConnection,
        srv_dataCallback = Some HttpOnData,
        rest = \<lparr>router = hello_routes, ctxs = Map.empty, next_ctx = 0, user = ()\<rparr>\<rparr>"
proof -
  let ?routes = "\<lambda>w :: ('p, 'k, hello_handler, 'q, unit) http_world.
      http_addRoute ''GET'' ''/status'' Status (http_addRoute ''GET'' ''/hello'' Hello w)"
    and ?c = "config_from_file (bi_config I)"
  have routes: "?routes v = upd_http (router_update
      (\<lambda>r. addRoute ''GET'' ''/status'' Status (addRoute ''GET'' ''/hello'' Hello r))) v" for v
    by (simp add: http_addRoute_def upd_http_def upd_app_def)
  obtain L :: "'p event_loop" and k1 where 1: "event_loop_new K ET (bi_timerFd I) k = Inr (L, k1)"
    using assms by (auto simp: hello_boot_def rbind_Inr_iff)
  with assms obtain v :: "('p, 'k, hello_handler, 'q, unit) http_world"
    where 2: "http_boot K I (nat (httpPort ?c)) () ?routes (L, k1) = Inr v"
    by (auto simp: hello_boot_def rbind_Inr_iff Let_def)
  from http_boot_steps [OF 2 routes] obtain f where
      v: "bi_httpFd I = Some f" "addFd K f EPOLLIN AcceptCb (L, k1) = Inr (evloop v, kern v)" "conns v = Map.empty"
        "app v = \<lparr>listenFd = f, port = nat (httpPort ?c), srv_running = True, connections = [], next_conn = 0,
          connectionCallback = Some HttpOnConnection, srv_dataCallback = Some HttpOnData,
          rest = \<lparr>router = hello_routes, ctxs = Map.empty, next_ctx = 0, user = ()\<rparr>\<rparr>"
    by (auto simp: hello_routes_def)
  have "\<exists>g. bi_udpFd I = Some g \<and> addFd K g EPOLLIN (UdpCb 0) (evloop v, kern v) = Inr (evloop w, kern w)
      \<and> U = \<lparr>us_port = nat (udpPort ?c), sockFd = g, us_running = True, messageCallback = Some EchoMessages\<rparr>
      \<and> conns w = conns v \<and> app w = app v"
    using assms 1 2
    by (auto simp: hello_boot_def Let_def rbind_Inr_iff udp_server_new_def udp_start_def setMessageCallback_def
        split: option.splits if_splits)
  with 1 v that show thesis
    by auto
qed

lemma hello_boot_throws:
  assumes "epoll_ok K interest" and "hello_boot K I k = Inl e"
  shows "\<exists>why. e = Thrown why"
  using assms(2) addFd_throws [OF assms(1)] http_boot_throws [OF assms(1)] event_loop_new_throws [OF assms(1)]
  by (auto simp: hello_boot_def Let_def rbind_Inl_iff udp_server_new_def udp_start_def split: option.splits if_splits)

lemma main_built:
  assumes "epoll_ok K interest" and "interest k = {}" and "hello_boot K I k = Inr (U, w)"
  shows "distinct [bi_timerFd I, listenFd (app w), sockFd U]
    \<and> registered (evloop w) = [bi_timerFd I \<mapsto> (EPOLLIN, WheelTimerCb), listenFd (app w) \<mapsto> (EPOLLIN, AcceptCb),
        sockFd U \<mapsto> (EPOLLIN, UdpCb 0)]
    \<and> loop_ok K interest (evloop w, kern w) \<and> wheel_60 w \<and> triggerMode (evloop w) = ET"
    and "port (app w) = nat (httpPort (config_from_file (bi_config I)))
    \<and> us_port U = nat (udpPort (config_from_file (bi_config I)))
    \<and> router (http_of w) = hello_routes \<and> connections (app w) = [] \<and> conns w = Map.empty \<and> next_conn (app w) = 0
    \<and> connectionCallback (app w) = Some HttpOnConnection \<and> srv_dataCallback (app w) = Some HttpOnData
    \<and> messageCallback U = Some EchoMessages"
proof -
  from hello_boot_steps [OF assms(3)] obtain L k1 L2 k2 f g where
      new: "event_loop_new K ET (bi_timerFd I) k = Inr (L, k1)" "addFd K f EPOLLIN AcceptCb (L, k1) = Inr (L2, k2)"
        "addFd K g EPOLLIN (UdpCb 0) (L2, k2) = Inr (evloop w, kern w)"
    and built: "U = \<lparr>us_port = nat (udpPort (config_from_file (bi_config I))), sockFd = g, us_running = True,
        messageCallback = Some EchoMessages\<rparr>" "conns w = Map.empty"
      "app w = \<lparr>listenFd = f, port = nat (httpPort (config_from_file (bi_config I))), srv_running = True,
        connections = [], next_conn = 0, connectionCallback = Some HttpOnConnection,
        srv_dataCallback = Some HttpOnData,
        rest = \<lparr>router = hello_routes, ctxs = Map.empty, next_ctx = 0, user = ()\<rparr>\<rparr>"
    by metis
  note http = http_boot_built [OF assms(1,2) new(1,2)]
  have reg2: "loop_ok K interest (evloop w, kern w)" "registered L2 g = None"
      "registered (evloop w) = (registered L2)(g \<mapsto> (EPOLLIN, UdpCb 0))"
    using addFd_registers [OF conjunct1 [OF http] new(3)] by blast+
  have wheel: "wheel_60 w" and mode: "triggerMode (evloop w) = ET"
    using addFd_timeWheel [OF new(3)] addFd_mode [OF new(3)] http wheel_60_new by simp_all
  have "distinct [bi_timerFd I, f, g]"
    using http reg2(2) by (auto split: if_splits)
  with http reg2 built(1,3) wheel mode
  show "distinct [bi_timerFd I, listenFd (app w), sockFd U]
    \<and> registered (evloop w) = [bi_timerFd I \<mapsto> (EPOLLIN, WheelTimerCb), listenFd (app w) \<mapsto> (EPOLLIN, AcceptCb),
        sockFd U \<mapsto> (EPOLLIN, UdpCb 0)]
    \<and> loop_ok K interest (evloop w, kern w) \<and> wheel_60 w \<and> triggerMode (evloop w) = ET"
    by simp
  show "port (app w) = nat (httpPort (config_from_file (bi_config I)))
    \<and> us_port U = nat (udpPort (config_from_file (bi_config I)))
    \<and> router (http_of w) = hello_routes \<and> connections (app w) = [] \<and> conns w = Map.empty \<and> next_conn (app w) = 0
    \<and> connectionCallback (app w) = Some HttpOnConnection \<and> srv_dataCallback (app w) = Some HttpOnData
    \<and> messageCallback U = Some EchoMessages"
    using built by (simp add: http_of_def)
qed

text \<open>
  C36: what \<^verbatim>\<open>main\<close> has built when it enters the loop. Exactly three descriptors are registered,
  all different: the timer of the wheel, the listening socket and the UDP socket, each for
  reading and with its callback, and the kernel watches just these; the ports are those of
  the configuration file; the routes are the two of the program, every connection will go to
  the HTTP server, every datagram to the echo. If anything fails, the program ends with an
  exception.
\<close>

theorem main_starts:
  fixes K :: "'k kernel"
  assumes "epoll_ok K interest" and "interest k = {}"
  shows "case hello_boot K I k :: (udp_server \<times> ('p, 'k, hello_handler, 'q, unit) http_world) res of
      Inl e \<Rightarrow> \<exists>why. e = Thrown why
    | Inr (U, w) \<Rightarrow> distinct [bi_timerFd I, listenFd (app w), sockFd U]
        \<and> registered (evloop w) = [bi_timerFd I \<mapsto> (EPOLLIN, WheelTimerCb), listenFd (app w) \<mapsto> (EPOLLIN, AcceptCb),
            sockFd U \<mapsto> (EPOLLIN, UdpCb 0)]
        \<and> interest (kern w) = dom (registered (evloop w))
        \<and> port (app w) = nat (httpPort (config_from_file (bi_config I)))
        \<and> us_port U = nat (udpPort (config_from_file (bi_config I)))
        \<and> router (http_of w) = hello_routes \<and> connections (app w) = []
        \<and> connectionCallback (app w) = Some HttpOnConnection \<and> srv_dataCallback (app w) = Some HttpOnData
        \<and> messageCallback U = Some EchoMessages"
proof (split sum.split, intro conjI allI impI)
  show "\<exists>why. e = Thrown why" if "hello_boot K I k = Inl e" for e
    using hello_boot_throws [OF assms(1) that] .
qed (split prod.split, clarify, frule main_built(1) [OF assms], frule main_built(2) [OF assms], simp add: loop_ok_def)

section \<open>A client of the program\<close>

text \<open>What the program answers, in terms of method and path alone.\<close>

definition hello_reply :: "string \<Rightarrow> string \<Rightarrow> http_response" where
  "hello_reply m path =
     (if m = ''GET'' \<and> splitPath path = [''hello''] then
        setBody ''Hello, ezNet!'' (setContentType ''text/plain'' response_new)
      else if m = ''GET'' \<and> splitPath path = [''status''] then
        setBody (''{'' @ quoted ''status'' @ '':'' @ quoted ''ok'' @ ''}'') (setContentType ''application/json'' response_new)
      else not_found_response)"

lemma hello_roots:
  "methodRoots hello_routes ''GET'' = Some (RadixNode []
     [''hello'' \<mapsto> RadixNode ''hello'' Map.empty None (Some Hello),
      ''status'' \<mapsto> RadixNode ''status'' Map.empty None (Some Status)] None None)"
  "m \<noteq> ''GET'' \<Longrightarrow> methodRoots hello_routes m = None"
  "defaultHandler hello_routes = None"
proof -
  have "splitPath ''/hello'' = [''hello'']" "splitPath ''/status'' = [''status'']"
    by code_simp+
  then show "methodRoots hello_routes ''GET'' = Some (RadixNode []
     [''hello'' \<mapsto> RadixNode ''hello'' Map.empty None (Some Hello),
      ''status'' \<mapsto> RadixNode ''status'' Map.empty None (Some Status)] None None)"
    "m \<noteq> ''GET'' \<Longrightarrow> methodRoots hello_routes m = None" "defaultHandler hello_routes = None"
    by (simp_all add: hello_routes_def addRoute_def router_new_def node_new_def)
qed

lemma match_leaf: "match_node (RadixNode s Map.empty None h) segs q = (q, if segs = [] then h else None)"
  by (cases segs) simp_all

lemma hello_route:
  "route hello_routes q =
     (if rq_method q = ''GET''
      then (q\<lparr>rq_pathParams := Map.empty\<rparr>,
        if splitPath (rq_path q) = [''hello''] then Some Hello
        else if splitPath (rq_path q) = [''status''] then Some Status else None)
      else (q, None))"
proof (cases "rq_method q = ''GET''")
  case True
  then show ?thesis
    by (cases "splitPath (rq_path q)") (auto simp: route_def hello_roots match_leaf)
qed (simp add: route_def hello_roots)

lemma hello_answers:
  assumes "rq_keepAlive q"
  shows "\<exists>req. handles (hello_param init execute) c f hello_routes q y req (hello_reply (rq_method q) (rq_path q)) y
    \<and> rq_keepAlive req"
  using assms
  by (intro exI [of _ "if rq_method q = ''GET'' then q\<lparr>rq_pathParams := Map.empty\<rparr> else q"] conjI answers_handles)
    (simp_all add: answers_def hello_route hello_param_def hello_handle_def hello_reply_def)

text \<open>
  A client connects: exactly one connection waits, with the new descriptor, and nothing has
  been sent on it in either direction.
\<close>

definition one_client ::
    "'k kernel \<Rightarrow> ('k \<Rightarrow> int set) \<Rightarrow> ('k \<Rightarrow> int \<Rightarrow> string) \<Rightarrow> ('k \<Rightarrow> int \<Rightarrow> string) \<Rightarrow> int \<Rightarrow> int \<Rightarrow> 'k \<Rightarrow> bool" where
  "one_client K interest wire inbox lf cf k \<longleftrightarrow>
     (let (r1, k1) = sys_accept K lf k; (ok, k2) = sys_epoll_add K cf (EPOLLIN OR EPOLLET) k1;
          (r2, k3) = sys_accept K lf k2
      in r1 = Some cf \<and> 0 \<le> cf \<and> interest k1 = interest k \<and> ok \<and> r2 = None \<and> interest k3 = interest k2
         \<and> wire k3 cf = [] \<and> inbox k3 cf = [])"

record client_request =
  cq_bytes :: string
  cq_method :: string
  cq_url :: string
  cq_headers :: "(string \<times> string) list"
  cq_body :: string

text \<open>
  A session: the client sends a request, the loop reports the descriptor as readable, and so
  on; \<open>arrive\<close> is the arrival of bytes in the kernel.
\<close>

fun serve_all ::
    "(loop_cb \<Rightarrow> events \<Rightarrow> ('p, 'k, 'h, 'q, 'y) program \<Rightarrow> ('p, 'k, 'h, 'q, 'y) program res)
     \<Rightarrow> (int \<Rightarrow> string \<Rightarrow> 'k \<Rightarrow> 'k) \<Rightarrow> int \<Rightarrow> client_request list
     \<Rightarrow> ('p, 'k, 'h, 'q, 'y) program \<Rightarrow> ('p, 'k, 'h, 'q, 'y) program res" where
  "serve_all run arrive cf [] s = Inr s"
| "serve_all run arrive cf (r # rs) (L, U, w) =
     rbind (dispatch run [(cf, EPOLLIN)] (L, U, w\<lparr>kern := arrive cf (cq_bytes r) (kern w)\<rparr>))
       (serve_all run arrive cf rs)"

definition request_ok :: "('q \<Rightarrow> string \<Rightarrow> parse_event list \<times> nat \<times> bool \<times> 'q) \<Rightarrow> 'q \<Rightarrow> client_request \<Rightarrow> bool" where
  "request_ok execute init r \<longleftrightarrow>
     parses_to execute init (cq_bytes r) (cq_method r) (cq_url r) (cq_headers r) (cq_body r)"

definition reply_bytes :: "client_request \<Rightarrow> string" where
  "reply_bytes r = build (setKeepAlive True (hello_reply (cq_method r) (rq_path (setUrl (cq_url r) request_new))))"

lemma dispatch_read:
  assumes "calls_conn (evloop w) f c"
    and "\<And>wr. onEvents (http_env P K n) K n wr c EPOLLIN w = Inr w'"
  shows "dispatch (run_loop_cb P K Y runp n) [(f, EPOLLIN)] (evloop w, U, w) = Inr (evloop w', U, w')"
  using assms by (auto simp: calls_conn_def run_loop_cb_def on_world_def Let_def)

lemma hello_reply_no_file: "\<not> rs_isFile (hello_reply m path)"
  by (simp add: hello_reply_def not_found_response_def response_new_def setBody_def setContentType_def setStatusCode_def
      setStatusMessage_def setContentLength_def addHeader_def)

text \<open>One request of a client, from its bytes to the response.\<close>

lemma hello_event:
  assumes P: "P = hello_param init execute" and rd: "ready init K interest wire file c C p x w" and rt: "router (http_of w) = hello_routes"
    and st: "stream_ok K wire inbox" and soft: "\<And>f d k. fst (sys_write K f d k) \<notin> {Inl EINTR, Inl EFAIL}"
    and arr: "arrives arrive interest wire inbox"
    and empty: "inbox (kern w) (fd C) = []" and rq: "request_ok execute init r" "length (cq_bytes r) \<le> n"
  obtains w1 C1 x1 where
    "\<And>wr. onEvents (http_env P K (Suc (Suc n))) K (Suc (Suc n)) wr c EPOLLIN (w\<lparr>kern := arrive (fd C) (cq_bytes r) (kern w)\<rparr>) = Inr w1"
    and "dispatch (run_loop_cb P K Y runp (Suc (Suc n))) [(fd C, EPOLLIN)] (evloop w, U, w\<lparr>kern := arrive (fd C) (cq_bytes r) (kern w)\<rparr>)
      = Inr (evloop w1, U, w1)"
    and "ready init K interest wire file c C1 p x1 w1" "fd C1 = fd C" "inbox (kern w1) (fd C) = []"
    and "router (http_of w1) = hello_routes" "promised wire file c w1 = promised wire file c w @ reply_bytes r"
proof -
  let ?k = "arrive (fd C) (cq_bytes r) (kern w)"
  let ?w = "w\<lparr>kern := ?k\<rparr>" and ?r = "built_request (cq_method r) (cq_url r) (cq_headers r) (cq_body r)"
  have k: "interest ?k = interest (kern w)" "wire ?k = wire (kern w)" "inbox ?k (fd C) = cq_bytes r"
    using arr empty by (simp_all add: arrives_def)
  have rd1: "ready (parser_init P) K interest wire file c C p x ?w"
    using ready_kern [OF rd k(1)] by (simp add: P hello_param_def)
  have called: "calls_conn (evloop ?w) (fd C) c" and init: "pc_parser x = init"
    using rd by (simp_all add: ready_def reading_def serving_def)
  have bytes: "inbox (kern ?w) (fd C) \<noteq> []" "length (inbox (kern ?w) (fd C)) \<le> Suc n"
    using rq k(3) by (simp_all add: request_ok_def parses_to_def)
  have "parses_to execute (pc_parser x) (cq_bytes r) (cq_method r) (cq_url r) (cq_headers r) (cq_body r)"
    using rq(1) init by (simp add: request_ok_def)
  from parses_delivers [OF this] have del: "delivers (parser_execute P) x (inbox (kern ?w) (fd C)) ?r"
    using k(3) by (simp add: P hello_param_def)
  obtain req where a: "handles P c (fd C) (router (http_of ?w)) ?r (user (http_of ?w)) req
        (hello_reply (cq_method r) (rq_path (setUrl (cq_url r) request_new))) (user (http_of ?w))" and ka: "rq_keepAlive req"
    using hello_answers [of ?r init execute c "fd C" "user (http_of ?w)"] rt unfolding P by auto
  obtain w1 C1 x1 where 1: "onEvents (http_env P K (Suc (Suc n))) K (Suc (Suc n)) True c EPOLLIN ?w = Inr w1"
      "ready init K interest wire file c C1 p x1 w1" "fd C1 = fd C" "inbox (kern w1) (fd C) = []"
      "router (http_of w1) = hello_routes" "promised wire file c w1 = promised wire file c ?w @ reply_bytes r"
    using read_event_answers [OF rd1 st soft bytes del a hello_reply_no_file ka, of "Suc (Suc n)" True] rt
    by (auto simp: reply_bytes_def P hello_param_def)
  have both: "onEvents (http_env P K (Suc (Suc n))) K (Suc (Suc n)) wr c EPOLLIN ?w = Inr w1" for wr
    using 1(1) by (simp add: onEvents_def)
  have step: "dispatch (run_loop_cb P K Y runp (Suc (Suc n))) [(fd C, EPOLLIN)] (evloop w, U, ?w) = Inr (evloop w1, U, w1)"
    using dispatch_read [OF called both] by simp
  have "promised wire file c ?w = promised wire file c w"
    by (rule wire_same_promised) (simp add: k(2))
  then show thesis
    using that [OF both step 1(2-5)] 1(6) by simp
qed

lemma serve_all_answers:
  assumes P: "P = hello_param init execute" and "ready init K interest wire file c C p x w" and "router (http_of w) = hello_routes"
    and st: "stream_ok K wire inbox" and soft: "\<And>f d k. fst (sys_write K f d k) \<notin> {Inl EINTR, Inl EFAIL}"
    and arr: "arrives arrive interest wire inbox"
    and "inbox (kern w) (fd C) = []" and "\<forall>r\<in>set rs. request_ok execute init r \<and> length (cq_bytes r) \<le> n"
  shows "\<exists>w' C' p' x'. serve_all (run_loop_cb P K Y runp (Suc (Suc n))) arrive (fd C) rs (evloop w, U, w)
      = Inr (evloop w', U, w')
    \<and> ready init K interest wire file c C' p' x' w' \<and> fd C' = fd C
    \<and> promised wire file c w' = promised wire file c w @ concat (map reply_bytes rs)"
  using assms(2,3,7,8)
proof (induction rs arbitrary: w C p x)
  case Nil
  then show ?case
    by auto
next
  case (Cons r rs)
  have rq: "request_ok execute init r" "length (cq_bytes r) \<le> n"
    using Cons.prems(4) by simp_all
  obtain w1 C1 x1 where 1: "dispatch (run_loop_cb P K Y runp (Suc (Suc n))) [(fd C, EPOLLIN)]
        (evloop w, U, w\<lparr>kern := arrive (fd C) (cq_bytes r) (kern w)\<rparr>) = Inr (evloop w1, U, w1)"
      "ready init K interest wire file c C1 p x1 w1" "fd C1 = fd C" "inbox (kern w1) (fd C) = []"
      "router (http_of w1) = hello_routes" "promised wire file c w1 = promised wire file c w @ reply_bytes r"
    using hello_event [OF P Cons.prems(1,2) st soft arr Cons.prems(3) rq] by metis
  obtain w' C' p' x' where "serve_all (run_loop_cb P K Y runp (Suc (Suc n))) arrive (fd C) rs (evloop w1, U, w1)
      = Inr (evloop w', U, w')" "ready init K interest wire file c C' p' x' w'" "fd C' = fd C"
      "promised wire file c w' = promised wire file c w1 @ concat (map reply_bytes rs)"
    using Cons.IH [OF 1(2,5)] 1(3,4) Cons.prems(4) by auto
  then show ?case
    using 1(1,6) by (intro exI [of _ w'] exI [of _ C'] exI [of _ p'] exI [of _ x']) simp
qed

lemma handleAccept_one:
  assumes one: "one_client K interest wire inbox (listenFd (app w)) cf (kern w)" and ET: "triggerMode (evloop w) = ET"
    and ok: "loop_ok K interest (evloop w, kern w)" "interest_ok K interest" "wheel_60 w"
    and net: "net_ok K wire file" and hook: "\<And>c w. connectionHook P c w = Inr w"
    and cbs: "connectionCallback (app w) = Some HttpOnConnection" "srv_dataCallback (app w) = Some HttpOnData"
    and keys: "\<forall>(f, d)\<in>set (connections (app w)). 0 \<le> f"
  shows "\<exists>w' C p x. handleAccept K (\<lambda>cb. onConnection P) (Suc (Suc n)) w = Inr w'
    \<and> ready (parser_init P) K interest wire file (next_conn (app w)) C p x w' \<and> fd C = cf
    \<and> router (http_of w') = router (http_of w) \<and> user (http_of w') = user (http_of w) \<and> inbox (kern w') cf = []
    \<and> promised wire file (next_conn (app w)) w' = []"
proof -
  obtain k1 k2 k3 where k: "sys_accept K (listenFd (app w)) (kern w) = (Some cf, k1)" "0 \<le> cf"
      "interest k1 = interest (kern w)" "sys_epoll_add K cf (EPOLLIN OR EPOLLET) k1 = (True, k2)"
      "sys_accept K (listenFd (app w)) k2 = (None, k3)" "interest k3 = interest k2" "wire k3 cf = []" "inbox k3 cf = []"
    using one by (auto simp: one_client_def Let_def split: prod.splits)
  let ?w1 = "w\<lparr>kern := k1\<rparr>"
  have ok1: "loop_ok K interest (evloop ?w1, kern ?w1)" "wheel_60 ?w1"
      "fst (sys_epoll_add K cf (with_mode (evloop ?w1) EPOLLIN) (kern ?w1))"
    using loop_ok_kern [OF ok(1) k(3)] ok(3) k(4) ET by (simp_all add: wheel_60_def with_mode_def)
  obtain w2 C p x where 2: "accept_one K (\<lambda>cb. onConnection P) cf ?w1 = Inr w2"
      "ready (parser_init P) K interest wire file (next_conn (app w)) C p x w2" "fd C = cf" "kern w2 = k2"
      "router (http_of w2) = router (http_of w)" "user (http_of w2) = user (http_of w)" "listenFd (app w2) = listenFd (app w)" "contents (outputBuffer C) = []"
    using accept_one_ready [OF ok1(1) ok(2) ok1(2) k(2) ok1(3) net hook] cbs keys k(4) ET
    by (auto simp: with_mode_def)
  let ?w3 = "w2\<lparr>kern := k3\<rparr>"
  have "handleAccept K (\<lambda>cb. onConnection P) (Suc (Suc n)) w = Inr ?w3"
    using k(1,5) 2(1,4,7) by (simp add: Let_def)
  moreover have "ready (parser_init P) K interest wire file (next_conn (app w)) C p x ?w3"
    using ready_kern [OF 2(2)] k(6) 2(4) by simp
  moreover have "promised wire file (next_conn (app w)) ?w3 = []"
    using 2(2,3,8) k(7) by (simp add: ready_def reading_def serving_def promised_def file_rest_def)
  ultimately show ?thesis
    using 2(3,5,6) k(8) by (intro exI [of _ ?w3] exI [of _ C] exI [of _ p] exI [of _ x]) simp
qed

text \<open>
  What a client of the program sees, from the start of \<^verbatim>\<open>main\<close> to the bytes on the wire.
  After the construction one client connects and sends, one after the other, any number of
  requests that are to be kept alive, with any headers and bodies, each of any length and read in
  as many pieces as that takes; whatever part of a response the kernel takes at once, the bytes written and buffered for the client are exactly the
  responses of the program in order: the greeting, the status, or 404. No step of the loop
  throws, and the connection waits for the next request.
\<close>

theorem main_serves_client:
  fixes K :: "'k kernel" and w :: "('p, 'k, hello_handler, 'q, unit) http_world"
  assumes "epoll_ok K interest" and "interest_ok K interest" and "net_ok K wire file"
    and "stream_ok K wire inbox" and "arrives arrive interest wire inbox"
    and "\<And>f d k. fst (sys_write K f d k) \<notin> {Inl EINTR, Inl EFAIL}"
    and "interest k0 = {}" and "hello_boot K I k0 = Inr (U, w)"
    and "interest k = interest (kern w)" and "one_client K interest wire inbox (listenFd (app w)) cf k"
    and "\<forall>r\<in>set rs. request_ok execute init r \<and> length (cq_bytes r) \<le> n"
  shows "let run = run_loop_cb (hello_param init execute) K Y runp (Suc (Suc n)) in
    \<exists>w1 w2 C. dispatch run [(listenFd (app w), EPOLLIN)] (evloop w, U, w\<lparr>kern := k\<rparr>) = Inr (evloop w1, U, w1)
      \<and> serve_all run arrive cf rs (evloop w1, U, w1) = Inr (evloop w2, U, w2)
      \<and> conns w2 0 = Some C \<and> fd C = cf \<and> state C = ReadingRequest \<and> contents (inputBuffer C) = []
      \<and> promised wire file 0 w2 = concat (map reply_bytes rs)"
proof -
  let ?w = "w\<lparr>kern := k\<rparr>"
  note built = main_built [OF assms(1,7,8)]
  have pre: "one_client K interest wire inbox (listenFd (app ?w)) cf (kern ?w)" "triggerMode (evloop ?w) = ET"
      "loop_ok K interest (evloop ?w, kern ?w)" "wheel_60 ?w" "connectionCallback (app ?w) = Some HttpOnConnection"
      "srv_dataCallback (app ?w) = Some HttpOnData" "\<forall>(f, d)\<in>set (connections (app ?w)). 0 \<le> f"
    using built assms(9,10) by (simp_all add: wheel_60_def loop_ok_def)
  obtain P :: "('p, 'k, hello_handler, 'q, unit) http_param" where P: "P = hello_param init execute"
    by blast
  have hook: "connectionHook P c v = Inr v" for c v
    by (simp add: P hello_param_def)
  obtain w1 C p x where 1: "handleAccept K (\<lambda>cb. onConnection P) (Suc (Suc n)) ?w = Inr w1"
      "ready init K interest wire file 0 C p x w1" "fd C = cf" "router (http_of w1) = hello_routes"
      "inbox (kern w1) cf = []" "promised wire file 0 w1 = []"
    using handleAccept_one [OF pre(1-3) assms(2) pre(4) assms(3) hook pre(5-7), of n] built
    by (auto simp: P hello_param_def)
  have target: "dispatch_target (evloop w) (listenFd (app w)) = Some AcceptCb"
    using built(1) by (intro registered_target [of _ _ EPOLLIN]) auto
  have accepted: "dispatch (run_loop_cb P K Y runp (Suc (Suc n))) [(listenFd (app w), EPOLLIN)] (evloop w, U, ?w)
      = Inr (evloop w1, U, w1)"
    using 1(1) target by (simp add: run_loop_cb_def on_world_def Let_def del: handleAccept.simps)
  obtain w2 C2 p2 x2 where "serve_all (run_loop_cb P K Y runp (Suc (Suc n))) arrive cf rs (evloop w1, U, w1)
      = Inr (evloop w2, U, w2)" "ready init K interest wire file 0 C2 p2 x2 w2" "fd C2 = cf"
      "promised wire file 0 w2 = concat (map reply_bytes rs)"
    using serve_all_answers [OF P 1(2,4) assms(4,6,5) _ assms(11), of Y runp U] 1(3,5,6) by auto
  with accepted show ?thesis
    unfolding P by (auto simp: ready_def reading_def serving_def Let_def simp del: serve_all.simps dispatch.simps)
qed

section \<open>Witnesses\<close>

text \<open>
  A parser for which the bytes of a request are its URL.
\<close>

definition demo_request :: "string \<Rightarrow> client_request" where
  "demo_request u = \<lparr>cq_bytes = u, cq_method = ''GET'', cq_url = u, cq_headers = [], cq_body = []\<rparr>"

definition demo_execute :: "unit \<Rightarrow> string \<Rightarrow> parse_event list \<times> nat \<times> bool \<times> unit" where
  "demo_execute q d = (request_events ''GET'' d [] [], length d, True, ())"

abbreviation clientK :: "demo_state kernel" where
  "clientK \<equiv> client_kernel demo_file (\<lambda>p. None)"

lemma demo_request_ok:
  assumes "u \<noteq> []" and "length u \<le> 65536"
  shows "request_ok demo_execute () (demo_request u)"
proof -
  have "ds = [u]" if "pieces_of u ds" for ds
    using pieces_of_short [OF that] assms(2) by (simp add: extrabuf_size_def)
  moreover have "concat [request_events ''GET'' u [] []] = request_events ''GET'' u [] []" "concat [] = []"
    by simp_all
  ultimately show ?thesis
    using assms by (fastforce simp: request_ok_def parses_to_def demo_execute_def demo_request_def)
qed

definition demo_boot :: boot_input where
  "demo_boot = \<lparr>bi_timerFd = 3, bi_httpFd = Some 4, bi_httpBound = True, bi_httpListening = True,
     bi_udpFd = Some 5, bi_udpBound = True, bi_config = None\<rparr>"

lemma client_add: "0 \<le> f \<Longrightarrow> f \<notin> ds_interest k \<Longrightarrow>
   sys_epoll_add clientK f ev k = (True, k\<lparr>ds_interest := insert f (ds_interest k)\<rparr>)"
  by (simp add: client_kernel_def demo_kernel_def)

lemma addFd_adds:
  assumes "sys_epoll_add K f (with_mode L ev) k = (True, k')" and "0 \<le> f"
  shows "\<exists>L'. addFd K f ev cb (L, k) = Inr (L', k')"
  using assms by (simp add: addFd_def Let_def)

lemma demo_boot_works:
  "\<exists>U w. hello_boot clientK demo_boot demo_state_new = Inr (U, w)
     \<and> listenFd (app w) = 4 \<and> kern w = demo_state_new\<lparr>ds_interest := {3, 4, 5}\<rparr>"
proof -
  have add: "\<exists>L'. addFd clientK f ev cb (L, k) = Inr (L', k\<lparr>ds_interest := insert f (ds_interest k)\<rparr>)"
    if "0 \<le> f" "f \<notin> ds_interest k" for f ev cb and L :: "'x event_loop" and k
    by (rule addFd_adds [OF client_add [OF that] that(1)])
  let ?k1 = "demo_state_new\<lparr>ds_interest := {3}\<rparr>" and ?k2 = "demo_state_new\<lparr>ds_interest := {4, 3}\<rparr>"
    and ?k3 = "demo_state_new\<lparr>ds_interest := {5, 4, 3}\<rparr>"
  obtain L1 :: "'a event_loop" where 1: "event_loop_new clientK ET 3 demo_state_new = Inr (L1, ?k1)"
    using add [of 3 demo_state_new EPOLLIN WheelTimerCb] by (fastforce simp: event_loop_new_def demo_state_new_def)
  obtain L2 where 2: "addFd clientK 4 EPOLLIN AcceptCb (L1, ?k1) = Inr (L2, ?k2)"
    using add [of 4 ?k1 EPOLLIN AcceptCb L1] by (auto simp: demo_state_new_def)
  obtain L3 where 3: "addFd clientK 5 EPOLLIN (UdpCb 0) (L2, ?k2) = Inr (L3, ?k3)"
    using add [of 5 ?k2 EPOLLIN "UdpCb 0" L2] by (auto simp: demo_state_new_def)
  have "{5, 4, 3} = {3, 4, 5::int}"
    by auto
  then show ?thesis
    using 1 2 3
    by (simp add: hello_boot_def http_boot_def demo_boot_def Let_def tcp_server_new_def tcp_start_def on_loop_def http_server_new_def
        setConnectionCallback_def setDataCallback_def http_addRoute_def upd_http_def upd_app_def udp_server_new_def
        udp_start_def setMessageCallback_def)
qed

definition silent_udp :: "(unit, demo_state) udp_sys" where
  "silent_udp = \<lparr>sys_recvfrom = (\<lambda>f n k. (Inl EAGAIN, k)), sys_sendto = (\<lambda>f d a k. k)\<rparr>"

definition demo_run ::
    "loop_cb \<Rightarrow> events \<Rightarrow> (unit, demo_state, hello_handler, unit, unit) program
     \<Rightarrow> (unit, demo_state, hello_handler, unit, unit) program res" where
  "demo_run = run_loop_cb (hello_param () demo_execute) clientK silent_udp (\<lambda>cb. Inr) 8"

lemma demo_run_fuel:
  "run_loop_cb (hello_param () demo_execute) clientK silent_udp (\<lambda>cb. Inr) (Suc (Suc 6)) = demo_run"
  by (simp add: demo_run_def)

lemma demo_replies:
  "reply_bytes (demo_request ''/hello'') = ''HTTP/1.1 200 OK'' @ crlf @ ''Server: ezNet'' @ crlf
     @ ''Content-Type: text/plain'' @ crlf @ ''Content-Length: 13'' @ crlf @ crlf @ ''Hello, ezNet!''"
  "reply_bytes (demo_request ''/no?x'') = ''HTTP/1.1 404 Not Found'' @ crlf @ ''Server: ezNet'' @ crlf
     @ ''Content-Length: 13'' @ crlf @ crlf @ ''404 Not Found''"
  by code_simp+

theorem main_starts_witness:
  "\<exists>U w. hello_boot clientK demo_boot demo_state_new
       = Inr (U, w :: (unit, demo_state, hello_handler, unit, unit) http_world)
     \<and> dom (registered (evloop w)) = {3, 4, 5} \<and> port (app w) = 8080"
proof -
  obtain U and w :: "(unit, demo_state, hello_handler, unit, unit) http_world"
    where b: "hello_boot clientK demo_boot demo_state_new = Inr (U, w)"
      and k: "kern w = demo_state_new\<lparr>ds_interest := {3, 4, 5}\<rparr>"
    using demo_boot_works by blast
  have "ds_interest demo_state_new = {}"
    by (simp add: demo_state_new_def)
  from main_starts [OF client_kernel_ok(1) [of demo_file "\<lambda>p. None"] this, of demo_boot, where ?'p = unit and ?'q = unit] have
    "ds_interest (kern w) = dom (registered (evloop w))" "port (app w) = nat (httpPort (config_from_file None))"
    unfolding b by (simp_all add: demo_boot_def split del: if_split)
  moreover have "httpPort (config_from_file None) = 8080"
    by (simp add: config_from_file_def config_load_def applyDefaults_def)
  ultimately show ?thesis
    using b k by simp
qed

theorem main_serves_client_witness:
  "\<exists>U w w1 w2. hello_boot clientK demo_boot demo_state_new = Inr (U, w)
     \<and> dispatch demo_run [(4, EPOLLIN)] (evloop w, U, w) = Inr (evloop w1, U, w1)
     \<and> serve_all demo_run client_sends 12 [demo_request ''/hello'', demo_request ''/no?x''] (evloop w1, U, w1)
       = Inr (evloop w2, U, w2)
     \<and> promised ds_wire demo_file 0 w2 =
         ''HTTP/1.1 200 OK'' @ crlf @ ''Server: ezNet'' @ crlf @ ''Content-Type: text/plain'' @ crlf
         @ ''Content-Length: 13'' @ crlf @ crlf @ ''Hello, ezNet!''
         @ ''HTTP/1.1 404 Not Found'' @ crlf @ ''Server: ezNet'' @ crlf @ ''Content-Length: 13'' @ crlf @ crlf
         @ ''404 Not Found''"
proof -
  obtain U and w :: "(unit, demo_state, hello_handler, unit, unit) http_world"
    where b: "hello_boot clientK demo_boot demo_state_new = Inr (U, w)" and lf: "listenFd (app w) = 4"
      and k: "kern w = demo_state_new\<lparr>ds_interest := {3, 4, 5}\<rparr>"
    using demo_boot_works by blast
  have empty: "ds_interest demo_state_new = {}"
    by (simp add: demo_state_new_def)
  have one: "one_client clientK ds_interest ds_wire (\<lambda>k f. concat (ds_input k f)) (listenFd (app w)) 12 (kern w)"
    unfolding k one_client_def Let_def by (simp add: client_kernel_def demo_kernel_def demo_state_new_def)
  have "\<forall>r\<in>set [demo_request ''/hello'', demo_request ''/no?x'']. request_ok demo_execute () r \<and> length (cq_bytes r) \<le> 6"
    using demo_request_ok [of "''/hello''"] demo_request_ok [of "''/no?x''"] by (simp add: demo_request_def)
  from main_serves_client [OF client_kernel_ok client_soft empty b refl one this, where Y = silent_udp and runp = "\<lambda>cb. Inr"]
  obtain w1 w2 where
    "dispatch demo_run [(4, EPOLLIN)] (evloop w, U, w) = Inr (evloop w1, U, w1)"
    "serve_all demo_run client_sends 12 [demo_request ''/hello'', demo_request ''/no?x''] (evloop w1, U, w1)
      = Inr (evloop w2, U, w2)"
    "promised ds_wire demo_file 0 w2 = concat (map reply_bytes [demo_request ''/hello'', demo_request ''/no?x''])"
    unfolding Let_def lf demo_run_fuel by (auto simp del: dispatch.simps serve_all.simps)
  then show ?thesis
    using b by (intro exI [of _ U] exI [of _ w] exI [of _ w1] exI [of _ w2]) (simp add: demo_replies)
qed

end
