(* ===== verification/EzdropSession.thy ===== *)
theory EzdropSession
  imports HttpSession EzdropStorage Services
begin

text \<open>
  A client of ezdrop: it uploads a file and downloads it again with the code it was given, on
  one connection, from the bytes that arrive to the bytes that go out.
\<close>

section \<open>The two requests\<close>

lemma setUrl_plain: "CHR ''?'' \<notin> set u \<Longrightarrow> rq_path (setUrl u r) = u"
  using find_char_None [of "CHR ''?''" u 0] by (simp add: setUrl_def)

lemma route_upload:
  assumes "rq_method q = ''POST''" and "rq_path q = ''/upload''"
  shows "route ezdrop_routes q = (q\<lparr>rq_pathParams := Map.empty\<rparr>, Some Upload)"
proof -
  have "splitPath ''/upload'' = [''upload'']"
    by code_simp
  then show ?thesis
    using assms by (simp add: route_def ezdrop_roots)
qed

lemma handleUpload_params: "handleUpload n FS I (q\<lparr>rq_pathParams := m\<rparr>) r w = handleUpload n FS I q r w"
  by (simp add: handleUpload_def req_header_def)

lemma service_handles:
  assumes "route R q = (q', Some h)"
    and "ezdrop_handle n FS I now h q' response_new (Some g) y = Inr (resp, y')"
  shows "handles (ezdrop_param n FS I now init execute) c g R q y q' resp y'"
  using assms by (auto simp: handles_def ezdrop_param_def conn_Some service_of_def set_service_def)

lemma upload_handles:
  assumes "handleUpload n FS I q response_new y = Inr (resp, y')" and "rq_method q = ''POST''" and "rq_path q = ''/upload''"
  shows "handles (ezdrop_param n FS I now init execute) c g ezdrop_routes q y (q\<lparr>rq_pathParams := Map.empty\<rparr>) resp y'"
  using assms(1) by (intro service_handles [OF route_upload [OF assms(2,3)]]) (simp add: ezdrop_handle_def handleUpload_params)

lemma download_handles:
  assumes "six_digits cd" and "rq_method q = ''GET''" and "rq_path q = ''/d/'' @ cd"
    and "map_of (codes S) cd = Some m" and "now \<le> fm_expireAt m" and "fs_stat FS f (fm_storagePath m) = Some sz"
    and "maxConcurrentDownloads S \<le> 0 \<or> activeDownloads S < maxConcurrentDownloads S"
  shows "\<exists>resp y'. handles (ezdrop_param n FS I now init execute) c g ezdrop_routes q (S, f)
      (setPathParam ''code'' cd (q\<lparr>rq_pathParams := Map.empty\<rparr>)) resp y' \<and> file_answer m sz resp"
proof -
  let ?q = "setPathParam ''code'' cd (q\<lparr>rq_pathParams := Map.empty\<rparr>)"
  have "pathParam ''code'' ?q = cd"
    by (simp add: pathParam_def setPathParam_def)
  then have "downloadable FS now ?q (S, f) m sz"
    using assms(1,4-7) by (simp add: downloadable_def six_digits_def)
  from handleDownload_starts [OF this, of n "Some g"] obtain resp y' where
      "handleDownload n FS now ?q response_new (Some g) (S, f) = Inr (resp, y')" "file_answer m sz resp"
    by blast
  then show ?thesis
    using service_handles [OF route_download [OF assms(1-3)]] by (fastforce simp: ezdrop_handle_def)
qed

text \<open>What a successful upload leaves behind.\<close>

lemma upload_outcome:
  assumes "store_ok FS (ez_storageDir S) content"
    and "handleUpload n FS I req response_new (S, f) = Inr (resp, S', f')" and "rs_statusCode resp = 200"
    and "\<forall>d\<in>set (ui_draws I). d < 1000000" and "\<forall>i\<in>set (ui_suffix I). i < 36"
    and "scan_parts (parseMultipart (rq_body req) (extractBoundary (req_header ''content-type'' req))) = u"
    and "upload_mode u = ''files''" and "uf_files u = [part]"
  shows "\<exists>cd m e. six_digits cd \<and> map_of (codes S') cd = Some m \<and> ui_now I + 60000 \<le> fm_expireAt m
    \<and> fm_storagePath m = path_under (ez_storageDir S) (cd @ ''/payload'')
    \<and> content f' (cd @ ''/payload'') = Some (mp_data part) \<and> fm_fileSize m = length (mp_data part)
    \<and> resp = setBody (snprintf 384 (upload_text cd (fm_originalName m) (fm_fileSize m) e))
        (setContentType ''application/json'' response_new)
    \<and> maxConcurrentDownloads S' = maxConcurrentDownloads S \<and> activeDownloads S' = activeDownloads S"
proof -
  obtain cd m e where 1: "S' = with_upload cd m S" "stored_meta I S cd m"
      "resp = setBody (snprintf 384 (upload_text cd (fm_originalName m) (fm_fileSize m) e))
        (setContentType ''application/json'' response_new)"
    using handleUpload_cases [OF assms(2,4)] assms(3) by blast
  have look: "map_of (codes S') cd' = (if cd' = cd then Some m else map_of (codes S) cd')" for cd'
    by (simp add: 1(1) with_upload_def AList_update_lookup)
  obtain cd' m' where 2: "map_of (codes S) cd' = None" "map_of (codes S') cd' = Some m'"
      "fm_storagePath m' = path_under (ez_storageDir S) (cd' @ ''/payload'')"
      "content f' (cd' @ ''/payload'') = Some (mp_data part)" "fm_fileSize m' = length (mp_data part)"
    using upload_stores [OF assms] by blast
  then have "cd' = cd" "m' = m"
    using look [of cd'] by (simp_all split: if_splits)
  with 1 2 show ?thesis
    by (intro exI [of _ cd] exI [of _ m] exI [of _ e]) (simp add: stored_meta_def with_upload_def)
qed

section \<open>Up and down again\<close>

text \<open>The two events, each from a connection that waits for a request.\<close>

lemma upload_event:
  fixes w :: "('p, 'k, ez_handler, 'q, ezdrop \<times> 'f) http_world"
  assumes rd: "ready init K interest wire file c C p x w" and svc: "router (http_of w) = ezdrop_routes" "user (http_of w) = y"
    and st: "stream_ok K wire inbox" and soft: "\<And>g d k. fst (sys_write K g d k) \<notin> {Inl EINTR, Inl EFAIL}"
    and d: "parses_to execute init (inbox (kern w) (fd C)) ''POST'' ''/upload'' hs body" "length (inbox (kern w) (fd C)) \<le> l"
    and up: "handleUpload n FS I (built_request ''POST'' ''/upload'' hs body) response_new y = Inr (resp, y')"
    and nf: "\<not> rs_isFile resp"
  shows "\<exists>w1 C1 x1. onEvents (http_env (ezdrop_param n FS I now init execute) K l) K (Suc l) wr c EPOLLIN w = Inr w1
    \<and> ready init K interest wire file c C1 p x1 w1 \<and> fd C1 = fd C \<and> inbox (kern w1) (fd C) = []
    \<and> router (http_of w1) = ezdrop_routes \<and> user (http_of w1) = y' \<and> interest (kern w1) = interest (kern w)
    \<and> promised wire file c w1 = promised wire file c w @ build (setKeepAlive True resp)"
proof -
  let ?q = "built_request ''POST'' ''/upload'' hs body"
  obtain P :: "('p, 'k, ez_handler, 'q, ezdrop \<times> 'f) http_param" where P: "P = ezdrop_param n FS I now init execute"
    by blast
  have PI: "parser_init P = init" "parser_execute P = execute"
    by (simp_all add: P ezdrop_param_def)
  have path: "rq_path (setUrl ''/upload'' request_new) = ''/upload''"
    by (simp add: setUrl_plain)
  have init: "pc_parser x = init" and rd': "ready (parser_init P) K interest wire file c C p x w"
    using rd by (simp_all add: ready_def PI)
  have d': "inbox (kern w) (fd C) \<noteq> []" "delivers (parser_execute P) x (inbox (kern w) (fd C)) ?q"
    using d(1) parses_delivers [of execute x] init by (simp_all add: parses_to_def PI)
  have a: "handles P c (fd C) (router (http_of w)) ?q (user (http_of w)) (?q\<lparr>rq_pathParams := Map.empty\<rparr>) resp y'"
    using upload_handles [OF up, where now = now and init = init and execute = execute and c = c and g = "fd C"] path svc
    by (simp add: P)
  have ka: "rq_keepAlive (?q\<lparr>rq_pathParams := Map.empty\<rparr>)"
    by simp
  show ?thesis
    using read_event_answers [OF rd' st soft d'(1) d(2) d'(2) a nf ka, of l wr] unfolding PI(1) svc(1) unfolding P by blast
qed

lemma download_event:
  fixes w :: "('p, 'k, ez_handler, 'q, ezdrop \<times> 'f) http_world"
  assumes rd: "ready init K interest wire file c C p x w" and svc: "router (http_of w) = ezdrop_routes" "user (http_of w) = (S, f)"
    and st: "stream_ok K wire inbox" and soft: "\<And>g d k. fst (sys_write K g d k) \<notin> {Inl EINTR, Inl EFAIL}"
    and seek: "\<And>g off k. fst (sys_lseek K g off k)"
    and d: "parses_to execute init (inbox (kern w) (fd C)) ''GET'' (''/d/'' @ cd) hs body" "length (inbox (kern w) (fd C)) \<le> l"
    and whole: "\<not> rq_hasRange (built_request ''GET'' (''/d/'' @ cd) hs body)"
    and cd: "six_digits cd" "map_of (codes S) cd = Some m" "now \<le> fm_expireAt m"
    and slot: "maxConcurrentDownloads S \<le> 0 \<or> activeDownloads S < maxConcurrentDownloads S"
    and disk: "fs_stat FS f (fm_storagePath m) = Some (length (file ffd))" "length (file ffd) < 2 ^ 64"
    and op: "\<And>k. interest k = interest (kern w) \<Longrightarrow> fst (sys_open K (fm_storagePath m) k) = Some ffd" "0 \<le> ffd"
      "ffd \<notin> interest (kern w)"
  shows "\<exists>w' resp. onEvents (http_env (ezdrop_param n FS I now init execute) K l) K (Suc l) wr c EPOLLIN w = Inr w'
    \<and> rs_statusCode resp = 200 \<and> promised wire file c w' = promised wire file c w @ build resp @ file ffd"
proof -
  let ?q = "built_request ''GET'' (''/d/'' @ cd) hs body"
  let ?r = "setPathParam ''code'' cd (?q\<lparr>rq_pathParams := Map.empty\<rparr>)"
  obtain P :: "('p, 'k, ez_handler, 'q, ezdrop \<times> 'f) http_param" where P: "P = ezdrop_param n FS I now init execute"
    by blast
  have PI: "parser_init P = init" "parser_execute P = execute"
    by (simp_all add: P ezdrop_param_def)
  have init: "pc_parser x = init" and rd': "ready (parser_init P) K interest wire file c C p x w"
    using rd by (simp_all add: ready_def PI)
  have d': "inbox (kern w) (fd C) \<noteq> []" "delivers (parser_execute P) x (inbox (kern w) (fd C)) ?q"
    using d(1) parses_delivers [of execute x] init by (simp_all add: parses_to_def PI)
  have "\<not> isdigit (CHR ''?'')"
    by (simp add: isdigit_def code_def)
  then have "CHR ''?'' \<notin> set (''/d/'' @ cd)"
    using cd(1) by (auto simp: six_digits_def)
  then have path: "rq_path ?q = ''/d/'' @ cd"
    by (simp add: setUrl_plain)
  obtain resp y' where a: "handles P c (fd C) (router (http_of w)) ?q (user (http_of w)) ?r resp y'"
    and file_resp: "file_answer m (length (file ffd)) resp"
    using download_handles [OF cd(1) _ path cd(2,3) disk(1) slot, where n = n and I = I and init = init
        and execute = execute and c = c and g = "fd C"] svc by (auto simp: P)
  have fields: "rs_isFile resp" "\<not> rq_hasRange ?r" "rs_fileSize resp = length (file ffd)"
      "rs_filePath resp = fm_storagePath m" "rs_statusCode (setKeepAlive ka resp) = 200" for ka
    using file_resp whole by (simp_all add: file_answer_def setPathParam_def setKeepAlive_def)
  note sent = read_event_sends_file [OF rd' st soft d'(1) d(2) d'(2) a fields(1,2) seek _ op(2,3), of l wr]
  then show ?thesis
    using fields op(1) disk(2) unfolding P by fastforce
qed


section \<open>Witness\<close>

definition demo_hs :: "(string \<times> string) list" where
  "demo_hs = [(''Content-Type'', ''multipart/form-data; boundary=X'')]"

definition demo_body :: string where
  "demo_body = multipart_body ''X'' [demo_part] []"

text \<open>A parser for which one byte stands for the upload and any other text is the URL of a \<^verbatim>\<open>GET\<close>.\<close>

definition demo_parser :: "unit \<Rightarrow> string \<Rightarrow> parse_event list \<times> nat \<times> bool \<times> unit" where
  "demo_parser q d =
     (if d = ''U'' then request_events ''POST'' ''/upload'' demo_hs [demo_body] else request_events ''GET'' d [] [],
      length d, True, ())"

lemma demo_parser_reads:
  "parses_to demo_parser () ''U'' ''POST'' ''/upload'' demo_hs demo_body"
  "u \<noteq> ''U'' \<Longrightarrow> u \<noteq> [] \<Longrightarrow> length u \<le> 65536 \<Longrightarrow> parses_to demo_parser () u ''GET'' u [] []"
proof -
  have once: "ds = [u]" if "pieces_of u ds" "length u \<le> 65536" for u ds
    using pieces_of_short [OF that(1)] that(2) by (simp add: extrabuf_size_def)
  have "concat [request_events ''POST'' ''/upload'' demo_hs [demo_body]] = request_events ''POST'' ''/upload'' demo_hs [demo_body]"
      "concat [demo_body] = demo_body"
    by simp_all
  then show "parses_to demo_parser () ''U'' ''POST'' ''/upload'' demo_hs demo_body"
    by (fastforce simp: parses_to_def demo_parser_def dest: once)
  have "concat [request_events ''GET'' u [] []] = request_events ''GET'' u [] []" "concat [] = []"
    by simp_all
  then show "u \<noteq> ''U'' \<Longrightarrow> u \<noteq> [] \<Longrightarrow> length u \<le> 65536 \<Longrightarrow> parses_to demo_parser () u ''GET'' u [] []"
    by (fastforce simp: parses_to_def demo_parser_def dest: once)
qed

lemma rq_headers_built:
  "rq_headers (built_request m u hs body) = rq_headers (fold (\<lambda>(f, v). setHeader f v) hs (setUrl u request_new))"
  by (simp add: built_request_def appendBody_def parseRange_keeps setKeepAlive_req_def setHttpVersion_def setMethod_def)

lemma demo_built:
  "req_header h (built_request ''POST'' ''/upload'' demo_hs demo_body) = req_header h demo_upload_req"
  "rq_body (built_request ''POST'' ''/upload'' demo_hs demo_body) = rq_body demo_upload_req"
  by (simp_all add: req_header_def rq_headers_built demo_hs_def demo_upload_req_def demo_body_def setHeader_def setUrl_def
      setBody_req_def split: option.split)

definition session_kernel :: "demo_state kernel" where
  "session_kernel = client_kernel (\<lambda>f. ''hi'') (\<lambda>p. Some 9)"

definition session_conn :: connection where
  "session_conn = demo_http_conn\<lparr>dataCallback := Some HttpOnData\<rparr>"

definition session_world :: "(unit, demo_state, ez_handler, unit, ezdrop \<times> (string \<Rightarrow> string option)) http_world" where
  "session_world =
     \<lparr>evloop = evloop (demo_http demo_http_conn request_new router_new),
      kern = demo_open\<lparr>ds_input := (ds_input demo_open)(7 := [''U''])\<rparr>, conns = [1 \<mapsto> session_conn],
      app = \<lparr>listenFd = 3, port = 8080, srv_running = True, connections = [(7, 1)], next_conn = 5,
             connectionCallback = None, srv_dataCallback = Some HttpOnData,
             rest = \<lparr>router = ezdrop_routes, ctxs = [0 \<mapsto> demo_ctx request_new], next_ctx = 1,
                     user = (demo_ez, Map.empty)\<rparr>\<rparr>\<rparr>"

lemma session_ready:
  "ready () session_kernel ds_interest ds_wire (\<lambda>f. ''hi'') 1 session_conn 0 (demo_ctx request_new) session_world"
proof -
  let ?w = "demo_http demo_http_conn request_new router_new"
  have ok: "conn_ok demoK ds_interest 1 ?w" and live: "wheel_live demo_http_conn ?w"
    using demo_http_conn_ok by blast+
  have C: "conns ?w 1 = Some demo_http_conn"
    by simp
  note okD = conn_okD [OF ok C]
  have "loop_ok session_kernel ds_interest (evloop session_world, kern session_world)"
    using okD(2) client_kernel_ok(1) by (simp add: loop_ok_def session_world_def session_kernel_def)
  moreover have "interest_ok session_kernel ds_interest"
    using client_kernel_ok(2) by (simp add: session_kernel_def)
  ultimately have "conn_ok session_kernel ds_interest 1 session_world"
    using okD by (intro conn_okI [where C = session_conn]) (simp_all add: session_world_def session_conn_def)
  then have "serving session_kernel ds_interest ds_wire (\<lambda>f. ''hi'') 1 session_conn 0 (demo_ctx request_new) session_world"
    using demo_http_conn_state client_kernel_ok(3)
    by (simp add: serving_def session_world_def session_conn_def session_kernel_def http_of_def)
  moreover have "wheel_live session_conn session_world"
    using live by (simp add: wheel_live_def session_world_def session_conn_def demo_http_def)
  moreover have "calls_conn (evloop session_world) (fd session_conn) 1"
    by (simp add: calls_conn_def dispatch_target_def session_world_def session_conn_def demo_http_def demo_world_def
        demo_http_conn_def connection_new_def nth_append)
  ultimately show ?thesis
    by (simp add: ready_def reading_def session_conn_def demo_http_conn_def connection_new_def buffer_default_def
        buffer_new_def contents_def readableBytes_def demo_ctx_def kPrependSize_def)
qed


end
