(* ===== verification/EzdropTypes.thy ===== *)
theory EzdropTypes
  imports Programs EzdropProperties
begin

text \<open>
  The state of the ezdrop service keeps within the C++ types of its members, from the command
  line and the configuration file through every operation, and every entry of its table stands
  under its own six-digit code.
\<close>

section \<open>The configuration\<close>

definition config_typed :: "ezdrop_config \<Rightarrow> bool" where
  "config_typed cfg \<longleftrightarrow>
     0 \<le> ec_port cfg \<and> ec_port cfg < 2 ^ 16 \<and> 0 \<le> ec_maxFileSizeMb cfg \<and> ec_maxFileSizeMb cfg < 2 ^ 64
     \<and> in_int 32 (ec_maxConcurrentDownloads cfg) \<and> in_int 32 (ec_defaultExpireMinutes cfg)
     \<and> in_int 32 (ec_maxExpireMinutes cfg)"

lemma to_signed_range: "0 < w \<Longrightarrow> in_int w (to_signed w x)"
proof -
  assume "0 < w"
  then have "(2::int) ^ w = 2 ^ (w - 1) + 2 ^ (w - 1)"
    by (cases w) simp_all
  then show ?thesis
    using pos_mod_sign [of "2 ^ w" "x + 2 ^ (w - 1)"] pos_mod_bound [of "2 ^ w" "x + 2 ^ (w - 1)"]
    by (simp add: to_signed_def in_int_def)
qed

lemma defaults_typed: "config_typed ezdrop_defaults"
  by (simp add: config_typed_def ezdrop_defaults_def in_int_def)

lemma parseJsonValue_typed:
  assumes "parseJsonValue s pos key cfg = Inr (p, cfg')" and "config_typed cfg"
  shows "config_typed cfg'"
  using assms to_unsigned_bounds [of 16] to_unsigned_bounds [of 64] to_signed_range [of 32]
  by (auto simp: parseJsonValue_def config_typed_def Let_def rbind_Inr_iff split: if_splits prod.splits)

lemma config_loop_typed: "config_loop n s pos cfg = Inr cfg' \<Longrightarrow> config_typed cfg \<Longrightarrow> config_typed cfg'"
proof (induction n arbitrary: pos cfg)
  case (Suc n)
  then show ?case
    using parseJsonValue_typed
    by (auto simp: Let_def rbind_Inr_iff split: if_splits prod.splits)
qed simp

lemma loadConfigFile_typed: "loadConfigFile n opened = Inr cfg \<Longrightarrow> config_typed cfg"
  using config_loop_typed defaults_typed
  by (auto simp: loadConfigFile_def parseConfigJson_def Let_def split: option.splits if_splits)

section \<open>The service\<close>

definition ez_typed :: "ezdrop \<Rightarrow> bool" where
  "ez_typed S \<longleftrightarrow>
     0 \<le> ez_port S \<and> ez_port S < 2 ^ 16 \<and> maxFileSize S < 2 ^ 64
     \<and> 0 \<le> maxConcurrentDownloads S \<and> in_int 32 (maxConcurrentDownloads S)
     \<and> (\<forall>v\<in>{totalBytesUploaded S, totalBytesDownloaded S, totalFilesUploaded S, totalFilesDownloaded S}.
          0 \<le> v \<and> v < 2 ^ 64)
     \<and> distinct (map fst (codes S)) \<and> (\<forall>(c, m)\<in>set (codes S). six_digits c \<and> fm_code m = c)"

lemma parse_args_port:
  "parse_args args c = Inr (Go c') \<Longrightarrow> 0 \<le> cl_port c \<and> cl_port c < 2 ^ 16 \<Longrightarrow> 0 \<le> cl_port c' \<and> cl_port c' < 2 ^ 16"
proof (induction args c rule: parse_args.induct)
  case (2 a args c)
  then show ?case
    using to_unsigned_bounds [of 16] by (auto split: if_splits option.splits)
qed simp

lemma read_settings_port:
  assumes "read_settings n realpath read argv0 args = Inr (Go s)"
  shows "0 \<le> es_port s \<and> es_port s < 2 ^ 16"
proof -
  from assms [unfolded read_settings_def] obtain r where r: "parse_args args cli_defaults = Inr r"
    by (rule rbind_InrE)
  with assms obtain c where c: "r = Go c"
    by (cases r) (auto simp: read_settings_def)
  have "0 \<le> cl_port c \<and> cl_port c < 2 ^ 16"
    using parse_args_port [of args cli_defaults c] r c by (simp add: cli_defaults_def)
  then show ?thesis
    using assms r c loadConfigFile_typed
    by (auto simp: read_settings_def Let_def rbind_Inr_iff config_typed_def split: if_splits)
qed

lemma created_typed:
  assumes "ezdrop_create n FS read s f = Inr (S, f')" and "0 \<le> es_port s \<and> es_port s < 2 ^ 16"
  shows "ez_typed S"
proof -
  obtain cfg where cfg: "config_typed cfg"
      "maxFileSize S = (if ec_maxFileSizeMb cfg > 0 then nat (to_unsigned 64 (ec_maxFileSizeMb cfg * 1024 * 1024)) else 0)"
      "maxConcurrentDownloads S = (if ec_maxConcurrentDownloads cfg > 0 then ec_maxConcurrentDownloads cfg else 0)"
    using ezdrop_create_fields(3) [OF assms(1)] loadConfigFile_typed defaults_typed by (metis (full_types))
  have "maxFileSize S < 2 ^ 64"
    using to_unsigned_bounds [of 64 "ec_maxFileSizeMb cfg * 1024 * 1024"] by (auto simp: cfg(2) nat_less_iff)
  moreover have "codes S = []" "totalBytesUploaded S = 0" "totalBytesDownloaded S = 0" "totalFilesUploaded S = 0"
      "totalFilesDownloaded S = 0"
    using assms(1) by (auto simp: ezdrop_create_def ezdrop_new_def loadConfig_def Let_def rbind_Inr_iff split: if_splits)
  ultimately show ?thesis
    using cfg(1,3) assms(2) ezdrop_create_fields(1) [OF assms(1)] by (auto simp: ez_typed_def config_typed_def in_int_def)
qed

text \<open>An entry that is replaced or removed leaves the others as they are.\<close>

lemma typed_update:
  assumes "distinct (map fst cs)" and "\<forall>(c, m)\<in>set cs. six_digits c \<and> fm_code m = c"
    and "six_digits cd" and "fm_code m = cd"
  shows "distinct (map fst (AList.update cd m cs)) \<and> (\<forall>(c, m)\<in>set (AList.update cd m cs). six_digits c \<and> fm_code m = c)"
  using assms AList_update_set [of cd m cs] by (auto simp: distinct_update)

lemma typed_delete:
  assumes "distinct (map fst cs)" and "\<forall>(c, m)\<in>set cs. six_digits c \<and> fm_code m = c"
  shows "distinct (map fst (AList.delete cd cs)) \<and> (\<forall>(c, m)\<in>set (AList.delete cd cs). six_digits c \<and> fm_code m = c)"
  using assms distinct_delete [of cs cd] by (auto simp: AList.delete_eq)

lemma ez_typed_step:
  assumes "ez_step n FS w w'" and "ez_typed (fst w)"
  shows "ez_typed (fst w')"
  using assms
proof cases
  case (Upload I req resp S f resp' S' f')
  from handleUpload_cases [OF Upload(3,4)] consider "S' = S" | cd m where "S' = with_upload cd m S" "stored_meta I S cd m"
    by blast
  then show ?thesis
  proof cases
    case (2 cd m)
    then show ?thesis
      using assms(2) Upload(1,2) typed_update [of "codes S" cd m] to_unsigned_bounds [of 64]
      by (simp add: ez_typed_def with_upload_def stored_meta_def)
  qed (use assms(2) Upload(1,2) in simp)
next
  case (Download S fd now req resp f resp' S' f')
  from Download(4) show ?thesis
  proof (cases rule: handleDownload_steps)
    case (3 cd m)
    have "(cd, m) \<in> set (codes S)"
      using 3(2) by (rule map_of_SomeD)
    then have "six_digits cd \<and> fm_code m = cd"
      using assms(2) Download(1) by (auto simp: ez_typed_def)
    then show ?thesis
      using assms(2) Download(1,2) 3(1) typed_update [of "codes S" cd "m\<lparr>fm_downloadCount := fm_downloadCount m + 1\<rparr>"]
      by (simp add: ez_typed_def count_download_def start_download_def)
  next
    case (2 cd)
    then show ?thesis
      using assms(2) Download(1,2) typed_delete [of "codes S" cd] by (simp add: ez_typed_def)
  qed (use assms(2) Download(1,2) in simp)
next
  case (Complete S f fd)
  then show ?thesis
    using assms(2) to_unsigned_bounds [of 64] by (simp add: ez_typed_def onWriteComplete_def split: option.split)
next
  case (Sweep now S f S' f')
  then have "S' = S\<lparr>codes := filter (\<lambda>(c, m). \<not> fm_expireAt m < now) (codes S)\<rparr>"
    by (auto simp: sweepExpired_def Let_def rbind_Inr_iff)
  then show ?thesis
    using assms(2) Sweep(1,2) by (auto simp: ez_typed_def distinct_map_filter)
qed

section \<open>Property\<close>



end
