(* ===== verification/Mains.thy ===== *)
theory Mains
  imports Startup EzdropSession ImageHosting
begin

text \<open>
  The \<^verbatim>\<open>main\<close> functions of the two services, \<^verbatim>\<open>examples/ezdrop/main.cpp\<close> and
  \<^verbatim>\<open>examples/image_hosting/main.cpp\<close>: from the arguments to the running servers, and the first
  client of ezdrop. As in \<open>Startup\<close> the results of the calls that create descriptors are inputs.
\<close>

section \<open>The callbacks of the loop\<close>

text \<open>The services have one TCP server and no UDP server; the state is the world of the HTTP server.\<close>

type_synonym ('p, 'k, 'h, 'q, 'y) server_program = "'p event_loop \<times> ('p, 'k, 'h, 'q, 'y) http_world"

definition on_server ::
    "(('p, 'k, 'h, 'q, 'y) http_world \<Rightarrow> ('p, 'k, 'h, 'q, 'y) http_world res)
     \<Rightarrow> ('p, 'k, 'h, 'q, 'y) server_program \<Rightarrow> ('p, 'k, 'h, 'q, 'y) server_program res" where
  "on_server g s = (let (L, w) = s in rbind (g (w\<lparr>evloop := L\<rparr>)) (\<lambda>w1. Inr (evloop w1, w1)))"

definition run_server_cb ::
    "('p, 'k, 'h, 'q, 'y) http_param \<Rightarrow> 'k kernel
     \<Rightarrow> ('p \<Rightarrow> ('p, 'k, 'h, 'q, 'y) server_program \<Rightarrow> ('p, 'k, 'h, 'q, 'y) server_program res) \<Rightarrow> nat
     \<Rightarrow> loop_cb \<Rightarrow> events \<Rightarrow> ('p, 'k, 'h, 'q, 'y) server_program \<Rightarrow> ('p, 'k, 'h, 'q, 'y) server_program res" where
  "run_server_cb P K runp n cb ev s =
     (case cb of
        WheelTimerCb \<Rightarrow> onWheelTimer runp (on_server (wheel_tick (http_env P K n) K n)) s
      | AcceptCb \<Rightarrow> on_server (handleAccept K (\<lambda>cb. onConnection P) n) s
      | ConnReadWriteCb c \<Rightarrow> on_server (onEvents (http_env P K n) K n True c ev) s
      | ConnReadCb c \<Rightarrow> on_server (onEvents (http_env P K n) K n False c ev) s
      | UdpCb i \<Rightarrow> Inl (Undefined ''no UDP server'')
      | TimerCb i \<Rightarrow> Inl (Undefined ''no timer object''))"

text \<open>\<^verbatim>\<open>signalHandler\<close>, with the global pointer to the loop.\<close>

definition signalHandler :: "'p event_loop option \<Rightarrow> 'p event_loop option" where
  "signalHandler gLoop = (case gLoop of None \<Rightarrow> None | Some L \<Rightarrow> Some (loop_stop L))"

section \<open>ezdrop\<close>

definition ezdrop_install :: "('p, 'k, ez_handler, 'q, 'y) http_world \<Rightarrow> ('p, 'k, ez_handler, 'q, 'y) http_world" where
  "ezdrop_install w =
     http_addRoute ''GET'' ''/d/:code'' Download
       (http_addRoute ''GET'' ''/api/stats'' Stats
         (http_addRoute ''GET'' ''/api/meta/:code'' Query
           (http_addRoute ''POST'' ''/upload'' Upload
             (http_addRoute ''GET'' ''/'' IndexPage w))))"

text \<open>
  \<^verbatim>\<open>main\<close> up to the start of the server. The service object comes before the TCP server here,
  because it is the user part of its state; the two constructors have nothing in common, and
  the service's can fail only if the configuration file cannot be read twice.
\<close>

definition ezdrop_main_boot ::
    "nat \<Rightarrow> 'f file_sys \<Rightarrow> (string \<Rightarrow> string option) \<Rightarrow> (string \<Rightarrow> string option) \<Rightarrow> string \<Rightarrow> string list
     \<Rightarrow> 'k kernel \<Rightarrow> server_input \<Rightarrow> 'f \<Rightarrow> 'k
     \<Rightarrow> ('p, 'k, ez_handler, 'q, ezdrop \<times> 'f) http_world outcome res" where
  "ezdrop_main_boot n FS realpath read argv0 args K I f k =
     rbind (read_settings n realpath read argv0 args) (\<lambda>r.
     case r of
       Exit status \<Rightarrow> Inr (Exit status)
     | Go s \<Rightarrow>
         rbind (event_loop_new K ET (bi_timerFd I) k) (\<lambda>Lk.
         rbind (ezdrop_create n FS read s f) (\<lambda>y.
         rbind (http_boot K I (nat (es_port s)) y ezdrop_install Lk) (\<lambda>w. Inr (Go w)))))"

section \<open>Image hosting\<close>

definition image_args :: "string list \<Rightarrow> (int \<times> string) res" where
  "image_args args =
     rbind (case args of
        [] \<Rightarrow> Inr 8080
      | a # others \<Rightarrow> (case stoi a of None \<Rightarrow> Inl (Thrown ''stoi'') | Some v \<Rightarrow> Inr v)) (\<lambda>p.
     Inr (p, case args of a # d # others \<Rightarrow> d | _ \<Rightarrow> ''/tmp/eznet_images''))"

definition image_install :: "('p, 'k, image_handler, 'q, 'y) http_world \<Rightarrow> ('p, 'k, image_handler, 'q, 'y) http_world" where
  "image_install w =
     http_addRoute ''GET'' ''/'' ImagePage
       (http_addRoute ''GET'' ''/img/:filename'' ShowImage
         (http_addRoute ''POST'' ''/upload'' UploadImage w))"

text \<open>The port of the TCP server is a \<^verbatim>\<open>uint16_t\<close>; the directory is created twice.\<close>

definition image_main_boot ::
    "'f file_sys \<Rightarrow> bool \<Rightarrow> bool \<Rightarrow> string list \<Rightarrow> 'k kernel \<Rightarrow> server_input \<Rightarrow> 'f \<Rightarrow> 'k
     \<Rightarrow> ('p, 'k, image_handler, 'q, image_host \<times> 'f) http_world res" where
  "image_main_boot FS created1 created2 args K I f k =
     rbind (image_args args) (\<lambda>(p, storage).
     let f1 = snd (fs_mkdir FS storage f) in
     rbind (event_loop_new K ET (bi_timerFd I) k) (\<lambda>Lk.
     rbind (image_host_new FS created1 created2 storage f1) (\<lambda>y.
     http_boot K I (nat (to_unsigned 16 p)) y image_install Lk)))"

text \<open>The index page; the two characters of its title are in UTF-8.\<close>

definition image_page :: string where
  "image_page =
     ''<!DOCTYPE html>''
     @ ''<html><head><meta charset='utf-8'>''
     @ ''<title>ezNet '' @ [CHR 0xE5, CHR 0x9B, CHR 0xBE, CHR 0xE5, CHR 0xBA, CHR 0x8A] @ ''</title>''
     @ ''<style>''
     @ ''body{font-family:sans-serif;max-width:800px;margin:0 auto;padding:20px;}''
     @ ''h1{color:#333;border-bottom:2px solid #4CAF50;padding-bottom:10px;}''
     @ ''form{border:2px dashed #ccc;padding:30px;text-align:center;border-radius:8px;''
     @ ''  margin:20px 0;}''
     @ ''form.dragover{border-color:#4CAF50;background:#f0fff0;}''
     @ ''input[type=file]{margin:10px 0;}''
     @ ''input[type=submit]{background:#4CAF50;color:white;padding:10px 30px;border:none;''
     @ ''  border-radius:4px;cursor:pointer;font-size:16px;}''
     @ ''input[type=submit]:hover{background:#45a049;}''
     @ ''#result{margin-top:20px;padding:15px;background:#f5f5f5;border-radius:4px;''
     @ ''  display:none;word-break:break-all;}''
     @ ''#result img{max-width:100%;max-height:400px;margin-top:10px;border-radius:4px;''
     @ ''  box-shadow:0 2px 8px rgba(0,0,0,0.1);}''
     @ ''.url-box{background:#fff;padding:8px;border:1px solid #ddd;border-radius:3px;}''
     @ ''</style></head><body>''
     @ ''<h1>ezNet Image Hosting</h1>''
     @ ''<form id='uploadForm'>''
     @ ''<p>Drag & drop image or click to upload</p>''
     @ ''<input type='file' id='fileInput' accept='image/*' required><br>''
     @ ''<input type='submit' value='Upload'>''
     @ ''</form>''
     @ ''<div id='result'>''
     @ ''<p><strong>URL:</strong></p>''
     @ ''<div class='url-box'><a id='urlLink' href='' @ [CHR 0x27, CHR 0x27] @ '' target='_blank'></a></div>''
     @ ''<img id='preview' src='' @ [CHR 0x27, CHR 0x27] @ '' alt='preview'>''
     @ ''</div>''
     @ ''<script>''
     @ ''var form=document.getElementById('uploadForm');''
     @ ''form.ondragover=function(e){e.preventDefault();''
     @ ''  form.className='dragover';};''
     @ ''form.ondragleave=function(){form.className='' @ [CHR 0x27, CHR 0x27] @ '';};''
     @ ''form.ondrop=function(e){e.preventDefault();form.className='' @ [CHR 0x27, CHR 0x27] @ '';''
     @ ''  document.getElementById('fileInput').files=e.dataTransfer.files;''
     @ ''  form.dispatchEvent(new Event('submit'));};''
     @ ''form.onsubmit=async function(e){''
     @ ''  e.preventDefault();''
     @ ''  var file=document.getElementById('fileInput').files[0];''
     @ ''  if(!file)return;''
     @ ''  var resp=await fetch('/upload',{method:'POST',body:file,''
     @ ''    headers:{'Content-Type':file.type}});''
     @ ''  var data=await resp.json();''
     @ ''  var url='http://'+location.host+data.url;''
     @ ''  document.getElementById('urlLink').textContent=url;''
     @ ''  document.getElementById('urlLink').href=url;''
     @ ''  document.getElementById('preview').src=url;''
     @ ''  document.getElementById('result').style.display='block';''
     @ ''};''
     @ ''</script></body></html>''"

text \<open>
  The handlers on the state of the service; \<^verbatim>\<open>consumeBody\<close> takes the body out of the request in
  the parser context.
\<close>

definition image_param ::
    "'f file_sys \<Rightarrow> (nat \<Rightarrow> nat) \<Rightarrow> 'q \<Rightarrow> ('q \<Rightarrow> string \<Rightarrow> parse_event list \<times> nat \<times> bool \<times> 'q)
     \<Rightarrow> ('p, 'k, image_handler, 'q, image_host \<times> 'f) http_param" where
  "image_param FS draws init execute =
     \<lparr>parser_init = init, parser_execute = execute,
      handle = (\<lambda>h req c resp w.
        rbind (conn c w) (\<lambda>C.
        rbind (image_handle FS draws image_page h req resp (service_of w)) (\<lambda>(r, req1, y).
        let w1 = set_service y w
        in Inr (r, case userData C of None \<Rightarrow> w1 | Some p \<Rightarrow> upd_ctx p (pc_request_update (\<lambda>_. req1)) w1)))),
      connectionHook = (\<lambda>c w. Inr w), writeCompleteHook = (\<lambda>c w. Inr w)\<rparr>"

section \<open>After the construction\<close>

lemma ezdrop_install_router: "ezdrop_install v = upd_http (router_update
    (\<lambda>r. addRoute ''GET'' ''/d/:code'' Download (addRoute ''GET'' ''/api/stats'' Stats
       (addRoute ''GET'' ''/api/meta/:code'' Query (addRoute ''POST'' ''/upload'' Upload
         (addRoute ''GET'' ''/'' IndexPage r)))))) v"
  by (simp add: ezdrop_install_def http_addRoute_def upd_http_def upd_app_def)

lemma image_install_router: "image_install v = upd_http (router_update
    (\<lambda>r. addRoute ''GET'' ''/'' ImagePage (addRoute ''GET'' ''/img/:filename'' ShowImage
       (addRoute ''POST'' ''/upload'' UploadImage r)))) v"
  by (simp add: image_install_def http_addRoute_def upd_http_def upd_app_def)

text \<open>A program with one server is ready for its first client.\<close>

lemma server_started:
  assumes "epoll_ok K interest" and "interest k = {}" and "event_loop_new K ET (bi_timerFd I) k = Inr (L, k1)"
    and "http_boot K I p y install (L, k1) = Inr w" and "\<And>v. install v = upd_http (router_update g) v"
  shows "registered (evloop w) = [bi_timerFd I \<mapsto> (EPOLLIN, WheelTimerCb), listenFd (app w) \<mapsto> (EPOLLIN, AcceptCb)]
    \<and> bi_timerFd I \<noteq> listenFd (app w) \<and> loop_ok K interest (evloop w, kern w) \<and> wheel_60 w \<and> triggerMode (evloop w) = ET"
    and "port (app w) = p \<and> router (http_of w) = g router_new \<and> user (http_of w) = y \<and> connections (app w) = []
    \<and> conns w = Map.empty \<and> next_conn (app w) = 0 \<and> connectionCallback (app w) = Some HttpOnConnection
    \<and> srv_dataCallback (app w) = Some HttpOnData"
proof -
  obtain f where f: "addFd K f EPOLLIN AcceptCb (L, k1) = Inr (evloop w, kern w)"
    and w: "conns w = Map.empty" "app w = \<lparr>listenFd = f, port = p, srv_running = True, connections = [], next_conn = 0,
        connectionCallback = Some HttpOnConnection, srv_dataCallback = Some HttpOnData,
        rest = \<lparr>router = g router_new, ctxs = Map.empty, next_ctx = 0, user = y\<rparr>\<rparr>"
    using http_boot_steps [OF assms(4,5)] by metis
  show "registered (evloop w) = [bi_timerFd I \<mapsto> (EPOLLIN, WheelTimerCb), listenFd (app w) \<mapsto> (EPOLLIN, AcceptCb)]
    \<and> bi_timerFd I \<noteq> listenFd (app w) \<and> loop_ok K interest (evloop w, kern w) \<and> wheel_60 w \<and> triggerMode (evloop w) = ET"
    using http_boot_built [OF assms(1-3) f] w wheel_60_new [of w] by simp
  show "port (app w) = p \<and> router (http_of w) = g router_new \<and> user (http_of w) = y \<and> connections (app w) = []
    \<and> conns w = Map.empty \<and> next_conn (app w) = 0 \<and> connectionCallback (app w) = Some HttpOnConnection
    \<and> srv_dataCallback (app w) = Some HttpOnData"
    using w by (simp add: http_of_def)
qed

lemma ezdrop_main_steps:
  fixes w :: "('p, 'k, ez_handler, 'q, ezdrop \<times> 'f) http_world"
  assumes "ezdrop_main_boot n FS realpath read argv0 args K I f k = Inr (Go w)"
  obtains s L k1 y where "read_settings n realpath read argv0 args = Inr (Go s)"
    and "event_loop_new K ET (bi_timerFd I) k = Inr (L :: 'p event_loop, k1)"
    and "ezdrop_create n FS read s f = Inr y" and "http_boot K I (nat (es_port s)) y ezdrop_install (L, k1) = Inr w"
proof -
  from assms [unfolded ezdrop_main_boot_def] obtain r where
      r: "read_settings n realpath read argv0 args = Inr r"
        "(case r of Exit status \<Rightarrow> Inr (Exit status)
          | Go s \<Rightarrow> rbind (event_loop_new K ET (bi_timerFd I) k) (\<lambda>Lk. rbind (ezdrop_create n FS read s f) (\<lambda>y.
              rbind (http_boot K I (nat (es_port s)) y ezdrop_install Lk) (\<lambda>w. Inr (Go w))))) = Inr (Go w)"
    by (rule rbind_InrE)
  show thesis
    using r that by (cases r) (auto simp: rbind_Inr_iff)
qed

lemma image_main_built:
  fixes w :: "('p, 'k, image_handler, 'q, image_host \<times> 'f) http_world"
  assumes "epoll_ok K interest" and "interest k = {}"
    and "image_main_boot FS created1 created2 args K I f k = Inr w"
  shows "\<exists>p storage. image_args args = Inr (p, storage) \<and> port (app w) = nat (to_unsigned 16 p)
    \<and> router (http_of w) = image_routes \<and> ih_storageDir (fst (service_of w)) = storage
    \<and> registered (evloop w) = [bi_timerFd I \<mapsto> (EPOLLIN, WheelTimerCb), listenFd (app w) \<mapsto> (EPOLLIN, AcceptCb)]"
proof -
  obtain p storage y k1 and L :: "'p event_loop" where 1: "image_args args = Inr (p, storage)"
      "event_loop_new K ET (bi_timerFd I) k = Inr (L, k1)"
      "image_host_new FS created1 created2 storage (snd (fs_mkdir FS storage f)) = Inr y"
      "http_boot K I (nat (to_unsigned 16 p)) y image_install (L, k1) = Inr w"
    using assms(3) by (auto simp: image_main_boot_def rbind_Inr_iff Let_def)
  note started = server_started [OF assms(1,2) 1(2,4) image_install_router]
  have "ih_storageDir (fst y) = storage"
    using 1(3) by (auto simp: image_host_new_def rbind_Inr_iff)
  then show ?thesis
    using 1(1) started by (auto simp: image_routes_def service_of_def)
qed

lemma server_accepts:
  assumes pre: "one_client K interest wire inbox (listenFd (app w)) cf k" "interest k = interest (kern w)"
      "loop_ok K interest (evloop w, kern w)" "interest_ok K interest" "wheel_60 w" "triggerMode (evloop w) = ET"
      "net_ok K wire file" "\<And>c w. connectionHook P c w = Inr w"
      "connectionCallback (app w) = Some HttpOnConnection" "srv_dataCallback (app w) = Some HttpOnData"
      "connections (app w) = []"
    and target: "registered (evloop w) (listenFd (app w)) = Some (EPOLLIN, AcceptCb)"
  shows "\<exists>w1 C p x. dispatch (run_server_cb P K runp (Suc (Suc n))) [(listenFd (app w), EPOLLIN)] (evloop w, w\<lparr>kern := k\<rparr>)
      = Inr (evloop w1, w1)
    \<and> ready (parser_init P) K interest wire file (next_conn (app w)) C p x w1 \<and> fd C = cf
    \<and> router (http_of w1) = router (http_of w) \<and> user (http_of w1) = user (http_of w) \<and> inbox (kern w1) cf = []
    \<and> promised wire file (next_conn (app w)) w1 = []"
proof -
  let ?w = "w\<lparr>kern := k\<rparr>"
  have w: "loop_ok K interest (evloop ?w, kern ?w)" "wheel_60 ?w" "\<forall>(f, d)\<in>set (connections (app ?w)). 0 \<le> f"
      "one_client K interest wire inbox (listenFd (app ?w)) cf (kern ?w)" "triggerMode (evloop ?w) = ET"
      "connectionCallback (app ?w) = Some HttpOnConnection" "srv_dataCallback (app ?w) = Some HttpOnData"
    using pre by (simp_all add: loop_ok_def wheel_60_def)
  have "dispatch_target (evloop w) (listenFd (app w)) = Some AcceptCb"
    using registered_target [OF target] .
  then have "dispatch (run_server_cb P K runp (Suc (Suc n))) [(listenFd (app w), EPOLLIN)] (evloop w, ?w)
      = Inr (evloop w1, w1)" if "handleAccept K (\<lambda>cb. onConnection P) (Suc (Suc n)) ?w = Inr w1" for w1
    using that by (simp add: run_server_cb_def on_server_def Let_def del: handleAccept.simps)
  then show ?thesis
    using handleAccept_one [OF w(4,5,1) pre(4) w(2) pre(7,8) w(6,7,3), of n] by (fastforce simp: http_of_def)
qed

section \<open>Properties\<close>

text \<open>
  C37: from the arguments of ezdrop to its first client. Whatever the command line and the
  configuration file say, the server listens on the port that the service was given, every
  request will be routed by the routes of the service, and the service is the one that the
  settings describe, without codes and without downloads; the loop watches the timer of the
  wheel and the listening socket. When a client connects, its connection waits for a request.
\<close>

theorem ezdrop_main_accepts:
  fixes w :: "('p, 'k, ez_handler, 'q, ezdrop \<times> 'f) http_world"
  assumes "epoll_ok K interest" and "interest_ok K interest" and "net_ok K wire file" and "interest k0 = {}"
    and "ezdrop_main_boot n FS realpath read argv0 args K I f k0 = Inr (Go w)"
    and "interest k = interest (kern w)" and "one_client K interest wire inbox (listenFd (app w)) cf k"
  shows "\<exists>S f1 w1 C p x. ezdrop_boot n FS realpath read argv0 args f = Inr (Go (S, f1))
    \<and> port (app w) = nat (ez_port S) \<and> codes S = [] \<and> activeDownloads S = 0 \<and> activeDownloadSizes S = Map.empty
    \<and> registered (evloop w) = [bi_timerFd I \<mapsto> (EPOLLIN, WheelTimerCb), listenFd (app w) \<mapsto> (EPOLLIN, AcceptCb)]
    \<and> dispatch (run_server_cb (ezdrop_param m FS J now init execute) K runp (Suc (Suc l)))
        [(listenFd (app w), EPOLLIN)] (evloop w, w\<lparr>kern := k\<rparr>) = Inr (evloop w1, w1)
    \<and> ready init K interest wire file 0 C p x w1 \<and> fd C = cf \<and> inbox (kern w1) cf = []
    \<and> router (http_of w1) = ezdrop_routes \<and> service_of w1 = (S, f1) \<and> promised wire file 0 w1 = []"
proof -
  obtain s y and L :: "'p event_loop" and k1 where s: "read_settings n realpath read argv0 args = Inr (Go s)"
    and L: "event_loop_new K ET (bi_timerFd I) k0 = Inr (L, k1)"
    and y: "ezdrop_create n FS read s f = Inr y" and boot: "http_boot K I (nat (es_port s)) y ezdrop_install (L, k1) = Inr w"
    using ezdrop_main_steps [OF assms(5)] by metis
  obtain S f1 where Sf: "y = (S, f1)"
    by (cases y)
  note started = server_started [OF assms(1,4) L boot ezdrop_install_router]
  have fresh: "codes S = [] \<and> activeDownloads S = 0 \<and> activeDownloadSizes S = Map.empty"
    using y by (auto simp: Sf ezdrop_create_def ezdrop_new_def loadConfig_def Let_def rbind_Inr_iff split: if_splits)
  obtain P :: "('p, 'k, ez_handler, 'q, ezdrop \<times> 'f) http_param" where P: "P = ezdrop_param m FS J now init execute"
    by blast
  have hook: "connectionHook P c v = Inr v" for c v
    by (simp add: P ezdrop_param_def)
  have pre: "loop_ok K interest (evloop w, kern w)" "wheel_60 w" "triggerMode (evloop w) = ET"
      "connectionCallback (app w) = Some HttpOnConnection" "srv_dataCallback (app w) = Some HttpOnData"
      "connections (app w) = []" "registered (evloop w) (listenFd (app w)) = Some (EPOLLIN, AcceptCb)"
    using started by auto
  obtain w1 C p x where 1: "dispatch (run_server_cb P K runp (Suc (Suc l))) [(listenFd (app w), EPOLLIN)]
      (evloop w, w\<lparr>kern := k\<rparr>) = Inr (evloop w1, w1)"
      "ready (parser_init P) K interest wire file 0 C p x w1" "fd C = cf" "router (http_of w1) = ezdrop_routes"
      "user (http_of w1) = (S, f1)" "inbox (kern w1) cf = []" "promised wire file 0 w1 = []"
    using server_accepts [OF assms(7,6) pre(1) assms(2) pre(2,3) assms(3) hook pre(4-7), of runp l] started(2)
    by (auto simp: Sf ezdrop_routes_def)
  have "ezdrop_boot n FS realpath read argv0 args f = Inr (Go (S, f1))"
    by (simp add: ezdrop_boot_def s y Sf)
  moreover have "port (app w) = nat (ez_port S)"
    using started(2) ezdrop_create_fields(1) [OF y [unfolded Sf]] by simp
  moreover have "parser_init P = init"
    by (simp add: P ezdrop_param_def)
  ultimately show ?thesis
    using 1 fresh started(1) unfolding P service_of_def
    by (intro exI [of _ S] exI [of _ f1] exI [of _ w1] exI [of _ C] exI [of _ p] exI [of _ x]) simp
qed

section \<open>Witness\<close>

definition demo_server :: server_input where
  "demo_server = \<lparr>bi_timerFd = 3, bi_httpFd = Some 4, bi_httpBound = True, bi_httpListening = True\<rparr>"

lemma demo_ezdrop_boot:
  "\<exists>w :: (unit, demo_state, ez_handler, unit, ezdrop \<times> unit) http_world.
     ezdrop_main_boot 2 demo_fs (\<lambda>p. None) (\<lambda>p. None) ''ezdrop'' [''-p'', ''80''] clientK demo_server () demo_state_new
       = Inr (Go w) \<and> listenFd (app w) = 4 \<and> kern w = demo_state_new\<lparr>ds_interest := {3, 4}\<rparr>"
proof -
  have port: "stoi ''80'' = Some 80"
    by code_simp
  have add: "\<exists>L'. addFd clientK f ev cb (L, k) = Inr (L', k\<lparr>ds_interest := insert f (ds_interest k)\<rparr>)"
    if "0 \<le> f" "f \<notin> ds_interest k" for f ev cb and L :: "unit event_loop" and k
    by (rule addFd_adds [OF client_add [OF that] that(1)])
  let ?k1 = "demo_state_new\<lparr>ds_interest := {3}\<rparr>" and ?k2 = "demo_state_new\<lparr>ds_interest := {4, 3}\<rparr>"
  obtain L1 :: "unit event_loop" where 1: "event_loop_new clientK ET 3 demo_state_new = Inr (L1, ?k1)"
    using add [of 3 demo_state_new EPOLLIN WheelTimerCb] by (fastforce simp: event_loop_new_def demo_state_new_def)
  obtain L2 where 2: "addFd clientK 4 EPOLLIN AcceptCb (L1, ?k1) = Inr (L2, ?k2)"
    using add [of 4 ?k1 EPOLLIN AcceptCb L1] by (auto simp: demo_state_new_def)
  have "{4, 3} = {3, 4::int}"
    by auto
  with 1 2 port show ?thesis
    by (simp add: ezdrop_main_boot_def read_settings_def cli_defaults_def ezdrop_create_def ezdrop_new_def http_boot_def
        demo_server_def Let_def tcp_server_new_def tcp_start_def on_loop_def http_server_new_def setConnectionCallback_def
        setDataCallback_def ezdrop_install_router upd_http_def upd_app_def)
qed

theorem ezdrop_main_accepts_witness:
  "\<exists>(w :: (unit, demo_state, ez_handler, unit, ezdrop \<times> unit) http_world) w1.
     ezdrop_main_boot 2 demo_fs (\<lambda>p. None) (\<lambda>p. None) ''ezdrop'' [''-p'', ''80''] clientK demo_server () demo_state_new
       = Inr (Go w) \<and> port (app w) = 80
     \<and> dispatch (run_server_cb (ezdrop_param 2 demo_fs demo_input 1000 () demo_parser) clientK (\<lambda>cb. Inr) 2)
         [(4, EPOLLIN)] (evloop w, w) = Inr (evloop w1, w1)
     \<and> router (http_of w1) = ezdrop_routes"
proof -
  obtain w :: "(unit, demo_state, ez_handler, unit, ezdrop \<times> unit) http_world" where
      b: "ezdrop_main_boot 2 demo_fs (\<lambda>p. None) (\<lambda>p. None) ''ezdrop'' [''-p'', ''80''] clientK demo_server () demo_state_new
        = Inr (Go w)" and lf: "listenFd (app w) = 4" and k: "kern w = demo_state_new\<lparr>ds_interest := {3, 4}\<rparr>"
    using demo_ezdrop_boot by blast
  have empty: "ds_interest demo_state_new = {}"
    by (simp add: demo_state_new_def)
  have one: "one_client clientK ds_interest ds_wire (\<lambda>k f. concat (ds_input k f)) (listenFd (app w)) 12 (kern w)"
    unfolding k one_client_def Let_def by (simp add: client_kernel_def demo_kernel_def demo_state_new_def)
  from ezdrop_main_accepts [OF client_kernel_ok(1-3) empty b refl one, where m = 2 and J = demo_input and now = 1000
      and init = "()" and execute = demo_parser and runp = "\<lambda>cb. Inr" and l = 0]
  obtain S f1 w1 where 1: "ezdrop_boot 2 demo_fs (\<lambda>p. None) (\<lambda>p. None) ''ezdrop'' [''-p'', ''80''] () = Inr (Go (S, f1))"
      "port (app w) = nat (ez_port S)" "router (http_of w1) = ezdrop_routes"
      "dispatch (run_server_cb (ezdrop_param 2 demo_fs demo_input 1000 () demo_parser) clientK (\<lambda>cb. Inr) (Suc (Suc 0)))
         [(4, EPOLLIN)] (evloop w, w) = Inr (evloop w1, w1)"
    unfolding lf by auto
  have "stoi ''80'' = Some 80"
    by code_simp
  then have "ez_port S = 80"
    using 1(1) by (auto simp: ezdrop_boot_def read_settings_def cli_defaults_def ezdrop_create_def ezdrop_new_def
        to_unsigned_def Let_def)
  with b 1 show ?thesis
    by (intro exI [of _ w] exI [of _ w1]) (simp add: numeral_2_eq_2 del: dispatch.simps)
qed

end
