(* ===== verification/EzdropFrame.thy ===== *)
theory EzdropFrame
  imports EzdropStorage
begin

text \<open>
  What every operation of ezdrop leaves alone on disk, and the shape of the paths in its table:
  an upload, whatever its mode and however it ends, touches its temporary directory and the
  directory of its new code only, and dropping a stored file touches the directory of its code
  only.
\<close>

section \<open>The disk\<close>

text \<open>
  On top of \<open>store_ok\<close>: \<^verbatim>\<open>tar\<close> writes its output file only, \<^verbatim>\<open>unlink\<close> removes the file it names,
  \<^verbatim>\<open>stat\<close> of a file that is there yields its length.
\<close>

definition disk_ok :: "'f file_sys \<Rightarrow> string \<Rightarrow> ('f \<Rightarrow> string \<Rightarrow> string option) \<Rightarrow> bool" where
  "disk_ok FS D content \<longleftrightarrow>
     store_ok FS D content
     \<and> (\<forall>r src f q. rel_ok r \<longrightarrow> rel_ok q \<longrightarrow> q \<noteq> r \<longrightarrow> content (snd (fs_tar FS (path_under D r) src f)) q = content f q)
     \<and> (\<forall>r f. rel_ok r \<longrightarrow> content (snd (fs_unlink FS (path_under D r) f)) r = None)
     \<and> (\<forall>r f d. rel_ok r \<longrightarrow> content f r = Some d \<longrightarrow> fs_stat FS f (path_under D r) = Some (length d))"

lemma disk_okD:
  assumes "disk_ok FS D content"
  shows "store_ok FS D content"
    and "rel_ok r \<Longrightarrow> rel_ok q \<Longrightarrow> q \<noteq> r \<Longrightarrow> content (snd (fs_tar FS (path_under D r) src f)) q = content f q"
    and "rel_ok r \<Longrightarrow> content (snd (fs_unlink FS (path_under D r) f)) r = None"
    and "rel_ok r \<Longrightarrow> content f r = Some d \<Longrightarrow> fs_stat FS f (path_under D r) = Some (length d)"
  using assms unfolding disk_ok_def by blast+

section \<open>File names with directories\<close>

lemma rel_ok_foldl:
  assumes "\<forall>seg\<in>set segs. CHR ''/'' \<notin> set seg \<and> seg \<noteq> ''..''" and "r = [] \<or> rel_ok r"
  shows "foldl add_segment r segs = [] \<or> rel_ok (foldl add_segment r segs)"
  using assms
proof (induction segs arbitrary: r)
  case (Cons seg segs)
  have "add_segment r seg = [] \<or> rel_ok (add_segment r seg)"
    using Cons.prems rel_ok_name [of seg] by (auto simp: add_segment_def rel_ok_join)
  with Cons show ?case
    by simp
qed simp

lemma sanitize_rel_ok:
  assumes "sanitizeFilename name keep \<noteq> []"
  shows "rel_ok (sanitizeFilename name keep)"
proof (cases keep)
  case False
  then show ?thesis
    using sanitize_basename(1) assms by auto
next
  case True
  let ?name = "dropWhile (\<lambda>c. c = CHR ''/'') (slashes name)"
  have dots: "\<not> sublist ''..'' (slashes name)"
    using assms index_sub_None [of "''..''" "slashes name"]
    by (auto simp: sanitizeFilename_def find_str_def Let_def split: if_splits)
  have part: "sublist ?name (slashes name)"
    by (rule suffix_imp_sublist) (rule suffix_dropWhile)
  have "\<forall>seg\<in>set (path_segments ?name 0). CHR ''/'' \<notin> set seg \<and> seg \<noteq> ''..''"
    using path_segments_inside [of _ ?name 0] part dots sublist_order.order.trans by metis
  from rel_ok_foldl [OF this, of "[]"] assms True show ?thesis
    by (auto simp: sanitizeFilename_def Let_def split: if_splits)
qed

section \<open>What an upload leaves alone\<close>

lemma writeToFile_frame:
  assumes "store_ok FS D content" and "rel_ok r" and "rel_ok q" and "q \<noteq> r"
  shows "content (snd (writeToFile FS (path_under D r) d f)) q = content f q"
proof -
  define f1 where "f1 = (case rfind_char (CHR ''/'') (path_under D r) of
      None \<Rightarrow> f | Some i \<Rightarrow> mkdir_parents FS (substr 0 i (path_under D r)) f)"
  have f1: "content f1 = content f"
    by (simp add: f1_def mkdir_parents_content [OF assms(1)] split: option.split)
  show ?thesis
    using store_okD(4) [OF assms, of d f1] f1
    by (cases "fs_put FS (path_under D r) d f1") (simp add: writeToFile_def f1_def [symmetric] Let_def split: option.splits)
qed

lemma write_files_frame:
  assumes st: "store_ok FS D content" and T: "rel_ok T" and q: "rel_ok q" "\<not> inside T q"
  shows "write_files n FS (path_under D T) dm parts f = Inr (e, f') \<Longrightarrow> content f' q = content f q"
proof (induction parts arbitrary: f)
  case (Cons part parts)
  let ?safe = "sanitizeFilename (mp_filename part) dm"
  show ?case
  proof (cases "?safe = []")
    case True
    then show ?thesis
      using Cons.prems removeDir_frame [OF st q(1) _ T q(2)] by (auto simp: rbind_Inr_iff)
  next
    case False
    let ?file = "T @ CHR ''/'' # ?safe"
    have file_ok: "rel_ok ?file" "q \<noteq> ?file"
      using T sanitize_rel_ok [OF False] q(2) by (auto simp: rel_ok_join inside_def)
    define f1 where "f1 = (if dm then (case rfind_char (CHR ''/'') ?safe of None \<Rightarrow> f
        | Some i \<Rightarrow> mkdir_parents FS (path_under D T @ ''/'' @ substr 0 i ?safe) f) else f)"
    have f1: "content f1 = content f"
      by (simp add: f1_def mkdir_parents_content [OF st] split: option.split)
    obtain ok f2 where w: "writeToFile FS (path_under D ?file) (mp_data part) f1 = (ok, f2)"
      by fastforce
    have f2: "content f2 q = content f q"
      using writeToFile_frame [OF st file_ok(1) q(1) file_ok(2), of "mp_data part" f1] w f1 by simp
    have "(if ok then write_files n FS (path_under D T) dm parts f2
        else rbind (removeDir n FS (path_under D T) f2) (\<lambda>(b, f).
             Inr (Some (500, ''failed to write uploaded file''), f))) = Inr (e, f')"
      using Cons.prems False w by (simp add: Let_def f1_def [symmetric] path_under_join split: if_splits)
    then show ?thesis
      using Cons.IH [of f2] removeDir_frame [OF st q(1) _ T q(2), of n f2] f2
      by (auto simp: rbind_Inr_iff split: if_splits)
  qed
qed simp

text \<open>The paths that the table may name for a code.\<close>

definition payload_names :: "string list" where
  "payload_names = [''payload'', ''payload.tar.gz'']"

definition stored_as :: "string \<Rightarrow> string \<Rightarrow> string \<Rightarrow> bool" where
  "stored_as D cd path \<longleftrightarrow> six_digits cd \<and> (\<exists>s\<in>set payload_names. path = path_under D (cd @ CHR ''/'' # s))"

lemma code_rel_ok:
  assumes "six_digits cd"
  shows "rel_ok cd" and "CHR ''/'' \<notin> set cd" and "s \<in> set payload_names \<or> s = ''meta.json'' \<Longrightarrow> rel_ok (cd @ CHR ''/'' # s)"
proof -
  have nd: "\<not> isdigit (CHR ''/'')" "\<not> isdigit (CHR ''.'')"
    by (simp_all add: isdigit_def code_def)
  show "rel_ok cd" and no_slash: "CHR ''/'' \<notin> set cd"
    using assms nd by (auto simp: six_digits_def intro!: rel_ok_name)
  moreover have "rel_ok ''payload''" "rel_ok ''payload.tar.gz''" "rel_ok ''meta.json''"
    by (intro rel_ok_name; simp)+
  ultimately show "s \<in> set payload_names \<or> s = ''meta.json'' \<Longrightarrow> rel_ok (cd @ CHR ''/'' # s)"
    by (auto simp: rel_ok_join payload_names_def)
qed

lemma store_payload_frame:
  assumes disk: "disk_ok FS D content" and T: "rel_ok T" and cd: "six_digits cd"
    and q: "rel_ok q" "\<not> inside T q" "\<not> inside cd q"
    and safe: "mode = ''files'' \<Longrightarrow> \<forall>part\<in>set (uf_files u). sanitizeFilename (mp_filename part) False \<noteq> []"
    and run: "store_payload n FS (path_under D T) (path_under D cd) mode u f = Inr (stored, f')"
  shows "content f' q = content f q"
proof -
  note st = disk_okD(1) [OF disk]
  have clean: "content f' q = content f1 q"
    if "rbind (removeDir n FS (path_under D T) f1) (\<lambda>(b, f2).
        rbind (removeDir n FS (path_under D cd) f2) (\<lambda>(b, f3). Inr (e, f3))) = Inr (stored, f')"
    for f1 and e :: "(int \<times> string) + (string \<times> nat)"
    using that removeDir_frame [OF st q(1) _ T q(2)] removeDir_frame [OF st q(1) _ code_rel_ok(1) [OF cd] q(3)]
    by (fastforce simp: rbind_Inr_iff)
  have apart: "q \<noteq> cd @ CHR ''/'' # s" for s
    using q(3) inside_below [of cd s] by auto
  show ?thesis
  proof (cases "mode = ''files'' \<and> length (uf_files u) = 1")
    case True
    let ?safe = "sanitizeFilename (mp_filename (hd (uf_files u))) False"
    let ?file = "T @ CHR ''/'' # ?safe" and ?to = "cd @ CHR ''/'' # ''payload''"
    obtain ok f1 where mv: "fs_rename FS (path_under D ?file) (path_under D ?to) f = (ok, f1)"
      by fastforce
    have "uf_files u \<noteq> []"
      using True by auto
    then have "?safe \<noteq> []"
      using safe True by simp
    then have "rel_ok ?file" "rel_ok ?to" "q \<noteq> ?file"
      using T sanitize_rel_ok code_rel_ok(3) [OF cd] q(2) inside_below
      by (auto simp: rel_ok_join payload_names_def)
    then have "content f1 q = content f q"
      using store_okD(7) [OF st _ _ q(1), of ?file ?to f] apart mv by simp
    with run True mv clean [of f1] show ?thesis
      by (auto simp: store_payload_def Let_def path_under_join split: if_splits)
  next
    case False
    let ?to = "cd @ CHR ''/'' # ''payload.tar.gz''"
    obtain status f1 where tar: "fs_tar FS (path_under D ?to) (path_under D T) f = (status, f1)"
      by fastforce
    have "content f1 q = content f q"
      using disk_okD(2) [OF disk _ q(1) apart, of "''payload.tar.gz''" "path_under D T" f] code_rel_ok(3) [OF cd] tar
      by (simp add: payload_names_def)
    with run False tar clean [of f1] show ?thesis
      by (auto simp: store_payload_def createTarGz_def Let_def path_under_join split: if_splits)
  qed
qed

lemma store_payload_path:
  assumes "six_digits cd" and "store_payload n FS tmp (path_under D cd) mode u f = Inr (Inr (path, sz), f')"
  shows "stored_as D cd path"
  using assms
  by (auto simp: store_payload_def Let_def rbind_Inr_iff stored_as_def payload_names_def path_under_def
      split: if_splits prod.splits)

lemma write_files_names:
  "write_files n FS tmp dm parts f = Inr (None, f') \<Longrightarrow> \<forall>part\<in>set parts. sanitizeFilename (mp_filename part) dm \<noteq> []"
proof (induction parts arbitrary: f)
  case (Cons part parts)
  then show ?case
    by (auto simp: Let_def rbind_Inr_iff split: if_splits prod.splits)
qed simp

text \<open>
  The stages of an upload after its temporary directory: it ends with an error after the files,
  after the directory of the code, or after the payload; or it is stored.
\<close>

lemma store_upload_stages:
  assumes up: "store_upload n FS I tmp u resp (S, f) = Inr (resp', S', f')"
    and draws: "\<forall>d\<in>set (ui_draws I). d < 1000000"
  obtains (files) f1 where "S' = S" "write_files n FS tmp (upload_mode u = ''directory'') (uf_files u) f = Inr (Some f1, f')"
  | (dir) f1 cd f2 b where "S' = S" "write_files n FS tmp (upload_mode u = ''directory'') (uf_files u) f = Inr (None, f1)"
      "f2 = snd (fs_mkdir FS (ez_storageDir S @ ''/'' @ cd) f1)" "removeDir n FS tmp f2 = Inr (b, f')"
  | (payload) f1 cd f2 e where "S' = S" "write_files n FS tmp (upload_mode u = ''directory'') (uf_files u) f = Inr (None, f1)"
      "map_of (codes S) cd = None" "six_digits cd"
      "f2 = snd (fs_mkdir FS (ez_storageDir S @ ''/'' @ cd) f1)"
      "store_payload n FS tmp (ez_storageDir S @ ''/'' @ cd) (upload_mode u) u f2 = Inr (Inl e, f')"
  | (stored) f1 cd f2 m f3 json b where "write_files n FS tmp (upload_mode u = ''directory'') (uf_files u) f = Inr (None, f1)"
      "map_of (codes S) cd = None" "six_digits cd"
      "f2 = snd (fs_mkdir FS (ez_storageDir S @ ''/'' @ cd) f1)"
      "store_payload n FS tmp (ez_storageDir S @ ''/'' @ cd) (upload_mode u) u f2
        = Inr (Inr (fm_storagePath m, fm_fileSize m), f3)"
      "removeDir n FS tmp (snd (fs_put FS (ez_storageDir S @ ''/'' @ cd @ ''/meta.json'') json f3)) = Inr (b, f')"
      "S' = with_upload cd m S" "fm_code m = cd" "fm_expireAt m = ui_now I + uf_expire u * 60 * 1000"
      "fm_downloadCount m = 0" "generateCode (ui_draws I) (codes S) = Inr cd"
proof -
  let ?mode = "upload_mode u"
  let ?name = "display_name ?mode (uf_files u)"
  from up obtain err f1 where w: "write_files n FS tmp (?mode = ''directory'') (uf_files u) f = Inr (err, f1)"
    by (auto simp: store_upload_def Let_def rbind_Inr_iff)
  show thesis
  proof (cases err)
    case (Some e)
    with up w show thesis
      by (intro files [of e]) (auto simp: store_upload_def Let_def)
  next
    case None
    from up w None obtain cd where g: "generateCode (ui_draws I) (codes S) = Inr cd"
      by (auto simp: store_upload_def Let_def rbind_Inr_iff)
    note cd = generateCode_fresh [OF g draws]
    let ?dir = "ez_storageDir S @ ''/'' @ cd"
    obtain ok f2 where mk: "fs_mkdir FS ?dir f1 = (ok, f2)"
      by fastforce
    show thesis
    proof (cases ok)
      case False
      with up w None g mk show thesis
        by (auto simp: store_upload_def Let_def rbind_Inr_iff intro: dir [of f1 f2 cd])
    next
      case True
      with up w None g mk obtain st f3 where st: "store_payload n FS tmp ?dir ?mode u f2 = Inr (st, f3)"
        by (auto simp: store_upload_def Let_def rbind_Inr_iff)
      show thesis
      proof (cases st)
        case (Inl e)
        with up w None g mk True st cd show thesis
          by (intro payload [of f1 cd f2 e]) (auto simp: store_upload_def Let_def)
      next
        case (Inr sp)
        obtain path sz where sp: "sp = (path, sz)"
          by (cases sp)
        let ?at = "ui_now I + uf_expire u * 60 * 1000"
        define m where "m = \<lparr>fm_code = cd, fm_storagePath = path, fm_originalName = ?name, fm_fileSize = sz,
            fm_expireAt = ?at, fm_downloadCount = 0\<rparr>"
        obtain b where "removeDir n FS tmp (snd (fs_put FS (?dir @ ''/meta.json'') (meta_text cd ?name sz ?at) f3)) = Inr (b, f')"
          and "S' = with_upload cd m S"
          using up w None g mk True st Inr
          by (auto simp: store_upload_def Let_def rbind_Inr_iff sp m_def with_upload_def)
        then show thesis
          using w None mk st Inr sp cd g
          by (intro stored [of f1 cd f2 m f3 "meta_text cd ?name sz ?at" b]) (simp_all add: m_def)
      qed
    qed
  qed
qed

text \<open>Files that no upload may touch: not the temporary ones, not those of a code that is still free.\<close>

definition untouched :: "upload_input \<Rightarrow> ezdrop \<Rightarrow> string \<Rightarrow> bool" where
  "untouched I S q \<longleftrightarrow>
     rel_ok q \<and> \<not> inside (temp_name I) q \<and> (\<forall>cd. map_of (codes S) cd = None \<and> six_digits cd \<longrightarrow> \<not> inside cd q)"

lemma store_upload_frame:
  assumes disk: "disk_ok FS (ez_storageDir S) content"
    and T: "rel_ok (temp_name I)" and draws: "\<forall>d\<in>set (ui_draws I). d < 1000000" and q: "untouched I S q"
    and up: "store_upload n FS I (path_under (ez_storageDir S) (temp_name I)) u resp (S, f) = Inr (resp', S', f')"
  shows "content f' q = content f q"
proof -
  let ?D = "ez_storageDir S" and ?T = "temp_name I"
  note st = disk_okD(1) [OF disk]
  have q': "rel_ok q" "\<not> inside ?T q" and free: "map_of (codes S) cd = None \<Longrightarrow> six_digits cd \<Longrightarrow> \<not> inside cd q" for cd
    using q by (auto simp: untouched_def)
  have dir: "?D @ CHR ''/'' # cd = path_under ?D cd" for cd
    by (simp add: path_under_def)
  note files = write_files_frame [OF st T q', of n "upload_mode u = ''directory''" "uf_files u" f]
  note tmp = removeDir_frame [OF st q'(1) _ T q'(2)]
  have mk: "content (snd (fs_mkdir FS p g)) q = content g q" for p g
    by (simp add: store_okD(1) [OF st])
  have safe: "\<forall>part\<in>set (uf_files u). sanitizeFilename (mp_filename part) False \<noteq> []"
    if "write_files n FS (path_under ?D ?T) (upload_mode u = ''directory'') (uf_files u) f = Inr (None, f1)"
      "upload_mode u = ''files''" for f1
    using write_files_names [OF that(1)] that(2) by simp
  from up draws show ?thesis
  proof (cases rule: store_upload_stages)
    case (files f1)
    then show ?thesis
      using write_files_frame [OF st T q'] by blast
  next
    case (dir f1 cd f2 b)
    then show ?thesis
      using files [of None f1] tmp [of n f2 b f'] mk by simp
  next
    case (payload f1 cd f2 e)
    have "content f' q = content f2 q"
      by (rule store_payload_frame [OF disk T payload(4) q' free [OF payload(3,4)] safe [OF payload(2)]])
        (use payload(6) dir in simp_all)
    then show ?thesis
      using files [of None f1] payload(2,5) mk by simp
  next
    case (stored f1 cd f2 m f3 json b)
    have meta: "rel_ok (cd @ CHR ''/'' # ''meta.json'')" "q \<noteq> cd @ CHR ''/'' # ''meta.json''"
      using code_rel_ok(3) [OF stored(3)] free [OF stored(2,3)] inside_below by auto
    have "content f' q = content f3 q"
      using tmp [OF stored(6)] store_okD(4) [OF st meta(1) q'(1) meta(2), of json f3] by (simp add: path_under_def)
    also have "\<dots> = content f2 q"
      by (rule store_payload_frame [OF disk T stored(3) q' free [OF stored(2,3)] safe [OF stored(1)]])
        (use stored(5) dir in simp_all)
    also have "\<dots> = content f q"
      using files [of None f1] stored(1,4) mk by simp
    finally show ?thesis .
  qed
qed

lemma handleUpload_store:
  assumes "handleUpload n FS I req resp (S, f) = Inr (resp', S', f')"
  obtains "S' = S" "f' = f" | "S' = S" "f' = snd (fs_mkdir FS (path_under (ez_storageDir S) (temp_name I)) f)"
  | u where "1 \<le> uf_expire u" "uf_expire u \<le> 1440"
      "store_upload n FS I (path_under (ez_storageDir S) (temp_name I)) u (setContentType ''application/json'' resp)
        (S, snd (fs_mkdir FS (path_under (ez_storageDir S) (temp_name I)) f)) = Inr (resp', S', f')"
proof -
  have "ez_storageDir S @ ''/tmp_'' @ randomSuffix (ui_suffix I) = path_under (ez_storageDir S) (temp_name I)"
    by (simp add: path_under_def temp_name_def)
  then show thesis
    using assms that scan_parts_expire by (auto simp: handleUpload_def Let_def split: if_splits prod.splits)
qed

lemma handleUpload_frame:
  assumes disk: "disk_ok FS (ez_storageDir S) content"
    and inputs: "\<forall>i\<in>set (ui_suffix I). i < 36" "\<forall>d\<in>set (ui_draws I). d < 1000000" and q: "untouched I S q"
    and up: "handleUpload n FS I req resp (S, f) = Inr (resp', S', f')"
  shows "content f' q = content f q"
proof -
  note mk = store_okD(1) [OF disk_okD(1) [OF disk]]
  from up show ?thesis
    by (cases rule: handleUpload_store)
      (simp_all add: mk store_upload_frame [OF disk temp_name_ok(1) [OF inputs(1)] inputs(2) q])
qed

text \<open>What an upload adds to the table.\<close>

lemma handleUpload_entry:
  assumes up: "handleUpload n FS I req resp (S, f) = Inr (resp', S', f')"
    and draws: "\<forall>d\<in>set (ui_draws I). d < 1000000"
  obtains "S' = S"
  | cd m where "S' = with_upload cd m S" "stored_meta I S cd m" "stored_as (ez_storageDir S) cd (fm_storagePath m)"
      "generateCode (ui_draws I) (codes S) = Inr cd"
  using up
proof (cases rule: handleUpload_store)
  case (3 u)
  from 3(3) draws show thesis
  proof (cases rule: store_upload_stages)
    case (stored f1 cd f2 m f3 json b)
    have "stored_meta I S cd m"
      using stored 3(1,2) by (simp add: stored_meta_def)
    moreover have "stored_as (ez_storageDir S) cd (fm_storagePath m)"
      using store_payload_path [OF stored(3)] stored(5) by (fastforce simp: path_under_def)
    ultimately show thesis
      using stored(7,11) that(2) by blast
  qed (use that(1) in simp_all)
qed (use that(1) in simp_all)

section \<open>Dropping a stored file\<close>

lemma stored_dir:
  assumes "stored_as D cd path"
  shows "\<exists>i. rfind_char (CHR ''/'') path = Some i \<and> substr 0 i path = path_under D cd"
proof -
  obtain s where s: "path = path_under D cd @ CHR ''/'' # s" "CHR ''/'' \<notin> set s"
    using assms by (auto simp: stored_as_def payload_names_def path_under_def)
  then have "rfind_char (CHR ''/'') path = Some (length (path_under D cd))"
    using rfind_char_append [of "CHR ''/''" s "path_under D cd"] by simp
  then show ?thesis
    using s(1) by (simp add: substr_def)
qed

lemma drop_stored_eq:
  assumes "stored_as D cd path"
  shows "drop_stored n FS path f = rbind (removeDir n FS (path_under D cd) (snd (fs_unlink FS path f))) (\<lambda>(b, f2). Inr f2)"
  using stored_dir [OF assms] by (auto simp: drop_stored_def)

lemma stored_as_apart:
  assumes "stored_as D cd path" and "\<not> inside cd q"
  shows "\<exists>r. path = path_under D r \<and> rel_ok r \<and> inside cd r \<and> q \<noteq> r"
  using assms code_rel_ok(3) inside_below unfolding stored_as_def by metis

lemma unlink_stored_frame:
  assumes "disk_ok FS D content" and "stored_as D cd path" and "rel_ok q" and "\<not> inside cd q"
  shows "content (snd (fs_unlink FS path f)) q = content f q"
  using stored_as_apart [OF assms(2,4)] store_okD(5) [OF disk_okD(1) [OF assms(1)] _ assms(3)] by blast

lemma removeDir_code_frame:
  assumes "disk_ok FS D content" and "six_digits cd" and "rel_ok q" and "\<not> inside cd q"
    and "removeDir n FS (path_under D cd) f = Inr (b, f')"
  shows "content f' q = content f q"
  by (rule removeDir_frame [OF disk_okD(1) [OF assms(1)] assms(3,5) code_rel_ok(1) [OF assms(2)] assms(4)])

lemma drop_stored_frame:
  assumes "disk_ok FS D content" and "stored_as D cd path" and "rel_ok q" and "\<not> inside cd q"
    and "drop_stored n FS path f = Inr f'"
  shows "content f' q = content f q"
proof -
  obtain b where "removeDir n FS (path_under D cd) (snd (fs_unlink FS path f)) = Inr (b, f')"
    using assms(5) unfolding drop_stored_eq [OF assms(2)] by (auto simp: rbind_Inr_iff)
  then show ?thesis
    using removeDir_code_frame [OF assms(1) _ assms(3,4)] unlink_stored_frame [OF assms(1-4)] assms(2)
    by (simp add: stored_as_def)
qed

end
