(* ===== verification/EzdropThreads.thy ===== *)
theory EzdropThreads
  imports EzdropFrame
begin

text \<open>
  The two threads of ezdrop (\<^verbatim>\<open>examples/ezdrop/EzdropServer.cpp\<close>): the loop's thread, which runs
  the handlers and at the end the destructor, and the sweeper's thread. They share the table of
  codes under \<^verbatim>\<open>metaMutex_\<close>, the flag \<^verbatim>\<open>running_\<close> and the disk.

  A download holds the mutex only while it looks a code up and while it erases one; the sweeper
  holds it while it collects what has expired, and deletes the files afterwards. Each of these
  sections is a step of its own, and so is each of the sweeper's calls to \<^verbatim>\<open>unlink\<close> and
  \<^verbatim>\<open>removeDir\<close>; an upload is one step, and so is what a download deletes of an expired code.
\<close>

section \<open>A download in its sections\<close>

record download =
  dl_code :: string
  dl_meta :: file_meta
  dl_resp :: http_response
  dl_conn :: "int option"

text \<open>Up to the end of the first critical section: an answer, or the entry that is held.\<close>

definition download_lookup ::
    "http_request \<Rightarrow> http_response \<Rightarrow> int option \<Rightarrow> ezdrop \<Rightarrow> http_response + download" where
  "download_lookup req resp conn S =
     (let code = pathParam ''code'' req in
      if code = [] \<or> length code \<noteq> 6 then Inl (json_error 400 ''invalid code'' resp)
      else if maxConcurrentDownloads S > 0 \<and> activeDownloads S \<ge> maxConcurrentDownloads S then
        Inl (setBody (error_body ''too many concurrent downloads, try again later'')
              (setContentType ''application/json'' (addHeader ''Retry-After'' ''5'' (setStatusCode 503 resp))))
      else case map_of (codes S) code of
        None \<Rightarrow> Inl (json_error 404 ''code not found'' resp)
      | Some m \<Rightarrow> Inr \<lparr>dl_code = code, dl_meta = m, dl_resp = resp, dl_conn = conn\<rparr>)"

text \<open>Without the mutex: the status and message of a refusal, after which the code is erased.\<close>

definition download_check ::
    "nat \<Rightarrow> 'f file_sys \<Rightarrow> int \<Rightarrow> file_meta \<Rightarrow> 'f \<Rightarrow> ((int \<times> string) option \<times> 'f) res" where
  "download_check n FS now m f =
     (if fm_expireAt m < now then
        rbind (drop_stored n FS (fm_storagePath m) f) (\<lambda>f1. Inr (Some (410, ''file expired''), f1))
      else if fs_stat FS f (fm_storagePath m) = None then Inr (Some (404, ''file missing from disk''), f)
      else Inr (None, f))"

definition download_forget :: "string \<Rightarrow> ezdrop \<Rightarrow> ezdrop" where
  "download_forget cd S = S\<lparr>codes := AList.delete cd (codes S)\<rparr>"

text \<open>
  The rest of the handler. The counter is a member of the entry that is held; the table shows
  it if it still has the entry.
\<close>

definition count_entry :: "string \<Rightarrow> ezdrop \<Rightarrow> ezdrop" where
  "count_entry cd S =
     S\<lparr>codes := AList.map_entry cd (\<lambda>m. m\<lparr>fm_downloadCount := fm_downloadCount m + 1\<rparr>) (codes S)\<rparr>"

definition download_deliver :: "'f file_sys \<Rightarrow> download \<Rightarrow> ezdrop \<times> 'f \<Rightarrow> http_response \<times> ezdrop" where
  "download_deliver FS d w =
     (let (S, f) = w; m = dl_meta d;
          resp1 = addHeader ''Content-Disposition'' (''attachment; filename='' @ quoted (fm_originalName m)) (dl_resp d)
      in (snd (setFile (fs_stat FS f) (fm_storagePath m) resp1),
          count_entry (dl_code d) (start_download (dl_conn d) m S)))"

definition download_in_sections ::
    "nat \<Rightarrow> 'f file_sys \<Rightarrow> int \<Rightarrow> http_request \<Rightarrow> http_response \<Rightarrow> int option \<Rightarrow> ezdrop \<times> 'f
     \<Rightarrow> (http_response \<times> ezdrop \<times> 'f) res" where
  "download_in_sections n FS now req resp conn w =
     (let (S, f) = w in
      case download_lookup req resp conn S of
        Inl r \<Rightarrow> Inr (r, S, f)
      | Inr d \<Rightarrow>
          rbind (download_check n FS now (dl_meta d) f) (\<lambda>(refusal, f1).
          case refusal of
            Some (status, msg) \<Rightarrow> Inr (json_error status msg (dl_resp d), download_forget (dl_code d) S, f1)
          | None \<Rightarrow> (let (r, S1) = download_deliver FS d (S, f1) in Inr (r, S1, f1))))"

text \<open>The critical section of a sweep: the paths of what has expired, and the table without them.\<close>

definition sweep_collect :: "int \<Rightarrow> ezdrop \<Rightarrow> string list \<times> ezdrop" where
  "sweep_collect now S =
     (map (\<lambda>(c, m). fm_storagePath m) (filter (\<lambda>(c, m). fm_expireAt m < now) (codes S)),
      S\<lparr>codes := filter (\<lambda>(c, m). \<not> fm_expireAt m < now) (codes S)\<rparr>)"

section \<open>The two threads\<close>

datatype loop_pc = Serving | Holding download | Refusing download "int \<times> string" | Delivering download
  | Ended | Destroyed

datatype sweep_pc = Sleeping | Unlinking "string list" | Emptying string "string list" | Quit

record 'f service =
  ez :: ezdrop
  disk :: 'f
  loop_pc :: loop_pc
  sweep_pc :: sweep_pc
  running_flag :: bool

definition service_start :: "ezdrop \<Rightarrow> 'f \<Rightarrow> 'f service" where
  "service_start S f = \<lparr>ez = S, disk = f, loop_pc = Serving, sweep_pc = Sleeping, running_flag = True\<rparr>"

text \<open>After \<^verbatim>\<open>unlink\<close> of a path the sweeper goes on with its directory, if the path has one.\<close>

definition after_unlink :: "string \<Rightarrow> string list \<Rightarrow> sweep_pc" where
  "after_unlink path paths =
     (case rfind_char (CHR ''/'') path of
        None \<Rightarrow> Unlinking paths
      | Some lastSlash \<Rightarrow> Emptying (substr 0 lastSlash path) paths)"

text \<open>
  The steps, labelled with the time that the step reads (any time if it reads none) and the
  answer it gives, if any. \<open>Shutdown\<close> is the beginning of the destructor, \<open>Cleanup\<close> what it
  does once it has joined the sweeper.
\<close>

inductive thread_step ::
    "nat \<Rightarrow> 'f file_sys \<Rightarrow> 'f service \<Rightarrow> int \<times> http_response option \<Rightarrow> 'f service \<Rightarrow> bool" for n FS where
  Uploads: "loop_pc w = Serving \<Longrightarrow> \<forall>d\<in>set (ui_draws I). d < 1000000 \<Longrightarrow> \<forall>i\<in>set (ui_suffix I). i < 36 \<Longrightarrow>
    handleUpload n FS I req resp (ez w, disk w) = Inr (r, S, f) \<Longrightarrow>
    thread_step n FS w (ui_now I, Some r) (w\<lparr>ez := S, disk := f\<rparr>)"
| LookupFails: "loop_pc w = Serving \<Longrightarrow> download_lookup req resp conn (ez w) = Inl r \<Longrightarrow>
    thread_step n FS w (now, Some r) w"
| Looks: "loop_pc w = Serving \<Longrightarrow> download_lookup req resp conn (ez w) = Inr d \<Longrightarrow>
    thread_step n FS w (now, None) (w\<lparr>loop_pc := Holding d\<rparr>)"
| Checks: "loop_pc w = Holding d \<Longrightarrow> download_check n FS now (dl_meta d) (disk w) = Inr (refusal, f) \<Longrightarrow>
    thread_step n FS w (now, None)
      (w\<lparr>disk := f, loop_pc := (case refusal of Some e \<Rightarrow> Refusing d e | None \<Rightarrow> Delivering d)\<rparr>)"
| Refuses: "loop_pc w = Refusing d (status, msg) \<Longrightarrow>
    thread_step n FS w (now, Some (json_error status msg (dl_resp d)))
      (w\<lparr>ez := download_forget (dl_code d) (ez w), loop_pc := Serving\<rparr>)"
| Delivers: "loop_pc w = Delivering d \<Longrightarrow> download_deliver FS d (ez w, disk w) = (r, S) \<Longrightarrow>
    thread_step n FS w (now, Some r) (w\<lparr>ez := S, loop_pc := Serving\<rparr>)"
| Completes: "loop_pc w = Serving \<Longrightarrow>
    thread_step n FS w (now, None) (w\<lparr>ez := onWriteComplete conn (ez w)\<rparr>)"
| Collects: "sweep_pc w = Sleeping \<Longrightarrow> running_flag w \<Longrightarrow> sweep_collect now (ez w) = (paths, S) \<Longrightarrow>
    thread_step n FS w (now, None) (w\<lparr>ez := S, sweep_pc := Unlinking paths\<rparr>)"
| Unlinks: "sweep_pc w = Unlinking (path # paths) \<Longrightarrow>
    thread_step n FS w (now, None)
      (w\<lparr>disk := snd (fs_unlink FS path (disk w)), sweep_pc := after_unlink path paths\<rparr>)"
| Empties: "sweep_pc w = Emptying dir paths \<Longrightarrow> removeDir n FS dir (disk w) = Inr (b, f) \<Longrightarrow>
    thread_step n FS w (now, None) (w\<lparr>disk := f, sweep_pc := Unlinking paths\<rparr>)"
| Sleeps: "sweep_pc w = Unlinking [] \<Longrightarrow> thread_step n FS w (now, None) (w\<lparr>sweep_pc := Sleeping\<rparr>)"
| Quits: "sweep_pc w = Sleeping \<Longrightarrow> \<not> running_flag w \<Longrightarrow> thread_step n FS w (now, None) (w\<lparr>sweep_pc := Quit\<rparr>)"
| Shutdown: "loop_pc w = Serving \<Longrightarrow>
    thread_step n FS w (now, None) (w\<lparr>loop_pc := Ended, running_flag := False\<rparr>)"
| Cleanup: "loop_pc w = Ended \<Longrightarrow> sweep_pc w = Quit \<Longrightarrow> ezdrop_destroy n FS (ez w, disk w) = Inr (S, f) \<Longrightarrow>
    thread_step n FS w (now, None) (w\<lparr>ez := S, disk := f, loop_pc := Destroyed\<rparr>)"

inductive thread_run ::
    "nat \<Rightarrow> 'f file_sys \<Rightarrow> 'f service \<Rightarrow> (int \<times> http_response option) list \<Rightarrow> 'f service \<Rightarrow> bool" for n FS where
  Stays: "thread_run n FS w [] w"
| Goes: "thread_run n FS w ls w1 \<Longrightarrow> thread_step n FS w1 l w2 \<Longrightarrow> thread_run n FS w (ls @ [l]) w2"

lemma thread_run_step: "thread_step n FS w l w' \<Longrightarrow> thread_run n FS w [l] w'"
  using thread_run.Goes [OF thread_run.Stays] by fastforce

lemma thread_run_trans: "thread_run n FS w1 ls' w2 \<Longrightarrow> thread_run n FS w ls w1 \<Longrightarrow> thread_run n FS w (ls @ ls') w2"
proof (induction rule: thread_run.induct)
  case (Goes w1 ls' w2 l w3)
  then show ?case
    using thread_run.Goes [of n FS w "ls @ ls'" w2 l w3] by simp
qed simp

section \<open>Without interference\<close>

lemma map_entry_update: "map_of xs k = Some m \<Longrightarrow> AList.map_entry k g xs = AList.update k (g m) xs"
  by (induction xs) auto


section \<open>What the threads hold\<close>

lemma stored_as_unique:
  assumes "stored_as D c p" and "stored_as D c' p"
  shows "c = c'"
proof -
  from assms obtain s s' where "c @ CHR ''/'' # s = c' @ CHR ''/'' # s'" "length c = length c'"
    by (auto simp: stored_as_def path_under_def six_digits_def)
  then show ?thesis
    by (simp add: append_eq_append_conv)
qed

lemma codes_apart:
  assumes "six_digits c" and "six_digits c'" and "inside c' (c @ CHR ''/'' # s)"
  shows "c = c'"
proof -
  have len: "length c = length c'"
    using assms(1,2) by (simp add: six_digits_def)
  from assms(3) obtain t where "c @ CHR ''/'' # s = c' @ t"
    by (auto simp: inside_def prefix_def)
  with len show ?thesis
    by (simp add: append_eq_append_conv)
qed

text \<open>Codes whose files the sweeper is about to delete.\<close>

fun sweeps :: "string \<Rightarrow> string \<Rightarrow> sweep_pc \<Rightarrow> bool" where
  "sweeps D c (Unlinking paths) \<longleftrightarrow> (\<exists>p\<in>set paths. stored_as D c p)"
| "sweeps D c (Emptying dir paths) \<longleftrightarrow> six_digits c \<and> dir = path_under D c \<or> (\<exists>p\<in>set paths. stored_as D c p)"
| "sweeps D c _ \<longleftrightarrow> False"

fun sweep_ok :: "string \<Rightarrow> sweep_pc \<Rightarrow> bool" where
  "sweep_ok D (Unlinking paths) \<longleftrightarrow> (\<forall>p\<in>set paths. \<exists>c. stored_as D c p)"
| "sweep_ok D (Emptying dir paths) \<longleftrightarrow>
     (\<exists>c. six_digits c \<and> dir = path_under D c) \<and> (\<forall>p\<in>set paths. \<exists>c. stored_as D c p)"
| "sweep_ok D _ \<longleftrightarrow> True"

fun held_by :: "loop_pc \<Rightarrow> download option" where
  "held_by (Holding d) = Some d"
| "held_by (Refusing d e) = Some d"
| "held_by (Delivering d) = Some d"
| "held_by _ = None"

definition service_ok :: "string \<Rightarrow> 'f service \<Rightarrow> bool" where
  "service_ok D w \<longleftrightarrow>
     ez_storageDir (ez w) = D \<and> distinct (map fst (codes (ez w)))
     \<and> (\<forall>(c, m)\<in>set (codes (ez w)). stored_as D c (fm_storagePath m))
     \<and> sweep_ok D (sweep_pc w)
     \<and> (\<forall>d. held_by (loop_pc w) = Some d \<longrightarrow> stored_as D (dl_code d) (fm_storagePath (dl_meta d)))"

lemma service_okD:
  assumes "service_ok D w"
  shows "ez_storageDir (ez w) = D" and "distinct (map fst (codes (ez w)))"
    and "map_of (codes (ez w)) c = Some m \<Longrightarrow> stored_as D c (fm_storagePath m)"
    and "sweep_ok D (sweep_pc w)"
    and "held_by (loop_pc w) = Some d \<Longrightarrow> stored_as D (dl_code d) (fm_storagePath (dl_meta d))"
  using assms by (auto simp: service_ok_def dest: map_of_SomeD)

lemma service_start_ok: "codes S = [] \<Longrightarrow> service_ok (ez_storageDir S) (service_start S f)"
  by (simp add: service_ok_def service_start_def)

lemma onWriteComplete_codes [simp]:
  "codes (onWriteComplete conn S) = codes S" "ez_storageDir (onWriteComplete conn S) = ez_storageDir S"
  by (auto simp: onWriteComplete_def split: option.split)

lemma start_download_codes [simp]:
  "codes (start_download conn m S) = codes S" "ez_storageDir (start_download conn m S) = ez_storageDir S"
  by (auto simp: start_download_def split: option.split)

lemma map_entry_shape:
  "map fst (AList.map_entry k g xs) = map fst xs"
  "map_of (AList.map_entry k g xs) k' = (if k' = k then map_option g (map_of xs k) else map_of xs k')"
  by (induction xs) auto

lemma set_map_entry: "(c, m) \<in> set (AList.map_entry k g xs) \<Longrightarrow> (c, m) \<in> set xs \<or> (\<exists>m'. (c, m') \<in> set xs \<and> m = g m')"
  by (induction xs) (auto split: if_splits)

lemma download_lookup_Inr:
  "download_lookup req resp conn S = Inr d \<Longrightarrow> map_of (codes S) (dl_code d) = Some (dl_meta d)"
  by (auto simp: download_lookup_def Let_def split: if_splits option.splits)

lemma download_deliver_ez:
  "download_deliver FS d (S, f) = (r, S') \<Longrightarrow> S' = count_entry (dl_code d) (start_download (dl_conn d) (dl_meta d) S)"
  by (simp add: download_deliver_def Let_def)

lemma service_ok_step:
  assumes "thread_step n FS w l w'" and ok: "service_ok D w"
  shows "service_ok D w'"
  using assms(1)
proof cases
  case (Uploads I req resp r S f)
  from Uploads(6,4) show ?thesis
  proof (cases rule: handleUpload_entry)
    case 1
    with Uploads ok show ?thesis
      by (simp add: service_ok_def)
  next
    case (2 cd m)
    then show ?thesis
      using Uploads ok AList_update_set [of cd m "codes (ez w)"] by (auto simp: service_ok_def with_upload_def distinct_update)
  qed
next
  case (Looks req resp conn d now)
  then show ?thesis
    using ok service_okD(3) [OF ok download_lookup_Inr [OF Looks(4)]] by (simp add: service_ok_def)
next
  case (Checks d now refusal f)
  then show ?thesis
    using ok by (auto simp: service_ok_def split: option.split)
next
  case (Refuses d status msg now)
  have "set (AList.delete (dl_code d) (codes (ez w))) \<subseteq> set (codes (ez w))"
    by (auto simp: AList.delete_eq)
  then show ?thesis
    using Refuses ok by (auto simp: service_ok_def download_forget_def distinct_delete)
next
  case (Delivers d r S now)
  have "stored_as D c (fm_storagePath m)"
    if "(c, m) \<in> set (AList.map_entry (dl_code d) (\<lambda>m. m\<lparr>fm_downloadCount := fm_downloadCount m + 1\<rparr>) (codes (ez w)))" for c m
    using set_map_entry [OF that] ok by (auto simp: service_ok_def)
  then show ?thesis
    using Delivers ok download_deliver_ez [OF Delivers(4)]
    by (auto simp: service_ok_def count_entry_def map_entry_shape)
next
  case (Collects now paths S)
  then show ?thesis
    using ok by (fastforce simp: service_ok_def sweep_collect_def distinct_map_filter)
next
  case (Unlinks path paths now)
  have "\<exists>c. stored_as D c path"
    using service_okD(4) [OF ok] Unlinks(3) by simp
  then obtain c where c: "stored_as D c path" ..
  then show ?thesis
    using stored_dir [OF c] Unlinks ok by (auto simp: service_ok_def after_unlink_def stored_as_def)
next
  case (Cleanup S f now)
  then show ?thesis
    using ok by (auto simp: service_ok_def ezdrop_destroy_def rbind_Inr_iff)
qed (use ok in \<open>simp_all add: service_ok_def\<close>)

lemma service_ok_run: "thread_run n FS w ls w' \<Longrightarrow> service_ok D w \<Longrightarrow> service_ok D w'"
  by (induction rule: thread_run.induct) (simp_all add: service_ok_step)

section \<open>An uploaded file survives\<close>

text \<open>
  The file \<open>q\<close> of the entry \<open>m\<close> of code \<open>c\<close> is kept: the table has the entry, up to its counter,
  the disk has the bytes, the sweeper is not about to delete them, and a download that holds
  the code holds this entry and does not refuse it.
\<close>

definition counted :: "file_meta \<Rightarrow> file_meta \<Rightarrow> bool" where
  "counted m m' \<longleftrightarrow> (\<exists>k. m' = m\<lparr>fm_downloadCount := k\<rparr>)"

definition kept :: "string \<Rightarrow> ('f \<Rightarrow> string \<Rightarrow> string option) \<Rightarrow> string \<Rightarrow> file_meta \<Rightarrow> string \<Rightarrow> string \<Rightarrow> 'f service \<Rightarrow> bool" where
  "kept D content c m q data w \<longleftrightarrow>
     (\<exists>m'. map_of (codes (ez w)) c = Some m' \<and> counted m m')
     \<and> content (disk w) q = Some data \<and> \<not> sweeps D c (sweep_pc w)
     \<and> (\<forall>d. held_by (loop_pc w) = Some d \<and> dl_code d = c \<longrightarrow> counted m (dl_meta d) \<and> (\<forall>e. loop_pc w \<noteq> Refusing d e))"

lemma counted_fields:
  assumes "counted m m'"
  shows "fm_storagePath m' = fm_storagePath m" "fm_expireAt m' = fm_expireAt m" "fm_originalName m' = fm_originalName m"
    "fm_fileSize m' = fm_fileSize m" "counted m (m'\<lparr>fm_downloadCount := k\<rparr>)"
  using assms by (auto simp: counted_def)

lemma stored_file:
  assumes "stored_as D c (path_under D q)"
  shows "rel_ok q" and "six_digits c" and "six_digits c' \<Longrightarrow> c' \<noteq> c \<Longrightarrow> \<not> inside c' q"
    and "\<forall>i\<in>set (ui_suffix I). i < 36 \<Longrightarrow> \<not> inside (temp_name I) q"
proof -
  obtain s where s: "s \<in> set payload_names" "q = c @ CHR ''/'' # s" and c: "six_digits c"
    using assms by (auto simp: stored_as_def path_under_def)
  then show "rel_ok q" "six_digits c"
    using code_rel_ok(3) by blast+
  show "six_digits c' \<Longrightarrow> c' \<noteq> c \<Longrightarrow> \<not> inside c' q"
    using codes_apart [OF c] s(2) by blast
  show "\<forall>i\<in>set (ui_suffix I). i < 36 \<Longrightarrow> \<not> inside (temp_name I) q"
    using code_path_ok(3) [OF c] s(2) by simp
qed

lemma expired_other:
  assumes "service_ok D w" and "kept D content c m q data w" and "(c', m') \<in> set (codes (ez w))"
    and "fm_expireAt m' < now" and "now \<le> fm_expireAt m"
  shows "c' \<noteq> c"
proof
  assume "c' = c"
  then have "map_of (codes (ez w)) c = Some m'"
    using service_okD(2) [OF assms(1)] assms(3) by simp
  then have "fm_expireAt m' = fm_expireAt m"
    using assms(2) counted_fields(2) by (auto simp: kept_def)
  with assms(4,5) show False
    by simp
qed

lemma kept_step:
  assumes disk: "disk_ok FS D content" and stored: "stored_as D c (path_under D q)" and path: "fm_storagePath m = path_under D q"
    and step: "thread_step n FS w l w'" and time: "fst l \<le> fm_expireAt m" and ok: "service_ok D w"
    and kept: "kept D content c m q data w" and alive: "loop_pc w' \<noteq> Destroyed"
  shows "kept D content c m q data w'"
proof -
  note sf = stored_file [OF stored] and keptD = kept [unfolded kept_def]
  obtain m' where m': "map_of (codes (ez w)) c = Some m'" "counted m m'"
    using keptD by blast
  from step show ?thesis
  proof cases
    case (Uploads I req resp r S f)
    have "untouched I (ez w) q"
      using sf(1,4) sf(3) m'(1) Uploads(5) by (fastforce simp: untouched_def)
    then have "content f q = content (disk w) q"
      using handleUpload_frame [OF _ Uploads(5,4) _ Uploads(6)] disk service_okD(1) [OF ok] by simp
    moreover have "map_of (codes S) c = map_of (codes (ez w)) c"
      using Uploads(6,4)
    proof (cases rule: handleUpload_entry)
      case (2 cd m2)
      then have "cd \<noteq> c"
        using m'(1) by (auto simp: stored_meta_def)
      then show ?thesis
        by (simp add: 2(1) with_upload_def AList_update_lookup)
    qed simp
    ultimately show ?thesis
      using kept Uploads by (simp add: kept_def)
  next
    case (Looks req resp conn d now)
    then show ?thesis
      using kept download_lookup_Inr [OF Looks(4)] by (auto simp: kept_def)
  next
    case (Checks d now refusal f)
    have d: "held_by (loop_pc w) = Some d" "stored_as D (dl_code d) (fm_storagePath (dl_meta d))"
      using Checks(3) service_okD(5) [OF ok] by simp_all
    show ?thesis
    proof (cases "dl_code d = c")
      case True
      then have same: "counted m (dl_meta d)"
        using keptD d(1) by blast
      have "fs_stat FS (disk w) (fm_storagePath m) = Some (length data)"
        using disk_okD(4) [OF disk sf(1)] keptD path by simp
      then have "refusal = None" "f = disk w"
        using Checks(4) counted_fields(1,2) [OF same] time Checks(1) by (auto simp: download_check_def)
      then show ?thesis
        using kept Checks same by (auto simp: kept_def)
    next
      case False
      have "content f q = content (disk w) q"
        using Checks(4) drop_stored_frame [OF disk d(2) sf(1) sf(3) [OF _ False]] d(2)
        by (auto simp: download_check_def rbind_Inr_iff stored_as_def split: if_splits)
      then show ?thesis
        using kept Checks False by (auto simp: kept_def split: option.split)
    qed
  next
    case (Refuses d status msg now)
    then have "dl_code d \<noteq> c"
      using keptD by auto
    then show ?thesis
      using kept Refuses by (auto simp: kept_def download_forget_def delete_conv')
  next
    case (Delivers d r S now)
    then show ?thesis
      using kept download_deliver_ez [OF Delivers(4)] counted_fields(5)
      by (auto simp: kept_def count_entry_def map_entry_shape)
  next
    case (Collects now paths S)
    have "map_of (codes S) c = Some m'"
      using Collects(5) map_of_filter_value [OF service_okD(2) [OF ok], of "\<lambda>m. \<not> fm_expireAt m < now" c] m'
        counted_fields(2) [OF m'(2)] time Collects(1) by (auto simp: sweep_collect_def)
    moreover have "\<not> sweeps D c (Unlinking paths)"
    proof
      assume "sweeps D c (Unlinking paths)"
      then obtain c' m'' where e: "(c', m'') \<in> set (codes (ez w))" "fm_expireAt m'' < now" "stored_as D c (fm_storagePath m'')"
        using Collects(5) by (auto simp: sweep_collect_def)
      then have "c' = c"
        using service_okD(3) [OF ok, of c' m''] service_okD(2) [OF ok] stored_as_unique by (metis map_of_is_SomeI)
      with expired_other [OF ok kept e(1,2)] time Collects(1) show False
        by simp
    qed
    ultimately show ?thesis
      using kept Collects m'(2) by (auto simp: kept_def sweep_collect_def)
  next
    case (Unlinks p paths now)
    obtain c' where c': "stored_as D c' p"
      using service_okD(4) [OF ok] Unlinks(3) by auto
    then have other: "c' \<noteq> c" and digits: "six_digits c'"
      using keptD Unlinks(3) by (auto simp: stored_as_def)
    then have "content (snd (fs_unlink FS p (disk w))) q = content (disk w) q"
      using unlink_stored_frame [OF disk c' sf(1) sf(3)] by blast
    moreover have "\<not> sweeps D c (after_unlink p paths)"
      using stored_dir [OF c'] keptD Unlinks(3) other by (auto simp: after_unlink_def path_under_def)
    ultimately show ?thesis
      using kept Unlinks by (simp add: kept_def)
  next
    case (Empties dir paths b f now)
    obtain c' where c': "six_digits c'" "dir = path_under D c'"
      using service_okD(4) [OF ok] Empties(3) by auto
    then have "c' \<noteq> c"
      using keptD Empties(3) sf(2) by auto
    then have "content f q = content (disk w) q"
      using removeDir_code_frame [OF disk c'(1) sf(1) sf(3)] Empties(4) c' by blast
    then show ?thesis
      using kept Empties by (auto simp: kept_def)
  qed (use kept alive in \<open>simp_all add: kept_def\<close>)
qed

lemma destroyed_stays: "thread_step n FS w l w' \<Longrightarrow> loop_pc w = Destroyed \<Longrightarrow> loop_pc w' = Destroyed"
  by (induction rule: thread_step.induct) simp_all

lemma kept_run:
  assumes "disk_ok FS D content" and "stored_as D c (path_under D q)" and "fm_storagePath m = path_under D q"
  shows "thread_run n FS w ls w' \<Longrightarrow> \<forall>l\<in>set ls. fst l \<le> fm_expireAt m \<Longrightarrow> service_ok D w \<Longrightarrow>
    kept D content c m q data w \<Longrightarrow> loop_pc w' \<noteq> Destroyed \<Longrightarrow> kept D content c m q data w'"
proof (induction rule: thread_run.induct)
  case (Goes w ls w1 l w2)
  have "loop_pc w1 \<noteq> Destroyed"
    using Goes.hyps(2) Goes.prems(4) destroyed_stays by blast
  then show ?case
    using Goes kept_step [OF assms, of n w1 l w2] service_ok_run [OF Goes.hyps(1)] by simp
qed

lemma generateCode_drawn: "generateCode draws table = Inr cd \<Longrightarrow> cd \<in> code_of_draw ` set draws"
  by (induction draws table rule: generateCode.induct) (auto split: if_splits)

lemma kept_downloadable:
  assumes "disk_ok FS D content" and "stored_as D c (path_under D q)" and "fm_storagePath m = path_under D q"
    and "kept D content c m q data w" and "pathParam ''code'' req = c" and "now \<le> fm_expireAt m"
    and "maxConcurrentDownloads (ez w) \<le> 0 \<or> activeDownloads (ez w) < maxConcurrentDownloads (ez w)"
  shows "\<exists>r S. handleDownload n FS now req response_new conn (ez w, disk w) = Inr (r, S, disk w)
    \<and> file_answer m (length data) r"
proof -
  obtain m' where m': "map_of (codes (ez w)) c = Some m'" "counted m m'"
    using assms(4) by (auto simp: kept_def)
  note same = counted_fields [OF m'(2)]
  have "fs_stat FS (disk w) (path_under D q) = Some (length data)"
    using disk_okD(4) [OF assms(1) stored_file(1) [OF assms(2)]] assms(4) by (simp add: kept_def)
  then have "downloadable FS now req (ez w, disk w) m' (length data)"
    using assms(3,5-7) m'(1) same stored_file(2) [OF assms(2)] by (simp add: downloadable_def six_digits_def)
  from handleDownload_starts [OF this, of n conn] same show ?thesis
    by (auto simp: file_answer_def)
qed


section \<open>Where the threads race\<close>

lemma unlink_none:
  assumes "disk_ok FS D content" and "rel_ok s" and "rel_ok q" and "content f q = None"
  shows "content (snd (fs_unlink FS (path_under D s) f)) q = None"
  using disk_okD(3) [OF assms(1,2)] store_okD(5) [OF disk_okD(1) [OF assms(1)] assms(2,3)] assms(4) by (cases "q = s") auto

text \<open>What is gone stays gone when directories are removed.\<close>

lemma removeDir_none:
  assumes "disk_ok FS D content" and "rel_ok q" and "removeDir n FS (path_under D r) f = Inr (b, f')" and "rel_ok r"
    and "content f q = None"
  shows "content f' q = None"
proof (rule removeDir_preserves [OF disk_okD(1) [OF assms(1)] _ _ assms(3,4), where base = r and P = "\<lambda>g. content g q = None"])
  show "content (snd (fs_unlink FS (path_under D s) g)) q = None" if "rel_ok s" "content g q = None" for s g
    using unlink_none [OF assms(1) that(1) assms(2) that(2)] .
qed (simp_all add: store_okD(2) [OF disk_okD(1) [OF assms(1)]] inside_def assms(5))

lemma drop_stored_none:
  assumes "disk_ok FS D content" and "stored_as D c path" and "rel_ok q" and "drop_stored n FS path f = Inr f'"
    and "content f q = None \<or> path = path_under D q"
  shows "content f' q = None"
proof -
  obtain b where b: "removeDir n FS (path_under D c) (snd (fs_unlink FS path f)) = Inr (b, f')"
    using assms(4) unfolding drop_stored_eq [OF assms(2)] by (auto simp: rbind_Inr_iff)
  obtain s where s: "path = path_under D s" "rel_ok s"
    using assms(2) code_rel_ok(3) by (auto simp: stored_as_def)
  have "content (snd (fs_unlink FS path f)) q = None"
    using assms(5) unlink_none [OF assms(1) s(2) assms(3)] disk_okD(3) [OF assms(1,3)] s(1) by auto
  then show ?thesis
    using removeDir_none [OF assms(1,3) b] assms(2) code_rel_ok(1) by (auto simp: stored_as_def)
qed

text \<open>
  C27: the sweeper can delete a file that has just been uploaded. A download holds the entry of
  an expired code when the sweeper takes the code out of the table; the download deletes the
  files and answers that the file is expired; the code and its directory are free now, so that
  an upload may draw the code again and is answered with 200; then the sweeper goes on and
  deletes what it collected before: the new file is gone, at least a minute before it expires,
  and the table still has its code.
\<close>

theorem sweep_deletes_new_upload:
  assumes "disk_ok FS D content" and "service_ok D w0" and "loop_pc w0 = Serving" and "sweep_pc w0 = Sleeping" and "running_flag w0"
    and "codes (ez w0) = [(c, m0)]" and "fm_storagePath m0 = path_under D (c @ ''/payload'')" and "fm_expireAt m0 < now"
    and "download_lookup req0 resp0 conn (ez w0) = Inr d" and "dl_code d = c"
    and "drop_stored n FS (fm_storagePath m0) (disk w0) = Inr f1"
    and "handleUpload n FS I req response_new ((ez w0)\<lparr>codes := []\<rparr>, f1) = Inr (r, S, f)" and "rs_statusCode r = 200"
    and "ui_draws I = [k]" and "k < 1000000" and "code_of_draw k = c" and "\<forall>i\<in>set (ui_suffix I). i < 36"
    and "\<forall>p g. \<exists>b g'. removeDir n FS p g = Inr (b, g')"
    and "scan_parts (parseMultipart (rq_body req) (extractBoundary (req_header ''content-type'' req))) = u"
    and "upload_mode u = ''files''" and "uf_files u = [part]"
  shows "\<exists>ls w m. thread_run n FS w0 ls w \<and> (\<forall>l\<in>set ls. fst l \<in> {now, ui_now I})
    \<and> (ui_now I, Some r) \<in> set ls \<and> loop_pc w = Serving
    \<and> map_of (codes (ez w)) c = Some m \<and> ui_now I + 60000 \<le> fm_expireAt m
    \<and> fm_storagePath m = path_under D (c @ ''/payload'') \<and> content (disk w) (c @ ''/payload'') = None"
proof -
  let ?p = "path_under D (c @ ''/payload'')" and ?S1 = "(ez w0)\<lparr>codes := []\<rparr>"
  have dl: "dl_meta d = m0"
    using download_lookup_Inr [OF assms(9)] assms(6,10) by simp
  have stored: "stored_as D c ?p"
    using service_okD(3) [OF assms(2), of c m0] assms(6,7) by simp
  let ?w1 = "w0\<lparr>loop_pc := Holding d\<rparr>"
  let ?w2 = "?w1\<lparr>ez := ?S1, sweep_pc := Unlinking [?p]\<rparr>"
  let ?w3 = "?w2\<lparr>disk := f1, loop_pc := Refusing d (410, ''file expired'')\<rparr>"
  let ?w4 = "?w3\<lparr>ez := ?S1, loop_pc := Serving\<rparr>"
  let ?w5 = "?w4\<lparr>ez := S, disk := f\<rparr>"
  have 1: "thread_step n FS w0 (now, None) ?w1"
    using thread_step.Looks [OF assms(3,9)] .
  have 2: "thread_step n FS ?w1 (now, None) ?w2"
    by (rule thread_step.Collects) (simp_all add: sweep_collect_def assms(4-8))
  have 3: "thread_step n FS ?w2 (now, None) ?w3"
    using thread_step.Checks [of ?w2 d n FS now "Some (410, ''file expired'')" f1] assms(8,11)
    by (simp add: download_check_def dl)
  have 4: "thread_step n FS ?w3 (now, Some (json_error 410 ''file expired'' (dl_resp d))) ?w4"
    using thread_step.Refuses [of ?w3 d 410 "''file expired''" n FS now] by (simp add: download_forget_def)
  have 5: "thread_step n FS ?w4 (ui_now I, Some r) ?w5"
    using thread_step.Uploads [of ?w4 I n FS req response_new r S f] assms(12,14,15,17) by simp
  let ?f6 = "snd (fs_unlink FS ?p f)"
  obtain b f7 where f7: "removeDir n FS (path_under D c) ?f6 = Inr (b, f7)"
    using assms(18) by blast
  let ?w6 = "?w5\<lparr>disk := ?f6, sweep_pc := Emptying (path_under D c) []\<rparr>"
  let ?w7 = "?w6\<lparr>disk := f7, sweep_pc := Unlinking []\<rparr>"
  have 6: "thread_step n FS ?w5 (now, None) ?w6"
    using thread_step.Unlinks [of ?w5 ?p "[]" n FS now] stored_dir [OF stored] by (auto simp: after_unlink_def)
  have 7: "thread_step n FS ?w6 (now, None) ?w7"
    using thread_step.Empties [of ?w6 "path_under D c" "[]" n FS b f7 now] f7 by simp
  obtain cd m where up: "map_of (codes S) cd = Some m" "fm_storagePath m = path_under D (cd @ ''/payload'')"
      and fresh: "map_of (codes ?S1) cd = None"
    using upload_stores [OF _ assms(12,13) _ assms(17,19-21), of content] disk_okD(1) [OF assms(1)] assms(14,15)
      service_okD(1) [OF assms(2)] by auto
  have "stored_meta I ?S1 cd m \<and> generateCode (ui_draws I) (codes ?S1) = Inr cd"
    using assms(12) by (cases rule: handleUpload_entry)
      (use up(1) assms(14,15) in \<open>auto simp: with_upload_def AList_update_lookup split: if_splits\<close>)
  then have cd: "cd = c" "ui_now I + 60000 \<le> fm_expireAt m"
    using assms(14,16) by (auto simp: stored_meta_def)
  have q: "rel_ok (c @ ''/payload'')" "rel_ok c"
    using stored_file(1,2) [OF stored] code_rel_ok(1) by auto
  have gone: "content f7 (c @ ''/payload'') = None"
    using removeDir_none [OF assms(1) q(1) f7 q(2)] disk_okD(3) [OF assms(1) q(1)] .
  have "thread_run n FS w0 ((((((([] @ [(now, None)]) @ [(now, None)]) @ [(now, None)])
      @ [(now, Some (json_error 410 ''file expired'' (dl_resp d)))]) @ [(ui_now I, Some r)]) @ [(now, None)]) @ [(now, None)]) ?w7"
    by (rule thread_run.Goes [OF thread_run.Goes [OF thread_run.Goes [OF thread_run.Goes [OF thread_run.Goes
          [OF thread_run.Goes [OF thread_run.Goes [OF thread_run.Stays 1] 2] 3] 4] 5] 6] 7])
  then show ?thesis
    using up cd gone by (intro exI [of _ ?w7] exI conjI) (assumption | simp)+
qed

section \<open>Shutdown\<close>

lemma drop_all_none:
  assumes "disk_ok FS D content" and "rel_ok q"
  shows "drop_all n FS paths f = Inr f' \<Longrightarrow> \<forall>p\<in>set paths. \<exists>c. stored_as D c p \<Longrightarrow>
    content f q = None \<or> path_under D q \<in> set paths \<Longrightarrow> content f' q = None"
proof (induction paths arbitrary: f)
  case (Cons p paths)
  from Cons.prems(1) obtain f1 where f1: "drop_stored n FS p f = Inr f1" "drop_all n FS paths f1 = Inr f'"
    by (auto simp: rbind_Inr_iff)
  obtain c where "stored_as D c p"
    using Cons.prems(2) by auto
  from drop_stored_none [OF assms(1) this assms(2) f1(1)] Cons.IH [OF f1(2)] Cons.prems(2,3) show ?case
    by auto
qed simp

lemma drop_all_returns:
  assumes "\<forall>p g. \<exists>b g'. removeDir n FS p g = Inr (b, g')"
  shows "\<exists>f'. drop_all n FS paths f = Inr f'"
proof (induction paths arbitrary: f)
  case (Cons p paths)
  have "\<exists>f1. drop_stored n FS p f = Inr f1"
  proof (cases "rfind_char (CHR ''/'') p")
    case (Some i)
    obtain b g where "removeDir n FS (substr 0 i p) (snd (fs_unlink FS p f)) = Inr (b, g)"
      using assms by blast
    with Some show ?thesis
      by (simp add: drop_stored_def)
  qed (simp add: drop_stored_def)
  with Cons.IH show ?case
    by fastforce
qed simp

text \<open>Paths that are still to be deleted, by the sweeper or by the destructor.\<close>

fun to_sweep :: "sweep_pc \<Rightarrow> string set" where
  "to_sweep (Unlinking paths) = set paths"
| "to_sweep (Emptying dir paths) = set paths"
| "to_sweep _ = {}"

definition outstanding :: "'f service \<Rightarrow> string set" where
  "outstanding w = to_sweep (sweep_pc w) \<union> (\<lambda>(c, m). fm_storagePath m) ` set (codes (ez w))"

fun sweep_rank :: "sweep_pc \<Rightarrow> nat" where
  "sweep_rank Quit = 0"
| "sweep_rank Sleeping = 1"
| "sweep_rank (Unlinking paths) = 2 + 2 * length paths"
| "sweep_rank (Emptying dir paths) = 3 + 2 * length paths"

definition shutdown_rank :: "'f service \<Rightarrow> nat" where
  "shutdown_rank w = sweep_rank (sweep_pc w) + (if loop_pc w = Ended then 1 else 0)"

definition ending :: "string \<Rightarrow> ('f \<Rightarrow> string \<Rightarrow> string option) \<Rightarrow> string set \<Rightarrow> 'f service \<Rightarrow> bool" where
  "ending D content paths w \<longleftrightarrow>
     (loop_pc w = Ended \<or> loop_pc w = Destroyed \<and> codes (ez w) = [] \<and> sweep_pc w = Quit) \<and> \<not> running_flag w
     \<and> (\<forall>q. rel_ok q \<and> path_under D q \<in> paths \<longrightarrow> content (disk w) q = None \<or> path_under D q \<in> outstanding w)"

lemma ending_step:
  assumes disk: "disk_ok FS D content" and step: "thread_step n FS w l w'" and ok: "service_ok D w"
    and e: "ending D content paths w"
  shows "ending D content paths w' \<and> Suc (shutdown_rank w') \<le> shutdown_rank w"
  using step
proof cases
  case (Unlinks p ps now)
  obtain c where c: "stored_as D c p"
    using service_okD(4) [OF ok] Unlinks(3) by auto
  then obtain s where s: "p = path_under D s" "rel_ok s"
    using code_rel_ok(3) by (auto simp: stored_as_def)
  have "content (snd (fs_unlink FS p (disk w))) q = None \<or> path_under D q \<in> outstanding w'"
    if "rel_ok q" "path_under D q \<in> paths" for q
    using e that unlink_none [OF disk s(2) that(1)] disk_okD(3) [OF disk that(1)] stored_dir [OF c] Unlinks s(1)
    by (auto simp: ending_def outstanding_def after_unlink_def)
  then show ?thesis
    using e Unlinks stored_dir [OF c] by (auto simp: ending_def shutdown_rank_def after_unlink_def)
next
  case (Empties dir ps b f now)
  obtain c where c: "six_digits c" "dir = path_under D c"
    using service_okD(4) [OF ok] Empties(3) by auto
  have "content f q = None \<or> path_under D q \<in> outstanding w'" if "rel_ok q" "path_under D q \<in> paths" for q
    using e that removeDir_none [OF disk that(1) _ code_rel_ok(1) [OF c(1)]] Empties c(2)
    by (auto simp: ending_def outstanding_def)
  then show ?thesis
    using e Empties by (auto simp: ending_def shutdown_rank_def)
next
  case (Cleanup S f now)
  then have all: "drop_all n FS (map (\<lambda>(c, m). fm_storagePath m) (codes (ez w))) (disk w) = Inr f" "codes S = []"
    by (auto simp: ezdrop_destroy_def rbind_Inr_iff)
  have "\<forall>p\<in>set (map (\<lambda>(c, m). fm_storagePath m) (codes (ez w))). \<exists>c. stored_as D c p"
    using ok by (auto simp: service_ok_def)
  then have "content f q = None" if "rel_ok q" "path_under D q \<in> paths" for q
    using drop_all_none [OF disk that(1) all(1)] e that Cleanup(4) by (auto simp: ending_def outstanding_def)
  then show ?thesis
    using e Cleanup all(2) by (auto simp: ending_def shutdown_rank_def)
qed (use e in \<open>auto simp: ending_def shutdown_rank_def outstanding_def\<close>)

lemma ending_progress:
  assumes "\<forall>p g. \<exists>b g'. removeDir n FS p g = Inr (b, g')" and "loop_pc w = Ended" and "\<not> running_flag w"
  shows "\<exists>l w'. thread_step n FS w l w'"
proof (cases "sweep_pc w")
  case Sleeping
  then show ?thesis
    using thread_step.Quits assms(3) by blast
next
  case (Unlinking paths)
  then show ?thesis
    using thread_step.Unlinks thread_step.Sleeps by (cases paths) blast+
next
  case (Emptying dir paths)
  obtain b f where "removeDir n FS dir (disk w) = Inr (b, f)"
    using assms(1) by blast
  from thread_step.Empties [OF Emptying this] show ?thesis
    by blast
next
  case Quit
  obtain f where "drop_all n FS (map (\<lambda>(c, m). fm_storagePath m) (codes (ez w))) (disk w) = Inr f"
    using drop_all_returns [OF assms(1)] by blast
  then have "ezdrop_destroy n FS (ez w, disk w) = Inr ((ez w)\<lparr>codes := []\<rparr>, f)"
    by (simp add: ezdrop_destroy_def)
  from thread_step.Cleanup [OF assms(2) Quit this] show ?thesis
    by blast
qed


section \<open>Witnesses\<close>

lemma map_disk_ok: "disk_ok map_fs D (\<lambda>f r. f (path_under D r))"
  using map_fs_ok [of D] by (simp add: disk_ok_def map_fs_def path_under_def)

lemma map_removeDir: "\<forall>p g. \<exists>b g'. removeDir 2 map_fs p g = Inr (b, g')"
  using map_fs_calls(3) by blast

lemma demo_inputs: "\<forall>d\<in>set (ui_draws demo_input). d < 1000000" "\<forall>i\<in>set (ui_suffix demo_input). i < 36"
  by (simp_all add: demo_input_def)

lemma demo_start: "codes demo_ez = []" "ez_storageDir demo_ez = ''data''" "loop_pc (service_start S f) = Serving"
  by (simp_all add: demo_calls service_start_def)


definition expired_ez :: ezdrop where
  "expired_ez = demo_ez\<lparr>codes := [(''000007'',
     demo_meta\<lparr>fm_code := ''000007'', fm_storagePath := ''data/000007/payload'', fm_expireAt := 500\<rparr>)]\<rparr>"

theorem sweep_deletes_new_upload_witness:
  "\<exists>ls w r. thread_run 2 map_fs (service_start expired_ez (Map.empty(''data/000007/payload'' \<mapsto> ''old''))) ls w
     \<and> (1000, Some r) \<in> set ls \<and> rs_statusCode r = 200
     \<and> map_of (codes (ez w)) ''000007'' \<noteq> None \<and> disk w ''data/000007/payload'' = None"
proof -
  let ?w0 = "service_start expired_ez (Map.empty(''data/000007/payload'' \<mapsto> ''old''))"
  let ?p = "''data/000007/payload''" and ?req0 = "setPathParam ''code'' ''000007'' request_new"
  let ?m0 = "demo_meta\<lparr>fm_code := ''000007'', fm_storagePath := ?p, fm_expireAt := 500\<rparr>"
  have path: "path_under ''data'' (''000007'' @ ''/payload'') = ?p"
    by (simp add: path_under_def)
  have digits: "six_digits ''000007''"
    by code_simp
  have stored: "stored_as ''data'' ''000007'' ?p"
    using digits path unfolding stored_as_def payload_names_def by fastforce
  have w0: "codes (ez ?w0) = [(''000007'', ?m0)]" "(ez ?w0)\<lparr>codes := []\<rparr> = demo_ez" "disk ?w0 = Map.empty(?p \<mapsto> ''old'')"
      "loop_pc ?w0 = Serving" "sweep_pc ?w0 = Sleeping" "running_flag ?w0" "ez_storageDir (ez ?w0) = ''data''"
    by (simp_all add: service_start_def expired_ez_def demo_ez_def ezdrop_new_def)
  have ok: "service_ok ''data'' ?w0"
    using stored w0 by (simp add: service_ok_def)
  obtain d where d: "download_lookup ?req0 response_new None (ez ?w0) = Inr d" "dl_code d = ''000007''"
    by (simp add: Let_def download_lookup_def service_start_def expired_ez_def pathParam_def setPathParam_def demo_ez_def ezdrop_new_def)
  have drop: "drop_stored 2 map_fs (fm_storagePath ?m0) (disk ?w0) = Inr Map.empty"
    using drop_stored_eq [OF stored, of 2 map_fs "disk ?w0"] map_fs_calls(3) w0(3) by (simp add: map_fs_def fun_upd_idem)
  obtain r S f where up: "handleUpload 2 map_fs demo_input demo_upload_req response_new (demo_ez, Map.empty) = Inr (r, S, f)"
    and r: "rs_statusCode r = 200"
    using demo_map_upload by blast
  have "\<exists>ls w m. thread_run 2 map_fs ?w0 ls w \<and> (\<forall>l\<in>set ls. fst l \<in> {600, ui_now demo_input})
    \<and> (ui_now demo_input, Some r) \<in> set ls \<and> loop_pc w = Serving
    \<and> map_of (codes (ez w)) ''000007'' = Some m \<and> ui_now demo_input + 60000 \<le> fm_expireAt m
    \<and> fm_storagePath m = path_under ''data'' (''000007'' @ ''/payload'')
    \<and> disk w (path_under ''data'' (''000007'' @ ''/payload'')) = None"
    by (rule sweep_deletes_new_upload [OF map_disk_ok ok w0(4-6,1) _ _ d drop _ r _ _ demo_stages(2) demo_inputs(2) map_removeDir demo_scan demo_stages(3,4)])
      (use up path w0(2) in \<open>simp_all add: demo_calls\<close>)
  then show ?thesis
    using r path by (auto simp: demo_input_def)
qed


end
