(* ===== verification/ImageWorkers.thy ===== *)
theory ImageWorkers
  imports ImageHosting
begin

text \<open>
  The image host with its pool at work (\<^verbatim>\<open>examples/image_hosting/ImageHosting.cpp\<close> over
  \<^verbatim>\<open>util/ThreadPool.cpp\<close>): the loop's thread runs the handler of uploads, the two workers of the
  pool take the tasks it queues and write the images. The steps of the pool are those of
  \<open>ThreadPool\<close>; a task that finishes has written its file.
\<close>

section \<open>The loop's thread and the workers\<close>

datatype image_event = Posted "nat \<Rightarrow> nat" http_request http_response | Pooled "(string \<times> string) event"

definition task_done :: "'f file_sys \<Rightarrow> (string \<times> string) event \<Rightarrow> 'f \<Rightarrow> 'f" where
  "task_done FS e f = (case e of Finished t \<Rightarrow> write_image FS t f | _ \<Rightarrow> f)"

inductive image_step ::
    "'f file_sys \<Rightarrow> image_host \<times> 'f \<Rightarrow> image_event \<Rightarrow> image_host \<times> 'f \<Rightarrow> bool" for FS where
  Post: "image_upload FS draws req response_new (H, f) = Inr (r, req1, H', f') \<Longrightarrow> \<forall>i<32. draws i < 16 \<Longrightarrow>
    image_step FS (H, f) (Posted draws req r) (H', f')"
| Work: "pool_step (uploadPool H) e p \<Longrightarrow> \<forall>t. e \<noteq> Enqueued t \<Longrightarrow>
    image_step FS (H, f) (Pooled e) (H\<lparr>uploadPool := p\<rparr>, task_done FS e f)"

inductive image_run :: "'f file_sys \<Rightarrow> image_host \<times> 'f \<Rightarrow> image_event list \<Rightarrow> image_host \<times> 'f \<Rightarrow> bool" for FS w0 where
  Begin: "image_run FS w0 [] w0"
| Next: "image_run FS w0 tr w \<Longrightarrow> image_step FS w e w' \<Longrightarrow> image_run FS w0 (tr @ [e]) w'"

text \<open>What the pool sees of a run.\<close>

fun pool_event :: "string \<Rightarrow> image_event \<Rightarrow> (string \<times> string) event list" where
  "pool_event storage (Posted draws req r) = (if rq_body req = [] then [] else [Enqueued (upload_task storage (draws, req))])"
| "pool_event storage (Pooled e) = [e]"

definition pool_trace :: "string \<Rightarrow> image_event list \<Rightarrow> (string \<times> string) event list" where
  "pool_trace storage tr = concat (map (pool_event storage) tr)"

lemma pool_trace_simps [simp]:
  "pool_trace storage [] = []" "pool_trace storage (tr @ [e]) = pool_trace storage tr @ pool_event storage e"
  by (simp_all add: pool_trace_def)

section \<open>The pool of a run\<close>

definition image_of :: "(nat \<Rightarrow> nat) \<Rightarrow> http_request \<Rightarrow> string" where
  "image_of draws req = generateUUID draws @ getExt (req_header ''Content-Type'' req)"

lemma upload_task_path: "upload_task storage (draws, req) = (image_path storage (image_of draws req), rq_body req)"
  by (simp add: upload_task_def image_path_def image_of_def substr_def generateUUID_def Let_def)

lemma image_upload_effect:
  assumes "image_upload FS draws req response_new (H, f) = Inr (r, req1, H', f')"
  shows "ih_storageDir H' = ih_storageDir H"
    and "rq_body req = [] \<Longrightarrow> H' = H \<and> f' = f"
    and "rq_body req \<noteq> [] \<Longrightarrow> enqueue (upload_task (ih_storageDir H) (draws, req)) (uploadPool H) = Inr (uploadPool H')
      \<and> rs_body r = url_text (image_of draws req) \<and> (\<exists>dir. f' = snd (fs_mkdir FS dir f))"
proof -
  have h: "req_header k (req\<lparr>rq_body := []\<rparr>) = req_header k req" for k
    by (simp add: req_header_def)
  show "ih_storageDir H' = ih_storageDir H" "rq_body req = [] \<Longrightarrow> H' = H \<and> f' = f"
    using assms by (auto simp: image_upload_def consumeBody_def Let_def rbind_Inr_iff split: if_splits)
  show "rq_body req \<noteq> [] \<Longrightarrow> enqueue (upload_task (ih_storageDir H) (draws, req)) (uploadPool H) = Inr (uploadPool H')
      \<and> rs_body r = url_text (image_of draws req) \<and> (\<exists>dir. f' = snd (fs_mkdir FS dir f))"
    using assms
    by (auto simp: image_upload_def upload_task_def image_of_def consumeBody_def Let_def rbind_Inr_iff h
        setBody_def setContentLength_def addHeader_def)
qed

lemma image_run_pool:
  assumes "image_run FS (H0, f0) tr w"
  shows "pool_run (uploadPool H0) (pool_trace (ih_storageDir H0) tr) (uploadPool (fst w)) \<and> ih_storageDir (fst w) = ih_storageDir H0"
  using assms
proof induction
  case Begin
  then show ?case
    by (simp add: pool_run.Start)
next
  case (Next tr w e w')
  note pool = conjunct1 [OF Next.IH] and dir = conjunct2 [OF Next.IH]
  from Next.hyps(2) show ?case
  proof cases
    case (Post draws req H f r req1 H' f')
    note up = image_upload_effect [OF Post(4)]
    show ?thesis
    proof (cases "rq_body req = []")
      case True
      then show ?thesis
        using up(2) Post Next.IH by simp
    next
      case False
      with up(3) Post(1) dir have "pool_step (uploadPool H) (Enqueued (upload_task (ih_storageDir H0) (draws, req))) (uploadPool H')"
        by (intro pool_step.Enqueue) simp
      with pool Post False up(1) dir show ?thesis
        by (auto intro: pool_run.Step)
    qed
  next
    case (Work H e p f)
    with pool dir show ?thesis
      by (auto intro: pool_run.Step)
  qed
qed

section \<open>The files\<close>

text \<open>
  The documented behaviour of the calls on the paths of images: making a directory touches no
  file, the stream that writes an image has room and touches its file only, \<^verbatim>\<open>stat\<close> of a file
  that is there yields its length.
\<close>

definition image_disk_ok :: "'f file_sys \<Rightarrow> string \<Rightarrow> ('f \<Rightarrow> string \<Rightarrow> string option) \<Rightarrow> bool" where
  "image_disk_ok FS storage content \<longleftrightarrow>
     (\<forall>p f. content (snd (fs_mkdir FS p f)) = content f)
     \<and> (\<forall>s d f. image_name s \<longrightarrow> content (snd (fs_put FS (image_path storage s) d f)) s = Some d)
     \<and> (\<forall>s s' d f. image_name s \<longrightarrow> image_name s' \<longrightarrow> s' \<noteq> s \<longrightarrow>
          content (snd (fs_put FS (image_path storage s) d f)) s' = content f s')
     \<and> (\<forall>s f d. image_name s \<longrightarrow> content f s = Some d \<longrightarrow> fs_stat FS f (image_path storage s) = Some (length d))"

lemma image_disk_okD:
  assumes "image_disk_ok FS storage content"
  shows "content (snd (fs_mkdir FS p f)) = content f"
    and "image_name s \<Longrightarrow> content (snd (fs_put FS (image_path storage s) d f)) s = Some d"
    and "image_name s \<Longrightarrow> image_name s' \<Longrightarrow> s' \<noteq> s \<Longrightarrow>
      content (snd (fs_put FS (image_path storage s) d f)) s' = content f s'"
    and "image_name s \<Longrightarrow> content f s = Some d \<Longrightarrow> fs_stat FS f (image_path storage s) = Some (length d)"
  using assms unfolding image_disk_ok_def by blast+

text \<open>Every accepted task is that of an upload in the run.\<close>

lemma accepted_posted:
  assumes "image_run FS w0 tr w" and "t \<in> set (accepted (pool_trace storage tr))"
  shows "\<exists>draws req r. Posted draws req r \<in> set tr \<and> rq_body req \<noteq> [] \<and> t = upload_task storage (draws, req)
    \<and> image_name (image_of draws req)"
  using assms
proof induction
  case (Next tr w e w')
  from Next.hyps(2) show ?case
  proof cases
    case (Post draws req H f r req1 H' f')
    have "image_name (image_of draws req)"
      using image_name_uploaded [OF Post(5)] by (simp add: image_of_def)
    with Next.IH Next.prems Post(2) show ?thesis
      by (auto split: if_splits)
  next
    case (Work H e p f)
    then have "accepted (pool_event storage (Pooled e)) = []"
      by (cases e) (simp_all add: accepted_def)
    with Next.IH Next.prems Work(2) show ?thesis
      by (auto simp: accepted_def)
  qed
qed simp

lemma image_host_new_pool:
  "image_host_new FS b1 b2 storage f00 = Inr (H0, f0) \<Longrightarrow> pool_new [b1, b2] 200 = Inr (uploadPool H0) \<and> ih_storageDir H0 = storage"
  by (auto simp: image_host_new_def rbind_Inr_iff)

lemma trace_append: "accepted (tr @ tr') = accepted tr @ accepted tr'" "finished (tr @ tr') = finished tr @ finished tr'"
  by (simp_all add: accepted_def finished_def)

lemma posted_accepted:
  assumes "image_run FS w0 tr w" and "Posted draws req r \<in> set tr" and "rq_body req \<noteq> []"
  shows "rs_body r = url_text (image_of draws req) \<and> image_name (image_of draws req)
    \<and> upload_task storage (draws, req) \<in> set (accepted (pool_trace storage tr))"
  using assms
proof induction
  case (Next tr w e w')
  show ?case
  proof (cases "Posted draws req r \<in> set tr")
    case True
    with Next.IH Next.prems(2) show ?thesis
      by (simp add: trace_append)
  next
    case False
    with Next.prems(1) have e: "e = Posted draws req r"
      by simp
    from Next.hyps(2) obtain H f req1 H' f' where up: "image_upload FS draws req response_new (H, f) = Inr (r, req1, H', f')"
        "\<forall>i<32. draws i < 16"
      unfolding e by cases auto
    then show ?thesis
      using image_upload_effect(3) [OF up(1) Next.prems(2)] Next.prems(2) image_name_uploaded [OF up(2)]
      by (simp add: e trace_append accepted_def image_of_def)
  qed
qed simp

lemma finished_sub_accepted:
  assumes "queue_inv cap tr p"
  shows "mset (finished tr) \<subseteq># mset (accepted tr)"
  using assms unfolding queue_inv_def
  by (metis mset_append mset_subset_eq_add_left subset_mset.dual_order.trans)

lemma image_run_queue_inv:
  assumes "image_host_new FS b1 b2 storage f00 = Inr (H0, f0)" and "image_run FS (H0, f0) tr w"
  shows "queue_inv 200 (pool_trace storage tr) (uploadPool (fst w))"
    and "wake_inv (length [b1, b2]) (pool_trace storage tr) (uploadPool (fst w))" and "ih_storageDir (fst w) = storage"
  using queue_inv_run wake_inv_run image_run_pool [OF assms(2)] image_host_new_pool [OF assms(1)] by metis+

lemma distinct_keys_sub:
  assumes "mset xs \<subseteq># mset ys" and "distinct (map fst ys)"
  shows "distinct (map fst xs)"
proof -
  have "mset (map fst xs) \<subseteq># mset (map fst ys)"
    using image_mset_subseteq_mono [OF assms(1), of fst] by simp
  then have "count (mset (map fst xs)) k \<le> count (mset (map fst ys)) k" for k
    by (rule mset_subset_eq_count)
  moreover have "count (mset (map fst ys)) k \<le> 1" for k
    using assms(2) by (simp add: distinct_count_atmost_1)
  ultimately have le: "count (mset (map fst xs)) k \<le> 1" for k
    by (rule order_trans)
  have "count (mset (map fst xs)) k = 1" if "k \<in> set (map fst xs)" for k
  proof -
    have "0 < count (mset (map fst xs)) k"
      using that by simp
    with le [of k] show ?thesis
      by linarith
  qed
  moreover have "count (mset (map fst xs)) k = 0" if "k \<notin> set (map fst xs)" for k
    using that by (metis count_inI set_mset_mset)
  ultimately show ?thesis
    unfolding distinct_count_atmost_1 by simp
qed

lemma image_path_eq:
  assumes "image_name s" and "image_name s'" and "image_path storage s = image_path storage s'"
  shows "s = s'"
proof -
  have "2 \<le> length s" "2 \<le> length s'"
    using assms(1,2) by (auto simp: image_name_def)
  then have "take 2 s @ CHR ''/'' # s = take 2 s' @ CHR ''/'' # s'" "length (take 2 s) = length (take 2 s')"
    using assms(3) by (simp_all add: image_path_def substr_def)
  then show ?thesis
    by (simp add: append_eq_append_conv)
qed

lemma finished_written:
  assumes disk: "image_disk_ok FS storage content" and new: "image_host_new FS b1 b2 storage f00 = Inr (H0, f0)"
  shows "image_run FS (H0, f0) tr w \<Longrightarrow> distinct (map fst (accepted (pool_trace storage tr))) \<Longrightarrow>
    (image_path storage s, d) \<in> set (finished (pool_trace storage tr)) \<Longrightarrow> image_name s \<Longrightarrow> content (snd w) s = Some d"
proof (induction rule: image_run.induct)
  case (Next tr w e w')
  have old: "content (snd w) s = Some d" if "(image_path storage s, d) \<in> set (finished (pool_trace storage tr))"
    using Next.IH that Next.prems(1,3) by (simp add: trace_append)
  have run': "image_run FS (H0, f0) (tr @ [e]) w'"
    using Next.hyps by (rule image_run.Next)
  from Next.hyps(2) show ?case
  proof cases
    case (Post draws req H f r req1 H' f')
    have "finished (pool_event storage e) = []"
      by (simp add: Post(2) finished_def)
    moreover have "content f' = content f"
      using image_upload_effect(2,3) [OF Post(4)] image_disk_okD(1) [OF disk] by (cases "rq_body req = []") auto
    ultimately show ?thesis
      using old Next.prems(2) Post by (simp add: trace_append)
  next
    case (Work H ev p f)
    have in_task: "t \<in> set (accepted (pool_trace storage (tr @ [e])))" if "t \<in> set (finished (pool_trace storage (tr @ [e])))" for t
      using finished_sub_accepted [OF image_run_queue_inv(1) [OF new run']] that by (metis mset_subset_eqD set_mset_mset)
    show ?thesis
    proof (cases "\<exists>t. ev = Finished t")
      case False
      then have "finished (pool_event storage e) = []" "task_done FS ev f = f"
        by (cases ev; simp add: Work(2) finished_def task_done_def)+
      then show ?thesis
        using old Next.prems(2) Work by (simp add: trace_append)
    next
      case True
      then obtain t where t: "ev = Finished t" ..
      have fin: "finished (pool_trace storage (tr @ [e])) = finished (pool_trace storage tr) @ [t]"
        by (simp add: trace_append Work(2) t finished_def)
      have "t \<in> set (accepted (pool_trace storage (tr @ [e])))"
        by (rule in_task) (simp only: fin, simp)
      from accepted_posted [OF run' this] obtain s' where s': "fst t = image_path storage s'" "image_name s'"
        by (auto simp: upload_task_path)
      have keys: "distinct (map fst (finished (pool_trace storage tr) @ [t]))"
        using distinct_keys_sub [OF finished_sub_accepted [OF image_run_queue_inv(1) [OF new run']] Next.prems(1)] fin by simp
      have w': "content (snd w') q = content (snd (fs_put FS (image_path storage s') (snd t) f)) q" for q
        by (simp add: Work(3) t task_done_def write_image_def s'(1))
      show ?thesis
      proof (cases "s' = s")
        case True
        then have "(image_path storage s, d) = t"
          using keys Next.prems(2) s'(1) unfolding fin by (force simp: rev_image_eqI)
        then show ?thesis
          using image_disk_okD(2) [OF disk s'(2)] w' True by auto
      next
        case False
        then have "(image_path storage s, d) \<noteq> t"
          using image_path_eq [OF Next.prems(3) s'(2)] s'(1) by auto
        then show ?thesis
          using old Next.prems(2) w' image_disk_okD(3) [OF disk s'(2) Next.prems(3)] False Work(1) unfolding fin by auto
      qed
    qed
  qed
qed simp

section \<open>Every acknowledged image is written\<close>


section \<open>Witness\<close>

definition img_fs :: "(string \<rightharpoonup> string) file_sys" where
  "img_fs =
     \<lparr>fs_mkdir = (\<lambda>p f. (True, f)), fs_put = (\<lambda>p d f. (Some (length d), f(p \<mapsto> d))),
      fs_list = (\<lambda>p f. None), fs_unlink = (\<lambda>p f. (True, f(p := None))), fs_rmdir = (\<lambda>p f. f),
      fs_rename = (\<lambda>a b f. (True, (f(a := None))(b := f a))), fs_tar = (\<lambda>out src f. (None, f)),
      fs_stat = (\<lambda>f p. map_option length (f p))\<rparr>"

lemma img_disk_ok: "image_disk_ok img_fs storage (\<lambda>f s. f (image_path storage s))"
  using image_path_eq by (fastforce simp: image_disk_ok_def img_fs_def)


end
