(* ===== verification/HttpIsolation.thy ===== *)
theory HttpIsolation
  imports HttpSession
begin

text \<open>
  Clients do not disturb each other. Every event of a connection, whatever the client sends and
  however the connection ends, touches only what belongs to that connection: its object, its
  descriptor, its parser context and its entry in the time wheel. The calculus \<open>step_frame\<close>
  composes such facts along the code; the lemmas follow the call graph of \<^verbatim>\<open>Connection.cpp\<close>,
  \<^verbatim>\<open>TcpServer.cpp\<close> and \<^verbatim>\<open>HttpServer.cpp\<close> from the system calls up to the lambda registered with
  the loop.
\<close>

section \<open>Steps that respect a relation\<close>

text \<open>
  \<open>good\<close> is kept and the states before and after are related; a computation yields a value \<open>v\<close>
  that holds the new state \<open>st v\<close>, or fails.
\<close>

locale step_frame =
  fixes good :: "'s \<Rightarrow> bool" and rel :: "'s \<Rightarrow> 's \<Rightarrow> bool"
  assumes rel_refl: "rel s s"
    and rel_trans: "rel s t \<Longrightarrow> rel t u \<Longrightarrow> rel s u"
begin

definition safe :: "('v \<Rightarrow> 's) \<Rightarrow> 's \<Rightarrow> 'v res \<Rightarrow> bool" where
  "safe st s r \<longleftrightarrow> (\<forall>v. r = Inr v \<longrightarrow> good (st v) \<and> rel s (st v))"

lemma safe_Inl [simp, intro]: "safe st s (Inl e)"
  by (simp add: safe_def)

lemma safe_Inr: "good (st v) \<Longrightarrow> rel s (st v) \<Longrightarrow> safe st s (Inr v)"
  by (simp add: safe_def)

lemma safe_stay: "good s \<Longrightarrow> st v = s \<Longrightarrow> safe st s (Inr v)"
  by (simp add: safe_def rel_refl)

lemma safe_read: "(\<And>x. r = Inr x \<Longrightarrow> safe st s (g x)) \<Longrightarrow> safe st s (rbind r g)"
  by (cases r) (simp_all add: safe_def)

lemma safe_if: "safe st s a \<Longrightarrow> safe st s b \<Longrightarrow> safe st s (if x then a else b)"
  by simp

lemma safe_from: "safe st t r \<Longrightarrow> rel s t \<Longrightarrow> safe st s r"
  using rel_trans by (auto simp: safe_def)

lemma safe_bind:
  assumes "safe st s r"
    and "\<And>v. r = Inr v \<Longrightarrow> good (st v) \<Longrightarrow> rel s (st v) \<Longrightarrow> safe st' (st v) (g v)"
  shows "safe st' s (rbind r g)"
proof (cases r)
  case (Inr v)
  with assms show ?thesis
    by (auto simp: safe_def intro: rel_trans)
qed simp

lemma safe_then:
  assumes "safe id s r" and "\<And>t. good t \<Longrightarrow> safe st' t (g t)"
  shows "safe st' s (rbind r g)"
  using assms by (intro safe_bind [where st = id]) auto

lemma safe_via: "good t \<and> rel s t \<Longrightarrow> (good t \<Longrightarrow> safe st t r) \<Longrightarrow> safe st s r"
  using safe_from by blast

lemma safeD: "safe st s (Inr v) \<Longrightarrow> good (st v) \<and> rel s (st v)"
  by (simp add: safe_def)

end

section \<open>What belongs to a connection\<close>

text \<open>The connection, its descriptor, its parser context and its entry in the wheel.\<close>

record footprint =
  fp_conn :: nat
  fp_fd :: int
  fp_ctx :: nat
  fp_entry :: nat

text \<open>
  What is visible of the kernel: its interest list, what was written, what has arrived, and the
  clients that wait at the listening socket.
\<close>

record 'k net_view =
  nv_interest :: "'k \<Rightarrow> int set"
  nv_wire :: "'k \<Rightarrow> int \<Rightarrow> string"
  nv_inbox :: "'k \<Rightarrow> int \<Rightarrow> string"
  nv_waiting :: "'k \<Rightarrow> int list"

text \<open>
  The documented behaviour of the calls not yet covered: \<^verbatim>\<open>open\<close> yields a descriptor that is
  not in use, the calls take nothing from the streams of other descriptors, and none but
  \<^verbatim>\<open>accept\<close> takes a waiting client.
\<close>

definition calls_local :: "'k kernel \<Rightarrow> 'k net_view \<Rightarrow> bool" where
  "calls_local K V \<longleftrightarrow>
     (\<forall>path k. fst (sys_open K path k) \<in> {None} \<union> Some ` {f. 0 \<le> f \<and> f \<notin> nv_interest V k})
     \<and> (\<forall>fd ffd off n k. nv_inbox V (snd (sys_sendfile K fd ffd off n k)) = nv_inbox V k)
     \<and> (\<forall>fd ev k. nv_inbox V (snd (sys_epoll_add K fd ev k)) = nv_inbox V k)
     \<and> (\<forall>fd k. nv_inbox V (snd (sys_epoll_del K fd k)) = nv_inbox V k)
     \<and> (\<forall>fd k. nv_inbox V (sys_shutdown K fd k) = nv_inbox V k)
     \<and> (\<forall>fd k g. g \<noteq> fd \<longrightarrow> nv_inbox V (sys_close K fd k) g = nv_inbox V k g)
     \<and> (\<forall>fd d k. nv_waiting V (snd (sys_write K fd d k)) = nv_waiting V k)
     \<and> (\<forall>fd n k. nv_waiting V (snd (sys_readv K fd n k)) = nv_waiting V k)
     \<and> (\<forall>fd ffd off n k. nv_waiting V (snd (sys_sendfile K fd ffd off n k)) = nv_waiting V k)
     \<and> (\<forall>path k. nv_waiting V (snd (sys_open K path k)) = nv_waiting V k)
     \<and> (\<forall>fd off k. nv_waiting V (snd (sys_lseek K fd off k)) = nv_waiting V k)
     \<and> (\<forall>fd ev k. nv_waiting V (snd (sys_epoll_add K fd ev k)) = nv_waiting V k)
     \<and> (\<forall>fd ev k. nv_waiting V (snd (sys_epoll_mod K fd ev k)) = nv_waiting V k)
     \<and> (\<forall>fd k. nv_waiting V (snd (sys_epoll_del K fd k)) = nv_waiting V k)
     \<and> (\<forall>fd k. nv_waiting V (sys_close K fd k) = nv_waiting V k)
     \<and> (\<forall>fd k. nv_waiting V (sys_shutdown K fd k) = nv_waiting V k)"

definition kernel_ok :: "'k kernel \<Rightarrow> 'k net_view \<Rightarrow> (int \<Rightarrow> string) \<Rightarrow> bool" where
  "kernel_ok K V file \<longleftrightarrow>
     epoll_ok K (nv_interest V) \<and> interest_ok K (nv_interest V) \<and> net_ok K (nv_wire V) file
     \<and> stream_ok K (nv_wire V) (nv_inbox V) \<and> calls_local K V"

text \<open>
  A connection that holds nothing but its footprint: what it refers to is its own or nothing,
  and the file it sends is not a descriptor of the loop.
\<close>

definition holds :: "footprint \<Rightarrow> 'p event_loop \<Rightarrow> connection \<Rightarrow> bool" where
  "holds F L C \<longleftrightarrow>
     fd C \<in> {fp_fd F, - 1} \<and> userData C \<in> {None, Some (fp_ctx F)}
     \<and> closeCallback C \<in> {None, Some TcpOnClose, Some (HttpOnClose (fp_ctx F) (Some TcpOnClose))}
     \<and> (wheelEntry C = None \<or> wheelEntry C = Some (fp_entry F)
          \<and> (\<exists>r k. view (timeWheel L) (fp_entry F) = Some (r, k, CloseIdle (fp_conn F), fp_conn F)))
     \<and> (0 \<le> fileFd C \<longrightarrow> registered L (fileFd C) = None) \<and> 0 \<le> fileOffset C"

definition owns :: "'k kernel \<Rightarrow> 'k net_view \<Rightarrow> footprint \<Rightarrow> ('p, 'k, 'x) world \<Rightarrow> bool" where
  "owns K V F w \<longleftrightarrow>
     loop_ok K (nv_interest V) (evloop w, kern w) \<and> wheel_wf (timeWheel (evloop w))
     \<and> (\<exists>C. conns w (fp_conn F) = Some C \<and> holds F (evloop w) C)"

text \<open>The configuration of the server and of its loop, which no event of a connection changes.\<close>

definition server_side ::
    "('p, 'k, 'h, 'q, 'y) http_world \<Rightarrow>
     (int \<times> nat \<times> connection_cb option \<times> data_cb option) \<times> ('h router \<times> nat) \<times> (trigger_mode \<times> nat \<times> rat)" where
  "server_side w =
     ((listenFd (app w), next_conn (app w), connectionCallback (app w), srv_dataCallback (app w)),
      (router (http_of w), next_ctx (http_of w)),
      (triggerMode (evloop w), bucketCount (timeWheel (evloop w)), tickIntervalSec (timeWheel (evloop w))))"

text \<open>
  From \<open>w\<close> to \<open>w'\<close> nothing has changed outside the footprint: not the other connections, parser
  contexts and wheel entries, not the registrations and the server's table of connections, and
  not the streams of the registered descriptors. An event of a connection registers no descriptor and leaves the server as it is.
\<close>

definition others_same ::
    "'k net_view \<Rightarrow> footprint \<Rightarrow> ('p, 'k, 'h, 'q, 'y) http_world \<Rightarrow> ('p, 'k, 'h, 'q, 'y) http_world \<Rightarrow> bool" where
  "others_same V F w w' \<longleftrightarrow>
     (\<forall>c. c \<noteq> fp_conn F \<longrightarrow> conns w' c = conns w c)
     \<and> (\<forall>p. p \<noteq> fp_ctx F \<longrightarrow> ctxs (http_of w') p = ctxs (http_of w) p)
     \<and> (\<forall>e. e \<noteq> fp_entry F \<longrightarrow> view (timeWheel (evloop w')) e = view (timeWheel (evloop w)) e)
     \<and> (\<forall>f. f \<noteq> fp_fd F \<longrightarrow> registered (evloop w') f = registered (evloop w) f)
     \<and> (\<forall>f. f \<noteq> fp_fd F \<and> 0 \<le> f \<longrightarrow> map_of (connections (app w')) f = map_of (connections (app w)) f)
     \<and> (\<forall>f. f \<noteq> fp_fd F \<and> registered (evloop w) f \<noteq> None \<longrightarrow>
          nv_wire V (kern w') f = nv_wire V (kern w) f \<and> nv_inbox V (kern w') f = nv_inbox V (kern w) f)"

definition leaves_alone ::
    "'k net_view \<Rightarrow> footprint \<Rightarrow> ('p, 'k, 'h, 'q, 'y) http_world \<Rightarrow> ('p, 'k, 'h, 'q, 'y) http_world \<Rightarrow> bool" where
  "leaves_alone V F w w' \<longleftrightarrow>
     others_same V F w w' \<and> dom (registered (evloop w')) \<subseteq> dom (registered (evloop w))
     \<and> server_side w' = server_side w \<and> nv_waiting V (kern w') = nv_waiting V (kern w)"

lemmas alone_defs = leaves_alone_def others_same_def server_side_def

lemma alone_refl: "leaves_alone V F w w"
  by (simp add: alone_defs)

lemma alone_trans: "leaves_alone V F u v \<Longrightarrow> leaves_alone V F v w \<Longrightarrow> leaves_alone V F u w"
  unfolding alone_defs by (intro conjI) (simp_all, blast)

lemma alone_unregistered:
  "leaves_alone V F w w' \<Longrightarrow> registered (evloop w) f = None \<Longrightarrow> registered (evloop w') f = None"
  by (auto simp: leaves_alone_def)

interpretation client: step_frame "owns K V F" "leaves_alone V F"
  for K :: "'k kernel" and V :: "'k net_view" and F
  by unfold_locales (auto intro: alone_refl alone_trans)

section \<open>System calls and single updates\<close>

lemma owns_conn:
  assumes "owns K V F w"
  obtains C where "conns w (fp_conn F) = Some C" and "holds F (evloop w) C"
  using assms by (auto simp: owns_def)

lemma holds_fd: "holds F L C \<Longrightarrow> fd C = fp_fd F \<or> fd C = - 1"
  by (auto simp: holds_def)

lemma unregistered_negative: "registered L (- 1) = None"
  by (simp add: registered_def)

text \<open>A call that changes at most the streams of the footprint, or of nothing the loop knows.\<close>

definition local_call :: "'k net_view \<Rightarrow> footprint \<Rightarrow> ('p, 'k, 'x) world \<Rightarrow> 'k \<Rightarrow> bool" where
  "local_call V F w k \<longleftrightarrow>
     nv_interest V k = nv_interest V (kern w) \<and> nv_waiting V k = nv_waiting V (kern w)
     \<and> (\<forall>f. f \<noteq> fp_fd F \<and> registered (evloop w) f \<noteq> None \<longrightarrow>
          nv_wire V k f = nv_wire V (kern w) f \<and> nv_inbox V k f = nv_inbox V (kern w) f)"

lemma kern_step:
  assumes "owns K V F w" and "local_call V F w k"
  shows "owns K V F (w\<lparr>kern := k\<rparr>) \<and> leaves_alone V F w (w\<lparr>kern := k\<rparr>)"
  using assms loop_ok_kern [of K "nv_interest V" "evloop w" "kern w" k]
  by (simp add: owns_def alone_defs local_call_def)

lemma upd_step:
  assumes "owns K V F w" and "conns w (fp_conn F) = Some C" and "holds F (evloop w) (g C)"
  shows "owns K V F (upd (fp_conn F) g w) \<and> leaves_alone V F w (upd (fp_conn F) g w)"
  using assms by (simp add: owns_def alone_defs)

lemma ctx_step:
  assumes "owns K V F w" and "\<And>m q. q \<noteq> fp_ctx F \<Longrightarrow> h m q = m q"
  shows "owns K V F (upd_http (ctxs_update h) w) \<and> leaves_alone V F w (upd_http (ctxs_update h) w)"
  using assms by (simp add: owns_def alone_defs) (simp add: upd_http_def)

lemma erase_step:
  assumes "owns K V F w" and "f = fp_fd F \<or> f = - 1"
  shows "owns K V F (upd_app (connections_update (AList.delete f)) w)
    \<and> leaves_alone V F w (upd_app (connections_update (AList.delete f)) w)"
  using assms by (auto simp: owns_def alone_defs http_of_def delete_conv)

lemma calls_localD:
  assumes "calls_local K V"
  shows "fst (sys_open K path k) \<in> {None} \<union> Some ` {f. 0 \<le> f \<and> f \<notin> nv_interest V k}"
    and "nv_inbox V (snd (sys_sendfile K f ffd off n k)) = nv_inbox V k" "nv_inbox V (snd (sys_epoll_add K f ev k)) = nv_inbox V k"
    and "nv_inbox V (snd (sys_epoll_del K f k)) = nv_inbox V k" "nv_inbox V (sys_shutdown K f k) = nv_inbox V k"
    and "g \<noteq> f \<Longrightarrow> nv_inbox V (sys_close K f k) g = nv_inbox V k g"
    and "nv_waiting V (snd (sys_write K f d k)) = nv_waiting V k" "nv_waiting V (snd (sys_readv K f n k)) = nv_waiting V k"
    and "nv_waiting V (snd (sys_sendfile K f ffd off n k)) = nv_waiting V k" "nv_waiting V (snd (sys_open K path k)) = nv_waiting V k"
    and "nv_waiting V (snd (sys_lseek K f off k)) = nv_waiting V k" "nv_waiting V (snd (sys_epoll_add K f ev k)) = nv_waiting V k"
    and "nv_waiting V (snd (sys_epoll_mod K f ev k)) = nv_waiting V k" "nv_waiting V (snd (sys_epoll_del K f k)) = nv_waiting V k"
    and "nv_waiting V (sys_close K f k) = nv_waiting V k" "nv_waiting V (sys_shutdown K f k) = nv_waiting V k"
  using assms by (simp_all add: calls_local_def)

lemma kernel_okD:
  assumes "kernel_ok K V file"
  shows "epoll_ok K (nv_interest V)" "interest_ok K (nv_interest V)" "net_ok K (nv_wire V) file"
    "stream_ok K (nv_wire V) (nv_inbox V)" "calls_local K V"
    "write_ok K (nv_wire V)" "sendfile_ok K (nv_wire V) file" "quiet_ok K (nv_wire V)"
  using assms by (simp_all add: kernel_ok_def net_ok_def)

lemma wire_write:
  assumes "write_ok K wire" and "g \<noteq> f"
  shows "wire (snd (sys_write K f d k)) g = wire k g"
proof (cases "sys_write K f d k")
  case (Pair r k')
  with write_okD [OF assms(1), of f d k] assms(2) show ?thesis
    by (cases r) simp_all
qed

lemma wire_sendfile:
  assumes "sendfile_ok K wire file" and "0 \<le> off" and "g \<noteq> f"
  shows "wire (snd (sys_sendfile K f ffd off n k)) g = wire k g"
proof (cases "sys_sendfile K f ffd off n k")
  case (Pair r k')
  with sendfile_okD [OF assms(1,2), of f ffd n k] assms(3) show ?thesis
    by (cases r) simp_all
qed

lemma inbox_readv:
  assumes "stream_ok K wire inbox" and "g \<noteq> f"
  shows "inbox (snd (sys_readv K f n k)) g = inbox k g"
  using stream_okD(1,2) [OF assms(1), of k f n] assms(2) by (cases "inbox k f = []") simp_all

lemma local_calls:
  assumes ok: "kernel_ok K V file" and f: "f = fp_fd F \<or> f = - 1"
  shows "local_call V F w (snd (sys_write K f d (kern w)))"
    and "local_call V F w (snd (sys_readv K f n (kern w)))"
    and "0 \<le> off \<Longrightarrow> local_call V F w (snd (sys_sendfile K f ffd off n (kern w)))"
    and "local_call V F w (sys_shutdown K f (kern w))"
proof -
  note okD = kernel_okD [OF ok]
  have other: "g \<noteq> f" if "g \<noteq> fp_fd F" "registered (evloop w) g \<noteq> None" for g
    using that f by (auto simp: unregistered_negative)
  show "local_call V F w (snd (sys_write K f d (kern w)))" "local_call V F w (snd (sys_readv K f n (kern w)))"
    using other wire_write [OF okD(6)] stream_okD(3,4) [OF okD(4)] inbox_readv [OF okD(4)] interest_okD [OF okD(2)]
      calls_localD [OF okD(5)]
    by (simp_all add: local_call_def)
  show "0 \<le> off \<Longrightarrow> local_call V F w (snd (sys_sendfile K f ffd off n (kern w)))"
    using other wire_sendfile [OF okD(7)] calls_localD [OF okD(5)] interest_okD [OF okD(2)] by (simp add: local_call_def)
  show "local_call V F w (sys_shutdown K f (kern w))"
    using quiet_okD [OF okD(8)] calls_localD [OF okD(5)] interest_okD [OF okD(2)] by (simp add: local_call_def)
qed

lemma file_calls:
  assumes ok: "kernel_ok K V file"
  shows "local_call V F w (snd (sys_open K path (kern w)))"
    and "local_call V F w (snd (sys_lseek K f off (kern w)))"
    and "owns K V F w \<Longrightarrow> registered (evloop w) f = None \<Longrightarrow> local_call V F w (sys_close K f (kern w))"
    and "owns K V F w \<Longrightarrow> sys_open K path (kern w) = (Some ffd, k) \<Longrightarrow> 0 \<le> ffd \<and> registered (evloop w) ffd = None"
proof -
  note okD = kernel_okD [OF ok]
  show "local_call V F w (snd (sys_open K path (kern w)))" "local_call V F w (snd (sys_lseek K f off (kern w)))"
    using quiet_okD [OF okD(8)] stream_okD(6,7) [OF okD(4)] interest_okD [OF okD(2)] calls_localD [OF okD(5)]
    by (simp_all add: local_call_def)
  show "local_call V F w (sys_close K f (kern w))" if "owns K V F w" "registered (evloop w) f = None"
  proof -
    have "f \<notin> nv_interest V (kern w)"
      using that by (auto simp: owns_def loop_ok_def)
    moreover have "nv_inbox V (sys_close K f (kern w)) g = nv_inbox V (kern w) g" if "registered (evloop w) g \<noteq> None" for g
    proof -
      have "g \<noteq> f"
        using that \<open>registered (evloop w) f = None\<close> by auto
      then show ?thesis
        by (rule calls_localD(6) [OF okD(5)])
    qed
    ultimately show ?thesis
      using quiet_okD [OF okD(8)] interest_okD [OF okD(2)] calls_localD [OF okD(5)] by (simp add: local_call_def)
  qed
  show "0 \<le> ffd \<and> registered (evloop w) ffd = None" if "owns K V F w" "sys_open K path (kern w) = (Some ffd, k)"
  proof -
    have "fst (sys_open K path (kern w)) \<in> {None} \<union> Some ` {f. 0 \<le> f \<and> f \<notin> nv_interest V (kern w)}"
      by (rule calls_localD(1) [OF okD(5)])
    then show ?thesis
      using that by (auto simp: owns_def loop_ok_def)
  qed
qed

text \<open>The registration of the connection.\<close>

lemma reg_step:
  assumes ow: "owns K V F w" and ok: "kernel_ok K V file"
    and L: "loop_ok K (nv_interest V) (L, k)" "timeWheel L = timeWheel (evloop w)" "triggerMode L = triggerMode (evloop w)"
    and reg: "\<And>f. f \<noteq> fp_fd F \<Longrightarrow> registered L f = registered (evloop w) f" "dom (registered L) \<subseteq> dom (registered (evloop w))"
    and k: "nv_wire V k = nv_wire V (kern w)" "nv_inbox V k = nv_inbox V (kern w)" "nv_waiting V k = nv_waiting V (kern w)"
  shows "owns K V F (w\<lparr>evloop := L, kern := k\<rparr>) \<and> leaves_alone V F w (w\<lparr>evloop := L, kern := k\<rparr>)"
proof -
  obtain C where C: "conns w (fp_conn F) = Some C" "holds F (evloop w) C"
    using owns_conn [OF ow] .
  have "registered L f = None" if "registered (evloop w) f = None" for f
    using reg(2) that by auto
  then have "holds F L C"
    using C(2) L(2) by (auto simp: holds_def)
  then show ?thesis
    using ow C(1) L reg k by (simp add: owns_def alone_defs http_of_def)
qed

lemma modFd_safe:
  assumes ok: "kernel_ok K V file" and ow: "owns K V F w" and f: "f = fp_fd F \<or> f = - 1"
  shows "client.safe K V F id w (on_loop (modFd K f ev cb) w)"
proof (cases "registered (evloop w) f = None")
  case True
  then show ?thesis
    using modFd_cases(2) [of K "nv_interest V" "evloop w" "kern w" f ev cb] ow by (auto simp: owns_def on_loop_def)
next
  case False
  then have f': "f = fp_fd F"
    using f by (auto simp: unregistered_negative)
  obtain L k where r: "modFd K f ev cb (evloop w, kern w) = Inr (L, k)"
      "k = snd (sys_epoll_mod K f (with_mode (evloop w) ev) (kern w))" "loop_ok K (nv_interest V) (L, k)"
      "registered L = (registered (evloop w))(f \<mapsto> (ev, cb))"
    using modFd_cases(1) [of K "nv_interest V" "evloop w" "kern w" f ev cb] ow False by (auto simp: owns_def)
  have "dom (registered L) \<subseteq> dom (registered (evloop w))"
    using r(4) False by auto
  then show ?thesis
    using reg_step [OF ow ok r(3) modFd_keeps(1) [OF r(1)] modFd_mode [OF r(1)]] r f' quiet_okD [OF kernel_okD(8) [OF ok]]
      stream_okD(5) [OF kernel_okD(4) [OF ok]] calls_localD [OF kernel_okD(5) [OF ok]]
    by (simp add: on_loop_def client.safe_def)
qed

lemma removeFd_safe:
  assumes ok: "kernel_ok K V file" and ow: "owns K V F w" and f: "f = fp_fd F \<or> f = - 1"
  shows "client.safe K V F id w (on_loop (removeFd K f) w)"
    and "on_loop (removeFd K f) w = Inr w' \<Longrightarrow> registered (evloop w') f = None \<and> conns w' = conns w"
proof -
  have "client.safe K V F id w (on_loop (removeFd K f) w)
    \<and> (\<forall>w'. on_loop (removeFd K f) w = Inr w' \<longrightarrow> registered (evloop w') f = None \<and> conns w' = conns w)"
  proof (cases "registered (evloop w) f = None")
    case True
    then show ?thesis
      using removeFd_cases(2) [of K "nv_interest V" "evloop w" "kern w" f] ow by (auto simp: owns_def on_loop_def)
  next
    case False
    then have f': "f = fp_fd F"
      using f by (auto simp: unregistered_negative)
    obtain L k where r: "removeFd K f (evloop w, kern w) = Inr (L, k)" "k = snd (sys_epoll_del K f (kern w))"
        "loop_ok K (nv_interest V) (L, k)" "registered L = (registered (evloop w))(f := None)"
      using removeFd_cases(1) [of K "nv_interest V" "evloop w" "kern w" f] ow False by (auto simp: owns_def)
    have "dom (registered L) \<subseteq> dom (registered (evloop w))"
      using r(4) by auto
    then show ?thesis
      using reg_step [OF ow ok r(3) removeFd_timeWheel [OF r(1)] removeFd_mode [OF r(1)]] r f' quiet_okD [OF kernel_okD(8) [OF ok]]
        calls_localD [OF kernel_okD(5) [OF ok]]
      by (simp add: on_loop_def client.safe_def)
  qed
  then show "client.safe K V F id w (on_loop (removeFd K f) w)"
    "on_loop (removeFd K f) w = Inr w' \<Longrightarrow> registered (evloop w') f = None \<and> conns w' = conns w"
    by simp_all
qed

section \<open>The operations of a connection\<close>

lemma step_trans:
  assumes "owns K V F t \<and> leaves_alone V F w t" and "owns K V F u \<and> leaves_alone V F t u"
  shows "owns K V F u \<and> leaves_alone V F w u"
  using assms alone_trans by blast

lemma kern_upd_step:
  assumes "owns K V F w" and "local_call V F w k" and "conns w (fp_conn F) = Some C" and "holds F (evloop w) (g C)"
  shows "owns K V F (upd (fp_conn F) g (w\<lparr>kern := k\<rparr>)) \<and> leaves_alone V F w (upd (fp_conn F) g (w\<lparr>kern := k\<rparr>))"
proof -
  note 1 = kern_step [OF assms(1,2)]
  have "owns K V F (upd (fp_conn F) g (w\<lparr>kern := k\<rparr>)) \<and> leaves_alone V F (w\<lparr>kern := k\<rparr>) (upd (fp_conn F) g (w\<lparr>kern := k\<rparr>))"
    using assms(3,4) 1 by (intro upd_step [where C = C]) simp_all
  with 1 show ?thesis
    using step_trans by blast
qed

lemma owned_conn: "owns K V F w \<Longrightarrow> conns w (fp_conn F) = Some C \<Longrightarrow> holds F (evloop w) C"
  by (auto simp: owns_def)

lemma want_write_safe:
  assumes "kernel_ok K V file" and "owns K V F w"
  shows "client.safe K V F id w (want_write K (fp_conn F) w)"
  unfolding want_write_def
  by (rule client.safe_read) (use assms owned_conn [OF assms(2)] in \<open>auto intro!: modFd_safe dest: holds_fd\<close>)

lemma release_step:
  assumes ok: "kernel_ok K V file" and ow: "owns K V F w" and C: "conns w (fp_conn F) = Some C"
    and unreg: "registered (evloop w) (fd C) = None"
  shows "owns K V F (release K (fp_conn F) C w) \<and> leaves_alone V F w (release K (fp_conn F) C w)"
proof -
  let ?c = "fp_conn F"
  have h: "holds F (evloop w) C"
    using owned_conn [OF ow C] .
  let ?w1 = "upd ?c (fd_update (\<lambda>_. - 1)) (w\<lparr>kern := sys_close K (fd C) (kern w)\<rparr>)"
  let ?w2 = "if fileFd C \<ge> 0
      then upd ?c (\<lambda>C. C\<lparr>fileFd := - 1, sendingFile := False\<rparr>) (?w1\<lparr>kern := sys_close K (fileFd C) (kern ?w1)\<rparr>)
      else ?w1"
  have 1: "owns K V F ?w1 \<and> leaves_alone V F w ?w1"
    using kern_upd_step [OF ow file_calls(3) [OF ok ow unreg] C] h by (simp add: holds_def)
  have C1: "conns ?w1 ?c = Some (C\<lparr>fd := - 1\<rparr>)"
    using C by simp
  have 2: "owns K V F ?w2 \<and> leaves_alone V F w ?w2"
  proof (cases "0 \<le> fileFd C")
    case True
    then have none: "registered (evloop ?w1) (fileFd C) = None"
      using h by (simp add: holds_def)
    have own1: "owns K V F ?w1"
      using 1 by blast
    show ?thesis
      using step_trans [OF 1 kern_upd_step [OF own1 file_calls(3) [OF ok own1 none] C1]] h True by (simp add: holds_def)
  qed (use 1 in simp)
  have own2: "owns K V F ?w2"
    using 2 by blast
  obtain C2 where C2: "conns ?w2 ?c = Some C2"
    using owns_conn [OF own2] by blast
  have "owns K V F (upd ?c (closeCallback_update (\<lambda>_. None)) ?w2)
      \<and> leaves_alone V F ?w2 (upd ?c (closeCallback_update (\<lambda>_. None)) ?w2)"
    using upd_step [OF own2 C2] owned_conn [OF own2 C2] by (simp add: holds_def)
  from step_trans [OF 2 this] show ?thesis
    by (simp add: release_def Let_def)
qed

text \<open>What the layers above do in their callbacks is confined to the footprint as well.\<close>

definition calm_env ::
    "'k kernel \<Rightarrow> 'k net_view \<Rightarrow> footprint \<Rightarrow> ('p, 'k, ('h, 'q, 'y) http_state tcp_server) conn_env \<Rightarrow> bool" where
  "calm_env K V F env \<longleftrightarrow>
     (\<forall>w cb. owns K V F w \<and> cb \<in> {TcpOnClose, HttpOnClose (fp_ctx F) (Some TcpOnClose)} \<longrightarrow>
        client.safe K V F id w (run_close env cb (fp_conn F) w))
     \<and> (\<forall>w cb close. owns K V F w \<and> (\<forall>u. owns K V F u \<longrightarrow> client.safe K V F id u (close (fp_conn F) u)) \<longrightarrow>
        client.safe K V F id w (run_write env close cb (fp_conn F) w))"

lemma shutdownWrite_safe:
  assumes ok: "kernel_ok K V file" and ow: "owns K V F w"
  shows "client.safe K V F id w (shutdownWrite K (fp_conn F) w)"
  unfolding shutdownWrite_def
  by (rule client.safe_read)
    (use holds_fd [OF owned_conn [OF ow]] in
      \<open>auto simp: client.safe_def intro: kern_step [OF ow local_calls(4) [OF ok], THEN conjunct1]
        kern_step [OF ow local_calls(4) [OF ok], THEN conjunct2]\<close>)

lemma state_step:
  assumes ow: "owns K V F w"
  shows "owns K V F (setState s (fp_conn F) w) \<and> leaves_alone V F w (setState s (fp_conn F) w)"
proof -
  obtain C where C: "conns w (fp_conn F) = Some C"
    using owns_conn [OF ow] by blast
  show ?thesis
    using upd_step [OF ow C] owned_conn [OF ow C] by (simp add: setState_def holds_def)
qed

lemma close_with_safe:
  assumes ok: "kernel_ok K V file" and ow: "owns K V F w"
    and hc: "\<And>u. owns K V F u \<Longrightarrow> client.safe K V F id u (hc (fp_conn F) u)"
  shows "client.safe K V F id w (close_with K hc (fp_conn F) w)"
  unfolding close_with_def forceClose_with_def
proof (rule client.safe_read)
  fix C
  let ?w = "setState Closing (fp_conn F) w"
  have st: "owns K V F ?w \<and> leaves_alone V F w ?w"
    by (rule state_step [OF ow])
  have "client.safe K V F id ?w (rbind (shutdownWrite K (fp_conn F) ?w) (hc (fp_conn F)))"
    using shutdownWrite_safe [OF ok] hc st by (intro client.safe_then) auto
  then have "client.safe K V F id w (rbind (shutdownWrite K (fp_conn F) ?w) (hc (fp_conn F)))"
    using st by (blast intro: client.safe_from)
  then show "client.safe K V F id w (if readableBytes (outputBuffer C) = 0
      then rbind (shutdownWrite K (fp_conn F) ?w) (hc (fp_conn F)) else Inr ?w)"
    using st by (simp add: client.safe_Inr)
qed

text \<open>The part of \<^verbatim>\<open>handleClose\<close> behind the pending file.\<close>

definition take_down ::
    "('p, 'k, 'x) conn_env \<Rightarrow> 'k kernel \<Rightarrow> nat \<Rightarrow> ('p, 'k, 'x) world \<Rightarrow> ('p, 'k, 'x) world res" where
  "take_down env K c w =
     rbind (conn c w) (\<lambda>C. rbind (on_loop (removeFd K (fd C)) w) (\<lambda>w2.
       case closeCallback C of None \<Rightarrow> Inr (release K c C w2) | Some cb \<Rightarrow> run_close env cb c (release K c C w2)))"

lemma take_down_safe:
  assumes ok: "kernel_ok K V file" and env: "calm_env K V F env" and ow: "owns K V F w"
  shows "client.safe K V F id w (take_down env K (fp_conn F) w)"
  unfolding take_down_def
proof (rule client.safe_read, goal_cases)
  case (1 C)
  let ?c = "fp_conn F"
  have C: "conns w ?c = Some C"
    using 1 by simp
  have fd: "fd C = fp_fd F \<or> fd C = - 1"
    and cb: "closeCallback C \<in> {None, Some TcpOnClose, Some (HttpOnClose (fp_ctx F) (Some TcpOnClose))}"
    using owned_conn [OF ow C] by (auto simp: holds_def)
  show ?case
  proof (rule client.safe_bind [OF removeFd_safe(1) [OF ok ow fd]], goal_cases)
    case (1 w2)
    then have w2: "owns K V F w2" "registered (evloop w2) (fd C) = None" "conns w2 ?c = Some C"
      using removeFd_safe(2) [OF ok ow fd 1(1)] C by simp_all
    note rel = release_step [OF ok w2(1,3,2)]
    show ?case
    proof (cases "closeCallback C")
      case None
      then show ?thesis
        using rel by (simp add: client.safe_def)
    next
      case (Some b)
      then have "b \<in> {TcpOnClose, HttpOnClose (fp_ctx F) (Some TcpOnClose)}"
        using cb by auto
      with env rel have "client.safe K V F id (release K ?c C w2) (run_close env b ?c (release K ?c C w2))"
        unfolding calm_env_def by blast
      then show ?thesis
        using rel Some client.safe_from by auto
    qed
  qed
qed

lemma handleClose_take_down:
  "handleClose env K (Suc n) c w = rbind (conn c w) (\<lambda>C.
     if fd C < 0 then Inr w
     else rbind (if sendingFile C
            then (case writeCompleteCallback C of None \<Rightarrow> Inr w
                  | Some cb \<Rightarrow> run_write env (close_with K (\<lambda>c w. handleClose env K n c w)) cb c w)
            else Inr w) (take_down env K c))"
  unfolding handleClose.simps take_down_def [abs_def] by (rule refl)

lemma handleClose_safe:
  assumes ok: "kernel_ok K V file" and env: "calm_env K V F env" and "owns K V F w"
  shows "client.safe K V F id w (handleClose env K n (fp_conn F) w)"
  using assms(3)
proof (induction n arbitrary: w)
  case (Suc n)
  note ow = Suc.prems
  have close: "client.safe K V F id u (close_with K (\<lambda>c w. handleClose env K n c w) (fp_conn F) u)" if "owns K V F u" for u
    using close_with_safe [OF ok that] Suc.IH by blast
  show ?case
    unfolding handleClose_take_down
  proof (rule client.safe_read, rule client.safe_if, goal_cases)
    case (2 C)
    show ?case
      by (rule client.safe_then [OF _ take_down_safe [OF ok env]])
        (use env close ow in \<open>auto simp: calm_env_def intro: client.safe_stay split: option.split\<close>)
  qed (simp add: client.safe_stay ow)
qed simp

lemma send_safe:
  assumes ok: "kernel_ok K V file" and env: "calm_env K V F env" and ow: "owns K V F w"
  shows "client.safe K V F id w (send env K n data (fp_conn F) w)"
  unfolding send_def
proof (rule client.safe_read, goal_cases)
  case (1 C)
  let ?c = "fp_conn F"
  have C: "conns w ?c = Some C"
    using 1 by simp
  have h: "holds F (evloop w) C"
    using owned_conn [OF ow C] .
  let ?p = "if readableBytes (outputBuffer C) = 0 then (let (r, k') = sys_write K (fd C) data (kern w) in (r, w\<lparr>kern := k'\<rparr>))
      else (Inr 0, w)"
  obtain r w1 where p: "?p = (r, w1)"
    by fastforce
  have st: "owns K V F w1 \<and> leaves_alone V F w w1" and C1: "conns w1 ?c = Some C"
    using p kern_step [OF ow local_calls(1) [OF ok holds_fd [OF h], of w data]] ow C
    by (auto simp: alone_refl split: if_splits prod.splits)
  have queued: "client.safe K V F id w (let w2 = upd ?c (outputBuffer_update (buffer_append d)) w1
      in if readableBytes b > 0 then want_write K ?c w2 else Inr w2)" for d b
  proof -
    have own1: "owns K V F w1"
      using st by blast
    have 2: "owns K V F (upd ?c (outputBuffer_update (buffer_append d)) w1)
        \<and> leaves_alone V F w (upd ?c (outputBuffer_update (buffer_append d)) w1)"
      by (rule step_trans [OF st upd_step [OF own1 C1]]) (use owned_conn [OF own1 C1] in \<open>simp add: holds_def\<close>)
    show ?thesis
      unfolding Let_def using 2 want_write_safe [OF ok] by (auto intro: client.safe_Inr client.safe_from)
  qed
  have "client.safe K V F id w (handleError env K n ?c w1)"
    using st handleClose_safe [OF ok env] by (auto simp: handleError_def intro: client.safe_from)
  then show ?case
    unfolding p using queued client.safe_stay [OF ow, of id w] by (cases r) (simp_all split del: if_split split: if_split)
qed

lemma sendFile_fd_safe:
  fixes w :: "('p, 'k, 'h, 'q, 'y) http_world"
  assumes ok: "kernel_ok K V file" and ow: "owns K V F w"
    and off: "0 \<le> off" and unreg: "registered (evloop w) ffd = None"
  shows "client.safe K V F id w (sendFile_fd K ffd sz off len (fp_conn F) w)"
  unfolding sendFile_fd_def
proof (rule client.safe_read, goal_cases)
  case (1 C)
  let ?c = "fp_conn F"
  have C: "conns w ?c = Some C"
    using 1 by simp
  let ?p = "if off > 0 then sys_lseek K ffd off (kern w) else (True, kern w)"
  let ?g = "\<lambda>C. C\<lparr>sendingFile := True, fileFd := ffd, fileSize := sz, fileOffset := off,
      bytesToSend := span_of sz off len, fileSentSize := 0\<rparr>"
  obtain b k where p: "?p = (b, k)"
    by fastforce
  have closed: "owns K V F (v\<lparr>kern := sys_close K ffd (kern v)\<rparr>) \<and> leaves_alone V F v (v\<lparr>kern := sys_close K ffd (kern v)\<rparr>)"
    if "owns K V F v" "evloop v = evloop w" for v :: "('p, 'k, 'h, 'q, 'y) http_world"
    using kern_step [OF that(1) file_calls(3) [OF ok that(1)]] that(2) unreg by simp
  have lc: "local_call V F w k"
    using p file_calls(2) [OF ok, of F w ffd off] by (cases "off > 0") (auto simp: local_call_def)
  have sk: "owns K V F (w\<lparr>kern := k\<rparr>) \<and> leaves_alone V F w (w\<lparr>kern := k\<rparr>)"
    by (rule kern_step [OF ow lc])
  then have 2: "owns K V F (w\<lparr>kern := sys_close K ffd k\<rparr>) \<and> leaves_alone V F w (w\<lparr>kern := sys_close K ffd k\<rparr>)"
    using step_trans [OF sk closed [of "w\<lparr>kern := k\<rparr>"]] by simp
  have 3: "owns K V F (upd ?c ?g (w\<lparr>kern := k\<rparr>)) \<and> leaves_alone V F w (upd ?c ?g (w\<lparr>kern := k\<rparr>))"
    by (rule kern_upd_step [OF ow lc C]) (use owned_conn [OF ow C] off unreg in \<open>simp add: holds_def\<close>)
  have "client.safe K V F id w (want_write K ?c (upd ?c ?g (w\<lparr>kern := k\<rparr>)))"
    using 3 want_write_safe [OF ok] by (blast intro: client.safe_from)
  then show ?case
    unfolding p using 2 closed [OF ow] by (simp add: Let_def client.safe_Inr)
qed

section \<open>Writing\<close>

lemma sendfile_loop_safe:
  assumes ok: "kernel_ok K V file" and "owns K V F w"
  shows "client.safe K V F snd w (sendfile_loop K n (fp_conn F) w)"
  using assms(2)
proof (induction n arbitrary: w)
  case (Suc n)
  let ?c = "fp_conn F"
  show ?case
    unfolding sendfile_loop.simps
  proof (rule client.safe_read, goal_cases)
    case (1 C)
    then have C: "conns w ?c = Some C"
      by simp
    note h = owned_conn [OF Suc.prems C]
    obtain r k where r: "sys_sendfile K (fd C) (fileFd C) (fileOffset C + int (fileSentSize C))
        (bytesToSend C - fileSentSize C) (kern w) = (r, k)"
      by fastforce
    have lc: "local_call V F w k"
      using local_calls(3) [OF ok holds_fd [OF h], of "fileOffset C + int (fileSentSize C)" w "fileFd C"
          "bytesToSend C - fileSentSize C"] r h by (simp add: holds_def)
    have sk: "owns K V F (w\<lparr>kern := k\<rparr>) \<and> leaves_alone V F w (w\<lparr>kern := k\<rparr>)"
      by (rule kern_step [OF Suc.prems lc])
    have 2: "owns K V F (upd ?c (fileSentSize_update (\<lambda>s. s + m)) (w\<lparr>kern := k\<rparr>))
        \<and> leaves_alone V F w (upd ?c (fileSentSize_update (\<lambda>s. s + m)) (w\<lparr>kern := k\<rparr>))" for m
      by (rule kern_upd_step [OF Suc.prems lc C]) (use h in \<open>simp add: holds_def\<close>)
    note 2 = 2 [of "Suc m" for m, simplified]
    have more: "client.safe K V F snd w (sendfile_loop K n ?c t)" if "owns K V F t \<and> leaves_alone V F w t" for t
      using that Suc.IH by (blast intro: client.safe_from)
    show ?case
      using sk more [OF sk] more [OF 2] Suc.prems
      by (simp add: r Let_def client.safe_stay client.safe_Inr split: sum.split errno.split nat.split)
  qed
qed simp

lemma write_output_safe:
  assumes ok: "kernel_ok K V file" and ow: "owns K V F w"
  shows "client.safe K V F snd w (write_output K (fp_conn F) w)"
  unfolding write_output_def
proof (intro client.safe_read, goal_cases)
  case (1 C data)
  let ?c = "fp_conn F"
  have C: "conns w ?c = Some C"
    using 1 by simp
  note h = owned_conn [OF ow C]
  obtain r k where r: "sys_write K (fd C) data (kern w) = (r, k)"
    by fastforce
  have "owns K V F (upd ?c (outputBuffer_update (\<lambda>_. b)) (w\<lparr>kern := k\<rparr>))
      \<and> leaves_alone V F w (upd ?c (outputBuffer_update (\<lambda>_. b)) (w\<lparr>kern := k\<rparr>))" for b
    using local_calls(1) [OF ok holds_fd [OF h], of w data] r h by (intro kern_upd_step [OF ow _ C]) (simp_all add: holds_def)
  then show ?case
    by (simp add: r client.safe_Inr split: prod.split)
qed

lemma pump_file_safe:
  fixes w :: "('p, 'k, 'h, 'q, 'y) http_world"
  assumes ok: "kernel_ok K V file" and ow: "owns K V F w"
  shows "client.safe K V F snd w (pump_file K n (fp_conn F) w)"
  unfolding pump_file_def
proof (rule client.safe_read, rule client.safe_bind [where st = snd], goal_cases)
  case (1 C)
  show ?case
    using write_output_safe [OF ok ow] ow by (simp add: client.safe_stay)
next
  case (2 C v)
  then show ?case
    using sendfile_loop_safe [OF ok]
    by (auto intro!: client.safe_stay client.safe_read split: prod.split sum.split)
qed

lemma pump_buffer_safe:
  assumes ok: "kernel_ok K V file" and "owns K V F w"
  shows "client.safe K V F snd w (pump_buffer K n (fp_conn F) w)"
  using assms(2)
proof (induction n arbitrary: w)
  case (Suc n)
  show ?case
    unfolding pump_buffer.simps
  proof (rule client.safe_read, rule client.safe_if, goal_cases)
    case (2 C)
    show ?case
      by (rule client.safe_bind [OF write_output_safe [OF ok Suc.prems]])
        (use Suc.IH in \<open>auto intro!: client.safe_stay split: prod.split sum.split nat.split\<close>)
  qed (simp add: client.safe_stay Suc.prems)
qed simp

lemma complete_write_safe:
  assumes ok: "kernel_ok K V file" and env: "calm_env K V F env" and ow: "owns K V F w"
  shows "client.safe K V F id w (complete_write env K n (fp_conn F) w)"
  unfolding complete_write_def
proof (rule client.safe_read, goal_cases)
  case (1 C)
  let ?c = "fp_conn F"
  from 1 have fd: "fd C = fp_fd F \<or> fd C = - 1"
    using owned_conn [OF ow] holds_fd by simp
  note closes = handleClose_safe [OF ok env]
  have close: "client.safe K V F id u (close_conn env K n ?c u)" if "owns K V F u" for u
    unfolding close_conn_def using close_with_safe [OF ok that] closes by blast
  have told: "client.safe K V F id t (case writeCompleteCallback C of None \<Rightarrow> Inr t
      | Some cb \<Rightarrow> run_write env (close_conn env K n) cb ?c t)" if "owns K V F t" for t
    using env close that by (auto simp: calm_env_def intro: client.safe_stay split: option.split)
  have last: "client.safe K V F id t (rbind (conn ?c t) (\<lambda>C2. if state C2 = Closing then handleClose env K n ?c t else Inr t))"
    if "owns K V F t" for t
    using closes [OF that] client.safe_stay [OF that, of id t] by (auto intro: client.safe_read)
  show ?case
    by (intro client.safe_then [OF modFd_safe [OF ok ow fd]] client.safe_then [OF told last])
qed

lemma finish_file_safe:
  assumes ok: "kernel_ok K V file" and ow: "owns K V F w"
  shows "client.safe K V F id w (finish_file K (fp_conn F) w)"
  unfolding finish_file_def
proof (rule client.safe_read, goal_cases)
  case (1 C)
  then have C: "conns w (fp_conn F) = Some C"
    by simp
  note h = owned_conn [OF ow C]
  have none: "registered (evloop w) (fileFd C) = None"
    using h by (cases "0 \<le> fileFd C") (simp_all add: holds_def registered_def)
  show ?case
    using kern_upd_step [OF ow file_calls(3) [OF ok ow none] C] h by (simp add: client.safe_Inr holds_def)
qed

lemma handleWrite_safe:
  fixes w :: "('p, 'k, 'h, 'q, 'y) http_world"
  assumes ok: "kernel_ok K V file" and env: "calm_env K V F env" and ow: "owns K V F w"
  shows "client.safe K V F id w (handleWrite env K n (fp_conn F) w)"
  unfolding handleWrite_def
proof (rule client.safe_read, rule client.safe_bind [where st = snd], goal_cases)
  case (1 C)
  show ?case
    unfolding pump_def using pump_file_safe [OF ok ow] pump_buffer_safe [OF ok ow] by (auto intro: client.safe_read)
next
  case (2 C v)
  obtain r t where v: "v = (r, t)"
    by fastforce
  then have t: "owns K V F t"
    using 2 by simp
  have "client.safe K V F id t (if sendingFile C then finish_file K (fp_conn F) t else Inr t)"
    using finish_file_safe [OF ok t] t by (simp add: client.safe_stay)
  then have "client.safe K V F id t (rbind (if sendingFile C then finish_file K (fp_conn F) t else Inr t)
      (complete_write env K n (fp_conn F)))"
    by (rule client.safe_then) (rule complete_write_safe [OF ok env])
  then show ?case
    using handleClose_safe [OF ok env t] t unfolding v
    by (cases r) (simp_all add: handleError_def client.safe_stay split del: if_split)
qed

section \<open>Reading\<close>

definition calm_data ::
    "'k kernel \<Rightarrow> 'k net_view \<Rightarrow> footprint \<Rightarrow> ('p, 'k, ('h, 'q, 'y) http_state tcp_server) conn_env \<Rightarrow> bool" where
  "calm_data K V F env \<longleftrightarrow> (\<forall>w cb. owns K V F w \<longrightarrow> client.safe K V F id w (run_data env cb (fp_conn F) w))"

lemma handleRead_safe:
  assumes ok: "kernel_ok K V file" and env: "calm_env K V F env" "calm_data K V F env" and "owns K V F w"
  shows "client.safe K V F id w (handleRead env K n (fp_conn F) w)"
  using assms(4)
proof (induction n arbitrary: w)
  case (Suc n)
  let ?c = "fp_conn F"
  show ?case
    unfolding handleRead.simps
  proof (rule client.safe_read, goal_cases)
    case (1 C)
    then have C: "conns w ?c = Some C"
      by simp
    note h = owned_conn [OF Suc.prems C]
    obtain rr k where rr: "sys_readv K (fd C) (readv_capacity (inputBuffer C)) (kern w) = (rr, k)"
      by fastforce
    obtain r b where r: "readFromFd rr (inputBuffer C) = (r, b)"
      by fastforce
    let ?w1 = "upd ?c (inputBuffer_update (\<lambda>_. b)) (w\<lparr>kern := k\<rparr>)"
    have rd: "owns K V F ?w1 \<and> leaves_alone V F w ?w1"
      using local_calls(2) [OF ok holds_fd [OF h], of w "readv_capacity (inputBuffer C)"] rr h
      by (intro kern_upd_step [OF Suc.prems _ C]) (simp_all add: holds_def)
    have data: "client.safe K V F id ?w1 (case dataCallback C of None \<Rightarrow> Inr ?w1 | Some cb \<Rightarrow> run_data env cb ?c ?w1)"
      using env(2) rd by (auto simp: calm_data_def intro: client.safe_stay split: option.split)
    have "client.safe K V F id w (rbind (case dataCallback C of None \<Rightarrow> Inr ?w1 | Some cb \<Rightarrow> run_data env cb ?c ?w1)
        (\<lambda>w2. handleRead env K n ?c w2))"
      using client.safe_then [OF data Suc.IH] rd by (blast intro: client.safe_from)
    moreover have "client.safe K V F id w (handleClose env K n ?c ?w1)"
      using handleClose_safe [OF ok env(1)] rd by (blast intro: client.safe_from)
    ultimately show ?case
      using rd by (simp add: id_def rr r Let_def handleError_def client.safe_Inr split: sum.split nat.split)
  qed
qed simp

lemma onEvents_safe:
  assumes ok: "kernel_ok K V file" and env: "calm_env K V F env" "calm_data K V F env" and ow: "owns K V F w"
  shows "client.safe K V F id w (onEvents env K n wr (fp_conn F) ev w)"
  unfolding onEvents_def
proof (intro client.safe_then)
  show "client.safe K V F id w (if has ev EPOLLIN then handleRead env K n (fp_conn F) w else Inr w)"
    using handleRead_safe [OF ok env ow] ow by (simp add: client.safe_stay)
qed (use handleWrite_safe [OF ok env(1)] handleClose_safe [OF ok env(1)] in \<open>auto simp: handleError_def intro: client.safe_stay\<close>)

section \<open>The HTTP server\<close>

lemma wheel_step:
  assumes ow: "owns K V F w" and wf: "wheel_wf wh" and shape: "wheel_shape wh = wheel_shape (timeWheel (evloop w))"
    and same: "\<And>e. e \<noteq> fp_entry F \<Longrightarrow> view wh e = view (timeWheel (evloop w)) e"
    and own: "\<And>C. conns w (fp_conn F) = Some C \<Longrightarrow> holds F (evloop (set_wheel wh w)) C"
  shows "owns K V F (set_wheel wh w) \<and> leaves_alone V F w (set_wheel wh w)"
  using assms by (auto simp: owns_def alone_defs wheel_shape_def) (simp_all add: set_wheel_def)

lemma refresh_deadline_safe:
  assumes ow: "owns K V F w"
  shows "client.safe K V F id w (refresh_deadline (fp_conn F) w)"
  unfolding refresh_deadline_def
proof (rule client.safe_read)
  fix C
  assume "conn (fp_conn F) w = Inr C"
  then have C: "conns w (fp_conn F) = Some C"
    by simp
  note h = owned_conn [OF ow C]
  show "client.safe K V F id w (case wheelEntry C of None \<Rightarrow> Inr w | Some e \<Rightarrow> on_wheel (refresh (Some e)) w)"
  proof (cases "wheelEntry C")
    case None
    then show ?thesis
      using ow by (simp add: client.safe_stay)
  next
    case (Some e)
    then obtain r k where e: "e = fp_entry F"
        "view (timeWheel (evloop w)) (fp_entry F) = Some (r, k, CloseIdle (fp_conn F), fp_conn F)"
      using h by (auto simp: holds_def)
    have wf: "wheel_wf (timeWheel (evloop w))"
      using ow by (simp add: owns_def)
    obtain wh where wh: "refresh (Some (fp_entry F)) (timeWheel (evloop w)) = Inr wh" "wheel_wf wh"
        "view wh = (view (timeWheel (evloop w)))(fp_entry F \<mapsto> (k, k, CloseIdle (fp_conn F), fp_conn F))"
      using refresh_view [OF wf e(2)] by blast
    have "owns K V F (set_wheel wh w) \<and> leaves_alone V F w (set_wheel wh w)"
      using wh(2,3) shape_ops(2) [OF wh(1)] h C e by (intro wheel_step [OF ow]) (auto simp: holds_def)
    then show ?thesis
      using Some wh(1) e(1) by (simp add: on_wheel_def client.safe_Inr)
  qed
qed

lemma removeConnection_safe:
  fixes w :: "('p, 'k, 'h, 'q, 'y) http_world"
  assumes ow: "owns K V F w"
  shows "client.safe K V F id w (removeConnection (fp_conn F) w)"
  unfolding removeConnection_def
proof (rule client.safe_read)
  fix C
  let ?c = "fp_conn F"
  assume "conn ?c w = Inr C"
  then have C: "conns w ?c = Some C"
    by simp
  note h = owned_conn [OF ow C]
  have out: "client.safe K V F id w (case wheelEntry C of None \<Rightarrow> Inr w
      | Some e \<Rightarrow> rbind (on_wheel (remove (Some e)) w) (\<lambda>w1. Inr (upd ?c (setWheelEntry None) w1)))"
  proof (cases "wheelEntry C")
    case None
    then show ?thesis
      using ow by (simp add: client.safe_stay)
  next
    case (Some e)
    then obtain r k where e: "e = fp_entry F"
        "view (timeWheel (evloop w)) (fp_entry F) = Some (r, k, CloseIdle (fp_conn F), fp_conn F)"
      using h by (auto simp: holds_def)
    have wf: "wheel_wf (timeWheel (evloop w))"
      using ow by (simp add: owns_def)
    obtain wh where wh: "remove (Some (fp_entry F)) (timeWheel (evloop w)) = Inr wh" "wheel_wf wh"
        "view wh = (view (timeWheel (evloop w)))(fp_entry F := None)"
      using remove_view [OF wf e(2)] by blast
    let ?w = "upd ?c (setWheelEntry None) (set_wheel wh w)"
    have "owns K V F ?w \<and> leaves_alone V F w ?w"
      using ow C h wh(2,3) shape_ops(1) [OF wh(1)]
      by (auto simp: owns_def alone_defs holds_def wheel_shape_def) (simp_all add: set_wheel_def)
    then show ?thesis
      using Some wh(1) e(1) by (simp add: on_wheel_def client.safe_Inr)
  qed
  have erase: "client.safe K V F id t (rbind (conn ?c t) (\<lambda>C1. Inr (upd_app (connections_update (AList.delete (fd C1))) t)))"
    if "owns K V F t" for t :: "('p, 'k, 'h, 'q, 'y) http_world"
    using erase_step [OF that] holds_fd [OF owned_conn [OF that]] by (auto intro!: client.safe_read client.safe_Inr)
  show "client.safe K V F id w (rbind (case wheelEntry C of None \<Rightarrow> Inr w
      | Some e \<Rightarrow> rbind (on_wheel (remove (Some e)) w) (\<lambda>w1. Inr (upd ?c (setWheelEntry None) w1)))
    (\<lambda>w1. rbind (conn ?c w1) (\<lambda>C1. Inr (upd_app (connections_update (AList.delete (fd C1))) w1))))"
    by (rule client.safe_then [OF out erase])
qed

lemma on_close_safe:
  fixes w :: "('p, 'k, 'h, 'q, 'y) http_world"
  assumes ow: "owns K V F w" and cb: "cb \<in> {TcpOnClose, HttpOnClose (fp_ctx F) (Some TcpOnClose)}"
  shows "client.safe K V F id w (on_close cb (fp_conn F) w)"
proof (cases "cb = TcpOnClose")
  case True
  then show ?thesis
    using removeConnection_safe [OF ow] by simp
next
  case False
  then have cb: "cb = HttpOnClose (fp_ctx F) (Some TcpOnClose)"
    using cb by simp
  let ?w = "upd (fp_conn F) (setUserData None) w"
  obtain C where C: "conns w (fp_conn F) = Some C"
    using owns_conn [OF ow] by blast
  have 1: "owns K V F ?w \<and> leaves_alone V F w ?w"
    using upd_step [OF ow C] owned_conn [OF ow C] by (simp add: holds_def)
  have "client.safe K V F id t (Inr (free_ctx (fp_ctx F) t))" if "owns K V F t" for t :: "('p, 'k, 'h, 'q, 'y) http_world"
    unfolding free_ctx_def using ctx_step [OF that] by (intro client.safe_Inr) simp_all
  then have "client.safe K V F id ?w (rbind (removeConnection (fp_conn F) ?w) (\<lambda>w2. Inr (free_ctx (fp_ctx F) w2)))"
    using removeConnection_safe 1 by (blast intro: client.safe_then)
  then show ?thesis
    unfolding cb using 1 by (simp add: Let_def client.safe_from)
qed

text \<open>What the program's own handlers and its write hook may do.\<close>

definition handlers_local :: "('p, 'k, 'h, 'q, 'y) http_param \<Rightarrow> 'k kernel \<Rightarrow> 'k net_view \<Rightarrow> footprint \<Rightarrow> bool" where
  "handlers_local P K V F \<longleftrightarrow>
     (\<forall>h req resp w. owns K V F w \<longrightarrow> client.safe K V F snd w (handle P h req (fp_conn F) resp w))
     \<and> (\<forall>w. owns K V F w \<longrightarrow> client.safe K V F id w (writeCompleteHook P (fp_conn F) w))"

lemma reset_step:
  assumes ow: "owns K V F w"
  shows "owns K V F (resetForNextRequest (fp_conn F) w) \<and> leaves_alone V F w (resetForNextRequest (fp_conn F) w)"
proof -
  obtain C where C: "conns w (fp_conn F) = Some C"
    using owns_conn [OF ow] by blast
  have 1: "owns K V F (upd (fp_conn F) (inputBuffer_update retrieveAll) w)
      \<and> leaves_alone V F w (upd (fp_conn F) (inputBuffer_update retrieveAll) w)"
    using upd_step [OF ow C] owned_conn [OF ow C] by (simp add: holds_def)
  then show ?thesis
    using step_trans [OF 1 state_step] by (simp add: resetForNextRequest_def)
qed

lemma base_env_calm:
  assumes "handlers_local P K V F"
  shows "calm_env K V F (base_env P)"
proof -
  have "client.safe K V F id w (on_write_complete P close (fp_conn F) w)"
    if ow: "owns K V F w" and close: "\<And>u. owns K V F u \<Longrightarrow> client.safe K V F id u (close (fp_conn F) u)" for w close
  proof -
    have "client.safe K V F id t (rbind (conn (fp_conn F) t) (\<lambda>C. if state C = SendingResponse then
        (if keepAlive C then Inr (resetForNextRequest (fp_conn F) t) else close (fp_conn F) t) else Inr t))"
      if "owns K V F t" for t
      using close [OF that] reset_step [OF that] that
      by (auto intro!: client.safe_read client.safe_Inr simp: alone_refl)
    then show ?thesis
      unfolding on_write_complete_def using assms ow by (intro client.safe_then) (auto simp: handlers_local_def)
  qed
  then show ?thesis
    using on_close_safe unfolding calm_env_def base_env_simps by blast
qed

lemma finish_response_safe:
  assumes ok: "kernel_ok K V file" and hl: "handlers_local P K V F" and ow: "owns K V F w"
  shows "client.safe K V F id w (finish_response P K n p (fp_conn F) w)"
  unfolding finish_response_def close_conn_def
proof (rule client.safe_read)
  fix x
  have "client.safe K V F id w (close_with K (handleClose (base_env P) K n) (fp_conn F) w)"
    using close_with_safe [OF ok ow] handleClose_safe [OF ok base_env_calm [OF hl]] by blast
  then show "client.safe K V F id w (if \<not> rq_keepAlive (pc_request x)
      then close_with K (handleClose (base_env P) K n) (fp_conn F) w else Inr (resetForNextRequest (fp_conn F) w))"
    using reset_step [OF ow] by (simp add: client.safe_Inr)
qed

lemma send_response_safe:
  assumes "kernel_ok K V file" and "handlers_local P K V F" and "owns K V F w"
  shows "client.safe K V F id w (send_response P K n p (fp_conn F) resp w)"
  unfolding send_response_def
  by (rule client.safe_then [OF send_safe [OF assms(1) base_env_calm [OF assms(2)] assms(3)] finish_response_safe [OF assms(1,2)]])

lemma send_head_and_file_safe:
  fixes w :: "('p, 'k, 'h, 'q, 'y) http_world"
  assumes ok: "kernel_ok K V file" and hl: "handlers_local P K V F" and ow: "owns K V F w"
    and off: "0 \<le> off" and unreg: "registered (evloop w) ffd = None"
  shows "client.safe K V F id w (send_head_and_file P K n (fp_conn F) resp ffd sz off len w)"
  unfolding send_head_and_file_def
proof (rule client.safe_bind [OF send_safe [OF ok base_env_calm [OF hl] ow]])
  fix v
  assume v: "owns K V F (id v)" "leaves_alone V F w (id v)"
  then have own: "owns K V F v" and none: "registered (evloop v) ffd = None"
    using alone_unregistered unreg by auto
  have "client.safe K V F id v (rbind (sendFile_fd K ffd sz off len (fp_conn F) v)
      (\<lambda>w2. Inr (setState SendingResponse (fp_conn F) w2)))"
    by (rule client.safe_then [OF sendFile_fd_safe [OF ok own off none]]) (simp add: client.safe_Inr state_step)
  then show "client.safe K V F id (id v) (rbind (sendFile_fd K ffd sz off len (fp_conn F) v)
      (\<lambda>w2. Inr (setState SendingResponse (fp_conn F) w2)))"
    by simp
qed

lemma file_response_safe:
  fixes w :: "('p, 'k, 'h, 'q, 'y) http_world"
  assumes ok: "kernel_ok K V file" and hl: "handlers_local P K V F" and ow: "owns K V F w"
  shows "client.safe K V F id w (file_response P K n p (fp_conn F) req resp w)"
proof -
  let ?c = "fp_conn F"
  obtain r k where r: "sys_open K (rs_filePath resp) (kern w) = (r, k)"
    by fastforce
  let ?w1 = "w\<lparr>kern := k\<rparr>"
  have 1: "owns K V F ?w1 \<and> leaves_alone V F w ?w1"
    using kern_step [OF ow file_calls(1) [OF ok, of F w "rs_filePath resp"]] r by simp
  note answer = send_response_safe [OF ok hl, of _ n p]
  note sent = send_head_and_file_safe [OF ok hl, of _ _ _ n]
  show ?thesis
  proof (cases r)
    case None
    then show ?thesis
      using 1 answer by (auto simp: file_response_def r intro: client.safe_from)
  next
    case (Some ffd)
    have own1: "owns K V F ?w1"
      using 1 by blast
    have ffd: "0 \<le> ffd" "registered (evloop ?w1) ffd = None"
      using file_calls(4) [OF ok ow, of "rs_filePath resp" ffd k] r Some by simp_all
    have closed: "owns K V F (?w1\<lparr>kern := sys_close K ffd k\<rparr>) \<and> leaves_alone V F ?w1 (?w1\<lparr>kern := sys_close K ffd k\<rparr>)"
      using kern_step [OF own1 file_calls(3) [OF ok own1 ffd(2)]] by simp
    have "client.safe K V F id ?w1 (file_response P K n p ?c req resp w)"
    proof (cases "rq_hasRange req")
      case False
      then show ?thesis
        using sent [OF own1 _ ffd(2)] by (simp add: file_response_def r Some)
    next
      case True
      let ?sz = "int (rs_fileSize resp)"
      show ?thesis
      proof (cases "decide_range ?sz (rq_rangeStart req) (rq_rangeEnd req)")
        case None
        then show ?thesis
          using client.safe_from [OF answer] closed True by (auto simp: file_response_def r Some Let_def)
      next
        case (Some se)
        then obtain s e where se: "decide_range ?sz (rq_rangeStart req) (rq_rangeEnd req) = Some (s, e)"
          by (cases se) simp
        then have "0 \<le> s"
          using decide_range_inside by simp
        then show ?thesis
          using sent [OF own1 _ ffd(2)] True se by (simp add: file_response_def r \<open>r = Some ffd\<close> Let_def)
      qed
    qed
    then show ?thesis
      using 1 client.safe_from by blast
  qed
qed

lemma ctx_upd_step:
  assumes "owns K V F w"
  shows "owns K V F (upd_ctx (fp_ctx F) g w) \<and> leaves_alone V F w (upd_ctx (fp_ctx F) g w)"
  unfolding upd_ctx_def by (rule ctx_step [OF assms]) simp

lemma processRequest_safe:
  fixes w :: "('p, 'k, 'h, 'q, 'y) http_world"
  assumes ok: "kernel_ok K V file" and hl: "handlers_local P K V F" and ow: "owns K V F w"
  shows "client.safe K V F id w (processRequest P K n (fp_conn F) w)"
  unfolding processRequest_def
proof (rule client.safe_read, goal_cases)
  case (1 C)
  let ?c = "fp_conn F" and ?p = "fp_ctx F"
  consider "userData C = None" | "userData C = Some ?p"
    using 1 owned_conn [OF ow, of C] by (auto simp: holds_def)
  then show ?case
  proof cases
    case 2
    show ?thesis
      unfolding 2 option.case
    proof (rule client.safe_read, goal_cases)
      case (1 x)
      obtain req1 found where rt: "route (router (http_of w)) (pc_request x) = (req1, found)"
        by fastforce
      let ?w1 = "upd_ctx ?p (pc_request_update (\<lambda>_. req1)) w"
      have w1: "owns K V F ?w1 \<and> leaves_alone V F w ?w1"
        by (rule ctx_upd_step [OF ow])
      have handled: "client.safe K V F snd ?w1 (case found of None \<Rightarrow> Inr (not_found_response, ?w1)
          | Some h \<Rightarrow> handle P h req1 ?c response_new ?w1)"
        using hl w1 by (auto simp: handlers_local_def intro: client.safe_stay split: option.split)
      show ?case
        unfolding rt Let_def prod.case
      proof (rule client.safe_from [OF client.safe_bind [OF handled] conjunct2 [OF w1]], goal_cases)
        case (1 v)
        then show ?case
          using file_response_safe [OF ok hl, of "snd v" n ?p] send_response_safe [OF ok hl, of "snd v" n ?p]
          by (auto intro!: client.safe_read split: prod.split)
      qed
    qed
  qed (simp add: client.safe_stay ow)
qed

text \<open>What \<^verbatim>\<open>onData\<close> does once the parser has run.\<close>

lemma parsed_safe:
  fixes w :: "('p, 'k, 'h, 'q, 'y) http_world"
  assumes ok: "kernel_ok K V file" and hl: "handlers_local P K V F" and ow: "owns K V F w"
  shows "client.safe K V F id w (rbind (send (base_env P) K n data (fp_conn F) w) (close_conn (base_env P) K n (fp_conn F)))"
    and "client.safe K V F id w (rbind (get_ctx (fp_ctx F) w) (\<lambda>x3.
      if pc_messageComplete x3 then
        rbind (processRequest P K n (fp_conn F) w) (\<lambda>w4.
        rbind (get_ctx (fp_ctx F) w4) (\<lambda>x4. Inr (upd_ctx (fp_ctx F) g w4)))
      else Inr w))"
proof -
  note env = base_env_calm [OF hl]
  have "client.safe K V F id t (close_conn (base_env P) K n (fp_conn F) t)" if "owns K V F t" for t
    unfolding close_conn_def using close_with_safe [OF ok that] handleClose_safe [OF ok env] by blast
  then show "client.safe K V F id w (rbind (send (base_env P) K n data (fp_conn F) w) (close_conn (base_env P) K n (fp_conn F)))"
    by (rule client.safe_then [OF send_safe [OF ok env ow]])
  have reset: "client.safe K V F id t (rbind (get_ctx (fp_ctx F) t) (\<lambda>x4. Inr (upd_ctx (fp_ctx F) g t)))"
    if "owns K V F t" for t :: "('p, 'k, 'h, 'q, 'y) http_world"
    using ctx_upd_step [OF that] by (auto intro!: client.safe_read client.safe_Inr)
  show "client.safe K V F id w (rbind (get_ctx (fp_ctx F) w) (\<lambda>x3.
      if pc_messageComplete x3 then
        rbind (processRequest P K n (fp_conn F) w) (\<lambda>w4.
        rbind (get_ctx (fp_ctx F) w4) (\<lambda>x4. Inr (upd_ctx (fp_ctx F) g w4)))
      else Inr w))"
    using client.safe_then [OF processRequest_safe [OF ok hl ow] reset] ow
    by (auto intro!: client.safe_read simp: client.safe_stay)
qed

lemma onData_safe:
  fixes w :: "('p, 'k, 'h, 'q, 'y) http_world"
  assumes ok: "kernel_ok K V file" and hl: "handlers_local P K V F" and ow: "owns K V F w"
  shows "client.safe K V F id w (onData P K n (fp_conn F) w)"
  unfolding onData_def
proof (rule client.safe_read, goal_cases)
  case (1 C)
  let ?c = "fp_conn F" and ?p = "fp_ctx F"
  consider "userData C = None" | "userData C = Some ?p"
    using 1 owned_conn [OF ow, of C] by (auto simp: holds_def)
  then show ?case
  proof cases
    case 2
    show ?thesis
      unfolding 2 option.case
    proof (rule client.safe_then [OF refresh_deadline_safe [OF ow]], intro client.safe_read, goal_cases)
      case (1 t x data)
      obtain evs np good q where parse: "parser_execute P (pc_parser x) data = (evs, np, good, q)"
        by (cases "parser_execute P (pc_parser x) data") auto
      let ?w2 = "upd_ctx ?p (\<lambda>x. (fold on_event evs x)\<lparr>pc_parser := q, pc_ok := good\<rparr>) t"
      let ?w3 = "upd ?c (inputBuffer_update (retrieve np)) ?w2"
      have w2: "owns K V F ?w2 \<and> leaves_alone V F t ?w2"
        by (rule ctx_upd_step [OF 1(1)])
      then have own2: "owns K V F ?w2"
        by blast
      obtain C2 where C2: "conns ?w2 ?c = Some C2"
        using owns_conn [OF own2] by blast
      have "owns K V F ?w3 \<and> leaves_alone V F ?w2 ?w3"
        using owned_conn [OF own2 C2] by (intro upd_step [OF own2 C2]) (simp add: holds_def)
      then have w3: "owns K V F ?w3 \<and> leaves_alone V F t ?w3"
        using step_trans [OF w2] by blast
      show ?case
        unfolding parse Let_def prod.case
        using parsed_safe [OF ok hl] w2 w3 by (blast intro: client.safe_if client.safe_from)
    qed
  qed (simp add: client.safe_stay ow)
qed

section \<open>Isolation\<close>

lemma http_env_calm:
  assumes "kernel_ok K V file" and "handlers_local P K V F"
  shows "calm_env K V F (http_env P K n)" and "calm_data K V F (http_env P K n)"
  using base_env_calm [OF assms(2)] onData_safe [OF assms]
  by (simp_all add: calm_env_def calm_data_def http_env_def)

theorem events_isolated:
  fixes w :: "('p, 'k, 'h, 'q, 'y) http_world"
  assumes "kernel_ok K V file" and "handlers_local P K V F" and "owns K V F w"
    and "onEvents (http_env P K l) K n wr (fp_conn F) ev w = Inr w'"
  shows "owns K V F w' \<and> leaves_alone V F w w'"
  using onEvents_safe [OF assms(1) http_env_calm [OF assms(1,2)] assms(3), of l n wr ev] assms(4)
  by (simp add: client.safe_def)

end
