(* ===== verification/Clients.thy ===== *)
theory Clients
  imports Mains HttpIsolation
begin

text \<open>
  Many clients of the program in \<^verbatim>\<open>src/main.cpp\<close> at once. They connect, alone or several
  together, and send their requests in any interleaving; the theory shows that each of them is
  answered as if it were alone. It combines what one read event does
  (\<open>read_event_answers\<close>) with the isolation of the connections (\<open>HttpIsolation\<close>).
\<close>

section \<open>Clients and the kernel\<close>

text \<open>
  The documented behaviour of a listening socket: clients that connect wait in the order in
  which they came, each with a new descriptor whose two streams are empty; \<^verbatim>\<open>accept\<close> takes the
  first one, or fails with \<^verbatim>\<open>EAGAIN\<close>; a new descriptor can be added to the interest list.
\<close>

definition clients_ok :: "'k kernel \<Rightarrow> 'k net_view \<Rightarrow> int \<Rightarrow> (int list \<Rightarrow> 'k \<Rightarrow> 'k) \<Rightarrow> bool" where
  "clients_ok K V lf connect \<longleftrightarrow>
     (\<forall>cfs k. nv_interest V (connect cfs k) = nv_interest V k \<and> nv_waiting V (connect cfs k) = nv_waiting V k @ cfs
        \<and> (\<forall>f. f \<in> set cfs \<longrightarrow> nv_wire V (connect cfs k) f = [] \<and> nv_inbox V (connect cfs k) f = [])
        \<and> (\<forall>f. f \<notin> set cfs \<longrightarrow> nv_wire V (connect cfs k) f = nv_wire V k f
             \<and> nv_inbox V (connect cfs k) f = nv_inbox V k f))
     \<and> (\<forall>k. fst (sys_accept K lf k) = (case nv_waiting V k of [] \<Rightarrow> None | f # fs \<Rightarrow> Some f)
          \<and> nv_waiting V (snd (sys_accept K lf k)) = tl (nv_waiting V k)
          \<and> nv_interest V (snd (sys_accept K lf k)) = nv_interest V k
          \<and> nv_wire V (snd (sys_accept K lf k)) = nv_wire V k \<and> nv_inbox V (snd (sys_accept K lf k)) = nv_inbox V k)
     \<and> (\<forall>f ev k. 0 \<le> f \<and> f \<notin> nv_interest V k \<longrightarrow> fst (sys_epoll_add K f ev k))"

text \<open>Bytes arrive for a client.\<close>

definition arrives_ok :: "'k net_view \<Rightarrow> (int \<Rightarrow> string \<Rightarrow> 'k \<Rightarrow> 'k) \<Rightarrow> bool" where
  "arrives_ok V arrive \<longleftrightarrow>
     arrives arrive (nv_interest V) (nv_wire V) (nv_inbox V) \<and> (\<forall>f d k. nv_waiting V (arrive f d k) = nv_waiting V k)"

section \<open>A crowd of clients\<close>

text \<open>A client that waits for nothing: everything promised to it so far is \<open>s\<close>.\<close>

definition served ::
    "'k kernel \<Rightarrow> 'k net_view \<Rightarrow> (int \<Rightarrow> string) \<Rightarrow> 'q \<Rightarrow> ('p, 'k, 'h, 'q, 'y) http_world \<Rightarrow> footprint \<Rightarrow> string \<Rightarrow> bool" where
  "served K V file init w F s \<longleftrightarrow>
     owns K V F w \<and> fp_conn F < next_conn (app w) \<and> fp_ctx F < next_ctx (http_of w)
     \<and> nv_inbox V (kern w) (fp_fd F) = [] \<and> promised (nv_wire V) file (fp_conn F) w = s
     \<and> (\<exists>C x. ready init K (nv_interest V) (nv_wire V) file (fp_conn F) C (fp_ctx F) x w
          \<and> fd C = fp_fd F \<and> wheelEntry C = Some (fp_entry F))"

text \<open>The server between events.\<close>

definition serves ::
    "'k kernel \<Rightarrow> 'k net_view \<Rightarrow> int \<Rightarrow> hello_handler router \<Rightarrow> ('p, 'k, hello_handler, 'q, 'y) http_world \<Rightarrow> bool" where
  "serves K V lf rt w \<longleftrightarrow>
     loop_ok K (nv_interest V) (evloop w, kern w) \<and> wheel_60 w \<and> triggerMode (evloop w) = ET
     \<and> listenFd (app w) = lf \<and> registered (evloop w) lf = Some (EPOLLIN, AcceptCb) \<and> router (http_of w) = rt
     \<and> connectionCallback (app w) = Some HttpOnConnection \<and> srv_dataCallback (app w) = Some HttpOnData
     \<and> (\<forall>(f, d)\<in>set (connections (app w)). 0 \<le> f)"

text \<open>The clients by descriptor, each with its footprint and what it was promised.\<close>

type_synonym crowd = "int \<Rightarrow> (footprint \<times> string) option"

definition apart :: "footprint \<Rightarrow> footprint \<Rightarrow> bool" where
  "apart F G \<longleftrightarrow> fp_conn F \<noteq> fp_conn G \<and> fp_fd F \<noteq> fp_fd G \<and> fp_ctx F \<noteq> fp_ctx G \<and> fp_entry F \<noteq> fp_entry G"

definition all_served ::
    "'k kernel \<Rightarrow> 'k net_view \<Rightarrow> (int \<Rightarrow> string) \<Rightarrow> 'q \<Rightarrow> crowd \<Rightarrow> ('p, 'k, 'h, 'q, 'y) http_world \<Rightarrow> bool" where
  "all_served K V file init m w \<longleftrightarrow>
     (\<forall>f F s. m f = Some (F, s) \<longrightarrow> fp_fd F = f \<and> served K V file init w F s)
     \<and> (\<forall>f F s g G t. m f = Some (F, s) \<and> m g = Some (G, t) \<and> f \<noteq> g \<longrightarrow> apart F G)"

lemma apart_sym: "apart F G \<Longrightarrow> apart G F"
  by (simp add: apart_def)

lemma served_conn:
  assumes "served K V file init w F s"
  obtains C x where "conns w (fp_conn F) = Some C" and "fd C = fp_fd F" and "wheelEntry C = Some (fp_entry F)"
    and "ready init K (nv_interest V) (nv_wire V) file (fp_conn F) C (fp_ctx F) x w"
    and "registered (evloop w) (fp_fd F) \<noteq> None" and "view (timeWheel (evloop w)) (fp_entry F) \<noteq> None"
proof -
  obtain C x where C: "ready init K (nv_interest V) (nv_wire V) file (fp_conn F) C (fp_ctx F) x w"
      "fd C = fp_fd F" "wheelEntry C = Some (fp_entry F)"
    using assms by (auto simp: served_def)
  then have c: "conns w (fp_conn F) = Some C" "conn_ok K (nv_interest V) (fp_conn F) w" "wheel_live C w"
    by (simp_all add: ready_def reading_def serving_def)
  show thesis
    using that [OF c(1) C(2,3,1)] conn_okD(6) [OF c(2,1)] C(2,3) c(3) by (auto simp: wheel_live_def)
qed

text \<open>What happens to others does not concern a served client.\<close>

lemma served_other:
  assumes s: "served K V file init w F s" and same: "others_same V G w w'" and ap: "apart F G"
    and w': "loop_ok K (nv_interest V) (evloop w', kern w')" "wheel_wf (timeWheel (evloop w'))"
      "\<forall>(f, d)\<in>set (connections (app w')). 0 \<le> f" "next_conn (app w) \<le> next_conn (app w')"
      "next_ctx (http_of w) \<le> next_ctx (http_of w')"
  shows "served K V file init w' F s"
proof -
  obtain C x where C: "conns w (fp_conn F) = Some C" "fd C = fp_fd F" "wheelEntry C = Some (fp_entry F)"
    and rd: "ready init K (nv_interest V) (nv_wire V) file (fp_conn F) C (fp_ctx F) x w"
    and reg: "registered (evloop w) (fp_fd F) \<noteq> None" and live: "view (timeWheel (evloop w)) (fp_entry F) \<noteq> None"
    by (rule served_conn [OF s])
  have rdD: "conn_ok K (nv_interest V) (fp_conn F) w" "\<not> sendingFile C"
    using rd by (simp_all add: ready_def reading_def serving_def)
  have eq: "conns w' (fp_conn F) = Some C" "ctxs (http_of w') (fp_ctx F) = ctxs (http_of w) (fp_ctx F)"
      "view (timeWheel (evloop w')) (fp_entry F) = view (timeWheel (evloop w)) (fp_entry F)"
      "registered (evloop w') (fp_fd F) = registered (evloop w) (fp_fd F)"
      "nv_wire V (kern w') (fp_fd F) = nv_wire V (kern w) (fp_fd F)"
      "nv_inbox V (kern w') (fp_fd F) = nv_inbox V (kern w) (fp_fd F)"
    using same ap C(1) reg by (simp_all add: others_same_def apart_def)
  have okw: "conn_ok K (nv_interest V) (fp_conn F) w'"
    using conn_okD [OF rdD(1) C(1)] rdD(2) eq(4) C(2) w'(1) by (intro conn_okI [OF _ w'(1) eq(1)]) simp_all
  obtain ev cb where "registered (evloop w) (fp_fd F) = Some (ev, cb)"
    using reg by auto
  then have "dispatch_target (evloop w') (fp_fd F) = dispatch_target (evloop w) (fp_fd F)"
    using eq(4) registered_target [of "evloop w"] registered_target [of "evloop w'"] by simp
  then have "ready init K (nv_interest V) (nv_wire V) file (fp_conn F) C (fp_ctx F) x w'"
    using rd eq okw C w'(2,3) live
    by (auto simp: ready_def reading_def serving_def wheel_live_def calls_conn_def)
  moreover have "owns K V F w'"
    using s eq C(1) w'(1,2) rdD conn_okD [OF rdD(1) C(1)]
    by (auto simp: served_def owns_def holds_def)
  moreover have "promised (nv_wire V) file (fp_conn F) w' = promised (nv_wire V) file (fp_conn F) w"
    using eq C by (simp add: promised_def)
  ultimately show ?thesis
    using s eq C w'(4,5) by (auto simp: served_def)
qed

text \<open>The same for a call that changes only streams of other descriptors, or the waiting clients.\<close>

lemma served_kern:
  assumes "served K V file init w F s" and "nv_interest V k = nv_interest V (kern w)"
    and "nv_wire V k (fp_fd F) = nv_wire V (kern w) (fp_fd F)" "nv_inbox V k (fp_fd F) = nv_inbox V (kern w) (fp_fd F)"
  shows "served K V file init (w\<lparr>kern := k\<rparr>) F s"
proof -
  obtain C x where C: "conns w (fp_conn F) = Some C" "fd C = fp_fd F" "wheelEntry C = Some (fp_entry F)"
    and rd: "ready init K (nv_interest V) (nv_wire V) file (fp_conn F) C (fp_ctx F) x w"
    by (rule served_conn [OF assms(1)])
  have "ready init K (nv_interest V) (nv_wire V) file (fp_conn F) C (fp_ctx F) x (w\<lparr>kern := k\<rparr>)"
    by (rule ready_kern [OF rd assms(2)])
  moreover have "owns K V F (w\<lparr>kern := k\<rparr>)"
    using assms(1) loop_ok_kern [of K "nv_interest V" "evloop w" "kern w" k] assms(2) by (simp add: served_def owns_def)
  moreover have "promised (nv_wire V) file (fp_conn F) (w\<lparr>kern := k\<rparr>) = promised (nv_wire V) file (fp_conn F) w"
    using C assms(3) by (simp add: promised_def)
  ultimately show ?thesis
    using assms(1,4) C by (auto simp: served_def)
qed

lemma all_served_kern:
  assumes "all_served K V file init m w" and "nv_interest V k = nv_interest V (kern w)"
    and "\<And>f. m f \<noteq> None \<Longrightarrow> nv_wire V k f = nv_wire V (kern w) f \<and> nv_inbox V k f = nv_inbox V (kern w) f"
  shows "all_served K V file init m (w\<lparr>kern := k\<rparr>)"
  using assms served_kern [OF _ assms(2)] by (fastforce simp: all_served_def)

lemma serves_kern:
  "serves K V lf rt w \<Longrightarrow> nv_interest V k = nv_interest V (kern w) \<Longrightarrow> serves K V lf rt (w\<lparr>kern := k\<rparr>)"
  using loop_ok_kern [of K "nv_interest V" "evloop w" "kern w" k] by (simp add: serves_def wheel_60_def)

text \<open>One client of a crowd is served further, or a new one joins.\<close>

lemma all_served_upd:
  assumes all: "all_served K V file init m w" and G: "served K V file init w' G t" "fp_fd G = f"
    and same: "others_same V G w w'" and w': "serves K V lf rt w'" "next_conn (app w) \<le> next_conn (app w')"
      "next_ctx (http_of w) \<le> next_ctx (http_of w')"
    and ap: "\<And>g F s. m g = Some (F, s) \<Longrightarrow> g \<noteq> f \<Longrightarrow> apart F G"
  shows "all_served K V file init (m(f \<mapsto> (G, t))) w'"
proof -
  have "served K V file init w' F s" if "m g = Some (F, s)" "g \<noteq> f" for g F s
    using all that w' served_other [OF _ same ap [OF that]] by (auto simp: all_served_def serves_def wheel_60_def)
  then show ?thesis
    using all G ap apart_sym unfolding all_served_def by (auto split: if_splits)
qed

section \<open>Accepting\<close>

lemma clients_okD:
  assumes "clients_ok K V lf connect"
  shows "nv_interest V (connect cfs k) = nv_interest V k" "nv_waiting V (connect cfs k) = nv_waiting V k @ cfs"
    and "f \<in> set cfs \<Longrightarrow> nv_wire V (connect cfs k) f = [] \<and> nv_inbox V (connect cfs k) f = []"
    and "f \<notin> set cfs \<Longrightarrow> nv_wire V (connect cfs k) f = nv_wire V k f \<and> nv_inbox V (connect cfs k) f = nv_inbox V k f"
    and "fst (sys_accept K lf k) = (case nv_waiting V k of [] \<Rightarrow> None | g # gs \<Rightarrow> Some g)"
    and "nv_waiting V (snd (sys_accept K lf k)) = tl (nv_waiting V k)"
    and "nv_interest V (snd (sys_accept K lf k)) = nv_interest V k"
    and "nv_wire V (snd (sys_accept K lf k)) = nv_wire V k" "nv_inbox V (snd (sys_accept K lf k)) = nv_inbox V k"
    and "0 \<le> f \<Longrightarrow> f \<notin> nv_interest V k \<Longrightarrow> fst (sys_epoll_add K f ev k)"
  using assms by (simp_all add: clients_ok_def)

lemma accept_one_joins:
  fixes w :: "('p, 'k, hello_handler, 'q, unit) http_world"
  assumes kok: "kernel_ok K V file" and cl: "clients_ok K V lf connect" and sv: "serves K V lf rt w"
    and all: "all_served K V file (parser_init P) m w" and hook: "\<And>c w. connectionHook P c w = Inr w"
    and cf: "0 \<le> cf" "registered (evloop w) cf = None" "nv_wire V (kern w) cf = []" "nv_inbox V (kern w) cf = []"
  shows "\<exists>w' F. accept_one K (\<lambda>cb. onConnection P) cf w = Inr w' \<and> serves K V lf rt w'
    \<and> all_served K V file (parser_init P) (m(cf \<mapsto> (F, []))) w'
    \<and> nv_waiting V (kern w') = nv_waiting V (kern w) \<and> nv_wire V (kern w') = nv_wire V (kern w)
    \<and> nv_inbox V (kern w') = nv_inbox V (kern w)
    \<and> dom (registered (evloop w')) = insert cf (dom (registered (evloop w)))"
proof -
  note okD = kernel_okD [OF kok]
  have svD: "loop_ok K (nv_interest V) (evloop w, kern w)" "wheel_60 w" "triggerMode (evloop w) = ET"
      "connectionCallback (app w) = Some HttpOnConnection" "srv_dataCallback (app w) = Some HttpOnData"
      "\<forall>(f, d)\<in>set (connections (app w)). 0 \<le> f" "registered (evloop w) lf = Some (EPOLLIN, AcceptCb)"
    using sv by (simp_all add: serves_def)
  have "cf \<notin> nv_interest V (kern w)"
    using svD(1) cf(2) by (auto simp: loop_ok_def)
  then have add: "fst (sys_epoll_add K cf (with_mode (evloop w) EPOLLIN) (kern w))"
    using clients_okD(10) [OF cl cf(1)] by simp
  let ?c = "next_conn (app w)" and ?p = "next_ctx (http_of w)"
  obtain w' C x e where acc: "accept_one K (\<lambda>cb. onConnection P) cf w = Inr w'"
    and rd: "ready (parser_init P) K (nv_interest V) (nv_wire V) file ?c C ?p x w'" "fd C = cf"
    and k': "kern w' = snd (sys_epoll_add K cf (with_mode (evloop w) EPOLLIN) (kern w))"
    and rt: "router (http_of w') = router (http_of w)" "listenFd (app w') = listenFd (app w)" "contents (outputBuffer C) = []"
    and e: "wheelEntry C = Some e" "view (timeWheel (evloop w)) e = None"
      "view (timeWheel (evloop w')) = (view (timeWheel (evloop w)))(e \<mapsto> (60, 60, CloseIdle ?c, ?c))"
    and C: "conns w' = (conns w)(?c \<mapsto> C)" "closeCallback C = Some (HttpOnClose ?p (Some TcpOnClose))"
      "userData C = Some ?p" "fileFd C = - 1" "fileOffset C = 0"
    and ctx: "ctxs (http_of w') = (ctxs (http_of w))(?p \<mapsto> x)" "next_ctx (http_of w') = Suc ?p" "next_conn (app w') = Suc ?c"
    and table: "connections (app w') = AList.update cf ?c (connections (app w))"
    and cbs: "connectionCallback (app w') = Some HttpOnConnection" "srv_dataCallback (app w') = Some HttpOnData"
    and reg: "registered (evloop w') = (registered (evloop w))(cf \<mapsto> (EPOLLIN, ConnReadWriteCb ?c))"
    and wh: "wheel_60 w'" "triggerMode (evloop w') = triggerMode (evloop w)"
    using accept_one_ready [OF svD(1) okD(2) svD(2) cf(1) add okD(3) hook svD(4,5,6)] by blast
  let ?F = "\<lparr>fp_conn = ?c, fp_fd = cf, fp_ctx = ?p, fp_entry = e\<rparr>"
  have rdD: "conn_ok K (nv_interest V) ?c w'" "wheel_live C w'"
    using rd by (simp_all add: ready_def reading_def serving_def)
  have lk: "loop_ok K (nv_interest V) (evloop w', kern w')"
    using conn_okD(2) [OF rdD(1), of C] C(1) by simp
  have net: "nv_waiting V (kern w') = nv_waiting V (kern w)" "nv_wire V (kern w') = nv_wire V (kern w)"
      "nv_inbox V (kern w') = nv_inbox V (kern w)"
    unfolding k' using calls_localD [OF okD(5)] quiet_okD [OF okD(8)] by simp_all
  have sv': "serves K V lf rt w'"
    using sv lk wh cbs reg rt rdD(2) cf(2) by (auto simp: serves_def wheel_live_def)
  have "owns K V ?F w'"
    using lk wh(1) C rd(2) e reg by (simp add: owns_def holds_def wheel_60_def)
  moreover have "promised (nv_wire V) file ?c w' = []"
    using C(1) rd rt(3) net(2) cf(3) by (simp add: promised_def file_rest_def ready_def reading_def serving_def)
  ultimately have new: "served K V file (parser_init P) w' ?F []"
    using rd e(1) ctx net(3) cf(4) by (auto simp: served_def)
  have same: "others_same V ?F w w'"
    using C(1) ctx(1) e(3) reg net table by (simp add: others_same_def update_conv')
  have "apart F ?F" if "m g = Some (F, s)" "g \<noteq> cf" for g F s
  proof -
    have F: "served K V file (parser_init P) w F s" "fp_fd F = g"
      using all that by (auto simp: all_served_def)
    have "view (timeWheel (evloop w)) (fp_entry F) \<noteq> None"
      by (rule served_conn [OF F(1)])
    then have "fp_entry F \<noteq> e"
      using e(2) by auto
    then show ?thesis
      using F that(2) by (simp add: apart_def served_def)
  qed
  from all_served_upd [OF all new _ same sv' _ _ this] ctx
  have "all_served K V file (parser_init P) (m(cf \<mapsto> (?F, []))) w'"
    by simp
  then show ?thesis
    using acc sv' net reg by (intro exI [of _ w'] exI [of _ ?F]) auto
qed

text \<open>The loop of \<^verbatim>\<open>handleAccept\<close> takes all who wait.\<close>

lemma handleAccept_all:
  fixes w :: "('p, 'k, hello_handler, 'q, unit) http_world"
  assumes kok: "kernel_ok K V file" and cl: "clients_ok K V lf connect" and hook: "\<And>c w. connectionHook P c w = Inr w"
    and "serves K V lf rt w" and "all_served K V file (parser_init P) m w" and "nv_waiting V (kern w) = cfs" and "distinct cfs"
    and "\<forall>f\<in>set cfs. 0 \<le> f \<and> registered (evloop w) f = None \<and> nv_wire V (kern w) f = [] \<and> nv_inbox V (kern w) f = []"
    and "length cfs < n"
  shows "\<exists>w' m'. handleAccept K (\<lambda>cb. onConnection P) n w = Inr w' \<and> serves K V lf rt w'
    \<and> all_served K V file (parser_init P) m' w' \<and> nv_waiting V (kern w') = []
    \<and> (\<forall>f. map_option snd (m' f) = (if f \<in> set cfs then Some [] else map_option snd (m f)))
    \<and> dom (registered (evloop w')) = set cfs \<union> dom (registered (evloop w))"
  using assms(4-)
proof (induction cfs arbitrary: w m n)
  case Nil
  let ?k = "snd (sys_accept K lf (kern w))"
  obtain j where n: "n = Suc j"
    using Nil.prems(6) by (cases n) simp_all
  obtain k where "sys_accept K lf (kern w) = (None, k)"
    using clients_okD(5) [OF cl, of "kern w"] Nil.prems(3) by (cases "sys_accept K lf (kern w)") simp
  then have "handleAccept K (\<lambda>cb. onConnection P) n w = Inr (w\<lparr>kern := ?k\<rparr>)"
    using Nil.prems(1) by (simp add: n serves_def Let_def)
  moreover have "serves K V lf rt (w\<lparr>kern := ?k\<rparr>)" "all_served K V file (parser_init P) m (w\<lparr>kern := ?k\<rparr>)"
    using serves_kern [OF Nil.prems(1)] all_served_kern [OF Nil.prems(2)] clients_okD(7-9) [OF cl] by simp_all
  ultimately show ?case
    using clients_okD(6) [OF cl, of "kern w"] Nil.prems(3) by (intro exI [of _ "w\<lparr>kern := ?k\<rparr>"] exI [of _ m]) simp
next
  case (Cons f fs)
  let ?k = "snd (sys_accept K lf (kern w))"
  let ?w = "w\<lparr>kern := ?k\<rparr>"
  obtain j where n: "n = Suc j" "length fs < j"
    using Cons.prems(6) by (cases n) simp_all
  obtain k0 where acc: "sys_accept K lf (kern w) = (Some f, k0)"
    using clients_okD(5) [OF cl, of "kern w"] Cons.prems(3) by (cases "sys_accept K lf (kern w)") simp
  note k = clients_okD(6-9) [OF cl, of "kern w"]
  have pre: "serves K V lf rt ?w" "all_served K V file (parser_init P) m ?w" "0 \<le> f" "registered (evloop ?w) f = None"
      "nv_wire V (kern ?w) f = []" "nv_inbox V (kern ?w) f = []"
    using serves_kern [OF Cons.prems(1)] all_served_kern [OF Cons.prems(2)] k Cons.prems(5) by simp_all
  obtain w1 F where 1: "accept_one K (\<lambda>cb. onConnection P) f ?w = Inr w1" "serves K V lf rt w1"
      "all_served K V file (parser_init P) (m(f \<mapsto> (F, []))) w1" "nv_waiting V (kern w1) = nv_waiting V ?k"
      "nv_wire V (kern w1) = nv_wire V ?k" "nv_inbox V (kern w1) = nv_inbox V ?k"
      "dom (registered (evloop w1)) = insert f (dom (registered (evloop w)))"
    using accept_one_joins [OF kok cl pre(1,2) hook pre(3-6)] by auto
  have wait: "nv_waiting V (kern w1) = fs" "distinct fs"
    using 1(4) k(1) Cons.prems(3,4) by simp_all
  have fresh: "\<forall>g\<in>set fs. 0 \<le> g \<and> registered (evloop w1) g = None \<and> nv_wire V (kern w1) g = [] \<and> nv_inbox V (kern w1) g = []"
  proof
    fix g
    assume g: "g \<in> set fs"
    then have "g \<notin> dom (registered (evloop w1))"
      using 1(7) Cons.prems(4,5) by auto
    then show "0 \<le> g \<and> registered (evloop w1) g = None \<and> nv_wire V (kern w1) g = [] \<and> nv_inbox V (kern w1) g = []"
      using 1(5,6) k g Cons.prems(5) by auto
  qed
  obtain w' m' where "handleAccept K (\<lambda>cb. onConnection P) j w1 = Inr w'" "serves K V lf rt w'"
      "all_served K V file (parser_init P) m' w'" "nv_waiting V (kern w') = []"
      "\<forall>g. map_option snd (m' g) = (if g \<in> set fs then Some [] else map_option snd ((m(f \<mapsto> (F, []))) g))"
      "dom (registered (evloop w')) = set fs \<union> dom (registered (evloop w1))"
    using Cons.IH [OF 1(2,3) wait fresh n(2)] by blast
  moreover have "handleAccept K (\<lambda>cb. onConnection P) n w = handleAccept K (\<lambda>cb. onConnection P) j w1"
    using acc 1(1) Cons.prems(1) by (simp add: n serves_def Let_def)
  ultimately show ?case
    using 1(7) by (intro exI [of _ w'] exI [of _ m']) auto
qed

section \<open>A request\<close>

lemma hello_local: "handlers_local (hello_param init execute) K V F"
  by (simp add: handlers_local_def hello_param_def client.safe_stay)

lemma served_accepts_not: "served K V file init w F s \<Longrightarrow> serves K V lf rt w \<Longrightarrow> fp_fd F \<noteq> lf"
  using registered_target [of "evloop w" lf EPOLLIN AcceptCb]
  by (auto simp: served_def serves_def ready_def reading_def calls_conn_def)

lemma request_answered:
  fixes w :: "('p, 'k, hello_handler, 'q, unit) http_world"
  assumes kok: "kernel_ok K V file" and arr: "arrives_ok V arrive"
    and soft: "\<And>f d k. fst (sys_write K f d k) \<notin> {Inl EINTR, Inl EFAIL}" and P: "P = hello_param init execute"
    and sv: "serves K V lf hello_routes w" and all: "all_served K V file init m w" and m: "m f = Some (F, s)"
    and rq: "request_ok execute init r" "length (cq_bytes r) \<le> n"
  shows "\<exists>w'. dispatch (run_loop_cb P K Y runp (Suc (Suc n))) [(f, EPOLLIN)]
        (evloop w, U, w\<lparr>kern := arrive f (cq_bytes r) (kern w)\<rparr>) = Inr (evloop w', U, w')
    \<and> serves K V lf hello_routes w' \<and> all_served K V file init (m(f \<mapsto> (F, s @ reply_bytes r))) w'
    \<and> nv_waiting V (kern w') = nv_waiting V (kern w) \<and> dom (registered (evloop w')) = dom (registered (evloop w))"
proof -
  note okD = kernel_okD [OF kok]
  let ?k = "arrive f (cq_bytes r) (kern w)" and ?c = "fp_conn F"
  let ?w = "w\<lparr>kern := ?k\<rparr>"
  have F: "fp_fd F = f" "served K V file init w F s"
    using all m by (auto simp: all_served_def)
  have k: "nv_interest V ?k = nv_interest V (kern w)" "nv_wire V ?k = nv_wire V (kern w)"
      "nv_inbox V ?k = (nv_inbox V (kern w))(f := cq_bytes r)" "nv_waiting V ?k = nv_waiting V (kern w)"
    and arr1: "arrives arrive (nv_interest V) (nv_wire V) (nv_inbox V)"
    using arr F by (simp_all add: arrives_ok_def arrives_def served_def fun_eq_iff)
  obtain C x where C: "conns w ?c = Some C" "fd C = f" "wheelEntry C = Some (fp_entry F)"
    and rd: "ready init K (nv_interest V) (nv_wire V) file ?c C (fp_ctx F) x w"
    and regf: "registered (evloop w) f \<noteq> None"
    using served_conn [OF F(2)] F(1) by metis
  have rt: "router (http_of w) = hello_routes" and empty: "nv_inbox V (kern w) (fd C) = []"
    using sv F C(2) by (simp_all add: serves_def served_def)
  obtain w1 C1 x1 where 1: "onEvents (http_env P K (Suc (Suc n))) K (Suc (Suc n)) True ?c EPOLLIN ?w = Inr w1"
      "ready init K (nv_interest V) (nv_wire V) file ?c C1 (fp_ctx F) x1 w1" "fd C1 = f" "nv_inbox V (kern w1) f = []"
      "promised (nv_wire V) file ?c w1 = promised (nv_wire V) file ?c w @ reply_bytes r"
    and step: "dispatch (run_loop_cb P K Y runp (Suc (Suc n))) [(f, EPOLLIN)] (evloop w, U, ?w) = Inr (evloop w1, U, w1)"
    using hello_event [OF P rd rt okD(4) soft arr1 empty rq, of Y runp U] unfolding C(2) by metis
  have own0: "owns K V F w"
    using F(2) by (simp add: served_def)
  have lc: "local_call V F w ?k"
    using k F(1) by (simp add: local_call_def)
  note arrived = kern_step [OF own0 lc]
  have hl: "handlers_local P K V F"
    unfolding P by (rule hello_local)
  have own: "owns K V F w1" and alone: "leaves_alone V F w w1"
    using events_isolated [OF kok hl _ 1(1)] arrived alone_trans by blast+
  have aD: "others_same V F w w1" "dom (registered (evloop w1)) \<subseteq> dom (registered (evloop w))"
      "server_side w1 = server_side w" "nv_waiting V (kern w1) = nv_waiting V (kern w)"
    using alone by (simp_all add: leaves_alone_def)
  have rdD: "conns w1 ?c = Some C1" "conn_ok K (nv_interest V) ?c w1" "wheel_live C1 w1"
    using 1(2) by (simp_all add: ready_def reading_def serving_def)
  have lf: "registered (evloop w1) lf = registered (evloop w) lf"
    using aD(1) served_accepts_not [OF F(2) sv] by (simp add: others_same_def)
  have sv1: "serves K V lf hello_routes w1"
    using sv own aD(3) lf rdD(3) by (auto simp: serves_def owns_def server_side_def wheel_60_def wheel_live_def)
  have "wheelEntry C1 = Some (fp_entry F)"
    using rdD(1,3) own by (auto simp: owns_def holds_def wheel_live_def)
  then have "served K V file init w1 F (s @ reply_bytes r)"
    using F own 1(2-5) aD(3)
    by (auto simp: served_def server_side_def)
  moreover have "apart G F" if "m g = Some (G, t)" "g \<noteq> f" for g G t
    using all m that apart_sym unfolding all_served_def by blast
  ultimately have "all_served K V file init (m(f \<mapsto> (F, s @ reply_bytes r))) w1"
    using all_served_upd [OF all _ F(1) aD(1) sv1] aD(3) by (simp add: server_side_def)
  moreover have "registered (evloop w1) f \<noteq> None"
    using conn_okD(6) [OF rdD(2,1)] 1(3) by simp
  then have "registered (evloop w1) g = None \<longleftrightarrow> registered (evloop w) g = None" for g
    using aD(1) F(1) regf by (cases "g = f") (auto simp: others_same_def)
  then have "dom (registered (evloop w1)) = dom (registered (evloop w))"
    by (simp add: dom_def)
  ultimately show ?thesis
    using step sv1 aD(4) by blast
qed

section \<open>A session of many clients\<close>

text \<open>Clients connect, some at once, or one of them sends a request; the loop reports the descriptor.\<close>

datatype client_event = Connect "int list" | Request int client_request

fun client_step ::
    "(loop_cb \<Rightarrow> events \<Rightarrow> ('p, 'k, 'h, 'q, 'y) program \<Rightarrow> ('p, 'k, 'h, 'q, 'y) program res)
     \<Rightarrow> (int list \<Rightarrow> 'k \<Rightarrow> 'k) \<Rightarrow> (int \<Rightarrow> string \<Rightarrow> 'k \<Rightarrow> 'k) \<Rightarrow> int \<Rightarrow> client_event
     \<Rightarrow> ('p, 'k, 'h, 'q, 'y) program \<Rightarrow> ('p, 'k, 'h, 'q, 'y) program res" where
  "client_step run connect arrive lf (Connect cfs) (L, U, w) =
     dispatch run [(lf, EPOLLIN)] (L, U, w\<lparr>kern := connect cfs (kern w)\<rparr>)"
| "client_step run connect arrive lf (Request f r) (L, U, w) =
     dispatch run [(f, EPOLLIN)] (L, U, w\<lparr>kern := arrive f (cq_bytes r) (kern w)\<rparr>)"

fun client_run ::
    "(loop_cb \<Rightarrow> events \<Rightarrow> ('p, 'k, 'h, 'q, 'y) program \<Rightarrow> ('p, 'k, 'h, 'q, 'y) program res)
     \<Rightarrow> (int list \<Rightarrow> 'k \<Rightarrow> 'k) \<Rightarrow> (int \<Rightarrow> string \<Rightarrow> 'k \<Rightarrow> 'k) \<Rightarrow> int \<Rightarrow> client_event list
     \<Rightarrow> ('p, 'k, 'h, 'q, 'y) program \<Rightarrow> ('p, 'k, 'h, 'q, 'y) program res" where
  "client_run run connect arrive lf [] s = Inr s"
| "client_run run connect arrive lf (e # es) s =
     rbind (client_step run connect arrive lf e s) (client_run run connect arrive lf es)"

text \<open>
  What the environment keeps to: a new client has a descriptor not in use (\<open>R\<close> are those of the
  program, \<open>S\<close> those of the clients), and a client that sends has connected before. At most \<open>n\<close>
  connect at once and a request has at most \<open>n\<close> bytes: the fuel of the loops.
\<close>

fun session_ok ::
    "('q \<Rightarrow> string \<Rightarrow> parse_event list \<times> nat \<times> bool \<times> 'q) \<Rightarrow> 'q \<Rightarrow> nat \<Rightarrow> int set \<Rightarrow> int set \<Rightarrow> client_event list \<Rightarrow> bool" where
  "session_ok execute init n R S [] = True"
| "session_ok execute init n R S (Connect cfs # es) \<longleftrightarrow>
     distinct cfs \<and> length cfs \<le> n \<and> (\<forall>f\<in>set cfs. 0 \<le> f \<and> f \<notin> R \<and> f \<notin> S)
     \<and> session_ok execute init n R (set cfs \<union> S) es"
| "session_ok execute init n R S (Request f r # es) \<longleftrightarrow>
     f \<in> S \<and> request_ok execute init r \<and> length (cq_bytes r) \<le> n \<and> session_ok execute init n R S es"

fun newcomers :: "client_event list \<Rightarrow> int list" where
  "newcomers [] = []"
| "newcomers (Connect cfs # es) = cfs @ newcomers es"
| "newcomers (Request f r # es) = newcomers es"

fun requests_of :: "int \<Rightarrow> client_event list \<Rightarrow> client_request list" where
  "requests_of f [] = []"
| "requests_of f (Connect cfs # es) = requests_of f es"
| "requests_of f (Request g r # es) = (if g = f then r # requests_of f es else requests_of f es)"

text \<open>What has been promised to each client after the events, step by step and in sum.\<close>

fun told :: "client_event list \<Rightarrow> (int \<Rightarrow> string option) \<Rightarrow> int \<Rightarrow> string option" where
  "told [] a = a"
| "told (Connect cfs # es) a = told es (\<lambda>f. if f \<in> set cfs then Some [] else a f)"
| "told (Request f r # es) a = told es (a(f := map_option (\<lambda>s. s @ reply_bytes r) (a f)))"

lemma told_sum:
  "session_ok execute init n R (dom a) es \<Longrightarrow>
   told es a f =
     (case a f of
        Some s \<Rightarrow> Some (s @ concat (map reply_bytes (requests_of f es)))
      | None \<Rightarrow> if f \<in> set (newcomers es) then Some (concat (map reply_bytes (requests_of f es))) else None)"
proof (induction es arbitrary: a)
  case (Cons e es)
  show ?case
  proof (cases e)
    case (Connect cfs)
    let ?a = "\<lambda>f. if f \<in> set cfs then Some [] else a f"
    have "dom ?a = set cfs \<union> dom a"
      by (auto split: if_splits)
    then have "session_ok execute init n R (dom ?a) es"
      using Cons.prems Connect by simp
    from Cons.IH [OF this] Cons.prems Connect show ?thesis
      by (auto split: option.splits)
  next
    case (Request g r)
    obtain y where y: "a g = Some y"
      using Cons.prems Request by auto
    let ?a = "a(g \<mapsto> y @ reply_bytes r)"
    have "dom ?a = dom a"
      using y by auto
    then have "session_ok execute init n R (dom ?a) es"
      using Cons.prems Request by (simp only: session_ok.simps)
    then have "told es ?a f = (case ?a f of
        Some s \<Rightarrow> Some (s @ concat (map reply_bytes (requests_of f es)))
      | None \<Rightarrow> if f \<in> set (newcomers es) then Some (concat (map reply_bytes (requests_of f es))) else None)"
      by (rule Cons.IH)
    then show ?thesis
      using y by (cases "f = g"; cases "a f") (simp_all add: Request)
  qed
qed (simp split: option.split)

definition words_of :: "crowd \<Rightarrow> int \<Rightarrow> string option" where
  "words_of m f = map_option snd (m f)"

lemma dom_words [simp]: "dom (words_of m) = dom m"
  by (auto simp: words_of_def)

text \<open>Clients that connect together are all accepted in one event.\<close>

lemma clients_accepted:
  fixes w :: "('p, 'k, hello_handler, 'q, unit) http_world"
  assumes kok: "kernel_ok K V file" and cl: "clients_ok K V lf connect" and P: "P = hello_param init execute"
    and sv: "serves K V lf hello_routes w" and all: "all_served K V file init m w" and none: "nv_waiting V (kern w) = []"
    and cfs: "distinct cfs" "length cfs \<le> n" "\<And>f. f \<in> set cfs \<Longrightarrow> 0 \<le> f \<and> registered (evloop w) f = None \<and> m f = None"
  shows "\<exists>w1 m1. dispatch (run_loop_cb P K Y runp (Suc (Suc n))) [(lf, EPOLLIN)]
        (evloop w, U, w\<lparr>kern := connect cfs (kern w)\<rparr>) = Inr (evloop w1, U, w1)
    \<and> serves K V lf hello_routes w1 \<and> all_served K V file init m1 w1 \<and> nv_waiting V (kern w1) = []
    \<and> words_of m1 = (\<lambda>f. if f \<in> set cfs then Some [] else words_of m f)
    \<and> dom (registered (evloop w1)) = set cfs \<union> dom (registered (evloop w))"
proof -
  let ?k = "connect cfs (kern w)"
  let ?w = "w\<lparr>kern := ?k\<rparr>"
  have new: "\<forall>f\<in>set cfs. 0 \<le> f \<and> registered (evloop w) f = None \<and> m f = None"
    using cfs(3) by blast
  note k = clients_okD(1-4) [OF cl, where cfs = cfs and k = "kern w"]
  have "nv_wire V ?k f = nv_wire V (kern w) f \<and> nv_inbox V ?k f = nv_inbox V (kern w) f" if "m f \<noteq> None" for f
    by (rule k(4)) (use bspec [OF new, of f] that in auto)
  then have all1: "all_served K V file (parser_init P) m ?w"
    using all_served_kern [OF all k(1)] by (simp add: P hello_param_def)
  have sv1: "serves K V lf hello_routes ?w"
    by (rule serves_kern [OF sv k(1)])
  have fresh: "\<forall>f\<in>set cfs. 0 \<le> f \<and> registered (evloop ?w) f = None \<and> nv_wire V (kern ?w) f = [] \<and> nv_inbox V (kern ?w) f = []"
    using k(3) new by simp
  have wait: "nv_waiting V (kern ?w) = cfs" and fuel: "length cfs < Suc (Suc n)"
    using k(2) none cfs(2) by simp_all
  have hook: "connectionHook P c v = Inr v" for c v
    by (simp add: P hello_param_def)
  obtain w1 m1 where 1: "handleAccept K (\<lambda>cb. onConnection P) (Suc (Suc n)) ?w = Inr w1" "serves K V lf hello_routes w1"
      "all_served K V file (parser_init P) m1 w1" "nv_waiting V (kern w1) = []"
      "\<forall>f. map_option snd (m1 f) = (if f \<in> set cfs then Some [] else map_option snd (m f))"
      "dom (registered (evloop w1)) = set cfs \<union> dom (registered (evloop ?w))"
    using handleAccept_all [OF kok cl hook sv1 all1 wait cfs(1) fresh fuel] by blast
  have target: "dispatch_target (evloop w) lf = Some AcceptCb"
    using sv by (intro registered_target [of _ _ EPOLLIN]) (simp add: serves_def)
  have "dispatch (run_loop_cb P K Y runp (Suc (Suc n))) [(lf, EPOLLIN)] (evloop w, U, ?w) = Inr (evloop w1, U, w1)"
    using 1(1) target by (simp add: run_loop_cb_def on_world_def Let_def del: handleAccept.simps)
  then show ?thesis
    using 1 by (intro exI [of _ w1] exI [of _ m1]) (simp add: P hello_param_def words_of_def fun_eq_iff)
qed

lemma session_run:
  fixes w :: "('p, 'k, hello_handler, 'q, unit) http_world"
  assumes kok: "kernel_ok K V file" and cl: "clients_ok K V lf connect" and arr: "arrives_ok V arrive"
    and soft: "\<And>f d k. fst (sys_write K f d k) \<notin> {Inl EINTR, Inl EFAIL}" and P: "P = hello_param init execute"
    and "serves K V lf hello_routes w" and "all_served K V file init m w" and "nv_waiting V (kern w) = []"
    and "dom (registered (evloop w)) = R \<union> dom m" and "session_ok execute init n R (dom m) es"
  shows "\<exists>w' m'. client_run (run_loop_cb P K Y runp (Suc (Suc n))) connect arrive lf es (evloop w, U, w) = Inr (evloop w', U, w')
    \<and> all_served K V file init m' w' \<and> words_of m' = told es (words_of m)"
  using assms(6-)
proof (induction es arbitrary: w m)
  case Nil
  then show ?case
    by (intro exI [of _ w] exI [of _ m]) simp
next
  case (Cons e es)
  let ?run = "run_loop_cb P K Y runp (Suc (Suc n))"
  note sv = Cons.prems(1) and all = Cons.prems(2)
  have "\<exists>w1 m1. client_step ?run connect arrive lf e (evloop w, U, w) = Inr (evloop w1, U, w1)
      \<and> serves K V lf hello_routes w1 \<and> all_served K V file init m1 w1 \<and> nv_waiting V (kern w1) = []
      \<and> dom (registered (evloop w1)) = R \<union> dom m1 \<and> session_ok execute init n R (dom m1) es
      \<and> told es (words_of m1) = told (e # es) (words_of m)"
  proof (cases e)
    case (Request f r)
    then obtain F s where m: "m f = Some (F, s)" and rq: "request_ok execute init r" "length (cq_bytes r) \<le> n"
      and rest: "session_ok execute init n R (dom m) es"
      using Cons.prems(5) by auto
    let ?m = "m(f \<mapsto> (F, s @ reply_bytes r))"
    obtain w1 where 1: "dispatch ?run [(f, EPOLLIN)] (evloop w, U, w\<lparr>kern := arrive f (cq_bytes r) (kern w)\<rparr>) = Inr (evloop w1, U, w1)"
        "serves K V lf hello_routes w1" "all_served K V file init ?m w1"
        "nv_waiting V (kern w1) = nv_waiting V (kern w)" "dom (registered (evloop w1)) = dom (registered (evloop w))"
      using request_answered [OF kok arr soft P sv all m rq, of Y runp U] by blast
    have dom: "dom ?m = dom m"
      using m by auto
    have "words_of ?m = (words_of m)(f := map_option (\<lambda>s. s @ reply_bytes r) (words_of m f))"
      using m by (simp add: words_of_def fun_eq_iff)
    then show ?thesis
      using 1 Cons.prems(3,4) rest unfolding Request client_step.simps told.simps
      by (intro exI [of _ w1] exI [of _ ?m]) (simp only: dom)
  next
    case (Connect cfs)
    then have cfs: "distinct cfs" "length cfs \<le> n" "\<forall>f\<in>set cfs. 0 \<le> f \<and> f \<notin> R \<and> f \<notin> dom m"
      and rest: "session_ok execute init n R (set cfs \<union> dom m) es"
      using Cons.prems(5) by auto
    have new: "0 \<le> f \<and> registered (evloop w) f = None \<and> m f = None" if "f \<in> set cfs" for f
      using that cfs(3) Cons.prems(4) by (auto simp: domIff)
    obtain w1 m1 where 1: "dispatch ?run [(lf, EPOLLIN)] (evloop w, U, w\<lparr>kern := connect cfs (kern w)\<rparr>) = Inr (evloop w1, U, w1)"
        "serves K V lf hello_routes w1" "all_served K V file init m1 w1" "nv_waiting V (kern w1) = []"
        "words_of m1 = (\<lambda>f. if f \<in> set cfs then Some [] else words_of m f)"
        "dom (registered (evloop w1)) = set cfs \<union> dom (registered (evloop w))"
      using clients_accepted [OF kok cl P sv all Cons.prems(3) cfs(1,2) new, of Y runp U] by blast
    have "dom (words_of m1) = set cfs \<union> dom (words_of m)"
      unfolding 1(5) by (auto simp del: dom_words split: if_splits)
    then have dom: "dom m1 = set cfs \<union> dom m"
      by simp
    show ?thesis
      using 1 dom rest Cons.prems(4) unfolding Connect
      by (intro exI [of _ w1] exI [of _ m1]) (auto simp: Un_left_commute simp del: dispatch.simps)
  qed
  then obtain w1 m1 where 1: "client_step ?run connect arrive lf e (evloop w, U, w) = Inr (evloop w1, U, w1)"
      "serves K V lf hello_routes w1" "all_served K V file init m1 w1" "nv_waiting V (kern w1) = []"
      "dom (registered (evloop w1)) = R \<union> dom m1" "session_ok execute init n R (dom m1) es"
      "told es (words_of m1) = told (e # es) (words_of m)"
    by blast
  from Cons.IH [OF 1(2-6)] 1(1,7) show ?case
    by (auto simp del: told.simps client_step.simps)
qed

text \<open>The construction of the program accepts nobody.\<close>

lemma hello_boot_waiting:
  fixes w :: "('p, 'k, hello_handler, 'q, unit) http_world"
  assumes "calls_local K V" and "hello_boot K I k = Inr (U, w)"
  shows "nv_waiting V (kern w) = nv_waiting V k"
proof -
  have add: "nv_waiting V k' = nv_waiting V k" if "addFd K f ev cb (L, k) = Inr (L', k')" for L L' :: "'p event_loop" and k k' f ev cb
    using that calls_localD(12) [OF assms(1), of f "with_mode L ev" k]
    by (auto simp: addFd_def Let_def split: prod.splits if_splits)
  from hello_boot_steps [OF assms(2)] obtain L k1 L2 k2 f g where
      "event_loop_new K ET (bi_timerFd I) k = Inr (L, k1)" "addFd K f EPOLLIN AcceptCb (L, k1) = Inr (L2, k2)"
      "addFd K g EPOLLIN (UdpCb 0) (L2, k2) = Inr (evloop w, kern w)"
    by metis
  then show ?thesis
    using add [of _ _ _ L2 k2] add [of _ _ _ L k1] add [of _ _ _ _ k] by (auto simp: event_loop_new_def Let_def)
qed


section \<open>The handlers of the services\<close>

text \<open>The handlers of the two services work on their own state and on the request they answer.\<close>

lemma service_step:
  assumes "owns K V F w"
  shows "owns K V F (set_service y w) \<and> leaves_alone V F w (set_service y w)"
  using assms by (simp add: owns_def alone_defs set_service_def) (simp add: upd_http_def)

lemma ezdrop_local: "handlers_local (ezdrop_param n FS I now init execute) K V F"
  by (auto simp: handlers_local_def ezdrop_param_def Let_def split_beta intro!: client.safe_read client.safe_Inr
      dest: service_step)

lemma image_local:
  fixes V :: "'k net_view"
  shows "handlers_local (image_param FS draws init execute :: ('p, 'k, image_handler, 'q, image_host \<times> 'f) http_param) K V F"
proof -
  have "client.safe K V F snd w (handle (image_param FS draws init execute) h req (fp_conn F) resp w)"
    if ow: "owns K V F w" for h req resp and w :: "('p, 'k, image_handler, 'q, image_host \<times> 'f) http_world"
    unfolding image_param_def http_param.simps
  proof (intro client.safe_read)
    fix C and v :: "http_response \<times> http_request \<times> image_host \<times> 'f"
    assume "conn (fp_conn F) w = Inr C"
    then have "userData C = None \<or> userData C = Some (fp_ctx F)"
      using owned_conn [OF ow] by (auto simp: holds_def)
    moreover obtain r req1 and y :: "image_host \<times> 'f" where v: "v = (r, req1, y)"
      by (cases v) auto
    moreover have 1: "owns K V F (set_service y w) \<and> leaves_alone V F w (set_service y w)"
      by (rule service_step [OF ow])
    moreover have "owns K V F (upd_ctx (fp_ctx F) g (set_service y w)) \<and> leaves_alone V F w (upd_ctx (fp_ctx F) g (set_service y w))" for g
      using step_trans [OF 1 ctx_upd_step] 1 by blast
    ultimately show "client.safe K V F snd w (case v of (r, req1, y) \<Rightarrow> let w1 = set_service y w
        in Inr (r, case userData C of None \<Rightarrow> w1 | Some p \<Rightarrow> upd_ctx p (pc_request_update (\<lambda>_. req1)) w1))"
      by (auto simp: Let_def intro!: client.safe_Inr)
  qed
  then show ?thesis
    by (auto simp: handlers_local_def image_param_def client.safe_stay)
qed


section \<open>Witnesses\<close>

text \<open>A kernel with a queue of waiting clients.\<close>

definition crowd_kernel :: "demo_state kernel" where
  "crowd_kernel = clientK\<lparr>sys_accept := (\<lambda>f k. case ds_backlog k of [] \<Rightarrow> (None, k)
     | g # gs \<Rightarrow> (Some g, k\<lparr>ds_backlog := gs\<rparr>))\<rparr>"

definition crowd_view :: "demo_state net_view" where
  "crowd_view = \<lparr>nv_interest = ds_interest, nv_wire = ds_wire, nv_inbox = (\<lambda>k f. concat (ds_input k f)),
     nv_waiting = ds_backlog\<rparr>"

definition crowd_connects :: "int list \<Rightarrow> demo_state \<Rightarrow> demo_state" where
  "crowd_connects cfs k = k\<lparr>ds_backlog := ds_backlog k @ cfs,
     ds_wire := (\<lambda>f. if f \<in> set cfs then [] else ds_wire k f),
     ds_input := (\<lambda>f. if f \<in> set cfs then [] else ds_input k f)\<rparr>"

lemma crowd_kernel_ok: "kernel_ok crowd_kernel crowd_view demo_file"
proof -
  note c = client_kernel_ok(1-4) [of demo_file "\<lambda>p. None"]
  have "epoll_ok crowd_kernel ds_interest" "interest_ok crowd_kernel ds_interest" "net_ok crowd_kernel ds_wire demo_file"
      "stream_ok crowd_kernel ds_wire (\<lambda>k f. concat (ds_input k f))"
    using c by (simp_all add: crowd_kernel_def epoll_ok_def interest_ok_def net_ok_def write_ok_def sendfile_ok_def
        quiet_ok_def stream_ok_def del: quiet_okD)
  moreover have "calls_local crowd_kernel crowd_view"
    by (auto simp: calls_local_def crowd_kernel_def crowd_view_def client_kernel_def demo_kernel_def demo_send_def Let_def)
  ultimately show ?thesis
    by (simp add: kernel_ok_def crowd_view_def)
qed

lemma crowd_clients_ok: "clients_ok crowd_kernel crowd_view lf crowd_connects" "arrives_ok crowd_view client_sends"
  using client_kernel_ok(5)
  by (auto simp: clients_ok_def arrives_ok_def crowd_kernel_def crowd_view_def crowd_connects_def client_kernel_def
      demo_kernel_def client_sends_def split: list.split)

lemma crowd_soft: "fst (sys_write crowd_kernel f d k) \<notin> {Inl EINTR, Inl EFAIL}"
  using client_soft [of demo_file "\<lambda>p. None"] by (simp add: crowd_kernel_def)

lemma crowd_addFd: "addFd crowd_kernel f ev cb = addFd clientK f ev cb"
  by (simp add: addFd_def crowd_kernel_def fun_eq_iff)

lemma crowd_boot: "hello_boot crowd_kernel I k = hello_boot clientK I k"
  by (simp add: hello_boot_def http_boot_def event_loop_new_def tcp_start_def udp_start_def crowd_addFd cong: if_cong)

definition crowd_run ::
    "loop_cb \<Rightarrow> events \<Rightarrow> (unit, demo_state, hello_handler, unit, unit) program
     \<Rightarrow> (unit, demo_state, hello_handler, unit, unit) program res" where
  "crowd_run = run_loop_cb (hello_param () demo_execute) crowd_kernel silent_udp (\<lambda>cb. Inr) 8"

lemma crowd_run_fuel:
  "run_loop_cb (hello_param () demo_execute) crowd_kernel silent_udp (\<lambda>cb. Inr) (Suc (Suc 6)) = crowd_run"
  by (simp add: crowd_run_def)

definition crowd_events :: "client_event list" where
  "crowd_events = [Connect [12, 13], Request 13 (demo_request ''/no?x''), Connect [14], Request 12 (demo_request ''/hello''),
     Request 13 (demo_request ''/hello'')]"


text \<open>Two clients of ezdrop; the connection of the first one breaks.\<close>

definition two_clients :: "(unit, demo_state, ez_handler, unit, ezdrop \<times> (string \<Rightarrow> string option)) http_world" where
  "two_clients = session_world\<lparr>conns := [1 \<mapsto> session_conn, 2 \<mapsto> session_conn\<lparr>fd := 8, userData := Some 1\<rparr>]\<rparr>"

definition first_client :: footprint where
  "first_client = \<lparr>fp_conn = 1, fp_fd = 7, fp_ctx = 0, fp_entry = 0\<rparr>"

lemma two_clients_ok:
  "owns crowd_kernel crowd_view first_client two_clients" "conn_ok crowd_kernel ds_interest 1 two_clients"
  "wheel_live session_conn two_clients"
proof -
  have rd: "conn_ok session_kernel ds_interest 1 session_world" "wheel_live session_conn session_world"
    using session_ready by (simp_all add: ready_def reading_def serving_def)
  have C: "conns session_world 1 = Some session_conn"
    by (simp add: session_world_def)
  note okD = conn_okD [OF rd(1) C]
  have "epoll_ok crowd_kernel ds_interest" "interest_ok crowd_kernel ds_interest"
    using kernel_okD(1,2) [OF crowd_kernel_ok] by (simp_all add: crowd_view_def)
  then have ok: "loop_ok crowd_kernel ds_interest (evloop two_clients, kern two_clients)" "interest_ok crowd_kernel ds_interest"
    using okD(2) by (simp_all add: loop_ok_def two_clients_def)
  then show "conn_ok crowd_kernel ds_interest 1 two_clients"
    using okD by (intro conn_okI [where C = session_conn]) (simp_all add: two_clients_def)
  show live: "wheel_live session_conn two_clients"
    using rd(2) by (simp add: wheel_live_def two_clients_def)
  show "owns crowd_kernel crowd_view first_client two_clients"
    using ok(1) live demo_wheel_idle_ok
    by (simp add: owns_def holds_def first_client_def crowd_view_def two_clients_def session_conn_def demo_http_conn_def
        connection_new_def session_world_def demo_http_def)
qed


end
