(* ===== verification/Spec2Isabelle.thy ===== *)
theory Spec2Isabelle
  imports EzPrelude Buffer Headers HttpRequest HttpResponse Router TimeWheel Kernel EventLoop Timer
    Connection TcpServer HttpServer UdpProtocols UdpServer ThreadPool Logger Config FileSystem
    EzdropConfig Multipart EzdropServer EzdropProperties EzdropStorage ImageHosting Programs Services
    HttpSession Startup EzdropSession EzdropTypes Mains EzdropFrame EzdropThreads ImageWorkers
    HttpIsolation Clients
begin

text \<open>
  \<^bold>\<open>ezNet\<close>: an event-driven network library in C++ (an epoll loop, TCP and UDP servers, an
  HTTP/1.1 server with zero-copy file responses) and two services built on it, a file drop
  (ezdrop) and an image host. Paths below are relative to \<^verbatim>\<open>src/\<close>.

  \<^bold>\<open>How the parts interact.\<close> The loop (\<^verbatim>\<open>src/core/EventLoop.cpp\<close>) waits for descriptors and calls
  the callback registered for each, drives the time wheel with a timer descriptor and runs
  callbacks queued by other threads. The TCP server accepts descriptors, makes a connection
  object for each, registers it with the loop and arms an idle deadline on the wheel. The
  connection reads into a buffer and hands the data to its data callback, buffers what the
  kernel does not take, and sends files behind the buffered bytes. The HTTP server is such a
  data callback: it feeds the bytes to http-parser, whose events fill a request; a complete
  request is routed to a handler, whose response is serialised and sent. The services are
  handlers.

  \<^bold>\<open>Theories.\<close> Definitions carry the names of the source; where a name is taken in HOL a suffix
  or prefix is added.

  \<^item> \<open>EzPrelude\<close>: results with faults (a thrown exception, undefined behaviour, exhausted fuel),
    the character and string functions of the standard library, integers of a given width.
  \<^item> \<open>Buffer\<close> (\<^verbatim>\<open>src/core/Buffer\<close>): the vector with its two indices; it refines a byte queue.
  \<^item> \<open>Headers\<close>, \<open>HttpRequest\<close>, \<open>HttpResponse\<close> (\<^verbatim>\<open>src/http/\<close>): header lists, the request with its
    range parsing, the response and its serialisation, which reads back.
  \<^item> \<open>Router\<close> (\<^verbatim>\<open>src/http/Router\<close>): the segment tree; it refines a table of route shapes, literal
    segments before parameters, the last registration of a shape.
  \<^item> \<open>TimeWheel\<close> (\<^verbatim>\<open>src/core/TimeWheel\<close>): the buckets as doubly linked lists in an explicit heap;
    they refine entries with a number of remaining ticks; an entry fires when they have passed.
  \<^item> \<open>Kernel\<close>: the system calls as a parameter with the laws that the proofs use.
  \<^item> \<open>EventLoop\<close> (\<^verbatim>\<open>src/core/EventLoop\<close>): the table of descriptors refines a partial map; dispatch,
    the queue of callbacks, the loop.
  \<^item> \<open>Timer\<close> (\<^verbatim>\<open>src/core/Timer\<close>).
  \<^item> \<open>Connection\<close> (\<^verbatim>\<open>src/core/Connection\<close>): the state machine of a connection over a store of
    connection objects; its outgoing stream is preserved by every operation, a file behind a
    header arrives whole, closing happens once.
  \<^item> \<open>TcpServer\<close>, \<open>HttpServer\<close> (\<^verbatim>\<open>src/core/TcpServer\<close>, \<^verbatim>\<open>src/http/HttpServer\<close>): accepting, the idle
    deadline, the life of a parser context, processing a request on every branch.
  \<^item> \<open>UdpProtocols\<close>, \<open>UdpServer\<close> (\<^verbatim>\<open>src/udp/\<close>, \<^verbatim>\<open>src/core/UdpServer\<close>): the framed protocol on 32-bit
    words, the echo, the read event that serves every queued datagram.
  \<^item> \<open>ThreadPool\<close> (\<^verbatim>\<open>src/util/ThreadPool\<close>): the critical sections as steps of an interleaving;
    invariants and termination by rule induction.
  \<^item> \<open>Logger\<close>, \<open>Config\<close> (\<^verbatim>\<open>src/util/\<close>).
  \<^item> \<open>FileSystem\<close>: the file system as a parameter.
  \<^item> \<open>EzdropConfig\<close>, \<open>Multipart\<close>, \<open>EzdropServer\<close>, \<open>EzdropProperties\<close>, \<open>EzdropStorage\<close>
    (\<^verbatim>\<open>examples/ezdrop/EzdropServer.cpp\<close>): the JSON reader, the form parser and the file name
    check, the service, what it promises of its table, what an upload does on disk.
  \<^item> \<open>ImageHosting\<close> (\<^verbatim>\<open>examples/image_hosting/\<close>), \<open>Programs\<close> (\<^verbatim>\<open>src/main.cpp\<close>,
    \<^verbatim>\<open>examples/ezdrop/main.cpp\<close>): the services behind their routes, the command line.
  \<^item> \<open>Services\<close>: ezdrop behind the HTTP server, a download from the request to the bytes.
  \<^item> \<open>HttpSession\<close>: a connection of the HTTP server through its read events, from one request to
    the next; a request may come in any number of reads, its handler may change the service and
    answer with a file.
  \<^item> \<open>Startup\<close> (\<^verbatim>\<open>src/main.cpp\<close>): the whole program, from the construction of the loop and the
    two servers to the responses a client gets.
  \<^item> \<open>EzdropSession\<close>: a client of ezdrop that uploads a file and downloads it again.
  \<^item> \<open>EzdropTypes\<close>: the state of ezdrop keeps the ranges of its C++ types.
  \<^item> \<open>Mains\<close> (\<^verbatim>\<open>examples/ezdrop/main.cpp\<close>, \<^verbatim>\<open>examples/image_hosting/main.cpp\<close>): the two services from
    their arguments to the running server and the first client of ezdrop.
  \<^item> \<open>EzdropFrame\<close>, \<open>EzdropThreads\<close> (\<^verbatim>\<open>examples/ezdrop/EzdropServer.cpp\<close>): what each operation of
    ezdrop leaves alone on disk; the loop's thread and the sweeper as interleaved steps, with
    what an uploaded file is safe from, where the two race, and the shutdown.
  \<^item> \<open>ImageWorkers\<close>: the image host with the workers of its pool, from the answer to an upload to
    the file on disk.
  \<^item> \<open>HttpIsolation\<close>: what belongs to a connection of the HTTP server, and that no event of it
    touches anything else, along the call graph from the system calls to the lambda of the loop,
    for every outcome of every call.
  \<^item> \<open>Clients\<close>: the three programs satisfy this with their handlers; many clients of \<^verbatim>\<open>src/main.cpp\<close>
    that connect together and send in any interleaving are each answered as if alone.

  \<^bold>\<open>Conventions.\<close> A C++ exception is the fault \<open>Thrown\<close>, an access outside an object's life or an
  undefined operation \<open>Undefined\<close>. Callbacks are values of a datatype, run by an environment
  that is an argument, so that a callback may call back into the connection. Objects that are
  shared are addressed by numbers in a store. Integers that can wrap are reduced explicitly or
  are words.

  \<^bold>\<open>Fuel.\<close> Nested callbacks, the write loop, the dispatch loop, the UDP read loop, the removal of
  directory trees and the JSON reader take fuel. The properties state how much is enough: more
  than the bytes that are left for a write event, more than the bytes that have arrived for a
  read event of a connection, more than the waiting clients for the accept loop, more than the
  queued datagrams for one of the UDP server, more than the length of the document for the JSON
  reader; where no fuel is enough the program
  hangs, and that is stated too.

  \<^bold>\<open>Not modelled.\<close> http-parser is third-party code and a parameter: a function from a parser
  state and bytes to events. The kernel and the file system are parameters with laws, the
  floating-point reader behind \<^verbatim>\<open>pathParamAsDouble\<close> is a parameter. Mutexes are not objects of
  the model: a critical section is one step. The release of the last reference to an object is
  not derived; the destructors are operations of their own. The worker threads of the pools and
  the sweeper run as steps beside the handlers (\<open>ImageWorkers\<close>, \<open>EzdropThreads\<close>), not inside the
  \<^verbatim>\<open>main\<close> functions; there an upload is one step, and so is the removal of one directory tree. The
  pool that ezdrop creates and never uses is left out. When a signal arrives is not modelled, and neither
  are log messages other than their text and memory exhaustion. Accessors that return a member
  are the record selectors.
\<close>

end
